(* ===== verification/Prelude.thy ===== *)
theory Prelude
  imports Main "HOL-Library.Word" "HOL-Library.Signed_Division"
begin

text \<open>
  Shared vocabulary of the development: the machine types of the i686 target, the constants of
  \<^verbatim>\<open>src/kernel/includes/config.h\<close> and \<^verbatim>\<open>src/kernel/includes/status.h\<close>, the collections of
  simplification rules the component theories use, and word and list lemmas.

  A C \<^verbatim>\<open>int\<close>, \<^verbatim>\<open>unsigned\<close>, \<^verbatim>\<open>long\<close>, \<^verbatim>\<open>size_t\<close> or pointer is a 32-bit word; a signed
  comparison of the source is \<open><s\<close> or goes through \<open>sint\<close>. Byte and half-word values
  are 8-bit and 16-bit words.
\<close>

unbundle bit_operations_syntax

section \<open>Machine types\<close>

type_synonym u8 = "8 word"
type_synonym u16 = "16 word"
type_synonym u32 = "32 word"

text \<open>Byte-addressed physical memory of the 32-bit machine.\<close>

type_synonym memory = "u32 \<Rightarrow> u8"

named_theorems status_defs \<open>the status codes of status.h\<close>
named_theorems config_defs \<open>the constants of config.h\<close>
named_theorems mem_simps \<open>reads after writes in byte memory\<close>

section \<open>Status codes (\<^verbatim>\<open>includes/status.h\<close>)\<close>

definition NE :: u32 where [status_defs]: "NE = 0"
definition EIO :: u32 where [status_defs]: "EIO = 1"
definition EINVARG :: u32 where [status_defs]: "EINVARG = 2"
definition ENOMEM :: u32 where [status_defs]: "ENOMEM = 3"
definition EBADPATH :: u32 where [status_defs]: "EBADPATH = 4"
definition EFSNOTSUPPORTED :: u32 where [status_defs]: "EFSNOTSUPPORTED = 5"
definition ERDONLY :: u32 where [status_defs]: "ERDONLY = 6"
definition EUNIMP :: u32 where [status_defs]: "EUNIMP = 7"
definition EPID_ISTKN :: u32 where [status_defs]: "EPID_ISTKN = 8"
definition EPROC_NOMEM :: u32 where [status_defs]: "EPROC_NOMEM = 9"
definition EINVFORMAT :: u32 where [status_defs]: "EINVFORMAT = 10"

text \<open>\<^verbatim>\<open>IS_ERR\<close> of \<^verbatim>\<open>includes/kernel.h\<close>: a negative value when read as an \<^verbatim>\<open>int\<close>.\<close>

definition IS_ERR :: "u32 \<Rightarrow> bool" where
  "IS_ERR v \<longleftrightarrow> v <s 0"

section \<open>Configuration (\<^verbatim>\<open>includes/config.h\<close>)\<close>

definition HEAP_MAX_HEAP_SIZE :: u32 where [config_defs]: "HEAP_MAX_HEAP_SIZE = 104857600"
definition HEAP_MAX_HEAP_BLOCKS_ENTRIES :: u32 where
  [config_defs]: "HEAP_MAX_HEAP_BLOCKS_ENTRIES = 25600"
definition HEAP_BLOCK_SIZE :: u32 where [config_defs]: "HEAP_BLOCK_SIZE = 4096"
definition HEAP_BASE_ADDRESS :: u32 where [config_defs]: "HEAP_BASE_ADDRESS = 0x01000000"
definition HEAP_TABLE_ADDRESS :: u32 where [config_defs]: "HEAP_TABLE_ADDRESS = 0x00007E00"

section \<open>Signed arithmetic\<close>

text \<open>C division and remainder of \<^verbatim>\<open>int\<close>s truncate towards zero.\<close>

definition sdiv32 :: "u32 \<Rightarrow> u32 \<Rightarrow> u32" where
  "sdiv32 a b = word_of_int (sint a sdiv sint b)"

definition smod32 :: "u32 \<Rightarrow> u32 \<Rightarrow> u32" where
  "smod32 a b = word_of_int (sint a smod sint b)"

section \<open>Results of routines that may stop the machine\<close>

text \<open>\<^verbatim>\<open>kernel_panic\<close> does not return, nor does the assembly routine \<^verbatim>\<open>task_return\<close>: a routine
  that may call them gives its value and the state after it, the state the machine was halted in, or
  the address of the register set a task was resumed with and the state the kernel was left in.\<close>

datatype ('a, 's) outcome = Ret 'a 's | Halted 's | Resumed u32 's

section \<open>Words\<close>

lemma unat_Suc_word:
  fixes i :: "'a::len word"
  assumes "i < n"
  shows "unat (i + 1) = Suc (unat i)"
proof -
  have "unat i < unat n" "unat n < 2 ^ LENGTH('a)"
    using assms by (simp_all add: word_less_nat_alt)
  then have "unat i + 1 < 2 ^ LENGTH('a)" by linarith
  then show ?thesis by (simp add: unat_word_ariths unat_of_nat)
qed

lemma word_of_nat_unat_eq: "of_nat (unat (w :: 'a::len word)) = w"
  by simp

lemma unat_of_nat32: "n < 4294967296 \<Longrightarrow> unat (of_nat n :: u32) = n"
  by (simp add: unat_of_nat take_bit_nat_eq_self)

lemma of_nat_eq_u32: "k < 4294967296 \<Longrightarrow> (of_nat k :: u32) = n \<longleftrightarrow> k = unat n"
  by (auto simp: unat_of_nat32)

lemma addr_eq_offset:
  assumes "k < 4294967296"
  shows "(a :: u32) = p + of_nat k \<longleftrightarrow> unat (a - p) = k"
proof -
  have "a = p + of_nat k \<longleftrightarrow> of_nat k = a - p" by (metis add.commute diff_eq_eq)
  then show ?thesis using assms by (auto simp: of_nat_eq_u32)
qed

lemma of_nat32_inj: "m < 4294967296 \<Longrightarrow> n < 4294967296 \<Longrightarrow> (of_nat m :: u32) = of_nat n \<longleftrightarrow> m = n"
  by (metis unat_of_nat32)

text \<open>Two offsets of one base name the same byte only if the offsets agree.\<close>

lemma add_of_nat_inj [simp]:
  "i < 4294967296 \<Longrightarrow> j < 4294967296 \<Longrightarrow> (a :: u32) + of_nat i = a + of_nat j \<longleftrightarrow> i = j"
  by (simp add: of_nat32_inj)

lemma unat_u32_less [simp]: "unat (w :: u32) < 4294967296"
  using unsigned_less [where w = w and ?'a = nat] by simp

lemma unat_minus_1_u32 [simp]: "unat (- 1 :: u32) = 4294967295"
  by (simp add: unsigned_minus_1_eq_mask mask_eq_exp_minus_1)

lemma of_nat_neq_minus_1 [simp]:
  assumes "n < 4294967295"
  shows "(of_nat n :: u32) \<noteq> - 1"
proof
  assume "(of_nat n :: u32) = - 1"
  then have "unat (of_nat n :: u32) = 4294967295" by simp
  then show False using assms by (simp add: unat_of_nat32)
qed

lemma unat_less_iff_uint: "unat (a :: u32) < 2147483648 \<longleftrightarrow> uint a < 2147483648"
  unfolding uint_nat by linarith

lemma uint_u32_less: "uint (a :: u32) < 4294967296"
  unfolding uint_nat using unat_u32_less [of a] by linarith

lemma sint_in_range: "- 2147483648 \<le> k \<Longrightarrow> k < 2147483648 \<Longrightarrow> sint (word_of_int k :: u32) = k"
  unfolding int_word_sint by simp

lemma sint_of_nat32: "k < 2147483648 \<Longrightarrow> sint (of_nat k :: u32) = int k"
  using sint_in_range [of "int k"] by simp

lemma sint_eq_if: "sint (a :: u32) = (if unat a < 2147483648 then uint a else uint a - 4294967296)"
proof (cases "unat a < 2147483648")
  case True
  then have "sint (word_of_int (uint a) :: u32) = uint a"
    using uint_ge_0 [of a] by (intro sint_in_range) (auto simp only: unat_less_iff_uint)
  with True show ?thesis by simp
next
  case False
  then have "sint (word_of_int (uint a - 4294967296) :: u32) = uint a - 4294967296"
    using uint_u32_less [of a] unat_less_iff_uint [of a] by (intro sint_in_range) linarith+
  moreover have "(4294967296 :: u32) = 0" using word_exp_length_eq_0 [where ?'a = 32] by simp
  then have "(word_of_int (uint a - 4294967296) :: u32) = a" by (simp only: wi_hom_sub [symmetric]) simp
  ultimately have "sint a = uint a - 4294967296" by (simp only:)
  with False show ?thesis by simp
qed

lemma sint_small: "unat (a :: u32) < 2147483648 \<Longrightarrow> sint a = uint a"
  by (simp add: sint_eq_if)

lemma sint_nonneg_iff: "0 \<le> sint (a :: u32) \<longleftrightarrow> unat a < 2147483648"
  using uint_u32_less [of a] uint_ge_0 [of a] unfolding sint_eq_if by (simp split: if_split)

lemma sint_less_iff_small:
  "unat (a :: u32) < 2147483648 \<Longrightarrow> unat (b :: u32) < 2147483648 \<Longrightarrow> a <s b \<longleftrightarrow> unat a < unat b"
  by (simp add: word_sless_alt sint_small flip: word_less_def word_less_nat_alt)

lemma one_sless_iff: "1 <s a \<longleftrightarrow> 1 < unat (a :: u32) \<and> unat a < 2147483648"
proof -
  have "1 < unat a \<longleftrightarrow> 1 < uint a" unfolding uint_nat by linarith
  then show ?thesis
    unfolding word_sless_alt sint_eq_if [of a] using uint_u32_less [of a] by auto
qed

lemma word_div_mod_u32:
  fixes a b :: u32
  assumes "unat a < 2147483648" "unat b < 2147483648"
  shows sdiv32_small: "sdiv32 a b = a div b" and smod32_small: "smod32 a b = a mod b"
proof -
  have "x sdiv y = x div y" if "0 \<le> x" "0 \<le> y" for x y :: int
    using that by (cases "x = 0"; cases "y = 0") (auto simp: signed_divide_int_def sgn_if)
  then have "uint a sdiv uint b = uint a div uint b" by simp
  moreover from this have "uint a smod uint b = uint a mod uint b"
    by (metis minus_sdiv_mult_eq_smod minus_div_mult_eq_mod)
  ultimately show "sdiv32 a b = a div b" "smod32 a b = a mod b"
    using assms by (simp_all add: sdiv32_def smod32_def sint_small word_div_def word_mod_def)
qed

lemma unat_sdiv32: "unat a < 2147483648 \<Longrightarrow> unat b < 2147483648 \<Longrightarrow> unat (sdiv32 a b) = unat a div unat b"
  by (simp add: sdiv32_small unat_div_distrib)

lemma unat_smod32: "unat a < 2147483648 \<Longrightarrow> unat b < 2147483648 \<Longrightarrow> unat (smod32 a b) = unat a mod unat b"
  by (simp add: smod32_small unat_mod_distrib)

lemma abs_sint_sdiv32_less:
  assumes "num \<noteq> 0"
  shows "nat \<bar>sint (sdiv32 num 10)\<bar> < nat \<bar>sint num\<bar>"
proof -
  let ?q = "sint num sdiv 10"
  have abs: "\<bar>?q\<bar> = \<bar>sint num\<bar> div 10" by (simp add: signed_divide_int_def abs_mult sgn_if)
  have "sint num \<noteq> 0" using assms unfolding sint_eq_if using uint_u32_less [of num] by (auto simp: uint_0_iff)
  then have less: "\<bar>?q\<bar> < \<bar>sint num\<bar>" unfolding abs by linarith
  have "\<bar>sint num\<bar> \<le> 2147483648" using sint_lt [of num] sint_ge [of num] by simp
  then have "- 2147483648 \<le> ?q" "?q < 2147483648" using less by linarith+
  then have "sint (word_of_int ?q :: u32) = ?q" by (rule sint_in_range)
  then show ?thesis using less by (simp add: sdiv32_def)
qed

lemma round_up_to:
  fixes n k :: nat
  assumes "n mod k \<noteq> 0" "0 < k"
  shows "n + (k - n mod k) = k * ((n + (k - 1)) div k)"
proof -
  let ?q = "n div k" and ?r = "n mod k"
  have r: "0 < ?r" "?r < k" using assms by auto
  have n: "n = k * ?q + ?r" by simp
  have "n + (k - 1) = (?r - 1) + k * Suc ?q" using r n by simp
  then have "(n + (k - 1)) div k = (?r - 1) div k + Suc ?q"
    using \<open>0 < k\<close> by (metis div_mult_self2 less_not_refl2 add.commute)
  also have "(?r - 1) div k = 0" using r by simp
  finally have "(n + (k - 1)) div k = Suc ?q" by simp
  moreover have "n + (k - ?r) = k * ?q + k" using r n by linarith
  ultimately show ?thesis by simp
qed

section \<open>Lists\<close>

lemma nth_map_upt0 [simp]: "i < n \<Longrightarrow> map f [0..<n] ! i = f i"
  by simp

lemma list_eq_iff_nth0: "xs = ys \<longleftrightarrow> length xs = length ys \<and> (\<forall>i<length ys. xs ! i = ys ! i)"
  by (metis nth_equalityI)

end
