(* ===== verification/Memory.thy ===== *)
theory Memory
  imports Prelude "HOL-Library.List_Lexorder"
begin

text \<open>
  The byte memory and the routines of \<^verbatim>\<open>src/kernel/memory/memory.c\<close>: \<^verbatim>\<open>memset\<close>,
  \<^verbatim>\<open>memcmp\<close> and \<^verbatim>\<open>memcpy\<close>, each loop as a recursion over its counter. Little-endian loads and
  stores of a 32-bit word are the accesses the compiler emits for \<^verbatim>\<open>uint32_t\<close> arrays.
\<close>

section \<open>Words in memory\<close>

definition load32 :: "memory \<Rightarrow> u32 \<Rightarrow> u32" where
  "load32 m a = word_cat (m (a + 3)) (word_cat (m (a + 2)) (word_cat (m (a + 1)) (m a) :: u16) :: 24 word)"

definition store32 :: "memory \<Rightarrow> u32 \<Rightarrow> u32 \<Rightarrow> memory" where
  "store32 m a v = m(a := ucast v, a + 1 := ucast (drop_bit 8 v),
     a + 2 := ucast (drop_bit 16 v), a + 3 := ucast (drop_bit 24 v))"

definition load16 :: "memory \<Rightarrow> u32 \<Rightarrow> u16" where
  "load16 m a = word_cat (m (a + 1)) (m a)"

definition store16 :: "memory \<Rightarrow> u32 \<Rightarrow> u16 \<Rightarrow> memory" where
  "store16 m a v = m(a := ucast v, a + 1 := ucast (drop_bit 8 v))"

section \<open>\<^verbatim>\<open>memset\<close>, \<^verbatim>\<open>memcpy\<close>, \<^verbatim>\<open>memcmp\<close>\<close>

function memset_loop :: "memory \<Rightarrow> u32 \<Rightarrow> u8 \<Rightarrow> u32 \<Rightarrow> u32 \<Rightarrow> memory" where
  "memset_loop m ptr c sz i =
     (if i < sz then memset_loop (m(ptr + i := c)) ptr c sz (i + 1) else m)"
  by pat_completeness auto
termination
  by (relation "measure (\<lambda>(m, ptr, c, sz, i). unat sz - unat i)")
     (auto simp: unat_Suc_word word_less_nat_alt)

definition memset :: "memory \<Rightarrow> u32 \<Rightarrow> u32 \<Rightarrow> u32 \<Rightarrow> memory" where
  "memset m ptr c sz = memset_loop m ptr (ucast c) sz 0"

function memcpy_loop :: "memory \<Rightarrow> u32 \<Rightarrow> u32 \<Rightarrow> u32 \<Rightarrow> u32 \<Rightarrow> memory" where
  "memcpy_loop m dst src sz i =
     (if i < sz then memcpy_loop (m(dst + i := m (src + i))) dst src sz (i + 1) else m)"
  by pat_completeness auto
termination
  by (relation "measure (\<lambda>(m, dst, src, sz, i). unat sz - unat i)")
     (auto simp: unat_Suc_word word_less_nat_alt)

definition memcpy :: "memory \<Rightarrow> u32 \<Rightarrow> u32 \<Rightarrow> u32 \<Rightarrow> memory" where
  "memcpy m dst src sz = memcpy_loop m dst src sz 0"

text \<open>\<^verbatim>\<open>while (size-- > 0)\<close>: the counter is tested, then decremented.\<close>

function memcmp :: "memory \<Rightarrow> u32 \<Rightarrow> u32 \<Rightarrow> u32 \<Rightarrow> u32" where
  "memcmp m s1 s2 sz =
     (if 0 < sz then
        (if m s1 \<noteq> m s2 then (if m s1 < m s2 then - 1 else 1)
         else memcmp m (s1 + 1) (s2 + 1) (sz - 1))
      else 0)"
  by pat_completeness auto
termination
  by (relation "measure (\<lambda>(m, s1, s2, sz). unat sz)") (auto simp: word_gt_0 unat_minus_one unat_gt_0 intro: diff_less)

declare memset_loop.simps [simp del] memcpy_loop.simps [simp del] memcmp.simps [simp del]

section \<open>Regions\<close>

text \<open>\<open>a\<close> lies in the \<open>n\<close> bytes at \<open>p\<close>, read with the wrap-around of the address space.\<close>

definition in_region :: "u32 \<Rightarrow> u32 \<Rightarrow> u32 \<Rightarrow> bool" where
  "in_region p n a \<longleftrightarrow> a - p < n"

lemma in_region_interval:
  assumes "unat p + unat n \<le> 4294967296"
  shows "in_region p n a \<longleftrightarrow> unat p \<le> unat a \<and> unat a < unat p + unat n"
proof (cases "p \<le> a")
  case True
  then show ?thesis by (auto simp: in_region_def word_less_nat_alt word_le_nat_alt unat_sub)
next
  case False
  then have "unat (a - p) = unat a + 4294967296 - unat p"
    using unat_sub_if' [of a p] by (simp add: word_le_nat_alt)
  then show ?thesis using False assms by (auto simp: in_region_def word_less_nat_alt word_le_nat_alt)
qed

lemma memset_loop_apply:
  "memset_loop m ptr c sz i a = (if i \<le> a - ptr \<and> a - ptr < sz then c else m a)"
proof (induction m ptr c sz i rule: memset_loop.induct)
  case (1 m ptr c sz i)
  show ?case
  proof (cases "i < sz")
    case True
    have "i + 1 \<le> a - ptr \<longleftrightarrow> i < a - ptr"
      using True by (auto simp: word_le_nat_alt word_less_nat_alt unat_Suc_word)
    moreover have "memset_loop (m(ptr + i := c)) ptr c sz (i + 1) a =
        (if i + 1 \<le> a - ptr \<and> a - ptr < sz then c else (m(ptr + i := c)) a)"
      using "1.IH" [OF True] .
    moreover have "a = ptr + i \<longleftrightarrow> a - ptr = i" by (metis add_diff_cancel_left' diff_add_cancel add.commute)
    ultimately show ?thesis
      using True by (auto simp: memset_loop.simps [of m ptr c sz i])
  next
    case False
    then show ?thesis by (subst memset_loop.simps) auto
  qed
qed

lemma memset_apply [mem_simps]:
  "memset m ptr c sz a = (if in_region ptr sz a then ucast c else m a)"
  by (simp add: memset_def memset_loop_apply in_region_def)

text \<open>The \<open>n\<close> bytes at \<open>p\<close>, as a list.\<close>

definition bytes :: "memory \<Rightarrow> u32 \<Rightarrow> nat \<Rightarrow> u8 list" where
  "bytes m p n = map (\<lambda>i. m (p + of_nat i)) [0..<n]"

lemma length_bytes [simp]: "length (bytes m p n) = n"
  by (simp add: bytes_def)

lemma nth_bytes [simp]: "i < n \<Longrightarrow> bytes m p n ! i = m (p + of_nat i)"
  by (simp add: bytes_def)

lemma bytes_0 [simp]: "bytes m p 0 = []"
  by (simp add: bytes_def)

lemma bytes_Suc: "bytes m p (Suc n) = m p # bytes m (p + 1) n"
  by (rule nth_equalityI) (auto simp: nth_Cons add.assoc split: nat.splits)

lemma bytes_cong:
  "(\<And>i. i < n \<Longrightarrow> m (p + of_nat i) = m' (q + of_nat i)) \<Longrightarrow> bytes m p n = bytes m' q n"
  by (simp add: bytes_def)

definition put_bytes :: "memory \<Rightarrow> u32 \<Rightarrow> u8 list \<Rightarrow> memory" where
  "put_bytes m p cs = (\<lambda>a. let i = unat (a - p) in if i < length cs then cs ! i else m a)"

lemma put_bytes_Nil [simp]: "put_bytes m p [] = m"
  by (simp add: put_bytes_def)

lemma put_bytes_Cons:
  assumes "length cs < 4294967295"
  shows "put_bytes (m(p := c)) (p + 1) cs = put_bytes m p (c # cs)"
proof
  fix a
  show "put_bytes (m(p := c)) (p + 1) cs a = put_bytes m p (c # cs) a"
  proof (cases "a = p")
    case True
    then show ?thesis using assms by (simp add: put_bytes_def Let_def)
  next
    case False
    then have "unat (a - p) \<noteq> 0" by (simp add: unat_eq_zero)
    moreover have "unat (a - (p + 1)) = unat (a - p) - 1"
      using False unat_minus_one [of "a - p"] by (simp add: diff_diff_eq [symmetric])
    ultimately show ?thesis using False by (auto simp: put_bytes_def Let_def nth_Cons' gr0_conv_Suc)
  qed
qed

lemma put_bytes_at [simp]:
  "i < length cs \<Longrightarrow> length cs \<le> 4294967296 \<Longrightarrow> put_bytes m p cs (p + of_nat i) = cs ! i"
  by (simp add: put_bytes_def Let_def unat_of_nat32)

lemma put_bytes_outside: "length cs \<le> unat (a - p) \<Longrightarrow> put_bytes m p cs a = m a"
  by (simp add: put_bytes_def Let_def)

lemma put_bytes_append:
  assumes "length xs + length ys \<le> 4294967296"
  shows "put_bytes (put_bytes m p xs) (p + of_nat (length xs)) ys = put_bytes m p (xs @ ys)"
proof (cases "length xs = 4294967296")
  case False
  show ?thesis
  proof
    fix a
    have n: "unat (of_nat (length xs) :: u32) = length xs" using assms False by (intro unat_of_nat32) simp
    have "unat (a - (p + of_nat (length xs))) =
        (if length xs \<le> unat (a - p) then unat (a - p) - length xs else unat (a - p) + 4294967296 - length xs)"
      using n by (simp add: diff_diff_eq [symmetric] unat_sub_if')
    then show "put_bytes (put_bytes m p xs) (p + of_nat (length xs)) ys a = put_bytes m p (xs @ ys) a"
      using assms by (auto simp: put_bytes_def Let_def nth_append)
  qed
qed (use assms in simp)

lemma in_region_offset: "i < unat n \<Longrightarrow> in_region p n (p + of_nat i)"
  by (simp add: in_region_def word_less_nat_alt unat_of_nat32 order_less_trans [OF _ unat_u32_less])

lemma in_region_iff: "in_region p n a \<longleftrightarrow> (\<exists>i < unat n. a = p + of_nat i)"
proof
  assume "in_region p n a"
  then have "unat (a - p) < unat n" by (simp add: in_region_def word_less_nat_alt)
  moreover have "a = p + of_nat (unat (a - p))" by simp
  ultimately show "\<exists>i < unat n. a = p + of_nat i" by blast
qed (auto simp: in_region_offset)

section \<open>What the routines compute\<close>

lemma bytes_memset: "n = unat sz \<Longrightarrow> bytes (memset m p c sz) p n = replicate n (ucast c)"
  by (rule nth_equalityI) (auto simp: memset_apply in_region_offset)

lemma memcpy_loop_apply:
  assumes "\<And>j. j < sz \<Longrightarrow> \<not> in_region dst sz (src + j)"
  shows "memcpy_loop m dst src sz i a = (if i \<le> a - dst \<and> a - dst < sz then m (src + (a - dst)) else m a)"
  using assms
proof (induction m dst src sz i rule: memcpy_loop.induct)
  case (1 m dst src sz i)
  show ?case
  proof (cases "i < sz")
    case True
    let ?m' = "m(dst + i := m (src + i))"
    have le: "i + 1 \<le> a - dst \<longleftrightarrow> i < a - dst"
      using True by (auto simp: word_le_nat_alt word_less_nat_alt unat_Suc_word)
    have IH: "memcpy_loop ?m' dst src sz (i + 1) a =
        (if i < a - dst \<and> a - dst < sz then ?m' (src + (a - dst)) else ?m' a)"
      using "1.IH" [OF True "1.prems"] unfolding le .
    have frame: "?m' (src + (a - dst)) = m (src + (a - dst))" if "a - dst < sz"
      using "1.prems" [OF that] True by (auto simp: in_region_def)
    have "a = dst + i \<longleftrightarrow> a - dst = i" by (metis add_diff_cancel_left' diff_add_cancel add.commute)
    then show ?thesis
      using True IH frame by (auto simp: memcpy_loop.simps [of m dst src sz i])
  next
    case False
    then show ?thesis by (auto simp: memcpy_loop.simps [of m dst src sz i])
  qed
qed

lemma memcpy_apply:
  assumes "\<And>j. j < sz \<Longrightarrow> \<not> in_region dst sz (src + j)"
  shows "memcpy m dst src sz a = (if in_region dst sz a then m (src + (a - dst)) else m a)"
  using memcpy_loop_apply [OF assms, where m = m and i = 0 and a = a] by (simp add: memcpy_def in_region_def)

lemma bytes_memcpy:
  assumes "\<And>j. j < sz \<Longrightarrow> \<not> in_region dst sz (src + j)"
  shows "bytes (memcpy m dst src sz) dst (unat sz) = bytes m src (unat sz)"
  by (rule nth_equalityI) (auto simp: memcpy_apply [OF assms] in_region_offset)

lemma memcmp_lex:
  "memcmp m s1 s2 n =
     (if bytes m s1 (unat n) = bytes m s2 (unat n) then 0
      else if bytes m s1 (unat n) < bytes m s2 (unat n) then - 1 else 1)"
proof (induction m s1 s2 n rule: memcmp.induct)
  case (1 m s1 s2 n)
  show ?case
  proof (cases "0 < n")
    case True
    then have "unat n = Suc (unat (n - 1))"
      by (simp add: unat_minus_one unat_gt_0)
    with True "1.IH" show ?thesis
      by (auto simp: memcmp.simps [of m s1 s2 n] bytes_Suc)
  next
    case False
    then show ?thesis by (simp add: memcmp.simps [of m s1 s2 0] word_gt_0)
  qed
qed

section \<open>Aligned 32-bit accesses\<close>

definition aligned4 :: "u32 \<Rightarrow> bool" where
  "aligned4 a \<longleftrightarrow> unat a mod 4 = 0"

lemma load32_store32_same [mem_simps]: "load32 (store32 m a v) a = v"
  by (rule bit_word_eqI) (auto simp: load32_def store32_def bit_word_cat_iff bit_unsigned_iff bit_drop_bit_eq)

lemma aligned4_plus:
  assumes "aligned4 a" "i < 4"
  shows "unat (a + of_nat i) = unat a + i"
proof -
  have "unat a + i < 4294967296"
    using assms unat_u32_less [of a] unfolding aligned4_def by presburger
  then show ?thesis by (simp add: unat_word_ariths unat_of_nat32)
qed

lemma aligned4_bytes_distinct:
  assumes "aligned4 a" "aligned4 b" "a \<noteq> b" "i < 4" "j < 4"
  shows "a + of_nat i \<noteq> b + of_nat j"
proof
  assume "a + of_nat i = b + of_nat j"
  then have "unat a + i = unat b + j"
    using aligned4_plus [OF assms(1,4)] aligned4_plus [OF assms(2,5)] by simp
  then have "unat a = unat b"
    using assms unfolding aligned4_def by presburger
  with \<open>a \<noteq> b\<close> show False by (simp add: word_unat_eq_iff)
qed

lemma store32_frame [mem_simps]:
  assumes "4 \<le> b - a"
  shows "store32 m a v b = m b"
  using assms by (auto simp: store32_def word_le_nat_alt)

lemma load32_cong:
  assumes "\<And>i. i < 4 \<Longrightarrow> m (a + of_nat i) = m' (a + of_nat i)"
  shows "load32 m a = load32 m' a"
  using assms [of 0] assms [of 1] assms [of 2] assms [of 3] by (simp add: load32_def)

lemma store32_other:
  assumes "\<And>i. i < 4 \<Longrightarrow> b \<noteq> a + of_nat i"
  shows "store32 m a v b = m b"
  using assms [of 0] assms [of 1] assms [of 2] assms [of 3] by (simp add: store32_def)

lemma load32_store32_other [mem_simps]:
  assumes "aligned4 a" "aligned4 b" "a \<noteq> b"
  shows "load32 (store32 m a v) b = load32 m b"
  by (rule load32_cong) (use aligned4_bytes_distinct [OF assms] in \<open>metis store32_other\<close>)

section \<open>Properties\<close>

text \<open>\<^verbatim>\<open>memcmp\<close> is the lexicographic comparison of the two byte strings: 0 when they are
  equal, -1 when the first is smaller, 1 when it is larger.\<close>

theorem memcmp_correct:
  "memcmp m s1 s2 n =
     (if bytes m s1 (unat n) = bytes m s2 (unat n) then 0
      else if bytes m s1 (unat n) < bytes m s2 (unat n) then - 1 else 1)"
  by (rule memcmp_lex)

text \<open>\<^verbatim>\<open>memcpy\<close> of a source that does not meet the destination copies its bytes and changes
  no byte outside the destination.\<close>

theorem memcpy_correct:
  assumes "\<forall>j < sz. \<not> in_region dst sz (src + j)"
  shows "bytes (memcpy m dst src sz) dst (unat sz) = bytes m src (unat sz)
    \<and> (\<forall>a. \<not> in_region dst sz a \<longrightarrow> memcpy m dst src sz a = m a)"
  using bytes_memcpy [of sz dst src m] memcpy_apply [of sz dst src m] assms by simp

theorem memcpy_correct_witness:
  "bytes (memcpy ((\<lambda>_. 0)(0x100 := 7, 0x101 := 8)) 0x200 0x100 2) 0x200 2 = [7, 8]"
proof -
  have "\<forall>j < (2 :: u32). \<not> in_region 0x200 2 (0x100 + j)"
    unfolding in_region_def by unat_arith auto
  from memcpy_correct [OF this, of "(\<lambda>_. 0)(0x100 := 7, 0x101 := 8)"] show ?thesis
    by (simp add: bytes_def upt_rec)
qed

end
