(* ===== verification/Heap.thy ===== *)
theory Heap
  imports Memory
begin

text \<open>
  The block allocator of \<^verbatim>\<open>src/kernel/memory/heap/heap.c\<close>. The block table is an array of one
  byte per 4096-byte block that lives in the byte memory at \<open>entries\<close>; every access of the
  source, also one past either end of the array, is the access of that memory address. The
  abstract view is the set of live runs \<open>(first block, number of blocks)\<close> of the table.
\<close>

named_theorems heap_defs \<open>definitions of the heap's constants\<close>

section \<open>Constants and data (\<^verbatim>\<open>includes/memory/heap/heap.h\<close>)\<close>

definition HEAP_MASKS_ALLOCATION_EXTENDS_NEXT_BLOCK :: u8 where
  [heap_defs]: "HEAP_MASKS_ALLOCATION_EXTENDS_NEXT_BLOCK = 0x80"
definition HEAP_MASKS_ALLOCATION_IS_FIRST_ENTRY :: u8 where
  [heap_defs]: "HEAP_MASKS_ALLOCATION_IS_FIRST_ENTRY = 0x40"
definition HEAP_BLOCK_TABLE_ENTRY_TAKEN :: u8 where [heap_defs]: "HEAP_BLOCK_TABLE_ENTRY_TAKEN = 0x01"
definition HEAP_BLOCK_TABLE_ENTRY_FREE :: u8 where [heap_defs]: "HEAP_BLOCK_TABLE_ENTRY_FREE = 0x00"

text \<open>\<open>entries\<close> is the array's address. The heap holds a pointer to its only table, here the
  table itself.\<close>

record heap_table =
  entries :: u32
  total_entries :: u32

record heap =
  table :: heap_table
  base_addr :: u32

section \<open>Operations\<close>

text \<open>The result type of \<^verbatim>\<open>heap_validate_table\<close> is \<^verbatim>\<open>unsigned char\<close>: the status is cut to a byte.\<close>

definition heap_validate_table :: "u32 \<Rightarrow> u32 \<Rightarrow> heap_table \<Rightarrow> u8" where
  "heap_validate_table ptr end_ptr tbl =
     (let t_size = end_ptr - ptr;
          total_blocks = t_size div HEAP_BLOCK_SIZE;
          res = (if total_entries tbl \<noteq> total_blocks then - EINVARG else 0)
      in ucast res)"

definition heap_validate_alignment :: "u32 \<Rightarrow> bool" where
  "heap_validate_alignment ptr \<longleftrightarrow> ptr mod HEAP_BLOCK_SIZE = 0"

text \<open>The first \<^verbatim>\<open>memset\<close> clears \<^verbatim>\<open>sizeof(struct heap)\<close> = 8 bytes at \<^verbatim>\<open>ptr\<close>, not at \<^verbatim>\<open>heap\<close>.\<close>

definition make_heap :: "heap \<Rightarrow> u32 \<Rightarrow> u32 \<Rightarrow> heap_table \<Rightarrow> memory \<Rightarrow> u32 \<times> heap \<times> memory" where
  "make_heap h ptr end_ptr tbl m =
     (if \<not> heap_validate_alignment ptr \<or> \<not> heap_validate_alignment end_ptr then (- EINVARG, h, m)
      else let m1 = memset m ptr 0 8;
               h1 = h\<lparr>base_addr := ptr, table := tbl\<rparr>;
               res = ucast (heap_validate_table ptr end_ptr tbl) :: u32
           in if res <s 0 then (res, h1, m1)
              else let t_size = 1 * total_entries tbl
                   in (res, h1, memset m1 (entries tbl) (ucast HEAP_BLOCK_TABLE_ENTRY_FREE) t_size))"

definition heap_align_size :: "u32 \<Rightarrow> u32" where
  "heap_align_size sz =
     (if sz mod HEAP_BLOCK_SIZE = 0 then sz
      else sz + (HEAP_BLOCK_SIZE - (sz mod HEAP_BLOCK_SIZE)))"

definition heap_get_entry_type :: "u8 \<Rightarrow> u8" where
  "heap_get_entry_type entry = 0x0F AND entry"

text \<open>The loop of \<^verbatim>\<open>heap_get_start_block\<close>; \<open>bs\<close> is -1 while no run is open.\<close>

function heap_scan :: "memory \<Rightarrow> heap_table \<Rightarrow> u32 \<Rightarrow> u32 \<Rightarrow> u32 \<Rightarrow> u32 \<Rightarrow> u32" where
  "heap_scan m tbl total_blocks i bc bs =
     (if i < total_entries tbl then
        (if heap_get_entry_type (m (entries tbl + i)) \<noteq> HEAP_BLOCK_TABLE_ENTRY_FREE
         then heap_scan m tbl total_blocks (i + 1) 0 (- 1)
         else let bs' = (if bs = - 1 then i else bs);
                  bc' = bc + 1
              in if bc' = total_blocks then bs'
                 else heap_scan m tbl total_blocks (i + 1) bc' bs')
      else bs)"
  by pat_completeness auto
termination
  by (relation "measure (\<lambda>(m, tbl, total_blocks, i, bc, bs). unat (total_entries tbl) - unat i)")
     (auto simp: unat_Suc_word word_less_nat_alt)

declare heap_scan.simps [simp del]

definition heap_get_start_block :: "heap \<Rightarrow> u32 \<Rightarrow> memory \<Rightarrow> u32" where
  "heap_get_start_block h total_blocks m =
     (let bs = heap_scan m (table h) total_blocks 0 0 (- 1)
      in if bs = - 1 then - ENOMEM else bs)"

definition heap_block_to_address :: "heap \<Rightarrow> u32 \<Rightarrow> u32" where
  "heap_block_to_address h block = base_addr h + block * HEAP_BLOCK_SIZE"

text \<open>The block numbers of \<^verbatim>\<open>heap_mark_blocks_as_taken\<close> are \<^verbatim>\<open>int\<close>s, here mathematical integers: an
  overflow of the counter is undefined in C.\<close>

function heap_mark_loop :: "memory \<Rightarrow> u32 \<Rightarrow> int \<Rightarrow> int \<Rightarrow> u8 \<Rightarrow> memory" where
  "heap_mark_loop m es i end_block entry =
     (if i \<le> end_block then
        heap_mark_loop (m(es + word_of_int i := entry)) es (i + 1) end_block
          (if i \<noteq> end_block - 1
           then HEAP_BLOCK_TABLE_ENTRY_TAKEN OR HEAP_MASKS_ALLOCATION_EXTENDS_NEXT_BLOCK
           else HEAP_BLOCK_TABLE_ENTRY_TAKEN)
      else m)"
  by pat_completeness auto
termination
  by (relation "measure (\<lambda>(m, es, i, end_block, entry). nat (end_block + 1 - i))") auto

declare heap_mark_loop.simps [simp del]

definition heap_mark_blocks_as_taken :: "heap \<Rightarrow> u32 \<Rightarrow> u32 \<Rightarrow> memory \<Rightarrow> memory" where
  "heap_mark_blocks_as_taken h start_block total_blocks m =
     (let end_block = (sint start_block + sint total_blocks) - 1;
          entry = HEAP_BLOCK_TABLE_ENTRY_TAKEN OR HEAP_MASKS_ALLOCATION_IS_FIRST_ENTRY;
          entry = (if 1 <s total_blocks then entry OR HEAP_MASKS_ALLOCATION_EXTENDS_NEXT_BLOCK
                   else entry)
      in heap_mark_loop m (entries (table h)) (sint start_block) end_block entry)"

definition heap_address_to_block :: "heap \<Rightarrow> u32 \<Rightarrow> u32" where
  "heap_address_to_block h addr = (addr - base_addr h) div HEAP_BLOCK_SIZE"

function heap_free_loop :: "memory \<Rightarrow> heap_table \<Rightarrow> u32 \<Rightarrow> memory" where
  "heap_free_loop m tbl i =
     (if i < total_entries tbl then
        (let entry = m (entries tbl + i);
             m' = m(entries tbl + i := HEAP_BLOCK_TABLE_ENTRY_FREE)
         in if entry AND HEAP_MASKS_ALLOCATION_EXTENDS_NEXT_BLOCK = 0 then m'
            else heap_free_loop m' tbl (i + 1))
      else m)"
  by pat_completeness auto
termination
  by (relation "measure (\<lambda>(m, tbl, i). unat (total_entries tbl) - unat i)")
     (auto simp: unat_Suc_word word_less_nat_alt)

declare heap_free_loop.simps [simp del]

definition heap_mark_blocks_as_free :: "heap \<Rightarrow> u32 \<Rightarrow> memory \<Rightarrow> memory" where
  "heap_mark_blocks_as_free h starting_block m = heap_free_loop m (table h) starting_block"

text \<open>\<^verbatim>\<open>start_block\<close> is declared \<^verbatim>\<open>unsigned int\<close>, so the comparison with 0 is an unsigned one.\<close>

definition heap_alloc_blocks :: "heap \<Rightarrow> u32 \<Rightarrow> memory \<Rightarrow> u32 \<times> memory" where
  "heap_alloc_blocks h total_blocks m =
     (let start_block = heap_get_start_block h total_blocks m
      in if start_block < 0 then (0, m)
         else (heap_block_to_address h start_block,
               heap_mark_blocks_as_taken h start_block total_blocks m))"

definition heap_alloc :: "heap \<Rightarrow> u32 \<Rightarrow> memory \<Rightarrow> u32 \<times> memory" where
  "heap_alloc h sz m =
     (let aligned_size = heap_align_size sz;
          total_blocks = aligned_size div HEAP_BLOCK_SIZE
      in heap_alloc_blocks h total_blocks m)"

definition heap_free :: "heap \<Rightarrow> u32 \<Rightarrow> memory \<Rightarrow> memory" where
  "heap_free h ptr m = heap_mark_blocks_as_free h (heap_address_to_block h ptr) m"

section \<open>The search loop\<close>

text \<open>A block is free when the low nibble of its entry is 0. \<open>fits P N n s\<close>: the \<open>n\<close> blocks from
  \<open>s\<close> are blocks of the table and free.\<close>

definition blk_free :: "u8 \<Rightarrow> bool" where
  "blk_free b \<longleftrightarrow> heap_get_entry_type b = HEAP_BLOCK_TABLE_ENTRY_FREE"

definition fits :: "(nat \<Rightarrow> bool) \<Rightarrow> nat \<Rightarrow> nat \<Rightarrow> nat \<Rightarrow> bool" where
  "fits P N n s \<longleftrightarrow> s + n \<le> N \<and> (\<forall>j<n. P (s + j))"

lemma fits_nth: "fits P N n s \<Longrightarrow> s \<le> i \<Longrightarrow> i < s + n \<Longrightarrow> P i \<and> i < N"
  unfolding fits_def by (metis add_diff_inverse_nat linorder_not_less nat_add_left_cancel_less order_less_le_trans)

text \<open>\<open>open_run P i b\<close>: the free run that ends at block \<open>i\<close> starts at \<open>b\<close> (\<open>b = i\<close> when it is empty).\<close>

definition open_run :: "(nat \<Rightarrow> bool) \<Rightarrow> nat \<Rightarrow> nat \<Rightarrow> bool" where
  "open_run P i b \<longleftrightarrow> b \<le> i \<and> (\<forall>j. b \<le> j \<and> j < i \<longrightarrow> P j) \<and> (b = 0 \<or> \<not> P (b - 1))"

lemma open_run_extend: "open_run P i b \<Longrightarrow> P i \<Longrightarrow> open_run P (Suc i) b"
  by (auto simp: open_run_def less_Suc_eq)

lemma open_run_reset: "\<not> P i \<Longrightarrow> open_run P (Suc i) (Suc i)"
  by (auto simp: open_run_def)

lemma fits_only_at_end:
  assumes "fits P (Suc i) n s" "\<not> fits P i n s"
  shows "s + n = Suc i"
  using assms by (auto simp: fits_def)

lemma fits_needs_open_run:
  assumes "fits P N n s" "open_run P i b" "i < s + n"
  shows "b \<le> s"
proof (rule ccontr)
  assume "\<not> b \<le> s"
  then have "s \<le> b - 1" "b - 1 < s + n" "b \<noteq> 0" using assms by (auto simp: open_run_def)
  then have "P (s + (b - 1 - s))" using assms(1) unfolding fits_def by (metis add_diff_inverse_nat less_diff_conv2 linorder_not_le add.commute)
  then show False using assms(2) \<open>s \<le> b - 1\<close> \<open>b \<noteq> 0\<close> by (simp add: open_run_def)
qed

text \<open>The three ways one iteration goes on, over block numbers: the block is taken, it completes
  the open run, or it only extends it.\<close>

lemma no_fit_taken:
  assumes none: "\<forall>s. \<not> fits P i n s" and "\<not> P i" "0 < n"
  shows "\<forall>s. \<not> fits P (Suc i) n s"
proof (intro allI notI)
  fix s assume fit: "fits P (Suc i) n s"
  then have "s + (n - 1) = i"
    using fits_only_at_end [OF fit] none \<open>0 < n\<close> by fastforce
  moreover have "P (s + (n - 1))"
    using fit \<open>0 < n\<close> unfolding fits_def by (metis diff_less zero_less_one)
  ultimately show False using \<open>\<not> P i\<close> by simp
qed

lemma no_fit_extended:
  assumes none: "\<forall>s. \<not> fits P i n s" and run: "open_run P i b" and "i - b < n" "Suc i - b \<noteq> n"
  shows "\<forall>s. \<not> fits P (Suc i) n s"
proof (intro allI notI)
  fix s assume fit: "fits P (Suc i) n s"
  then have "s + n = Suc i" using fits_only_at_end [OF fit] none by blast
  moreover from this have "b \<le> s" using fits_needs_open_run [OF fit run] by simp
  moreover have "b \<le> i" using run by (simp add: open_run_def)
  ultimately show False using assms(3,4) by linarith
qed

lemma fit_completed:
  assumes none: "\<forall>s. \<not> fits P i n s" and run: "open_run P i b" and "P i" "i < N" "Suc i - b = n"
  shows "fits P N n b" "\<forall>s' < b. \<not> fits P N n s'"
proof -
  have ext: "open_run P (Suc i) b" using run \<open>P i\<close> by (rule open_run_extend)
  have "b \<le> i" using run by (simp add: open_run_def)
  then have "b + n \<le> N" "\<forall>j<n. P (b + j)"
    using assms(4,5) ext unfolding open_run_def by auto
  then show "fits P N n b" unfolding fits_def by simp
  show "\<forall>s' < b. \<not> fits P N n s'"
  proof (intro allI impI notI)
    fix s' assume "s' < b" and fit: "fits P N n s'"
    then have "i < s' + n" using none unfolding fits_def by (metis linorder_not_less)
    then show False using fits_needs_open_run [OF fit run] \<open>s' < b\<close> by simp
  qed
qed

text \<open>What the loop returns: the first fit, or, where nothing fits, the free run at the end of the
  table, or -1 where the last block is taken.\<close>

definition scan_result :: "(nat \<Rightarrow> bool) \<Rightarrow> nat \<Rightarrow> nat \<Rightarrow> u32 \<Rightarrow> bool" where
  "scan_result P N n r \<longleftrightarrow>
     (\<exists>s. fits P N n s \<and> (\<forall>s' < s. \<not> fits P N n s') \<and> r = of_nat s)
   \<or> ((\<forall>s. \<not> fits P N n s) \<and> (\<exists>b. open_run P N b \<and> r = (if b = N then - 1 else of_nat b)))"

lemma heap_scan_free:
  assumes "i < total_entries tbl" "blk_free (m (entries tbl + i))" "b \<le> unat i"
    "bc = of_nat (unat i - b)" "bs = (if b = unat i then - 1 else of_nat b)"
  shows "heap_scan m tbl n i bc bs =
    (if Suc (unat i) - b = unat n then of_nat b
     else heap_scan m tbl n (i + 1) (of_nat (Suc (unat i) - b)) (of_nat b))"
proof -
  have lt: "Suc (unat i) < 4294967296"
    using assms(1) unat_Suc_word [OF assms(1)] unat_u32_less [of "i + 1"] by simp
  have bs': "(if bs = - 1 then i else bs) = of_nat b"
    using assms(3,5) lt by (cases "b = unat i") simp_all
  have bc': "bc + 1 = of_nat (Suc (unat i) - b)"
    using assms(3,4) by (simp add: Suc_diff_le)
  have "bc + 1 = n \<longleftrightarrow> Suc (unat i) - b = unat n"
    unfolding bc' using lt by (intro of_nat_eq_u32) simp
  then show ?thesis
    using assms(1,2) bs' bc' by (subst heap_scan.simps) (simp add: blk_free_def Let_def)
qed

lemma heap_scan_result:
  fixes m tbl
  defines "P \<equiv> \<lambda>j. blk_free (m (entries tbl + of_nat j))"
  assumes "i \<le> total_entries tbl" "open_run P (unat i) b"
    "bc = of_nat (unat i - b)" "bs = (if b = unat i then - 1 else of_nat b)"
    "unat i - b < unat n" "\<forall>s. \<not> fits P (unat i) (unat n) s"
  shows "scan_result P (unat (total_entries tbl)) (unat n) (heap_scan m tbl n i bc bs)"
  using assms(2-)
proof (induction "unat (total_entries tbl) - unat i" arbitrary: i b bc bs rule: less_induct)
  case less
  let ?N = "unat (total_entries tbl)" and ?n = "unat n"
  have b: "b \<le> unat i" using less.prems(2) by (simp add: open_run_def)
  show ?case
  proof (cases "i < total_entries tbl")
    case False
    then have "i = total_entries tbl" using less.prems(1) by simp
    then show ?thesis
      using less.prems by (subst heap_scan.simps) (auto simp: scan_result_def)
  next
    case True
    have Suc: "unat (i + 1) = Suc (unat i)" using True by (rule unat_Suc_word)
    have le: "i + 1 \<le> total_entries tbl" and dec: "?N - unat (i + 1) < ?N - unat i"
      using True by (auto simp: word_le_nat_alt word_less_nat_alt Suc)
    note step = less.hyps [OF dec le]
    show ?thesis
    proof (cases "P (unat i)")
      case False
      have "\<forall>s. \<not> fits P (unat (i + 1)) ?n s"
        unfolding Suc by (rule no_fit_taken) (use False less.prems(5,6) in auto)
      then have "scan_result P ?N ?n (heap_scan m tbl n (i + 1) 0 (- 1))"
        using less.prems(5) False by (intro step [of "Suc (unat i)"]) (auto simp: Suc open_run_reset)
      then show ?thesis
        using True False by (subst heap_scan.simps) (simp add: P_def blk_free_def)
    next
      case free: True
      then have unfold: "heap_scan m tbl n i bc bs = (if Suc (unat i) - b = ?n then of_nat b
          else heap_scan m tbl n (i + 1) (of_nat (Suc (unat i) - b)) (of_nat b))"
        using True b less.prems(3,4) by (intro heap_scan_free) (simp_all add: P_def)
      show ?thesis
      proof (cases "Suc (unat i) - b = ?n")
        case hit: True
        then show ?thesis
          using fit_completed [OF less.prems(6,2) free _ hit, of ?N] True
          unfolding unfold scan_result_def by (auto simp: word_less_nat_alt)
      next
        case miss: False
        have "scan_result P ?N ?n
            (heap_scan m tbl n (i + 1) (of_nat (Suc (unat i) - b)) (of_nat b))"
          using miss less.prems(2,5) free b no_fit_extended [OF less.prems(6,2,5) miss]
          by (intro step [of b]) (auto simp: Suc open_run_extend)
        then show ?thesis using miss unfolding unfold by simp
      qed
    qed
  qed
qed

lemma heap_get_start_block_result:
  fixes m h
  assumes "0 < n"
  defines "P \<equiv> \<lambda>j. blk_free (m (entries (table h) + of_nat j))"
  shows "scan_result P (unat (total_entries (table h))) (unat n) (heap_scan m (table h) n 0 0 (- 1))"
  unfolding P_def
  by (rule heap_scan_result [where b = 0]) (use assms in \<open>auto simp: open_run_def fits_def word_less_nat_alt\<close>)

section \<open>The marking and the freeing loop\<close>

text \<open>The entry of block \<open>j\<close> of a live run of \<open>n\<close> blocks: taken, the first block flagged, every block
  but the last flagged as continuing.\<close>

definition run_byte :: "nat \<Rightarrow> nat \<Rightarrow> u8" where
  "run_byte n j = (if j = 0 then (if 1 < n then 0xC1 else 0x41) else (if Suc j < n then 0x81 else 0x01))"

lemma heap_mark_loop_apply:
  assumes "s + n \<le> 2147483648"
  shows "heap_mark_loop m es (int s) (int s + int n - 1) entry a =
    (if s \<le> unat (a - es) \<and> unat (a - es) < s + n
     then (if unat (a - es) = s then entry else if Suc (unat (a - es)) < s + n then 0x81 else 0x01)
     else m a)"
  using assms
proof (induction n arbitrary: m s entry)
  case 0
  then show ?case by (subst heap_mark_loop.simps) auto
next
  case (Suc n)
  let ?e = "if n \<noteq> 1 then 0x81 else 0x01 :: u8" and ?m = "m(es + of_nat s := entry)"
  have "heap_mark_loop m es (int s) (int s + int (Suc n) - 1) entry a
      = heap_mark_loop ?m es (int (Suc s)) (int (Suc s) + int n - 1) ?e a"
    by (subst heap_mark_loop.simps) (auto simp: heap_defs algebra_simps)
  also have "\<dots> = (if Suc s \<le> unat (a - es) \<and> unat (a - es) < Suc s + n
     then (if unat (a - es) = Suc s then ?e else if Suc (unat (a - es)) < Suc s + n then 0x81 else 0x01)
     else ?m a)"
    by (rule Suc.IH) (use Suc.prems in simp)
  finally show ?case
    using addr_eq_offset [of s a es] Suc.prems by auto
qed

lemma heap_mark_blocks_as_taken_apply:
  assumes "0 < n" "s + n < 2147483648"
  shows "heap_mark_blocks_as_taken h (of_nat s) (of_nat n) m a =
    (let j = unat (a - entries (table h)) in if s \<le> j \<and> j < s + n then run_byte n (j - s) else m a)"
proof -
  have "heap_mark_blocks_as_taken h (of_nat s) (of_nat n) m a =
    heap_mark_loop m (entries (table h)) (int s) (int s + int n - 1) (if 1 < n then 0xC1 else 0x41) a"
    using assms by (simp add: heap_mark_blocks_as_taken_def sint_of_nat32 heap_defs word_sless_alt Let_def)
  then show ?thesis
    using assms by (simp add: heap_mark_loop_apply run_byte_def Let_def) auto
qed

lemma heap_free_loop_apply:
  assumes "0 < n" "s + n \<le> unat (total_entries tbl)"
    "\<forall>j<n. (m (entries tbl + of_nat (s + j)) AND 0x80 = 0) \<longleftrightarrow> Suc j = n"
  shows "heap_free_loop m tbl (of_nat s) a =
    (let j = unat (a - entries tbl) in if s \<le> j \<and> j < s + n then 0 else m a)"
  using assms
proof (induction n arbitrary: m s)
  case 0
  then show ?case by simp
next
  case (Suc n)
  let ?m = "m(entries tbl + of_nat s := 0)"
  have s32: "s + Suc n < 4294967296" using Suc.prems(2) unat_u32_less [of "total_entries tbl"] by linarith
  have lt: "of_nat s < total_entries tbl"
    using Suc.prems(2) s32 by (simp add: word_less_nat_alt unat_of_nat32)
  have upd: "a = entries tbl + of_nat s \<longleftrightarrow> unat (a - entries tbl) = s"
    using s32 by (intro addr_eq_offset) simp
  have bit: "(m (entries tbl + of_nat s) AND 0x80 = 0) \<longleftrightarrow> n = 0"
    using Suc.prems(3) [rule_format, of 0] by simp
  show ?case
  proof (cases "n = 0")
    case True
    then show ?thesis
      using bit upd lt by (subst heap_free_loop.simps) (auto simp: heap_defs Let_def)
  next
    case False
    have "\<forall>j<n. (?m (entries tbl + of_nat (Suc s + j)) AND 0x80 = 0) \<longleftrightarrow> Suc j = n"
    proof (intro allI impI)
      fix j assume "j < n"
      have "entries tbl + of_nat (Suc s + j) \<noteq> entries tbl + of_nat s"
        using \<open>j < n\<close> s32 by (subst add_of_nat_inj) auto
      then show "(?m (entries tbl + of_nat (Suc s + j)) AND 0x80 = 0) \<longleftrightarrow> Suc j = n"
        using Suc.prems(3) [rule_format, of "Suc j"] \<open>j < n\<close> by simp
    qed
    then have "heap_free_loop ?m tbl (of_nat (Suc s)) a =
      (let j = unat (a - entries tbl) in if Suc s \<le> j \<and> j < Suc s + n then 0 else ?m a)"
      using Suc.prems(2) False by (intro Suc.IH) auto
    moreover have "heap_free_loop m tbl (of_nat s) = heap_free_loop ?m tbl (of_nat (Suc s))"
      using bit lt False by (subst heap_free_loop.simps) (simp add: heap_defs Let_def add.commute)
    ultimately show ?thesis using upd by (auto simp: Let_def)
  qed
qed

lemma heap_free_loop_outside: "total_entries tbl \<le> i \<Longrightarrow> heap_free_loop m tbl i = m"
  by (subst heap_free_loop.simps) auto

end
