(* ===== verification/HeapSpec.thy ===== *)
theory HeapSpec
  imports Heap
begin

text \<open>
  The abstract view of the block table and the refinement of \<^verbatim>\<open>heap.c\<close> to it. A table is the
  list of its entry bytes; its meaning is the set of live runs. The invariant says that every
  entry that is not 0 belongs to a live run. Allocation adds one run, disjoint from the others,
  and freeing removes exactly one.
\<close>

section \<open>Live runs of a table\<close>

definition run_at :: "u8 list \<Rightarrow> nat \<Rightarrow> nat \<Rightarrow> bool" where
  "run_at t s n \<longleftrightarrow> 0 < n \<and> s + n \<le> length t \<and> (\<forall>j<n. t ! (s + j) = run_byte n j)"

definition live_runs :: "u8 list \<Rightarrow> (nat \<times> nat) set" where
  "live_runs t = {(s, n). run_at t s n}"

definition table_inv :: "u8 list \<Rightarrow> bool" where
  "table_inv t \<longleftrightarrow>
     (\<forall>i < length t. t ! i \<noteq> 0 \<longrightarrow> (\<exists>s \<le> i. \<exists>n \<le> length t. i < s + n \<and> run_at t s n))"

definition table_bytes :: "heap \<Rightarrow> memory \<Rightarrow> u8 list" where
  "table_bytes h m = bytes m (entries (table h)) (unat (total_entries (table h)))"

lemma length_table_bytes [simp]: "length (table_bytes h m) = unat (total_entries (table h))"
  by (simp add: table_bytes_def)

lemma run_byte_not_free [simp]: "\<not> blk_free (run_byte n j)"
  by (simp add: run_byte_def blk_free_def heap_get_entry_type_def heap_defs)

lemma run_byte_first: "run_byte n j AND 0x40 = 0 \<longleftrightarrow> j \<noteq> 0"
  by (simp add: run_byte_def)

lemma run_byte_last: "j < n \<Longrightarrow> run_byte n j AND 0x80 = 0 \<longleftrightarrow> Suc j = n"
  by (auto simp: run_byte_def)

lemma run_byte_neq_0 [simp]: "run_byte n j \<noteq> 0"
  by (simp add: run_byte_def)

lemma blk_free_0 [simp]: "blk_free 0"
  by (simp add: blk_free_def heap_get_entry_type_def heap_defs)

lemma run_at_nth: "run_at t s n \<Longrightarrow> s \<le> i \<Longrightarrow> i < s + n \<Longrightarrow> t ! i = run_byte n (i - s)"
  unfolding run_at_def by (metis add_diff_inverse_nat linorder_not_less nat_add_left_cancel_less)

lemma run_at_overlap_start:
  assumes "run_at t s n" "run_at t s' n'" "s \<le> s'" "s' < s + n"
  shows "s' = s"
proof -
  have "run_byte n (s' - s) = run_byte n' 0"
    using assms run_at_nth [of t s n s'] run_at_nth [of t s' n' s'] by (auto simp: run_at_def)
  then have "run_byte n (s' - s) AND 0x40 \<noteq> 0" by (metis run_byte_first)
  then show ?thesis using assms(3) by (simp add: run_byte_first)
qed

lemma run_at_same_start:
  assumes "run_at t s n" "run_at t s n'"
  shows "n = n'"
proof -
  have "\<not> k < l" if "run_at t s k" "run_at t s l" for k l
  proof
    assume "k < l"
    have "0 < k" using that(1) by (simp add: run_at_def)
    then have "run_byte k (k - 1) = run_byte l (k - 1)"
      using run_at_nth [OF that(1), of "s + (k - 1)"] run_at_nth [OF that(2), of "s + (k - 1)"]
        \<open>k < l\<close> by simp
    moreover have "k - 1 < k" "k - 1 < l" "Suc (k - 1) \<noteq> l" using \<open>0 < k\<close> \<open>k < l\<close> by auto
    ultimately show False
      using run_byte_last [of "k - 1" k] run_byte_last [of "k - 1" l] \<open>0 < k\<close> by simp
  qed
  then show ?thesis using assms by (metis nat_neq_iff)
qed

lemma live_runs_disjoint:
  assumes "(s, n) \<in> live_runs t" "(s', n') \<in> live_runs t" "i < s + n" "i < s' + n'" "s \<le> i" "s' \<le> i"
  shows "(s, n) = (s', n')"
proof -
  have "s = s'"
    using assms run_at_overlap_start [of t s n s' n'] run_at_overlap_start [of t s' n' s n]
    unfolding live_runs_def by (metis (mono_tags, lifting) case_prodD le_cases mem_Collect_eq order_le_less_trans)
  then show ?thesis using assms run_at_same_start unfolding live_runs_def by blast
qed

lemma table_inv_free_byte:
  assumes "table_inv t" "i < length t" "blk_free (t ! i)"
  shows "t ! i = 0"
proof (rule ccontr)
  assume "t ! i \<noteq> 0"
  then obtain s n where "s \<le> i" "i < s + n" "run_at t s n" using assms by (auto simp: table_inv_def)
  then show False using assms(3) run_at_nth [of t s n i] by simp
qed

section \<open>Taking and releasing a run\<close>

definition take_run :: "u8 list \<Rightarrow> nat \<Rightarrow> nat \<Rightarrow> u8 list" where
  "take_run t s n = map (\<lambda>i. if s \<le> i \<and> i < s + n then run_byte n (i - s) else t ! i) [0..<length t]"

definition drop_run :: "u8 list \<Rightarrow> nat \<Rightarrow> nat \<Rightarrow> u8 list" where
  "drop_run t s n = map (\<lambda>i. if s \<le> i \<and> i < s + n then 0 else t ! i) [0..<length t]"

lemma nth_take_run [simp]:
  "i < length t \<Longrightarrow> take_run t s n ! i = (if s \<le> i \<and> i < s + n then run_byte n (i - s) else t ! i)"
  by (simp add: take_run_def)

lemma length_take_run [simp]: "length (take_run t s n) = length t"
  by (simp add: take_run_def)

abbreviation table_fits :: "u8 list \<Rightarrow> nat \<Rightarrow> nat \<Rightarrow> bool" where
  "table_fits t \<equiv> fits (\<lambda>i. blk_free (t ! i)) (length t)"

lemma run_at_cong:
  assumes "length t' = length t" "\<And>i. s \<le> i \<Longrightarrow> i < s + n \<Longrightarrow> t' ! i = t ! i"
  shows "run_at t' s n \<longleftrightarrow> run_at t s n"
  using assms by (auto simp: run_at_def)

lemma run_at_take_run:
  assumes "0 < n" "s + n \<le> length t"
  shows "run_at (take_run t s n) s n"
  using assms by (simp add: run_at_def take_run_def)

lemma table_fits_not_live:
  assumes "table_fits t n s" "run_at t s' n'" "s \<le> i" "i < s + n"
  shows "\<not> (s' \<le> i \<and> i < s' + n')"
proof
  assume "s' \<le> i \<and> i < s' + n'"
  then have "t ! i = run_byte n' (i - s')" using run_at_nth assms(2) by blast
  moreover have "blk_free (t ! i)" using fits_nth [OF assms(1,3,4)] by simp
  ultimately show False by simp
qed

lemma live_runs_take_run:
  assumes "0 < n" "table_fits t n s"
  shows "live_runs (take_run t s n) = insert (s, n) (live_runs t)"
proof -
  have here: "run_at (take_run t s n) s n"
    using assms by (intro run_at_take_run) (auto simp: fits_def)
  have "run_at (take_run t s n) s' n' \<longleftrightarrow> (s' = s \<and> n' = n) \<or> run_at t s' n'" for s' n'
  proof (cases "\<exists>i. s \<le> i \<and> i < s + n \<and> s' \<le> i \<and> i < s' + n'")
    case True
    then obtain i where i: "s \<le> i" "i < s + n" "s' \<le> i" "i < s' + n'" by blast
    have "run_at (take_run t s n) s' n' \<Longrightarrow> (s, n) = (s', n')"
      using i here by (intro live_runs_disjoint [of s n "take_run t s n" s' n' i]) (auto simp: live_runs_def)
    then show ?thesis using here table_fits_not_live [OF assms(2) _ i(1,2), of s' n'] i by blast
  next
    case False
    then have "run_at (take_run t s n) s' n' \<longleftrightarrow> run_at t s' n'" if "s' + n' \<le> length t"
      using that by (intro run_at_cong) (auto simp: take_run_def)
    moreover have "\<not> (s' = s \<and> n' = n)" using False assms(1) by auto
    ultimately show ?thesis by (auto simp: run_at_def take_run_def)
  qed
  then show ?thesis by (auto simp: live_runs_def)
qed

lemma table_inv_take_run:
  assumes "table_inv t" "0 < n" "table_fits t n s"
  shows "table_inv (take_run t s n)"
  unfolding table_inv_def
proof (intro allI impI)
  fix i assume i: "i < length (take_run t s n)" "take_run t s n ! i \<noteq> 0"
  have live: "run_at (take_run t s n) s' n'" if "run_at t s' n' \<or> s' = s \<and> n' = n" for s' n'
    using that live_runs_take_run [OF assms(2,3)] unfolding live_runs_def by auto
  have len: "length (take_run t s n) = length t" by (simp add: take_run_def)
  show "\<exists>s'\<le>i. \<exists>n'\<le>length (take_run t s n). i < s' + n' \<and> run_at (take_run t s n) s' n'"
  proof (cases "s \<le> i \<and> i < s + n")
    case True
    moreover have "n \<le> length t" using assms(3) by (simp add: fits_def)
    ultimately show ?thesis using live [of s n] len by auto
  next
    case False
    then have "t ! i \<noteq> 0" "i < length t" using i by (auto simp: take_run_def)
    then show ?thesis using assms(1) live len unfolding table_inv_def by metis
  qed
qed

lemma live_runs_drop_run:
  assumes "(s, n) \<in> live_runs t"
  shows "live_runs (drop_run t s n) = live_runs t - {(s, n)}"
proof -
  have at: "run_at t s n" using assms by (simp add: live_runs_def)
  have len: "length (drop_run t s n) = length t" by (simp add: drop_run_def)
  have "run_at (drop_run t s n) s' n' \<longleftrightarrow> run_at t s' n' \<and> (s', n') \<noteq> (s, n)" for s' n'
  proof (cases "\<exists>i. s \<le> i \<and> i < s + n \<and> s' \<le> i \<and> i < s' + n'")
    case True
    then obtain i where i: "s \<le> i" "i < s + n" "s' \<le> i" "i < s' + n'" by blast
    have "\<not> run_at (drop_run t s n) s' n'"
    proof
      assume run: "run_at (drop_run t s n) s' n'"
      then have "drop_run t s n ! i \<noteq> 0" using run_at_nth [OF run i(3,4)] by simp
      moreover have "i < length t" using run i len by (auto simp: run_at_def)
      ultimately show False using i by (simp add: drop_run_def)
    qed
    moreover have "run_at t s' n' \<Longrightarrow> (s', n') = (s, n)"
      using assms i live_runs_disjoint [of s n t s' n' i] by (auto simp: live_runs_def)
    ultimately show ?thesis by blast
  next
    case False
    then have "run_at (drop_run t s n) s' n' \<longleftrightarrow> run_at t s' n'" if "s' + n' \<le> length t"
      using that by (intro run_at_cong) (auto simp: drop_run_def)
    moreover have "(s', n') \<noteq> (s, n)" using False at by (auto simp: run_at_def)
    ultimately show ?thesis by (auto simp: run_at_def drop_run_def)
  qed
  then show ?thesis by (auto simp: live_runs_def)
qed

lemma table_inv_drop_run:
  assumes "table_inv t" "(s, n) \<in> live_runs t"
  shows "table_inv (drop_run t s n)"
  unfolding table_inv_def
proof (intro allI impI)
  fix i assume i: "i < length (drop_run t s n)" "drop_run t s n ! i \<noteq> 0"
  then have "\<not> (s \<le> i \<and> i < s + n)" "t ! i \<noteq> 0" "i < length t"
    by (auto simp: drop_run_def split: if_splits)
  then obtain s' n' where r: "s' \<le> i" "n' \<le> length t" "i < s' + n'" "run_at t s' n'"
    using assms(1) unfolding table_inv_def by blast
  then have "(s', n') \<in> live_runs (drop_run t s n)"
    using \<open>\<not> (s \<le> i \<and> i < s + n)\<close> live_runs_drop_run [OF assms(2)] by (auto simp: live_runs_def)
  then show "\<exists>s'\<le>i. \<exists>n'\<le>length (drop_run t s n). i < s' + n' \<and> run_at (drop_run t s n) s' n'"
    using r by (auto simp: live_runs_def drop_run_def)
qed

lemma drop_take_run:
  assumes "table_inv t" "table_fits t n s"
  shows "drop_run (take_run t s n) s n = t"
proof (rule nth_equalityI)
  fix i assume "i < length (drop_run (take_run t s n) s n)"
  then have i: "i < length t" by (simp add: drop_run_def take_run_def)
  have "t ! i = 0" if "s \<le> i" "i < s + n"
    using table_inv_free_byte [OF assms(1) i] fits_nth [OF assms(2) that] by simp
  then show "drop_run (take_run t s n) s n ! i = t ! i"
    using i by (auto simp: drop_run_def take_run_def)
qed (simp add: drop_run_def take_run_def)

lemma table_inv_zero: "table_inv (replicate k 0)"
  by (simp add: table_inv_def)

lemma live_runs_zero: "live_runs (replicate k 0) = {}"
proof -
  have "\<not> run_at (replicate k 0) s n" for s n
  proof
    assume run: "run_at (replicate k 0) s n"
    then have "replicate k 0 ! s = run_byte n 0" "s < k"
      using run_at_nth [OF run, of s] by (auto simp: run_at_def)
    then show False by (simp add: run_byte_def split: if_splits)
  qed
  then show ?thesis by (simp add: live_runs_def)
qed

section \<open>Where the search finds room\<close>

definition first_fit :: "u8 list \<Rightarrow> nat \<Rightarrow> nat option" where
  "first_fit t n = find (table_fits t n) [0..<length t]"

definition trailing_start :: "u8 list \<Rightarrow> nat" where
  "trailing_start t = length t - length (takeWhile blk_free (rev t))"

lemma first_fit_Some:
  assumes "0 < n"
  shows "first_fit t n = Some s \<longleftrightarrow> table_fits t n s \<and> (\<forall>s' < s. \<not> table_fits t n s')"
proof -
  have "s < length t" if "table_fits t n s" for s using that assms by (simp add: fits_def)
  moreover have "first_fit t n = Some s \<longleftrightarrow>
      s < length t \<and> table_fits t n s \<and> (\<forall>s' < s. \<not> table_fits t n s')"
    unfolding first_fit_def find_Some_iff
    by (simp cong: conj_cong)
  ultimately show ?thesis by blast
qed

lemma first_fit_None:
  assumes "0 < n"
  shows "first_fit t n = None \<longleftrightarrow> (\<forall>s. \<not> table_fits t n s)"
  using assms unfolding first_fit_def find_None_iff by (auto simp: fits_def)

lemma open_run_unique: "open_run P N b \<Longrightarrow> open_run P N b' \<Longrightarrow> b = b'"
proof (induction b b' rule: linorder_wlog)
  case (le b b')
  show ?case
  proof (rule ccontr)
    assume "b \<noteq> b'"
    then have "b \<le> b' - 1" "b' - 1 < N" "b' \<noteq> 0" using le by (auto simp: open_run_def)
    then show False using le by (auto simp: open_run_def)
  qed
qed simp

lemma open_run_cong: "(\<And>i. i < N \<Longrightarrow> P i = Q i) \<Longrightarrow> open_run P N b = open_run Q N b"
  by (auto simp: open_run_def)

lemma trailing_start_open_run: "open_run (\<lambda>i. blk_free (t ! i)) (length t) (trailing_start t)"
proof (induction t rule: rev_induct)
  case Nil
  then show ?case by (simp add: open_run_def trailing_start_def)
next
  case (snoc x t)
  have IH: "open_run (\<lambda>i. blk_free ((t @ [x]) ! i)) (length t) (trailing_start t)"
    using snoc by (subst open_run_cong [where Q = "\<lambda>i. blk_free (t ! i)"]) (auto simp: nth_append)
  have len: "length (takeWhile blk_free (rev t)) \<le> length t"
    by (metis length_rev length_takeWhile_le)
  show ?case
  proof (cases "blk_free x")
    case True
    then have "trailing_start (t @ [x]) = trailing_start t" using len by (simp add: trailing_start_def)
    then show ?thesis using open_run_extend [OF IH] True by (simp add: nth_append)
  next
    case False
    then show ?thesis by (auto simp: trailing_start_def open_run_def nth_append)
  qed
qed

lemma trailing_start_end: "trailing_start t = length t \<longleftrightarrow> t = [] \<or> \<not> blk_free (last t)"
  by (cases t rule: rev_cases) (auto simp: trailing_start_def Suc_diff_le length_takeWhile_le [of _ "rev _", simplified])

lemma fits_table_bytes:
  "fits (\<lambda>j. blk_free (m (entries (table h) + of_nat j))) (unat (total_entries (table h))) n s
     = table_fits (table_bytes h m) n s"
  unfolding fits_def length_table_bytes by (auto simp: table_bytes_def)

text \<open>The whole behaviour of the search: the first fit; where nothing fits, the start of the free
  blocks at the end of the table, however few they are; \<^verbatim>\<open>-ENOMEM\<close> only when there are none.\<close>

lemma heap_get_start_block_eq:
  assumes "0 < n"
  shows "heap_get_start_block h n m =
    (let t = table_bytes h m in case first_fit t (unat n) of
       Some s \<Rightarrow> of_nat s
     | None \<Rightarrow> if t \<noteq> [] \<and> blk_free (last t) then of_nat (trailing_start t) else - ENOMEM)"
proof -
  let ?t = "table_bytes h m" and ?N = "unat (total_entries (table h))"
  let ?P = "\<lambda>j. blk_free (m (entries (table h) + of_nat j))" and ?r = "heap_scan m (table h) n 0 0 (- 1)"
  have n: "0 < unat n" using assms by (simp add: word_less_nat_alt)
  have less: "k < ?N \<Longrightarrow> (of_nat k :: u32) \<noteq> - 1" for k
    using unat_u32_less [of "total_entries (table h)"] by (intro of_nat_neq_minus_1) linarith
  have trail: "open_run ?P ?N b \<longleftrightarrow> b = trailing_start ?t" for b
  proof -
    have "open_run ?P ?N b \<longleftrightarrow> open_run (\<lambda>i. blk_free (?t ! i)) ?N b"
      by (rule open_run_cong) (simp add: table_bytes_def)
    then show ?thesis
      using trailing_start_open_run [of ?t] open_run_unique by (metis length_table_bytes)
  qed
  have result: "scan_result ?P ?N (unat n) ?r" by (rule heap_get_start_block_result [OF assms])
  show ?thesis
  proof (cases "first_fit ?t (unat n)")
    case (Some s)
    then have s: "table_fits ?t (unat n) s" "\<forall>s' < s. \<not> table_fits ?t (unat n) s'"
      using first_fit_Some [OF n] by auto
    then have "?r = of_nat s"
      using result unfolding scan_result_def fits_table_bytes by (metis linorder_neqE_nat)
    moreover have "s < ?N" using s n by (simp add: fits_def)
    ultimately show ?thesis using Some less by (simp add: heap_get_start_block_def)
  next
    case None
    then have "?r = (if trailing_start ?t = ?N then - 1 else of_nat (trailing_start ?t))"
      using result trail first_fit_None [OF n] unfolding scan_result_def fits_table_bytes by metis
    moreover have "trailing_start ?t \<le> ?N" by (simp add: trailing_start_def)
    ultimately show ?thesis
      using None less [of "trailing_start ?t"] trailing_start_end [of ?t]
      by (auto simp: heap_get_start_block_def)
  qed
qed

text \<open>A request for more blocks than the table has, and a request for none, stop at no block: the run counter
  never meets them, and the search ends at the end of the table.\<close>

lemma heap_scan_no_stop:
  assumes "unat bc \<le> unat i" "n = 0 \<or> total_entries tbl < n" "n' = 0 \<or> total_entries tbl < n'"
  shows "heap_scan m tbl n i bc bs = heap_scan m tbl n' i bc bs"
  using assms
proof (induction m tbl n i bc bs rule: heap_scan.induct)
  case (1 m tbl n i bc bs)
  show ?case
  proof (cases "i < total_entries tbl")
    case True
    have i: "unat (i + 1) = Suc (unat i)" "Suc (unat i) \<le> unat (total_entries tbl)"
      using unat_Suc_word [OF True] True by (simp_all add: word_less_nat_alt Suc_le_eq)
    then have "Suc (unat bc) < 4294967296"
      using "1.prems"(1) unat_u32_less [of "i + 1"] by linarith
    then have bc: "unat (bc + 1) = Suc (unat bc)" by (simp add: unat_word_ariths)
    then have "bc + 1 \<noteq> n" "bc + 1 \<noteq> n'" "unat (bc + 1) \<le> unat (i + 1)"
      using "1.prems" i by (auto simp: word_less_nat_alt)
    then show ?thesis
      using "1.IH" True "1.prems"(2,3) i
      by (subst (1 2) heap_scan.simps) (simp add: Let_def)
  next
    case False
    then show ?thesis by (subst (1 2) heap_scan.simps) simp
  qed
qed

lemma heap_get_start_block_zero:
  assumes "total_entries (table h) < - 1"
  shows "heap_get_start_block h 0 m =
    (let t = table_bytes h m in if t \<noteq> [] \<and> blk_free (last t) then of_nat (trailing_start t) else - ENOMEM)"
proof -
  let ?N = "total_entries (table h)"
  have n: "unat (?N + 1) = Suc (unat ?N)" using assms by (rule unat_Suc_word)
  then have more: "?N < ?N + 1" "0 < ?N + 1" by (simp_all add: word_less_nat_alt)
  have "heap_get_start_block h 0 m = heap_get_start_block h (?N + 1) m"
    using heap_scan_no_stop [of 0 0 0 "table h" "?N + 1" m "- 1"] more(1) by (simp add: heap_get_start_block_def)
  moreover have "first_fit (table_bytes h m) (unat (?N + 1)) = None"
    using more(2) n by (subst first_fit_None) (simp_all add: fits_def)
  ultimately show ?thesis using heap_get_start_block_eq [OF more(2), of h m] by (simp add: Let_def)
qed

section \<open>The operations on the table\<close>

text \<open>What the allocator relies on in the address map: fewer than \<open>2 ^ 31\<close> blocks, the blocks inside
  the address space, the table below the blocks.\<close>

definition heap_geometry :: "heap \<Rightarrow> bool" where
  "heap_geometry h \<longleftrightarrow>
     unat (total_entries (table h)) < 2147483648
   \<and> unat (base_addr h) + 4096 * unat (total_entries (table h)) < 4294967296
   \<and> unat (entries (table h)) + unat (total_entries (table h)) \<le> unat (base_addr h)"

definition in_table :: "heap \<Rightarrow> u32 \<Rightarrow> bool" where
  "in_table h a \<longleftrightarrow> in_region (entries (table h)) (total_entries (table h)) a"

text \<open>The address interval of a run, in bytes.\<close>

definition run_addr :: "heap \<Rightarrow> nat \<Rightarrow> nat" where
  "run_addr h s = unat (base_addr h) + 4096 * s"

lemma unat_block_address:
  assumes "heap_geometry h" "s \<le> unat (total_entries (table h))"
  shows "unat (heap_block_to_address h (of_nat s)) = run_addr h s"
proof -
  have "run_addr h s < 4294967296"
    using assms unfolding heap_geometry_def run_addr_def by linarith
  moreover have "heap_block_to_address h (of_nat s) = of_nat (run_addr h s)"
    by (simp add: heap_block_to_address_def config_defs run_addr_def)
  ultimately show ?thesis by (simp add: unat_of_nat32)
qed

lemma address_to_block:
  assumes "heap_geometry h" "s \<le> unat (total_entries (table h))" "unat p = run_addr h s"
  shows "heap_address_to_block h p = of_nat s"
proof -
  have "p = of_nat (run_addr h s)" using assms(3) by (metis word_of_nat_unat_eq)
  then have "p - base_addr h = of_nat (4096 * s)" by (simp add: run_addr_def)
  moreover have "4096 * s < 4294967296" using assms(1,2) unfolding heap_geometry_def by linarith
  ultimately have "unat (p - base_addr h) = 4096 * s" by (metis unat_of_nat32)
  then have "unat ((p - base_addr h) div 4096) = s" by (simp add: unat_div_distrib)
  then show ?thesis by (metis HEAP_BLOCK_SIZE_def heap_address_to_block_def word_of_nat_unat_eq)
qed

lemma offset_in_table: "unat (a - entries (table h)) < unat (total_entries (table h)) \<longleftrightarrow> in_table h a"
  by (simp add: in_table_def in_region_def word_less_nat_alt)

lemma table_entry_offset:
  "i < unat (total_entries (table h)) \<Longrightarrow>
     unat (entries (table h) + of_nat i - entries (table h)) = i"
  using unat_u32_less [of "total_entries (table h)"]
  by (subst add_diff_cancel_left', intro unat_of_nat32) linarith

lemma table_bytes_mark:
  assumes "0 < n" "s + n \<le> unat (total_entries (table h))" "heap_geometry h"
  shows "table_bytes h (heap_mark_blocks_as_taken h (of_nat s) (of_nat n) m) = take_run (table_bytes h m) s n"
proof (rule nth_equalityI)
  fix i assume "i < length (table_bytes h (heap_mark_blocks_as_taken h (of_nat s) (of_nat n) m))"
  then have i: "i < unat (total_entries (table h))" by simp
  have "s + n < 2147483648" using assms(2,3) by (simp add: heap_geometry_def)
  then show "table_bytes h (heap_mark_blocks_as_taken h (of_nat s) (of_nat n) m) ! i
      = take_run (table_bytes h m) s n ! i"
    using i table_entry_offset [OF i] assms(1)
    by (simp add: table_bytes_def take_run_def heap_mark_blocks_as_taken_apply Let_def)
qed (simp add: take_run_def)

lemma mark_outside_table:
  assumes "0 < n" "s + n \<le> unat (total_entries (table h))" "heap_geometry h" "\<not> in_table h a"
  shows "heap_mark_blocks_as_taken h (of_nat s) (of_nat n) m a = m a"
  using assms offset_in_table [of a h]
  by (simp add: heap_mark_blocks_as_taken_apply heap_geometry_def Let_def)

lemma run_bytes_ext:
  assumes "run_at (table_bytes h m) s n"
  shows "\<forall>j<n. (m (entries (table h) + of_nat (s + j)) AND 0x80 = 0) \<longleftrightarrow> Suc j = n"
proof (intro allI impI)
  fix j assume "j < n"
  then have "m (entries (table h) + of_nat (s + j)) = run_byte n j"
    using assms unfolding run_at_def length_table_bytes by (auto simp: table_bytes_def)
  then show "(m (entries (table h) + of_nat (s + j)) AND 0x80 = 0) \<longleftrightarrow> Suc j = n"
    using run_byte_last [OF \<open>j < n\<close>] by simp
qed

lemma mark_free_apply:
  assumes "run_at (table_bytes h m) s n"
  shows "heap_mark_blocks_as_free h (of_nat s) m a =
    (let j = unat (a - entries (table h)) in if s \<le> j \<and> j < s + n then 0 else m a)"
  unfolding heap_mark_blocks_as_free_def
  using assms by (intro heap_free_loop_apply run_bytes_ext) (auto simp: run_at_def)

lemma table_bytes_free:
  assumes "run_at (table_bytes h m) s n"
  shows "table_bytes h (heap_mark_blocks_as_free h (of_nat s) m) = drop_run (table_bytes h m) s n"
proof (rule nth_equalityI)
  fix i assume "i < length (table_bytes h (heap_mark_blocks_as_free h (of_nat s) m))"
  then have i: "i < unat (total_entries (table h))" by simp
  then show "table_bytes h (heap_mark_blocks_as_free h (of_nat s) m) ! i
      = drop_run (table_bytes h m) s n ! i"
    using table_entry_offset [OF i]
    by (simp add: mark_free_apply [OF assms] drop_run_def Let_def) (simp add: table_bytes_def mark_free_apply [OF assms] Let_def)
qed (simp add: drop_run_def)

lemma free_outside_table:
  assumes "run_at (table_bytes h m) s n" "\<not> in_table h a"
  shows "heap_mark_blocks_as_free h (of_nat s) m a = m a"
  using assms offset_in_table [of a h] by (simp add: mark_free_apply Let_def run_at_def)

section \<open>Allocation and release, from addresses\<close>

text \<open>The number of blocks a request of \<open>sz\<close> bytes takes.\<close>

definition blocks_needed :: "u32 \<Rightarrow> nat" where
  "blocks_needed sz = (unat sz + 4095) div 4096"

lemma unat_blocks_needed: "unat (of_nat (blocks_needed sz) :: u32) = blocks_needed sz"
  unfolding blocks_needed_def
  by (intro unat_of_nat32 less_mult_imp_div_less) (use unat_u32_less [of sz] in linarith)

lemma heap_align_size_wraps:
  assumes "4294963200 < unat sz"
  shows "heap_align_size sz = 0"
proof -
  have "unat sz < 4294967296" by (rule unat_u32_less)
  moreover have "unat sz = 4096 * (unat sz div 4096) + unat sz mod 4096" "unat sz mod 4096 < 4096" by simp_all
  ultimately have "unat sz div 4096 = 1048575" using assms by linarith
  then have m: "unat sz mod 4096 = unat sz - 4294963200" "unat (sz mod 4096) = unat sz mod 4096"
    using div_mult_mod_eq [of "unat sz" 4096] by (simp_all add: unat_mod_distrib)
  then have "sz mod 4096 \<noteq> 0" using assms by (auto simp: word_unat_eq_iff)
  moreover have "sz - sz mod 4096 = 4294963200"
    using m assms unat_u32_less [of sz] by (simp add: word_unat_eq_iff unat_sub_if')
  moreover have split: "sz + (4096 - sz mod 4096) = (sz - sz mod 4096) + 4096" by (simp add: algebra_simps)
  have "sz + (4096 - sz mod 4096) = 0" unfolding split calculation(2) by simp
  ultimately show ?thesis by (simp add: heap_align_size_def config_defs)
qed

lemma heap_align_size_blocks:
  assumes "unat sz \<le> 4294963200"
  shows "heap_align_size sz div HEAP_BLOCK_SIZE = of_nat (blocks_needed sz)"
    and "unat (heap_align_size sz) = 4096 * blocks_needed sz"
proof -
  have eq: "unat (heap_align_size sz) = 4096 * blocks_needed sz"
  proof (cases "unat sz mod 4096 = 0")
    case True
    then have "sz mod 4096 = 0" by (simp add: word_unat_eq_iff unat_mod_distrib)
    then show ?thesis using True by (auto simp: heap_align_size_def config_defs blocks_needed_def)
  next
    case False
    then have "sz mod 4096 \<noteq> 0" by (simp add: word_unat_eq_iff unat_mod_distrib)
    have le: "sz mod 4096 \<le> 4096" by (simp add: word_le_nat_alt unat_mod_distrib)
    have "unat (4096 - sz mod 4096) = 4096 - unat sz mod 4096"
      using le by (simp add: unat_sub unat_mod_distrib)
    then have "unat (sz + (4096 - sz mod 4096)) = unat sz + (4096 - unat sz mod 4096)"
      using assms False by (subst unat_add_lem [THEN iffD1]) auto
    moreover have "unat sz + (4096 - unat sz mod 4096) = 4096 * ((unat sz + 4095) div 4096)"
      using round_up_to [of "unat sz" 4096] False by simp
    ultimately show ?thesis
      using \<open>sz mod 4096 \<noteq> 0\<close> by (simp add: heap_align_size_def config_defs blocks_needed_def)
  qed
  then show "unat (heap_align_size sz) = 4096 * blocks_needed sz" .
  have "unat (heap_align_size sz div HEAP_BLOCK_SIZE) = blocks_needed sz"
    by (simp add: config_defs unat_div_distrib eq)
  then show "heap_align_size sz div HEAP_BLOCK_SIZE = of_nat (blocks_needed sz)"
    by (metis word_of_nat_unat_eq)
qed

lemma heap_alloc_first_fit:
  assumes "heap_geometry h" "0 < sz" "unat sz \<le> 4294963200"
    "first_fit (table_bytes h m) (blocks_needed sz) = Some s"
  shows "heap_alloc h sz m =
    (heap_block_to_address h (of_nat s),
     heap_mark_blocks_as_taken h (of_nat s) (of_nat (blocks_needed sz)) m)"
proof -
  have pos: "0 < blocks_needed sz" using assms(2) by (simp add: blocks_needed_def word_less_nat_alt)
  have small: "blocks_needed sz < 4294967296" using assms(3) by (simp add: blocks_needed_def)
  have n: "unat (of_nat (blocks_needed sz) :: u32) = blocks_needed sz" by (rule unat_of_nat32 [OF small])
  then have "0 < (of_nat (blocks_needed sz) :: u32)" using pos by (simp add: word_less_nat_alt)
  from heap_get_start_block_eq [OF this, of h m]
  have "heap_get_start_block h (of_nat (blocks_needed sz)) m = of_nat s"
    unfolding n assms(4) Let_def by simp
  then show ?thesis
    by (simp add: heap_alloc_def heap_alloc_blocks_def Let_def heap_align_size_blocks(1) [OF assms(3)])
qed

section \<open>Properties\<close>

text \<open>C25. The search of the block table (\<^verbatim>\<open>heap_get_start_block\<close>), for every table and every
  request: the lowest block at which the request fits; where it fits nowhere, the start of the free
  blocks at the end of the table, however few they are; \<^verbatim>\<open>-ENOMEM\<close> only when the last block is
  taken.\<close>

theorem heap_search_spec:
  assumes "0 < n"
  shows "heap_get_start_block h n m =
    (let t = table_bytes h m in case first_fit t (unat n) of
       Some s \<Rightarrow> of_nat s
     | None \<Rightarrow> if t \<noteq> [] \<and> blk_free (last t) then of_nat (trailing_start t) else - ENOMEM)"
  using assms by (rule heap_get_start_block_eq)

theorem heap_search_spec_witness:
  "(0 :: u32) < 2 \<and>
   heap_get_start_block \<lparr>table = \<lparr>entries = 0x7E00, total_entries = 4\<rparr>, base_addr = 0\<rparr> 2 ((\<lambda>_. 0)(0x7E00 := 0x41)) = 1"
proof -
  let ?h = "\<lparr>table = \<lparr>entries = 0x7E00, total_entries = 4\<rparr>, base_addr = 0\<rparr>"
  have t: "table_bytes ?h ((\<lambda>_. 0)(0x7E00 := 0x41)) = [0x41, 0, 0, 0]"
    by (simp add: table_bytes_def bytes_def upt_rec)
  have f: "first_fit [0x41, 0, 0, 0] 2 = Some 1"
    by (simp add: first_fit_def fits_def upt_rec blk_free_def heap_get_entry_type_def heap_defs
        less_Suc_eq numeral_2_eq_2)
  show ?thesis using heap_search_spec [of 2 ?h "(\<lambda>_. 0)(0x7E00 := 0x41)"] by (simp add: t f)
qed

text \<open>Marking and freeing are inverse: releasing the run that \<^verbatim>\<open>heap_mark_blocks_as_taken\<close> wrote
  removes that run from the live runs of the table, leaves every other run and the invariant of the
  table as they are, and gives back the table from before.\<close>

theorem heap_mark_free_roundtrip:
  assumes "heap_geometry h" "table_inv (table_bytes h m)" "0 < n" "table_fits (table_bytes h m) n s"
  shows "let m1 = heap_mark_blocks_as_taken h (of_nat s) (of_nat n) m;
             m2 = heap_mark_blocks_as_free h (of_nat s) m1
         in live_runs (table_bytes h m1) = insert (s, n) (live_runs (table_bytes h m))
          \<and> table_inv (table_bytes h m1)
          \<and> table_bytes h m2 = table_bytes h m"
proof -
  have le: "s + n \<le> unat (total_entries (table h))" using assms(4) by (simp add: fits_def)
  note mark = table_bytes_mark [OF assms(3) le assms(1), of m]
  have run: "run_at (table_bytes h (heap_mark_blocks_as_taken h (of_nat s) (of_nat n) m)) s n"
    unfolding mark using run_at_take_run [OF assms(3), of s "table_bytes h m"] le by simp
  show ?thesis
    unfolding Let_def table_bytes_free [OF run] mark
    using live_runs_take_run [OF assms(3,4)] table_inv_take_run [OF assms(2,3,4)]
      drop_take_run [OF assms(2,4)] by blast
qed

theorem heap_mark_free_roundtrip_witness:
  "\<exists>h m s n. heap_geometry h \<and> table_inv (table_bytes h m) \<and> 0 < n \<and> table_fits (table_bytes h m) n s
     \<and> live_runs (table_bytes h (heap_mark_blocks_as_taken h (of_nat s) (of_nat n) m)) = {(1, 2)}"
proof -
  let ?h = "\<lparr>table = \<lparr>entries = 0x7E00, total_entries = 4\<rparr>, base_addr = 0x10000\<rparr>"
  have t: "table_bytes ?h (\<lambda>_. 0) = replicate 4 0"
    by (rule nth_equalityI) (auto simp: table_bytes_def)
  have h: "heap_geometry ?h" "table_inv (table_bytes ?h (\<lambda>_. 0))" "0 < (2::nat)"
    "table_fits (table_bytes ?h (\<lambda>_. 0)) 2 1"
    unfolding t using table_inv_zero by (auto simp: heap_geometry_def fits_def)
  show ?thesis
    using heap_mark_free_roundtrip [OF h] h live_runs_zero [of 4] unfolding Let_def t
    by (intro exI [of _ ?h] exI [of _ "\<lambda>_. 0"] exI [of _ 1] exI [of _ 2]) (simp add: t)
qed

end
