(* ===== verification/Terminal.thy ===== *)
theory Terminal
  imports Memory
begin

text \<open>
  The text terminal of \<^verbatim>\<open>src/kernel/kernel.c\<close> and \<^verbatim>\<open>pow\<close> of
  \<^verbatim>\<open>src/kernel/includes/math/math.h\<close>. The VGA text buffer is the byte memory from
  \<^verbatim>\<open>0xB8000\<close>, two bytes per cell; the cursor and the colours are the globals of kernel.c.
  \<^verbatim>\<open>char\<close> is signed on this target.
\<close>

section \<open>State\<close>

record console =
  mem :: memory
  terminal_x :: u32
  terminal_y :: u32
  terminal_fg_color :: u8
  terminal_bg_color :: u8

definition TEXT_MODE_COLOR_BASE_ADDR :: u32 where "TEXT_MODE_COLOR_BASE_ADDR = 0xB8000"
definition TEXT_MODE_COLORS_BLACK :: u8 where "TEXT_MODE_COLORS_BLACK = 0"
definition TEXT_MODE_COLORS_WHITE :: u8 where "TEXT_MODE_COLORS_WHITE = 15"
definition TEXT_MODE_CHARACTERS_PER_LINE :: u32 where "TEXT_MODE_CHARACTERS_PER_LINE = 80"
definition TEXT_MODE_VGA_WIDTH :: nat where "TEXT_MODE_VGA_WIDTH = 80"
definition TEXT_MODE_VGA_HEIGHT :: nat where "TEXT_MODE_VGA_HEIGHT = 20"

lemmas vga_defs = TEXT_MODE_COLOR_BASE_ADDR_def TEXT_MODE_COLORS_BLACK_def TEXT_MODE_COLORS_WHITE_def
  TEXT_MODE_CHARACTERS_PER_LINE_def TEXT_MODE_VGA_WIDTH_def TEXT_MODE_VGA_HEIGHT_def

section \<open>Cells\<close>

text \<open>The operands are promoted to \<^verbatim>\<open>int\<close>: a character from 0x80 on is sign-extended and its high
  bits cover the attribute byte.\<close>

definition VGA_make_char :: "u8 \<Rightarrow> u8 \<Rightarrow> u8 \<Rightarrow> u16" where
  "VGA_make_char ch color bg_color =
     ucast (push_bit 8 (push_bit 4 (ucast bg_color :: u32) OR (ucast color AND 0x0F)) OR scast ch :: u32)"

definition VGA_get_offset :: "u8 \<Rightarrow> u8 \<Rightarrow> u32" where
  "VGA_get_offset x y = (ucast y * TEXT_MODE_CHARACTERS_PER_LINE) + ucast x"

definition terminal_puts_raw :: "u8 \<Rightarrow> u8 \<Rightarrow> u8 \<Rightarrow> u32 \<Rightarrow> 'a console_scheme \<Rightarrow> 'a console_scheme" where
  "terminal_puts_raw ch color bg_color offset s =
     s\<lparr>mem := store16 (mem s) (TEXT_MODE_COLOR_BASE_ADDR + 2 * offset) (VGA_make_char ch color bg_color)\<rparr>"

section \<open>Cursor and output\<close>

definition terminal_backspace :: "'a console_scheme \<Rightarrow> 'a console_scheme" where
  "terminal_backspace s =
     (if terminal_x s = 0 \<and> terminal_y s = 0 then s
      else
        let s1 = (if terminal_x s = 0 then
                    let s' = s\<lparr>terminal_y := terminal_y s - 1, terminal_x := TEXT_MODE_CHARACTERS_PER_LINE\<rparr>
                    in terminal_puts_raw 0x20 TEXT_MODE_COLORS_BLACK TEXT_MODE_COLORS_BLACK
                         (VGA_get_offset (ucast (terminal_x s')) (ucast (terminal_y s'))) s'
                  else s);
            s2 = s1\<lparr>terminal_x := terminal_x s1 - 1\<rparr>
        in terminal_puts_raw 0x20 TEXT_MODE_COLORS_BLACK TEXT_MODE_COLORS_BLACK
             (VGA_get_offset (ucast (terminal_x s2)) (ucast (terminal_y s2))) s2)"

definition terminal_puts :: "u8 \<Rightarrow> 'a console_scheme \<Rightarrow> 'a console_scheme" where
  "terminal_puts ch s0 =
     (let s = (if terminal_x s0 \<ge> TEXT_MODE_CHARACTERS_PER_LINE
               then s0\<lparr>terminal_x := 0, terminal_y := terminal_y s0 + 1\<rparr> else s0)
      in if ch = 0x0A then s\<lparr>terminal_x := 0, terminal_y := terminal_y s + 1\<rparr>
         else if ch = 0x08 then terminal_backspace s
         else if ch = 0x0D then s\<lparr>terminal_x := 0\<rparr>
         else if ch = 0x09 then s\<lparr>terminal_x := (terminal_x s + 4) AND NOT 3\<rparr>
         else
           let tmp_ch = VGA_make_char ch (terminal_fg_color s) (terminal_bg_color s);
               cell = (terminal_y s * TEXT_MODE_CHARACTERS_PER_LINE) + terminal_x s
           in s\<lparr>mem := store16 (mem s) (TEXT_MODE_COLOR_BASE_ADDR + 2 * cell) tmp_ch,
                terminal_x := terminal_x s + 1\<rparr>)"

text \<open>\<^verbatim>\<open>terminal_write\<close> on the characters of a string up to its terminator, and on a pointer: the
  loop reads the memory that the output itself may change.\<close>

definition terminal_write_bytes :: "u8 list \<Rightarrow> 'a console_scheme \<Rightarrow> 'a console_scheme" where
  "terminal_write_bytes cs s = fold terminal_puts cs s"

partial_function (option) terminal_write_loop ::
  "u32 \<Rightarrow> u32 \<Rightarrow> 'a console_scheme \<Rightarrow> 'a console_scheme option" where
  "terminal_write_loop str ctr s =
     (if mem s (str + ctr) \<noteq> 0
      then terminal_write_loop str (ctr + 1) (terminal_puts (mem s (str + ctr)) s)
      else Some s)"

definition terminal_write :: "u32 \<Rightarrow> 'a console_scheme \<Rightarrow> 'a console_scheme option" where
  "terminal_write str s = terminal_write_loop str 0 s"

definition terminal_clear :: "'a console_scheme \<Rightarrow> 'a console_scheme" where
  "terminal_clear s =
     (let s1 = fold (\<lambda>y. fold (\<lambda>x. terminal_puts_raw 0x20 TEXT_MODE_COLORS_BLACK TEXT_MODE_COLORS_BLACK
                                ((of_nat y * TEXT_MODE_CHARACTERS_PER_LINE) + of_nat x))
                          [0..<TEXT_MODE_VGA_WIDTH])
                [0..<TEXT_MODE_VGA_HEIGHT] s
      in s1\<lparr>terminal_x := 0, terminal_y := 0\<rparr>)"

definition terminal_init :: "'a console_scheme \<Rightarrow> 'a console_scheme" where
  "terminal_init s = (terminal_clear s)
     \<lparr>terminal_fg_color := TEXT_MODE_COLORS_WHITE, terminal_bg_color := TEXT_MODE_COLORS_BLACK\<rparr>"

text \<open>\<^verbatim>\<open>print\<close> of a string literal (\<open>print_lit\<close>) and of a string in memory.\<close>

definition print_lit :: "string \<Rightarrow> 'a console_scheme \<Rightarrow> 'a console_scheme" where
  "print_lit msg s = terminal_write_bytes (map of_char msg)
     (s\<lparr>terminal_fg_color := TEXT_MODE_COLORS_WHITE, terminal_bg_color := TEXT_MODE_COLORS_BLACK\<rparr>)"

definition print :: "u32 \<Rightarrow> 'a console_scheme \<Rightarrow> 'a console_scheme option" where
  "print str s = terminal_write str
     (s\<lparr>terminal_fg_color := TEXT_MODE_COLORS_WHITE, terminal_bg_color := TEXT_MODE_COLORS_BLACK\<rparr>)"

definition printc :: "u32 \<Rightarrow> u8 \<Rightarrow> u8 \<Rightarrow> 'a console_scheme \<Rightarrow> 'a console_scheme option" where
  "printc str color bg_color s =
     terminal_write str (s\<lparr>terminal_fg_color := color, terminal_bg_color := bg_color\<rparr>)"

definition hex_digits :: string where "hex_digits = ''0123456789ABCDEF''"

definition print_hex_byte :: "u8 \<Rightarrow> 'a console_scheme \<Rightarrow> 'a console_scheme" where
  "print_hex_byte byte s =
     terminal_puts 0x20
       (terminal_puts (of_char (hex_digits ! unat (byte AND 0xF)))
          (terminal_puts (of_char (hex_digits ! unat (drop_bit 4 byte AND 0xF))) s))"

section \<open>Numbers\<close>

text \<open>\<^verbatim>\<open>pow\<close> of math.h; the loop runs while \<open>1 <s exp\<close>.\<close>

function pow_loop :: "u32 \<Rightarrow> u32 \<Rightarrow> u32 \<Rightarrow> u32" where
  "pow_loop ans base exp =
     (if 1 <s exp then
        (let odd = smod32 exp 2 = 1;
             base' = (if odd then base * ans else base);
             exp' = (if odd then exp - 1 else exp)
         in pow_loop (ans * ans) base' (sdiv32 exp' 2))
      else ans * base)"
  by pat_completeness auto
termination
proof (relation "measure (\<lambda>(ans, base, exp). unat exp)", goal_cases)
  case (2 ans base exp odd base' exp')
  then have small: "1 < unat exp" "unat exp < 2147483648" by (auto simp: one_sless_iff)
  then have "unat (exp - 1) = unat exp - 1" by (subst unat_minus_one) auto
  then have "unat exp' \<le> unat exp" unfolding 2(4) by simp
  then have "unat (sdiv32 exp' 2) = unat exp' div 2" using small by (subst unat_sdiv32) simp_all
  then show ?case using \<open>unat exp' \<le> unat exp\<close> small by simp
qed simp

declare pow_loop.simps [simp del]

definition pow :: "u32 \<Rightarrow> u32 \<Rightarrow> 'a console_scheme \<Rightarrow> u32 \<times> 'a console_scheme" where
  "pow num exp s =
     (if num = 0 then (0, s)
      else if num = 1 then (1, s)
      else if exp <s 0 then (1, print_lit (''Negative exponents not supported!'' @ [CHR 10]) s)
      else if exp = 0 then (1, s)
      else (pow_loop num 1 exp, s))"

text \<open>\<^verbatim>\<open>printint\<close>: count the digits, then print from the highest power of ten down.\<close>

function num_len_loop :: "u32 \<Rightarrow> u32 \<Rightarrow> u32" where
  "num_len_loop num num_len =
     (if num \<noteq> 0 then num_len_loop (sdiv32 num 10) (num_len + 1) else num_len)"
  by pat_completeness auto
termination
proof (relation "measure (\<lambda>(num, num_len). nat \<bar>sint num\<bar>)", goal_cases)
  case (2 num num_len)
  show ?case by (simp only: in_measure split_conv abs_sint_sdiv32_less [OF 2])
qed simp

declare num_len_loop.simps [simp del]

function printint_loop :: "u32 \<Rightarrow> u32 \<Rightarrow> u32 \<Rightarrow> 'a console_scheme \<Rightarrow> 'a console_scheme" where
  "printint_loop bkp num_len i s =
     (if i < num_len then
        (let (divres, s1) = pow 10 (num_len - i - 1) s;
             s2 = terminal_puts (ucast (48 + sdiv32 bkp divres)) s1
         in printint_loop (smod32 bkp divres) num_len (i + 1) s2)
      else s)"
  by pat_completeness auto
termination
  by (relation "measure (\<lambda>(bkp, num_len, i, s). unat num_len - unat i)")
     (auto simp: unat_Suc_word word_less_nat_alt)

declare printint_loop.simps [simp del]

definition printint :: "u32 \<Rightarrow> 'a console_scheme \<Rightarrow> 'a console_scheme" where
  "printint num0 s0 =
     (let (num, s) = (if num0 <s 0 then (num0 * (- 1), terminal_puts (of_char CHR ''-'') s0) else (num0, s0))
      in if num = 0 then terminal_puts (of_char CHR ''0'') s
         else printint_loop num (num_len_loop num 0) 0 s)"

section \<open>Panic (\<^verbatim>\<open>kernel_panic\<close>)\<close>

text \<open>The screen at the moment the machine halts.\<close>

definition kernel_panic :: "string \<Rightarrow> 'a console_scheme \<Rightarrow> 'a console_scheme" where
  "kernel_panic msg s =
     (let s1 = (if of_nat TEXT_MODE_VGA_HEIGHT \<le> terminal_y s then terminal_clear s else s)
      in print_lit msg (print_lit (CHR 10 # ''Kernel panic: '') s1))"

end
