(* ===== verification/TerminalSpec.thy ===== *)
theory TerminalSpec
  imports Terminal
begin

text \<open>
  What the terminal does: the cursor column stays on the line for every output; a run of
  printable characters fills consecutive cells and moves the cursor by its length; \<^verbatim>\<open>printint\<close>
  outputs the decimal notation of its argument, which rests on the correctness of \<^verbatim>\<open>pow\<close>.
\<close>

section \<open>The cursor\<close>

definition cursor_ok :: "'a console_scheme \<Rightarrow> bool" where
  "cursor_ok s \<longleftrightarrow> terminal_x s \<le> 80"

lemma tab_stop_le:
  fixes x :: u32
  assumes "x < 80"
  shows "(x + 4) AND NOT 3 \<le> 80"
proof -
  have "(x + 4) AND NOT 3 \<le> x + 4" by (simp add: word_and_le2)
  moreover have "(x + 4) AND NOT 3 \<noteq> 81" "(x + 4) AND NOT 3 \<noteq> 82" "(x + 4) AND NOT 3 \<noteq> 83"
    by (auto dest: arg_cong [where f = "\<lambda>w. w AND 3"] simp: and.assoc)
  moreover have "unat (x + 4) = unat x + 4"
    using assms by (simp add: unat_word_ariths word_less_nat_alt)
  ultimately show ?thesis using assms by (simp add: word_le_nat_alt word_less_nat_alt word_unat_eq_iff)
qed

lemma terminal_puts_raw_cursor [simp]:
  "terminal_x (terminal_puts_raw ch c b i s) = terminal_x s"
  "terminal_y (terminal_puts_raw ch c b i s) = terminal_y s"
  by (simp_all add: terminal_puts_raw_def)

lemma terminal_backspace_cursor_ok: "cursor_ok s \<Longrightarrow> cursor_ok (terminal_backspace s)"
proof -
  assume ok: "cursor_ok s"
  have "terminal_x s \<noteq> 0 \<Longrightarrow> terminal_x s - 1 \<le> 80"
    using ok by (simp add: cursor_ok_def word_le_nat_alt unat_minus_one)
  then show ?thesis
    using ok by (auto simp: terminal_backspace_def cursor_ok_def Let_def vga_defs)
qed

lemma terminal_puts_cursor_ok: "cursor_ok s \<Longrightarrow> cursor_ok (terminal_puts ch s)"
proof -
  assume ok: "cursor_ok s"
  let ?s = "if 80 \<le> terminal_x s then s\<lparr>terminal_x := 0, terminal_y := terminal_y s + 1\<rparr> else s"
  have x: "terminal_x ?s < 80" by auto
  then have "cursor_ok ?s" by (simp add: cursor_ok_def)
  then have bksp: "cursor_ok (terminal_backspace ?s)" by (rule terminal_backspace_cursor_ok)
  have next_x: "terminal_x ?s + 1 \<le> 80" using x by (simp add: inc_le)
  show ?thesis
    using bksp next_x tab_stop_le [OF x]
    unfolding terminal_puts_def Let_def vga_defs cursor_ok_def by simp
qed

lemma terminal_write_cursor_ok: "cursor_ok s \<Longrightarrow> cursor_ok (terminal_write_bytes cs s)"
  unfolding terminal_write_bytes_def
  by (induction cs arbitrary: s) (auto intro: terminal_puts_cursor_ok)

section \<open>Printable output\<close>

definition printable :: "u8 \<Rightarrow> bool" where
  "printable c \<longleftrightarrow> c \<noteq> 0x0A \<and> c \<noteq> 0x08 \<and> c \<noteq> 0x0D \<and> c \<noteq> 0x09"

text \<open>The cell the next character goes to, counted row by row; column 80 is column 0 of the next row.\<close>

definition cursor_cell :: "'a console_scheme \<Rightarrow> nat" where
  "cursor_cell s = 80 * unat (terminal_y s) + unat (terminal_x s)"

definition cell_addr :: "nat \<Rightarrow> u32" where
  "cell_addr k = 0xB8000 + 2 * of_nat k"

lemma cell_addr_inj:
  assumes "k < 1073741824" "l < 1073741824" "i < 2" "j < 2"
  shows "cell_addr k + of_nat i = cell_addr l + of_nat j \<longleftrightarrow> k = l \<and> i = j"
proof -
  have "cell_addr k + of_nat i = 0xB8000 + of_nat (2 * k + i)" for k i
    by (simp add: cell_addr_def)
  then have "cell_addr k + of_nat i = cell_addr l + of_nat j \<longleftrightarrow> 2 * k + i = 2 * l + j"
    using assms by (simp only:) (intro add_of_nat_inj; linarith)
  then show ?thesis using assms by presburger
qed

lemma cell_addr_cursor: "cell_addr (cursor_cell s) = 0xB8000 + 2 * (terminal_y s * 80 + terminal_x s)"
  by (simp add: cell_addr_def cursor_cell_def mult.commute)

lemma terminal_puts_printable:
  assumes "printable c" "cursor_ok s" "cursor_cell s < 1073741823"
  shows "mem (terminal_puts c s) = store16 (mem s) (cell_addr (cursor_cell s))
             (VGA_make_char c (terminal_fg_color s) (terminal_bg_color s))"
    and "cursor_cell (terminal_puts c s) = Suc (cursor_cell s)"
    and "terminal_fg_color (terminal_puts c s) = terminal_fg_color s"
    and "terminal_bg_color (terminal_puts c s) = terminal_bg_color s"
proof -
  have y: "unat (terminal_y s + 1) = Suc (unat (terminal_y s))"
    using assms(3) by (intro unat_Suc_word [where n = "- 1"]) (simp add: cursor_cell_def word_less_nat_alt)
  have "mem (terminal_puts c s) = store16 (mem s) (cell_addr (cursor_cell s))
             (VGA_make_char c (terminal_fg_color s) (terminal_bg_color s))
        \<and> cursor_cell (terminal_puts c s) = Suc (cursor_cell s)
        \<and> terminal_fg_color (terminal_puts c s) = terminal_fg_color s
        \<and> terminal_bg_color (terminal_puts c s) = terminal_bg_color s"
  proof (cases "terminal_x s = 80")
    case True
    have "(terminal_y s + 1) * 80 = terminal_y s * 80 + 80" by (simp add: distrib_right)
    then show ?thesis
      using assms(1) y True
      by (simp add: terminal_puts_def printable_def vga_defs cell_addr_cursor Let_def)
         (simp add: cursor_cell_def)
  next
    case False
    then have x: "terminal_x s < 80" "\<not> 80 \<le> terminal_x s" using assms(2) by (auto simp: cursor_ok_def)
    then show ?thesis
      using assms(1) unat_Suc_word [OF x(1)]
      by (simp add: terminal_puts_def printable_def vga_defs cell_addr_cursor Let_def)
         (simp add: cursor_cell_def)
  qed
  then show "mem (terminal_puts c s) = store16 (mem s) (cell_addr (cursor_cell s))
             (VGA_make_char c (terminal_fg_color s) (terminal_bg_color s))"
    and "cursor_cell (terminal_puts c s) = Suc (cursor_cell s)"
    and "terminal_fg_color (terminal_puts c s) = terminal_fg_color s"
    and "terminal_bg_color (terminal_puts c s) = terminal_bg_color s" by blast+
qed

text \<open>The 16-bit cell \<open>k\<close> of the screen.\<close>

definition vga_cell :: "'a console_scheme \<Rightarrow> nat \<Rightarrow> u16" where
  "vga_cell s k = load16 (mem s) (cell_addr k)"

lemma load16_store16_cell:
  assumes "k < 1073741824" "l < 1073741824"
  shows "load16 (store16 m (cell_addr k) v) (cell_addr l) = (if k = l then v else load16 m (cell_addr l))"
proof (cases "k = l")
  case True
  have "(word_cat (ucast (drop_bit 8 v) :: u8) (ucast v :: u8) :: u16) = v"
    by (rule bit_word_eqI) (auto simp: bit_word_cat_iff bit_unsigned_iff bit_drop_bit_eq)
  then show ?thesis using True by (simp add: load16_def store16_def)
next
  case False
  have "cell_addr l + of_nat j \<noteq> cell_addr k + of_nat i" if "i < 2" "j < 2" for i j
    using cell_addr_inj [OF assms(2,1) that(2,1)] False by simp
  from this [of 0 0] this [of 0 1] this [of 1 0] this [of 1 1] show ?thesis
    using False by (simp add: load16_def store16_def)
qed

lemma terminal_write_printable:
  assumes "list_all printable cs" "cursor_ok s" "cursor_cell s + length cs < 1073741823"
  shows "cursor_cell (terminal_write_bytes cs s) = cursor_cell s + length cs"
    and "\<And>k. k < 1073741824 \<Longrightarrow> vga_cell (terminal_write_bytes cs s) k =
       (if cursor_cell s \<le> k \<and> k < cursor_cell s + length cs
        then VGA_make_char (cs ! (k - cursor_cell s)) (terminal_fg_color s) (terminal_bg_color s)
        else vga_cell s k)"
  using assms
proof (induction cs arbitrary: s)
  case (Cons c cs)
  {
    case 1
    then show ?case
      using Cons.IH(1) [of "terminal_puts c s"] terminal_puts_printable [of c s]
      by (simp add: terminal_write_bytes_def terminal_puts_cursor_ok)
  next
    case (2 k)
    let ?s = "terminal_puts c s"
    have puts: "mem ?s = store16 (mem s) (cell_addr (cursor_cell s))
             (VGA_make_char c (terminal_fg_color s) (terminal_bg_color s))"
      "cursor_cell ?s = Suc (cursor_cell s)" "terminal_fg_color ?s = terminal_fg_color s"
      "terminal_bg_color ?s = terminal_bg_color s"
      using terminal_puts_printable [of c s] 2 by simp_all
    have here: "vga_cell ?s k = (if k = cursor_cell s
        then VGA_make_char c (terminal_fg_color s) (terminal_bg_color s) else vga_cell s k)"
      using load16_store16_cell [of "cursor_cell s" k] 2 unfolding vga_cell_def puts(1) by auto
    have "vga_cell (terminal_write_bytes cs ?s) k =
       (if cursor_cell ?s \<le> k \<and> k < cursor_cell ?s + length cs
        then VGA_make_char (cs ! (k - cursor_cell ?s)) (terminal_fg_color ?s) (terminal_bg_color ?s)
        else vga_cell ?s k)"
      using 2 puts by (intro Cons.IH(2)) (auto intro: terminal_puts_cursor_ok)
    then show ?case
      using here unfolding puts terminal_write_bytes_def
      by (auto simp: nth_Cons')
  }
qed (auto simp: terminal_write_bytes_def)

section \<open>What output leaves alone\<close>

text \<open>The first \<open>rows\<close> rows of the text buffer. Output from row \<open>y\<close> on reaches row \<open>y + 2\<close> with each character at
  most, and a backspace a cell whose coordinates are bytes, so within the first 260 rows. Cells of rows up to
  100000 lie below 16 MiB, where the kernel heap begins.\<close>

definition screen_rows :: "nat \<Rightarrow> u32 \<Rightarrow> bool" where
  "screen_rows rows a \<longleftrightarrow> 0xB8000 \<le> unat a \<and> unat a < 0xB8000 + 160 * rows"

definition screen_range :: "u32 \<Rightarrow> bool" where
  "screen_range a \<longleftrightarrow> 0xB8000 \<le> unat a \<and> unat a < 0x1000000"

lemma screen_rows_range: "rows \<le> 100000 \<Longrightarrow> \<not> screen_range a \<Longrightarrow> \<not> screen_rows rows a"
  unfolding screen_range_def screen_rows_def by linarith

lemma store16_outside_screen:
  assumes "unat k < 80 * rows" "rows \<le> 100000" "\<not> screen_rows rows a"
  shows "store16 m (0xB8000 + 2 * k) v a = m a"
proof -
  have u: "unat (0xB8000 + 2 * k) = 0xB8000 + 2 * unat k"
    using assms(1,2) by (simp add: unat_word_ariths)
  then have "unat (0xB8000 + 2 * k + 1) = 0xB8000 + 2 * unat k + 1"
    using assms(1,2) by (simp add: unat_word_ariths)
  with u assms show ?thesis by (auto simp: store16_def screen_rows_def)
qed

lemma unat_cell:
  assumes "unat y \<le> 100001" "unat x \<le> 80"
  shows "unat ((y :: u32) * 80 + x) = 80 * unat y + unat x"
  using assms by (simp add: unat_word_ariths)

lemma VGA_get_offset_bound: "260 \<le> rows \<Longrightarrow> unat (VGA_get_offset x y) < 80 * rows"
proof -
  have "unat x < 256" "unat y < 256" using unsigned_less [where ?'a = nat, of x] unsigned_less [where ?'a = nat, of y] by simp_all
  then have "unat (ucast y :: u32) < 256" "unat (ucast x :: u32) < 256"
    by (simp_all add: unsigned_ucast_eq take_bit_nat_eq_self)
  then show "260 \<le> rows \<Longrightarrow> unat (VGA_get_offset x y) < 80 * rows"
    by (simp add: VGA_get_offset_def vga_defs unat_word_ariths)
qed

lemma terminal_puts_raw_mem:
  "mem (terminal_puts_raw ch c b i s) = store16 (mem s) (0xB8000 + 2 * i) (VGA_make_char ch c b)"
  by (simp add: terminal_puts_raw_def vga_defs)

lemma terminal_backspace_row: "unat (terminal_y (terminal_backspace s)) \<le> unat (terminal_y s)"
proof -
  have "terminal_y s \<noteq> 0 \<Longrightarrow> unat (terminal_y s - 1) \<le> unat (terminal_y s)" by (simp add: unat_minus_one)
  then show ?thesis by (auto simp: terminal_backspace_def Let_def)
qed

lemma terminal_backspace_rows:
  assumes "260 \<le> rows" "rows \<le> 100000" "\<not> screen_rows rows a"
  shows "mem (terminal_backspace s) a = mem s a"
  by (simp add: terminal_backspace_def Let_def terminal_puts_raw_mem
      store16_outside_screen [OF VGA_get_offset_bound [OF assms(1)] assms(2,3)])

lemma terminal_puts_row: "unat (terminal_y (terminal_puts c s)) \<le> unat (terminal_y s) + 2"
proof -
  let ?s = "if 80 \<le> terminal_x s then s\<lparr>terminal_x := 0, terminal_y := terminal_y s + 1\<rparr> else s"
  have inc: "unat (y + 1) \<le> Suc (unat y)" for y :: u32 by (simp add: unat_word_ariths)
  have "unat (terminal_y ?s) \<le> unat (terminal_y s) + 1" using inc [of "terminal_y s"] by simp
  then show ?thesis
    using inc [of "terminal_y ?s"] terminal_backspace_row [of ?s] unfolding terminal_puts_def vga_defs Let_def by auto
qed

lemma terminal_puts_rows:
  assumes "unat (terminal_y s) + 2 \<le> rows" "260 \<le> rows" "rows \<le> 100000" "\<not> screen_rows rows a"
  shows "mem (terminal_puts c s) a = mem s a"
proof -
  let ?s = "if 80 \<le> terminal_x s then s\<lparr>terminal_x := 0, terminal_y := terminal_y s + 1\<rparr> else s"
  have "unat (terminal_y ?s) \<le> unat (terminal_y s) + 1" by (simp add: unat_word_ariths)
  moreover have "unat (terminal_x ?s) < 80" by (auto simp: word_le_nat_alt)
  ultimately have "unat (terminal_y ?s * 80 + terminal_x ?s) < 80 * rows"
    using unat_cell [of "terminal_y ?s" "terminal_x ?s"] assms(1,3) by simp
  note cell = store16_outside_screen [OF this assms(3,4)]
  show ?thesis
    using cell terminal_backspace_rows [OF assms(2-4), of ?s] unfolding terminal_puts_def vga_defs Let_def by auto
qed

lemma terminal_write_rows:
  assumes "unat (terminal_y s) + 2 * length cs \<le> rows" "260 \<le> rows" "rows \<le> 100000"
  shows "unat (terminal_y (terminal_write_bytes cs s)) \<le> unat (terminal_y s) + 2 * length cs
    \<and> (\<not> screen_rows rows a \<longrightarrow> mem (terminal_write_bytes cs s) a = mem s a)"
  using assms(1)
proof (induction cs arbitrary: s)
  case (Cons c cs)
  have "unat (terminal_y (terminal_puts c s)) + 2 * length cs \<le> rows"
    using Cons.prems terminal_puts_row [of c s] by simp
  from Cons.IH [OF this] show ?case
    using terminal_puts_row [of c s] terminal_puts_rows [OF _ assms(2,3), of s a c] Cons.prems
    by (auto simp: terminal_write_bytes_def)
qed (simp add: terminal_write_bytes_def)

lemma terminal_write_frame:
  assumes "cursor_ok s" "unat (terminal_y s) + 2 * length cs \<le> 80000"
  shows "unat (terminal_y (terminal_write_bytes cs s)) \<le> unat (terminal_y s) + 2 * length cs
    \<and> (\<not> screen_range a \<longrightarrow> mem (terminal_write_bytes cs s) a = mem s a)"
  using terminal_write_rows [of s cs 80000 a] screen_rows_range [of 80000 a] assms(2) by auto

lemma print_lit_frame:
  assumes "cursor_ok s" "unat (terminal_y s) + 2 * length msg \<le> 80000"
  shows "\<not> screen_range a \<Longrightarrow> mem (print_lit msg s) a = mem s a"
    and "unat (terminal_y (print_lit msg s)) \<le> unat (terminal_y s) + 2 * length msg"
    and "cursor_ok (print_lit msg s)"
  using terminal_write_frame [of "s\<lparr>terminal_fg_color := TEXT_MODE_COLORS_WHITE, terminal_bg_color := TEXT_MODE_COLORS_BLACK\<rparr>" "map of_char msg"]
    terminal_write_cursor_ok [of "s\<lparr>terminal_fg_color := TEXT_MODE_COLORS_WHITE, terminal_bg_color := TEXT_MODE_COLORS_BLACK\<rparr>" "map of_char msg"]
    assms
  by (simp_all add: print_lit_def cursor_ok_def)

section \<open>Decimal output\<close>

definition dec_digit :: "nat \<Rightarrow> u8" where
  "dec_digit d = of_nat (48 + d)"

fun dec_nat :: "nat \<Rightarrow> u8 list" where
  "dec_nat n = (if n < 10 then [dec_digit n] else dec_nat (n div 10) @ [dec_digit (n mod 10)])"

declare dec_nat.simps [simp del]

text \<open>The decimal notation of an \<^verbatim>\<open>int\<close>, the specification of \<^verbatim>\<open>printint\<close>.\<close>

definition decimal :: "int \<Rightarrow> u8 list" where
  "decimal k = (if k < 0 then 0x2D # dec_nat (nat (- k)) else dec_nat (nat k))"

text \<open>The \<open>k\<close> lowest digits of \<open>n\<close>, highest first.\<close>

fun dec_pad :: "nat \<Rightarrow> nat \<Rightarrow> u8 list" where
  "dec_pad 0 n = []"
| "dec_pad (Suc k) n = dec_digit (n div 10 ^ k) # dec_pad k (n mod 10 ^ k)"

lemma dec_pad_snoc: "dec_pad (Suc k) n = dec_pad k (n div 10) @ [dec_digit (n mod 10)]" if "n < 10 ^ Suc k"
  using that
proof (induction k arbitrary: n)
  case 0
  then show ?case by simp
next
  case (Suc k)
  have "dec_pad (Suc (Suc k)) n = dec_digit (n div 10 ^ Suc k) # dec_pad (Suc k) (n mod 10 ^ Suc k)"
    by simp
  also have "dec_pad (Suc k) (n mod 10 ^ Suc k)
      = dec_pad k (n mod 10 ^ Suc k div 10) @ [dec_digit (n mod 10 ^ Suc k mod 10)]"
    by (rule Suc.IH) simp
  also have "n mod 10 ^ Suc k div 10 = n div 10 mod 10 ^ k"
    by (simp add: mod_mult2_eq)
  also have "n mod 10 ^ Suc k mod 10 = n mod 10"
    by (simp add: mod_mod_cancel)
  finally show ?case by (simp add: div_mult2_eq)
qed

lemma dec_nat_pad: "n < 10 ^ length (dec_nat n) \<and> dec_pad (length (dec_nat n)) n = dec_nat n"
proof (induction n rule: dec_nat.induct)
  case (1 n)
  show ?case
  proof (cases "n < 10")
    case True
    then show ?thesis by (simp add: dec_nat.simps [of n])
  next
    case False
    let ?k = "length (dec_nat (n div 10))"
    have eq: "dec_nat n = dec_nat (n div 10) @ [dec_digit (n mod 10)]"
      using False by (simp add: dec_nat.simps [of n])
    have "n div 10 < 10 ^ ?k" and pad: "dec_pad ?k (n div 10) = dec_nat (n div 10)"
      using "1.IH" False by auto
    then have "n < 10 ^ Suc ?k" by (simp add: div_less_iff_less_mult mult.commute)
    then show ?thesis unfolding eq using dec_pad_snoc [of n ?k] pad by simp
  qed
qed

lemma length_dec_nat_le: "n < 10 ^ Suc k \<Longrightarrow> length (dec_nat n) \<le> Suc k"
proof (induction k arbitrary: n)
  case 0
  then show ?case by (simp add: dec_nat.simps [of n])
next
  case (Suc k)
  then have "n div 10 < 10 ^ Suc k" by (simp add: div_less_iff_less_mult mult.commute)
  then show ?case using Suc.IH by (auto simp: dec_nat.simps [of n])
qed

lemma pow_loop_eq:
  "0 < unat exp \<Longrightarrow> unat exp < 2147483648 \<Longrightarrow> pow_loop ans base exp = base * ans ^ unat exp"
proof (induction ans base exp rule: pow_loop.induct)
  case (1 ans base exp)
  show ?case
  proof (cases "1 <s exp")
    case False
    then have "unat exp = 1" using 1 by (simp add: one_sless_iff)
    then show ?thesis using False by (simp add: pow_loop.simps [of ans base exp] mult.commute)
  next
    case True
    let ?odd = "smod32 exp 2 = 1"
    let ?e = "if ?odd then exp - 1 else exp" and ?b = "if ?odd then base * ans else base"
    have e: "1 < unat exp" using True by (simp add: one_sless_iff)
    have odd: "?odd \<longleftrightarrow> odd (unat exp)"
      using 1(3) by (simp add: smod32_small word_unat_eq_iff unat_mod_distrib) presburger
    have ue: "unat ?e = (if odd (unat exp) then unat exp - 1 else unat exp)"
      using e unat_minus_one [of exp] unfolding odd by fastforce
    have half: "unat (sdiv32 ?e 2) = unat exp div 2"
      using 1(3) ue by (subst unat_sdiv32) (auto elim!: oddE)
    have "pow_loop ans base exp = pow_loop (ans * ans) ?b (sdiv32 ?e 2)"
      using True by (simp add: pow_loop.simps [of ans base exp] Let_def)
    also have "\<dots> = ?b * (ans * ans) ^ (unat exp div 2)"
      using "1.IH" [OF True refl refl refl] 1(3) e half by simp
    also have "\<dots> = base * ans ^ unat exp"
      unfolding odd by (cases "even (unat exp)")
        (auto simp: power_mult_distrib mult.assoc elim!: evenE oddE simp flip: power2_eq_square power_mult)
    finally show ?thesis .
  qed
qed

lemma num_len_loop_eq:
  assumes "num \<noteq> 0" "unat num < 2147483648"
  shows "num_len_loop num c = c + of_nat (length (dec_nat (unat num)))"
  using assms
proof (induction num c rule: num_len_loop.induct)
  case (1 num c)
  have q: "unat (sdiv32 num 10) = unat num div 10" using 1(3) by (subst unat_sdiv32) simp_all
  then have zero: "sdiv32 num 10 = 0 \<longleftrightarrow> unat num < 10" by (simp add: div_eq_0_iff flip: unat_eq_0)
  show ?case
  proof (cases "unat num < 10")
    case True
    then show ?thesis
      using 1(2) zero by (simp add: num_len_loop.simps [of num c] num_len_loop.simps [of 0] dec_nat.simps [of "unat num"])
  next
    case False
    have "num_len_loop (sdiv32 num 10) (c + 1) = c + 1 + of_nat (length (dec_nat (unat num div 10)))"
      using "1.IH" [OF 1(2)] False zero q 1(3) by simp
    then show ?thesis
      using 1(2) False by (simp add: num_len_loop.simps [of num c] dec_nat.simps [of "unat num"])
  qed
qed

lemma pow_ten:
  assumes "k \<le> 9"
  shows "\<exists>w. pow 10 (of_nat k) s = (w, s) \<and> unat w = 10 ^ k"
proof -
  have le: "(10 :: nat) ^ k \<le> 10 ^ 9" using assms by (rule power_increasing) simp
  have "(10 :: u32) ^ k = of_nat (10 ^ k)" by simp
  also have "unat \<dots> = 10 ^ k" using le by (intro unat_of_nat32) simp
  finally have u: "unat ((10 :: u32) ^ k) = 10 ^ k" .
  have k: "unat (of_nat k :: u32) = k" using assms by (intro unat_of_nat32) simp
  have neg: "\<not> (of_nat k :: u32) <s 0"
    using assms by (simp add: word_sless_alt sint_of_nat32)
  show ?thesis
  proof (cases "k = 0")
    case False
    then have "pow 10 (of_nat k) s = (10 ^ k, s)"
      using neg assms k pow_loop_eq [of "of_nat k" 10 1] by (auto simp: pow_def)
    then show ?thesis using u by simp
  qed (simp add: pow_def neg)
qed

lemma printint_loop_eq:
  assumes "i \<le> L" "unat L \<le> 10" "unat bkp < 10 ^ (unat L - unat i)" "unat bkp < 2147483648"
  shows "printint_loop bkp L i s = terminal_write_bytes (dec_pad (unat L - unat i) (unat bkp)) s"
  using assms
proof (induction bkp L i s rule: printint_loop.induct)
  case (1 bkp L i s)
  show ?case
  proof (cases "i < L")
    case False
    then show ?thesis
      using 1(2) by (simp add: printint_loop.simps [of bkp L L s] terminal_write_bytes_def)
  next
    case True
    have lt: "unat i < unat L" using True by (simp add: word_less_nat_alt)
    then obtain k where k: "unat L - unat i = Suc k" "k \<le> 9" using 1(3) by (cases "unat L - unat i") auto
    then have "unat L = unat i + 1 + k" using lt by simp
    then have "L = i + 1 + of_nat k" by (metis of_nat_1 of_nat_add word_of_nat_unat_eq)
    then have idx: "L - i - 1 = of_nat k" by simp
    obtain w where w: "pow 10 (L - i - 1) s = (w, s)" "unat w = 10 ^ k"
      using pow_ten [OF k(2), of s] unfolding idx by blast
    have "(10 :: nat) ^ k \<le> 10 ^ 9" using k(2) by (rule power_increasing) simp
    then have w31: "unat w < 2147483648" using w(2) by simp
    let ?d = "unat bkp div 10 ^ k"
    have "?d < 10" using 1(4) by (simp add: k(1) div_less_iff_less_mult mult.commute)
    have digit: "ucast (48 + sdiv32 bkp w) = dec_digit ?d"
    proof -
      have "sdiv32 bkp w = of_nat ?d" using unat_sdiv32 [OF 1(5) w31] w(2) by (metis word_of_nat_unat_eq)
      then have "48 + sdiv32 bkp w = of_nat (48 + ?d)" by simp
      moreover have "take_bit LENGTH(32) (48 + ?d) = 48 + ?d"
        using \<open>?d < 10\<close> by (intro take_bit_nat_eq_self) simp
      ultimately show ?thesis by (simp only: dec_digit_def unsigned_of_nat)
    qed
    have rest: "unat (smod32 bkp w) = unat bkp mod 10 ^ k" using unat_smod32 [OF 1(5) w31] w(2) by simp
    have k': "unat L - Suc (unat i) = k" using k(1) by simp
    have i1: "unat (i + 1) = Suc (unat i)" using True by (rule unat_Suc_word)
    have "printint_loop (smod32 bkp w) L (i + 1) (terminal_puts (dec_digit ?d) s)
        = terminal_write_bytes (dec_pad k (unat bkp mod 10 ^ k)) (terminal_puts (dec_digit ?d) s)"
      using "1.IH" [OF True w(1) [symmetric] refl] 1(3,5) lt digit w31
      using k' order_le_less_trans [OF mod_less_eq_dividend 1(5), of "10 ^ k"]
      by (simp add: rest i1 word_le_nat_alt)
    then show ?thesis
      using True w(1) digit
      by (simp add: k(1) printint_loop.simps [of bkp L i s] terminal_write_bytes_def)
  qed
qed

text \<open>\<^verbatim>\<open>printint\<close> outputs the decimal notation, for every \<^verbatim>\<open>int\<close> but the smallest, whose
  negation overflows.\<close>

lemma printint_decimal:
  assumes "num \<noteq> 0x80000000"
  shows "printint num s = terminal_write_bytes (decimal (sint num)) s"
proof -
  have pos: "printint_loop n (num_len_loop n 0) 0 s' = terminal_write_bytes (dec_nat (unat n)) s'"
    if n: "n \<noteq> 0" "unat n < 2147483648" for n and s' :: "'a console_scheme"
  proof -
    let ?L = "length (dec_nat (unat n))"
    have "?L \<le> 10" using length_dec_nat_le [of "unat n" 9] n(2) by simp
    then have "unat (num_len_loop n 0) = ?L"
      using num_len_loop_eq [OF n, of 0] by (simp add: unat_of_nat32)
    then show ?thesis
      using dec_nat_pad [of "unat n"] n(2) \<open>?L \<le> 10\<close>
      by (subst printint_loop_eq) simp_all
  qed
  show ?thesis
  proof (cases "num <s 0")
    case True
    then have neg: "sint num < 0" by (simp add: word_sless_alt)
    have "sint num \<noteq> - 2147483648"
    proof
      assume "sint num = - 2147483648"
      moreover have "num = word_of_int (sint num)" by simp
      ultimately have "num = word_of_int (- 2147483648)" by (simp only:)
      then show False using assms by simp
    qed
    then have k: "- 2147483648 < sint num" using sint_ge [of num] by simp
    have "num * (- 1) = of_nat (nat (- sint num))" using neg by simp
    then have u: "unat (num * (- 1)) = nat (- sint num)" using k by (simp only: unat_of_nat32)
    then show ?thesis
      using True neg k pos [of "num * (- 1)"]
      by (auto simp: printint_def decimal_def terminal_write_bytes_def)
  next
    case False
    then have nn: "unat num < 2147483648" by (simp add: word_sless_alt linorder_not_less sint_nonneg_iff)
    then have "sint num = int (unat num)" by (simp add: sint_small)
    then show ?thesis
      using False nn pos [of num] by (cases "num = 0")
        (auto simp: printint_def decimal_def terminal_write_bytes_def dec_nat.simps [of 0] dec_digit_def)
  qed
qed

section \<open>Properties\<close>

text \<open>Whatever is written to the terminal (line feeds, backspaces, tabs and carriage returns
  included), the cursor column never leaves the line.\<close>

theorem terminal_column_invariant:
  assumes "terminal_x s \<le> 80"
  shows "terminal_x (terminal_write_bytes cs s) \<le> 80"
  using terminal_write_cursor_ok [of s cs] assms by (simp add: cursor_ok_def)

definition blank_console :: console where
  "blank_console = \<lparr>mem = (\<lambda>_. 0), terminal_x = 0, terminal_y = 0, terminal_fg_color = 15, terminal_bg_color = 0\<rparr>"

theorem terminal_column_invariant_witness:
  "terminal_x blank_console \<le> 80 \<and> terminal_x (terminal_write_bytes [0x41, 0x09, 0x08] blank_console) \<le> 80"
  using terminal_column_invariant [of blank_console "[0x41, 0x09, 0x08]"] by (simp add: blank_console_def)

text \<open>A text of characters other than the four control characters fills as many consecutive
  screen cells from the cursor on, in order and in the current colours, leaves every other cell, and
  moves the cursor by its length.\<close>

theorem terminal_writes_cells:
  assumes "list_all printable cs" "cursor_ok s" "cursor_cell s + length cs < 1073741823" "k < 1073741824"
  shows "cursor_cell (terminal_write_bytes cs s) = cursor_cell s + length cs
    \<and> vga_cell (terminal_write_bytes cs s) k =
       (if cursor_cell s \<le> k \<and> k < cursor_cell s + length cs
        then VGA_make_char (cs ! (k - cursor_cell s)) (terminal_fg_color s) (terminal_bg_color s)
        else vga_cell s k)"
  using terminal_write_printable [OF assms(1-3)] assms(4) by blast

theorem terminal_writes_cells_witness:
  "cursor_ok blank_console \<and> cursor_cell (terminal_write_bytes [0x48, 0x69] blank_console) = 2
   \<and> vga_cell (terminal_write_bytes [0x48, 0x69] blank_console) 1 = 0x0F69"
proof -
  have h: "list_all printable [0x48, 0x69]" "cursor_ok blank_console"
    "cursor_cell blank_console + length [0x48 :: u8, 0x69] < 1073741823" "(1::nat) < 1073741824"
    by (simp_all add: printable_def cursor_ok_def blank_console_def cursor_cell_def)
  have "VGA_make_char 0x69 15 0 = 0x0F69" by (simp add: VGA_make_char_def)
  then show ?thesis
    using terminal_writes_cells [OF h] h(2) by (simp add: blank_console_def cursor_cell_def)
qed

text \<open>\<^verbatim>\<open>printint\<close> writes the decimal notation of its argument, sign included, for every
  \<^verbatim>\<open>int\<close> but the smallest, whose negation overflows.\<close>

theorem printint_writes_decimal:
  assumes "num \<noteq> 0x80000000"
  shows "printint num s = terminal_write_bytes (decimal (sint num)) s"
  using assms by (rule printint_decimal)

theorem printint_writes_decimal_witness:
  "(- 120 :: u32) \<noteq> 0x80000000 \<and>
   printint (- 120) blank_console = terminal_write_bytes [0x2D, 0x31, 0x32, 0x30] blank_console"
proof -
  have "decimal (- 120) = [0x2D, 0x31, 0x32, 0x30]"
    by (simp add: decimal_def dec_nat.simps dec_digit_def)
  then show ?thesis using printint_writes_decimal [of "- 120" blank_console] by simp
qed

text \<open>Output confined: while the cursor's row stays below 80000, whatever is written changes no byte
  below the text buffer (the heap's block table among them) and none from 16 MiB on (the kernel
  heap).\<close>

theorem terminal_output_confined:
  assumes "cursor_ok s" "unat (terminal_y s) + 2 * length cs \<le> 80000"
    "unat a < 0xB8000 \<or> 0x1000000 \<le> unat a"
  shows "mem (terminal_write_bytes cs s) a = mem s a"
  using terminal_write_frame [OF assms(1,2), of a] assms(3) by (auto simp: screen_range_def)

theorem terminal_output_confined_witness:
  "cursor_ok blank_console \<and> mem (terminal_write_bytes [0x0A, 0x41] blank_console) 0x7E00 = 0"
  using terminal_output_confined [of blank_console "[0x0A, 0x41]" "0x7E00"]
  by (simp add: cursor_ok_def blank_console_def)

end
