(* ===== verification/KHeap.thy ===== *)
theory KHeap
  imports HeapSpec TerminalSpec
begin

text \<open>
  The kernel heap of \<^verbatim>\<open>src/kernel/memory/heap/kheap.c\<close>: its globals, \<^verbatim>\<open>kheap_init\<close>,
  \<^verbatim>\<open>kmalloc\<close>, \<^verbatim>\<open>kzalloc\<close> and \<^verbatim>\<open>kfree\<close>. The locale \<open>allocator\<close> is the contract the other kernel
  components rely on; it is interpreted on these operations.
\<close>

section \<open>State and operations\<close>

text \<open>The globals \<^verbatim>\<open>kernel_heap\<close> and \<^verbatim>\<open>kernel_heap_table\<close>.\<close>

record kstate = console +
  kernel_heap :: heap

definition kheap_init :: "'a kstate_scheme \<Rightarrow> (unit, 'a kstate_scheme) outcome" where
  "kheap_init s =
     (let tbl = \<lparr>entries = HEAP_TABLE_ADDRESS, total_entries = HEAP_MAX_HEAP_BLOCKS_ENTRIES\<rparr>;
          end_ptr = HEAP_BASE_ADDRESS + HEAP_MAX_HEAP_SIZE;
          (res, h, m) = make_heap (kernel_heap s) HEAP_BASE_ADDRESS end_ptr tbl (mem s);
          s1 = s\<lparr>mem := m, kernel_heap := h\<rparr>
      in if res <s 0 then Halted (kernel_panic (''failed to create heap!'' @ [CHR 10]) s1)
         else Ret () (print_lit (CHR 10 # ''Heap initiated.'' @ [CHR 10]) s1))"

definition kmalloc :: "u32 \<Rightarrow> 'a kstate_scheme \<Rightarrow> u32 \<times> 'a kstate_scheme" where
  "kmalloc sz s = (let (p, m) = heap_alloc (kernel_heap s) sz (mem s) in (p, s\<lparr>mem := m\<rparr>))"

definition kzalloc :: "u32 \<Rightarrow> 'a kstate_scheme \<Rightarrow> u32 \<times> 'a kstate_scheme" where
  "kzalloc sz s =
     (let (ptr, s1) = kmalloc sz s
      in if ptr = 0 then (0, s1) else (ptr, s1\<lparr>mem := memset (mem s1) ptr 0 sz\<rparr>))"

definition kfree :: "u32 \<Rightarrow> 'a kstate_scheme \<Rightarrow> 'a kstate_scheme" where
  "kfree ptr s = s\<lparr>mem := heap_free (kernel_heap s) ptr (mem s)\<rparr>"

section \<open>The allocator contract\<close>

text \<open>
  What a client of an allocator relies on. \<open>live s\<close> is the set of regions \<open>(address, bytes)\<close>
  handed out and not yet released; \<open>reserved\<close> marks the addresses the allocator keeps its own data
  in; \<open>peek\<close> reads a byte of the state; \<open>room s sz\<close> says that a request of \<open>sz\<close> bytes fits.
\<close>

locale allocator =
  fixes ok :: "'s \<Rightarrow> bool"
    and live :: "'s \<Rightarrow> (nat \<times> nat) set"
    and room :: "u32 \<Rightarrow> 's \<Rightarrow> bool"
    and alloc :: "u32 \<Rightarrow> 's \<Rightarrow> u32 \<times> 's"
    and release :: "u32 \<Rightarrow> 's \<Rightarrow> 's"
    and peek :: "'s \<Rightarrow> u32 \<Rightarrow> u8"
    and reserved :: "u32 \<Rightarrow> bool"
  assumes live_disjoint: "ok s \<Longrightarrow> (p, n) \<in> live s \<Longrightarrow> (q, k) \<in> live s \<Longrightarrow>
      p \<le> x \<Longrightarrow> x < p + n \<Longrightarrow> q \<le> x \<Longrightarrow> x < q + k \<Longrightarrow> (p, n) = (q, k)"
    and live_bounds: "ok s \<Longrightarrow> (p, n) \<in> live s \<Longrightarrow> 0 < p \<and> 0 < n \<and> p + n \<le> 4294967296"
    and live_public: "ok s \<Longrightarrow> (p, n) \<in> live s \<Longrightarrow> p \<le> unat a \<Longrightarrow> unat a < p + n \<Longrightarrow> \<not> reserved a"
    and alloc_ok: "ok s \<Longrightarrow> room sz s \<Longrightarrow> ok (snd (alloc sz s))"
    and alloc_live: "ok s \<Longrightarrow> room sz s \<Longrightarrow>
      \<exists>n \<ge> unat sz. (unat (fst (alloc sz s)), n) \<notin> live s
        \<and> live (snd (alloc sz s)) = insert (unat (fst (alloc sz s)), n) (live s)"
    and alloc_frame: "ok s \<Longrightarrow> room sz s \<Longrightarrow> \<not> reserved a \<Longrightarrow> peek (snd (alloc sz s)) a = peek s a"
    and release_ok: "ok s \<Longrightarrow> (unat ptr, n) \<in> live s \<Longrightarrow> ok (release ptr s)"
    and release_live: "ok s \<Longrightarrow> (unat ptr, n) \<in> live s \<Longrightarrow> live (release ptr s) = live s - {(unat ptr, n)}"
    and release_frame: "ok s \<Longrightarrow> (unat ptr, n) \<in> live s \<Longrightarrow> \<not> reserved a \<Longrightarrow> peek (release ptr s) a = peek s a"
begin

text \<open>The bytes a request is given do not meet any region that was live before.\<close>

lemma alloc_fresh:
  assumes "ok s" "room sz s" "(q, k) \<in> live s" "q \<le> a" "a < q + k"
  shows "\<not> (unat (fst (alloc sz s)) \<le> a \<and> a < unat (fst (alloc sz s)) + unat sz)"
proof
  let ?p = "unat (fst (alloc sz s))"
  assume a: "?p \<le> a \<and> a < ?p + unat sz"
  obtain n where n: "unat sz \<le> n" "(?p, n) \<notin> live s" "live (snd (alloc sz s)) = insert (?p, n) (live s)"
    using alloc_live [OF assms(1,2)] by blast
  then have "(?p, n) = (q, k)"
    using a assms by (intro live_disjoint [OF alloc_ok [OF assms(1,2)], of ?p n q k a]) auto
  then show False using n(2) assms(3) by simp
qed

lemma alloc_not_null: "ok s \<Longrightarrow> room sz s \<Longrightarrow> fst (alloc sz s) \<noteq> 0"
  using alloc_live [of s sz] live_bounds [OF alloc_ok [of s sz]] by fastforce

text \<open>Two successive requests get regions that do not meet.\<close>

lemma alloc_twice_disjoint:
  assumes "ok s" "room sz s" "room sz' (snd (alloc sz s))"
    "unat (fst (alloc sz s)) \<le> a" "a < unat (fst (alloc sz s)) + unat sz"
  shows "\<not> (unat (fst (alloc sz' (snd (alloc sz s)))) \<le> a
    \<and> a < unat (fst (alloc sz' (snd (alloc sz s)))) + unat sz')"
proof -
  obtain n where "unat sz \<le> n" "(unat (fst (alloc sz s)), n) \<in> live (snd (alloc sz s))"
    using alloc_live [OF assms(1,2)] by auto
  then show ?thesis
    using alloc_fresh [OF alloc_ok [OF assms(1,2)] assms(3)] assms(4,5) by auto
qed

lemma alloc_release_live:
  assumes "ok s" "room sz s"
  shows "ok (release (fst (alloc sz s)) (snd (alloc sz s)))"
    and "live (release (fst (alloc sz s)) (snd (alloc sz s))) = live s"
proof -
  obtain n where n: "(unat (fst (alloc sz s)), n) \<notin> live s"
      "live (snd (alloc sz s)) = insert (unat (fst (alloc sz s)), n) (live s)"
    using alloc_live [OF assms] by blast
  note ok = alloc_ok [OF assms]
  show "ok (release (fst (alloc sz s)) (snd (alloc sz s)))"
    using n by (intro release_ok [OF ok, of _ n]) simp
  show "live (release (fst (alloc sz s)) (snd (alloc sz s))) = live s"
    using n release_live [OF ok, of "fst (alloc sz s)" n] by auto
qed

text \<open>A live region keeps its bytes while others are requested and released.\<close>

lemma live_kept:
  assumes "ok s" "(q, k) \<in> live s" "q \<le> unat a" "unat a < q + k"
  shows "room sz s \<Longrightarrow> peek (snd (alloc sz s)) a = peek s a"
    and "(unat ptr, n) \<in> live s \<Longrightarrow> peek (release ptr s) a = peek s a"
  using alloc_frame release_frame live_public assms by blast+

end

text \<open>A request that also clears the bytes it was asked for.\<close>

locale zeroing_allocator = allocator +
  fixes zalloc :: "u32 \<Rightarrow> 's \<Rightarrow> u32 \<times> 's"
  assumes zalloc_ptr: "ok s \<Longrightarrow> room sz s \<Longrightarrow> fst (zalloc sz s) = fst (alloc sz s)"
    and zalloc_ok: "ok s \<Longrightarrow> room sz s \<Longrightarrow> ok (snd (zalloc sz s))"
    and zalloc_live: "ok s \<Longrightarrow> room sz s \<Longrightarrow> live (snd (zalloc sz s)) = live (snd (alloc sz s))"
    and zalloc_peek: "ok s \<Longrightarrow> room sz s \<Longrightarrow> \<not> reserved a \<Longrightarrow> peek (snd (zalloc sz s)) a =
      (if unat (fst (alloc sz s)) \<le> unat a \<and> unat a < unat (fst (alloc sz s)) + unat sz then 0 else peek s a)"
begin

lemma zalloc_zero:
  assumes "ok s" "room sz s" "i < unat sz"
  shows "peek (snd (zalloc sz s)) (fst (zalloc sz s) + of_nat i) = 0"
proof -
  let ?p = "fst (alloc sz s)"
  obtain n where n: "unat sz \<le> n" "(unat ?p, n) \<in> live (snd (alloc sz s))"
    using alloc_live [OF assms(1,2)] by auto
  note ok = alloc_ok [OF assms(1,2)]
  have "unat ?p + n \<le> 4294967296" using live_bounds [OF ok n(2)] by simp
  then have a: "unat (?p + of_nat i) = unat ?p + i"
    using n(1) assms(3) by (simp add: unat_word_ariths unat_of_nat32)
  then have "\<not> reserved (?p + of_nat i)"
    using n(1) assms(3) by (intro live_public [OF ok n(2)]) simp_all
  then show ?thesis using a assms by (simp add: zalloc_peek zalloc_ptr)
qed

lemma zalloc_live_kept:
  assumes "ok s" "room sz s" "(q, k) \<in> live s" "q \<le> unat a" "unat a < q + k"
  shows "peek (snd (zalloc sz s)) a = peek s a"
  using zalloc_peek [OF assms(1,2)] live_public [OF assms(1,3,4,5)] alloc_fresh [OF assms] by auto

end

section \<open>The kernel heap meets the contract\<close>

text \<open>The invariant of the kernel heap, its live regions in bytes and the free room.\<close>

definition kernel_heap_layout :: heap where
  "kernel_heap_layout = \<lparr>table = \<lparr>entries = 0x7E00, total_entries = 25600\<rparr>, base_addr = 0x01000000\<rparr>"

definition kheap_ok :: "'a kstate_scheme \<Rightarrow> bool" where
  "kheap_ok s \<longleftrightarrow> kernel_heap s = kernel_heap_layout \<and> table_inv (table_bytes kernel_heap_layout (mem s))"

definition kheap_live :: "'a kstate_scheme \<Rightarrow> (nat \<times> nat) set" where
  "kheap_live s = (\<lambda>(b, n). (16777216 + 4096 * b, 4096 * n)) ` live_runs (table_bytes kernel_heap_layout (mem s))"

definition kheap_room :: "u32 \<Rightarrow> 'a kstate_scheme \<Rightarrow> bool" where
  "kheap_room sz s \<longleftrightarrow> 0 < sz \<and> unat sz \<le> 4294963200
     \<and> first_fit (table_bytes kernel_heap_layout (mem s)) (blocks_needed sz) \<noteq> None"

abbreviation kheap_reserved :: "u32 \<Rightarrow> bool" where
  "kheap_reserved \<equiv> in_table kernel_heap_layout"

lemma layout_sel [simp]:
  "base_addr kernel_heap_layout = 0x01000000" "entries (table kernel_heap_layout) = 0x7E00"
  "total_entries (table kernel_heap_layout) = 25600"
  by (simp_all add: kernel_heap_layout_def)

lemma layout_geometry: "heap_geometry kernel_heap_layout"
  by (simp add: heap_geometry_def)

lemma live_run_bounds: "(b, n) \<in> live_runs (table_bytes kernel_heap_layout m) \<Longrightarrow> 0 < n \<and> b + n \<le> 25600"
  by (auto simp: live_runs_def run_at_def)

lemma kheap_reserved_iff: "kheap_reserved a \<longleftrightarrow> 0x7E00 \<le> unat a \<and> unat a < 0xE200"
proof -
  have "a - 0x7E00 < 25600 \<longleftrightarrow> 0x7E00 \<le> a \<and> a < 0xE200"
    by unat_arith auto
  then show ?thesis by (simp add: in_table_def in_region_def word_le_nat_alt word_less_nat_alt)
qed

lemma kheap_live_iff:
  "(p, k) \<in> kheap_live s \<longleftrightarrow> (\<exists>b n. (b, n) \<in> live_runs (table_bytes kernel_heap_layout (mem s))
     \<and> p = 16777216 + 4096 * b \<and> k = 4096 * n)"
  by (auto simp: kheap_live_def)

lemma kmalloc_room:
  assumes "kheap_ok s" "kheap_room sz s"
  obtains b where
    "0 < blocks_needed sz"
    "table_fits (table_bytes kernel_heap_layout (mem s)) (blocks_needed sz) b"
    "b + blocks_needed sz \<le> 25600"
    "unat sz \<le> 4096 * blocks_needed sz"
    "unat (fst (kmalloc sz s)) = 16777216 + 4096 * b"
    "snd (kmalloc sz s) = s\<lparr>mem := heap_mark_blocks_as_taken kernel_heap_layout (of_nat b) (of_nat (blocks_needed sz)) (mem s)\<rparr>"
proof -
  let ?t = "table_bytes kernel_heap_layout (mem s)"
  have h: "kernel_heap s = kernel_heap_layout" using assms(1) by (simp add: kheap_ok_def)
  obtain b where b: "first_fit ?t (blocks_needed sz) = Some b" "0 < sz" "unat sz \<le> 4294963200"
    using assms(2) by (auto simp: kheap_room_def)
  have pos: "0 < blocks_needed sz" using b(2) by (simp add: blocks_needed_def word_less_nat_alt)
  have fits: "table_fits ?t (blocks_needed sz) b" using b(1) first_fit_Some [OF pos] by blast
  then have le: "b + blocks_needed sz \<le> 25600" by (simp add: fits_def)
  have res: "heap_alloc kernel_heap_layout sz (mem s) = (heap_block_to_address kernel_heap_layout (of_nat b),
      heap_mark_blocks_as_taken kernel_heap_layout (of_nat b) (of_nat (blocks_needed sz)) (mem s))"
    by (rule heap_alloc_first_fit [OF layout_geometry b(2,3,1)])
  have "unat (heap_block_to_address kernel_heap_layout (of_nat b)) = 16777216 + 4096 * b"
    using unat_block_address [OF layout_geometry, of b] le by (simp add: run_addr_def)
  then show thesis
    using that [OF pos fits le] res h by (simp add: kmalloc_def blocks_needed_def)
qed

lemma kmalloc_table:
  assumes "kheap_ok s" "kheap_room sz s"
  obtains b where
    "table_fits (table_bytes kernel_heap_layout (mem s)) (blocks_needed sz) b"
    "0 < blocks_needed sz" "unat sz \<le> 4096 * blocks_needed sz"
    "unat (fst (kmalloc sz s)) = 16777216 + 4096 * b"
    "table_bytes kernel_heap_layout (mem (snd (kmalloc sz s))) = take_run (table_bytes kernel_heap_layout (mem s)) b (blocks_needed sz)"
proof -
  from kmalloc_room [OF assms] obtain b where b: "0 < blocks_needed sz"
    "table_fits (table_bytes kernel_heap_layout (mem s)) (blocks_needed sz) b"
    "b + blocks_needed sz \<le> 25600" "unat sz \<le> 4096 * blocks_needed sz"
    "unat (fst (kmalloc sz s)) = 16777216 + 4096 * b"
    "snd (kmalloc sz s) = s\<lparr>mem := heap_mark_blocks_as_taken kernel_heap_layout (of_nat b) (of_nat (blocks_needed sz)) (mem s)\<rparr>"
    by blast
  show thesis
    by (rule that [OF b(2,1,4,5)]) (use table_bytes_mark [OF b(1) _ layout_geometry] b(3,6) in simp)
qed

lemma kmalloc_kernel_heap [simp]: "kernel_heap (snd (kmalloc sz s)) = kernel_heap s"
  by (simp add: kmalloc_def split: prod.split)

lemma kfree_table:
  assumes "kheap_ok s" "(unat p, k) \<in> kheap_live s"
  obtains b n where "run_at (table_bytes kernel_heap_layout (mem s)) b n"
    "unat p = 16777216 + 4096 * b" "k = 4096 * n"
    "kfree p s = s\<lparr>mem := heap_mark_blocks_as_free kernel_heap_layout (of_nat b) (mem s)\<rparr>"
    "table_bytes kernel_heap_layout (mem (kfree p s)) = drop_run (table_bytes kernel_heap_layout (mem s)) b n"
proof -
  obtain b n where bn: "run_at (table_bytes kernel_heap_layout (mem s)) b n"
      "unat p = 16777216 + 4096 * b" "k = 4096 * n"
    using assms(2) by (auto simp: kheap_live_iff live_runs_def)
  have "heap_address_to_block kernel_heap_layout p = of_nat b"
    using bn by (intro address_to_block [OF layout_geometry]) (auto simp: run_addr_def run_at_def)
  then have eq: "kfree p s = s\<lparr>mem := heap_mark_blocks_as_free kernel_heap_layout (of_nat b) (mem s)\<rparr>"
    using assms(1) by (simp add: kfree_def heap_free_def kheap_ok_def)
  then show thesis using that [OF bn eq] table_bytes_free [OF bn(1)] by simp
qed

lemma kheap_live_take:
  assumes "table_fits t n b" "0 < n" "t' = take_run t b n"
  shows "(\<lambda>(b, n). (16777216 + 4096 * b, 4096 * n)) ` live_runs t' =
    insert (16777216 + 4096 * b, 4096 * n) ((\<lambda>(b, n). (16777216 + 4096 * b, 4096 * n)) ` live_runs t)"
  unfolding assms(3) live_runs_take_run [OF assms(2,1)] by simp

lemma fits_run_not_live: "table_fits t n b \<Longrightarrow> 0 < n \<Longrightarrow> (b, k) \<notin> live_runs t"
  using table_fits_not_live [of t n b b k b] unfolding live_runs_def run_at_def by fastforce

lemma kmalloc_live:
  assumes "kheap_ok s" "kheap_room sz s"
  shows "\<exists>n \<ge> unat sz. (unat (fst (kmalloc sz s)), n) \<notin> kheap_live s
    \<and> kheap_live (snd (kmalloc sz s)) = insert (unat (fst (kmalloc sz s)), n) (kheap_live s)"
proof -
  from kmalloc_table [OF assms] obtain b where
    b: "table_fits (table_bytes kernel_heap_layout (mem s)) (blocks_needed sz) b"
      "0 < blocks_needed sz" "unat sz \<le> 4096 * blocks_needed sz"
      "unat (fst (kmalloc sz s)) = 16777216 + 4096 * b"
      "table_bytes kernel_heap_layout (mem (snd (kmalloc sz s))) = take_run (table_bytes kernel_heap_layout (mem s)) b (blocks_needed sz)"
    by blast
  show ?thesis
    using kheap_live_take [OF b(1,2,5)] fits_run_not_live [OF b(1,2)] b(3,4)
    by (intro exI [of _ "4096 * blocks_needed sz"]) (auto simp: kheap_live_def)
qed

lemma kmalloc_ok:
  assumes "kheap_ok s" "kheap_room sz s"
  shows "kheap_ok (snd (kmalloc sz s))"
proof -
  from kmalloc_table [OF assms] obtain b where
    b: "table_fits (table_bytes kernel_heap_layout (mem s)) (blocks_needed sz) b" "0 < blocks_needed sz"
      "table_bytes kernel_heap_layout (mem (snd (kmalloc sz s))) = take_run (table_bytes kernel_heap_layout (mem s)) b (blocks_needed sz)"
    by blast
  then show ?thesis using assms(1) table_inv_take_run [OF _ b(2,1)] by (simp add: kheap_ok_def)
qed

lemma kmalloc_frame:
  assumes "kheap_ok s" "kheap_room sz s" "\<not> kheap_reserved a"
  shows "mem (snd (kmalloc sz s)) a = mem s a"
proof -
  from kmalloc_room [OF assms(1,2)] obtain b where b: "0 < blocks_needed sz" "b + blocks_needed sz \<le> 25600"
    "snd (kmalloc sz s) = s\<lparr>mem := heap_mark_blocks_as_taken kernel_heap_layout (of_nat b) (of_nat (blocks_needed sz)) (mem s)\<rparr>"
    by blast
  show ?thesis unfolding b(3) using mark_outside_table [OF b(1) _ layout_geometry assms(3)] b(2) by simp
qed

lemma kheap_live_disjoint:
  assumes "(p, n) \<in> kheap_live s" "(q, k) \<in> kheap_live s" "p \<le> x" "x < p + n" "q \<le> x" "x < q + k"
  shows "(p, n) = (q, k)"
proof -
  obtain b i b' i' where r: "(b, i) \<in> live_runs (table_bytes kernel_heap_layout (mem s))"
      "(b', i') \<in> live_runs (table_bytes kernel_heap_layout (mem s))"
      "p = 16777216 + 4096 * b" "n = 4096 * i" "q = 16777216 + 4096 * b'" "k = 4096 * i'"
    using assms(1,2) by (auto simp: kheap_live_iff)
  let ?c = "(x - 16777216) div 4096"
  have "b \<le> ?c" "?c < b + i" "b' \<le> ?c" "?c < b' + i'" using assms(3-) unfolding r(3-) by auto
  then have "(b, i) = (b', i')" using live_runs_disjoint [OF r(1,2)] by blast
  then show ?thesis using r by simp
qed

lemma kheap_live_bounds:
  assumes "(p, n) \<in> kheap_live s"
  shows "16777216 \<le> p \<and> 0 < n \<and> p + n \<le> 121634816"
  using assms live_run_bounds by (fastforce simp: kheap_live_iff)

lemma kfree_ok:
  assumes "kheap_ok s" "(unat p, n) \<in> kheap_live s"
  shows "kheap_ok (kfree p s)" "kheap_live (kfree p s) = kheap_live s - {(unat p, n)}"
proof -
  from kfree_table [OF assms] obtain b k where
    b: "(b, k) \<in> live_runs (table_bytes kernel_heap_layout (mem s))" "unat p = 16777216 + 4096 * b" "n = 4096 * k"
      "table_bytes kernel_heap_layout (mem (kfree p s)) = drop_run (table_bytes kernel_heap_layout (mem s)) b k"
    unfolding live_runs_def by blast
  show "kheap_ok (kfree p s)"
    using assms(1) table_inv_drop_run [OF _ b(1)] b(4) by (simp add: kheap_ok_def kfree_def)
  show "kheap_live (kfree p s) = kheap_live s - {(unat p, n)}"
    unfolding kheap_live_def b(4) live_runs_drop_run [OF b(1)] unfolding b(2,3) by auto
qed

lemma kfree_frame:
  assumes "kheap_ok s" "(unat p, n) \<in> kheap_live s" "\<not> kheap_reserved a"
  shows "mem (kfree p s) a = mem s a"
proof -
  from kfree_table [OF assms(1,2)] obtain b k where b: "run_at (table_bytes kernel_heap_layout (mem s)) b k"
    "kfree p s = s\<lparr>mem := heap_mark_blocks_as_free kernel_heap_layout (of_nat b) (mem s)\<rparr>" by blast
  show ?thesis unfolding b(2) using free_outside_table [OF b(1) assms(3)] by simp
qed

lemma kheap_live_public:
  "(p, n) \<in> kheap_live s \<Longrightarrow> p \<le> unat a \<Longrightarrow> unat a < p + n \<Longrightarrow> \<not> kheap_reserved a"
  using kheap_live_bounds unfolding kheap_reserved_iff by fastforce

interpretation kh: allocator kheap_ok kheap_live kheap_room kmalloc kfree mem kheap_reserved
proof (unfold_locales, goal_cases)
  case (1 s p n q k x)
  then show ?case using kheap_live_disjoint by blast
next
  case (2 s p n)
  then show ?case using kheap_live_bounds by fastforce
next
  case (3 s p n a)
  then show ?case using kheap_live_public by blast
qed (rule kmalloc_ok kmalloc_live kmalloc_frame kfree_ok kfree_frame; assumption)+

lemma kzalloc_room:
  assumes "kheap_ok s" "kheap_room sz s"
  shows "kzalloc sz s = (fst (kmalloc sz s), (snd (kmalloc sz s))
    \<lparr>mem := memset (mem (snd (kmalloc sz s))) (fst (kmalloc sz s)) 0 sz\<rparr>)"
  using kh.alloc_not_null [OF assms] by (cases "kmalloc sz s") (simp add: kzalloc_def)

lemma kmalloc_region:
  assumes "kheap_ok s" "kheap_room sz s"
  shows "in_region (fst (kmalloc sz s)) sz a \<longleftrightarrow>
      unat (fst (kmalloc sz s)) \<le> unat a \<and> unat a < unat (fst (kmalloc sz s)) + unat sz"
    and "in_region (fst (kmalloc sz s)) sz a \<Longrightarrow> \<not> kheap_reserved a"
proof -
  obtain n where n: "unat sz \<le> n" "(unat (fst (kmalloc sz s)), n) \<in> kheap_live (snd (kmalloc sz s))"
    using kmalloc_live [OF assms] by auto
  show "in_region (fst (kmalloc sz s)) sz a \<longleftrightarrow>
      unat (fst (kmalloc sz s)) \<le> unat a \<and> unat a < unat (fst (kmalloc sz s)) + unat sz"
    using kheap_live_bounds [OF n(2)] n(1) by (intro in_region_interval) simp
  then show "in_region (fst (kmalloc sz s)) sz a \<Longrightarrow> \<not> kheap_reserved a"
    using kheap_live_public [OF n(2), of a] n(1) by simp
qed

lemma kzalloc_table:
  assumes "kheap_ok s" "kheap_room sz s"
  shows "table_bytes kernel_heap_layout (mem (snd (kzalloc sz s)))
    = table_bytes kernel_heap_layout (mem (snd (kmalloc sz s)))"
proof -
  have "\<not> in_region (fst (kmalloc sz s)) sz (0x7E00 + of_nat i)" if "i < 25600" for i
  proof -
    have "unat ((0x7E00 :: u32) + of_nat i) = 0x7E00 + i"
      using that by (simp add: unat_word_ariths unat_of_nat32)
    then have "kheap_reserved (0x7E00 + of_nat i)" using that unfolding kheap_reserved_iff by simp
    then show ?thesis using kmalloc_region(2) [OF assms] by blast
  qed
  then show ?thesis
    by (auto simp: table_bytes_def kzalloc_room [OF assms] memset_apply intro!: bytes_cong)
qed

interpretation khz: zeroing_allocator kheap_ok kheap_live kheap_room kmalloc kfree mem kheap_reserved kzalloc
proof (unfold_locales, goal_cases)
  case (1 s sz)
  then show ?case by (simp add: kzalloc_room)
next
  case (2 s sz)
  then show ?case
    using kzalloc_table [OF 2] kmalloc_ok [OF 2] by (simp add: kheap_ok_def kzalloc_room)
next
  case (3 s sz)
  then show ?case by (simp add: kheap_live_def kzalloc_table)
next
  case (4 s sz a)
  then show ?case by (simp add: kzalloc_room memset_apply kmalloc_region(1) kmalloc_frame)
qed

text \<open>Every byte of the table is an entry, so two memories with the same table agree on it.\<close>

lemma reserved_byte:
  assumes "kheap_reserved a" "table_bytes kernel_heap_layout m = table_bytes kernel_heap_layout m'"
  shows "m a = m' a"
proof -
  let ?i = "unat (a - 0x7E00)"
  have i: "?i < 25600" using assms(1) by (simp add: in_table_def in_region_def word_less_nat_alt)
  then have "table_bytes kernel_heap_layout m ! ?i = m a" "table_bytes kernel_heap_layout m' ! ?i = m' a"
    by (simp_all add: table_bytes_def)
  then show ?thesis using assms(2) by simp
qed

lemma kmalloc_kfree_table:
  assumes "kheap_ok s" "kheap_room sz s"
  shows "table_bytes kernel_heap_layout (mem (kfree (fst (kmalloc sz s)) (snd (kmalloc sz s))))
    = table_bytes kernel_heap_layout (mem s)"
proof -
  let ?t = "table_bytes kernel_heap_layout (mem s)" and ?p = "fst (kmalloc sz s)" and ?s = "snd (kmalloc sz s)"
  from kmalloc_table [OF assms] obtain b where
    b: "table_fits ?t (blocks_needed sz) b" "0 < blocks_needed sz" "unat ?p = 16777216 + 4096 * b"
      "table_bytes kernel_heap_layout (mem ?s) = take_run ?t b (blocks_needed sz)"
    by blast
  have run: "run_at (table_bytes kernel_heap_layout (mem ?s)) b (blocks_needed sz)"
    unfolding b(4) using b(1,2) by (intro run_at_take_run) (auto simp: fits_def)
  have "heap_address_to_block kernel_heap_layout ?p = of_nat b"
    using b(1,3) by (intro address_to_block [OF layout_geometry]) (auto simp: run_addr_def fits_def)
  then have "mem (kfree ?p ?s) = heap_mark_blocks_as_free kernel_heap_layout (of_nat b) (mem ?s)"
    using assms(1) by (simp add: kfree_def heap_free_def kheap_ok_def)
  then show ?thesis
    using table_bytes_free [OF run] drop_take_run [OF _ b(1)] assms(1) b(4) by (simp add: kheap_ok_def)
qed

section \<open>Initialisation\<close>

text \<open>Output does not touch the allocator's globals.\<close>

lemma terminal_puts_kernel_heap [simp]: "kernel_heap (terminal_puts c s) = kernel_heap s"
  by (auto simp: terminal_puts_def terminal_backspace_def terminal_puts_raw_def Let_def)

lemma print_lit_kernel_heap [simp]: "kernel_heap (print_lit msg s) = kernel_heap s"
proof -
  have "kernel_heap (fold terminal_puts cs s) = kernel_heap s" for cs and s :: "'a kstate_scheme"
    by (induction cs arbitrary: s) simp_all
  then show ?thesis by (simp add: print_lit_def terminal_write_bytes_def)
qed

lemma kheap_init_state:
  assumes "cursor_ok s" "unat (terminal_y s) \<le> 70000"
  obtains s' where "kheap_init s = Ret () s'" "kernel_heap s' = kernel_heap_layout"
    "\<And>a. \<not> screen_range a \<Longrightarrow> mem s' a =
       (if kheap_reserved a then 0 else if in_region 0x01000000 8 a then 0 else mem s a)"
proof -
  let ?s = "s\<lparr>mem := memset (memset (mem s) 0x01000000 0 8) 0x7E00 0 25600, kernel_heap := kernel_heap_layout\<rparr>"
  let ?msg = "CHR 10 # ''Heap initiated.'' @ [CHR 10]"
  have "cursor_ok ?s" "unat (terminal_y ?s) + 2 * length ?msg \<le> 80000"
    using assms by (simp_all add: cursor_ok_def)
  note out = print_lit_frame(1) [OF this]
  have "kheap_init s = Ret () (print_lit ?msg ?s)"
    by (cases "kernel_heap s") (simp add: kheap_init_def make_heap_def heap_validate_alignment_def heap_validate_table_def
        config_defs heap_defs Let_def kernel_heap_layout_def)
  moreover have "kernel_heap (print_lit ?msg ?s) = kernel_heap_layout"
    by (simp add: print_lit_kernel_heap)
  ultimately show thesis
    by (rule that) (subst out, assumption, simp add: memset_apply in_table_def)
qed

lemma kheap_init_establishes:
  assumes "cursor_ok s" "unat (terminal_y s) \<le> 70000"
  shows "\<exists>s'. kheap_init s = Ret () s' \<and> kheap_ok s' \<and> kheap_live s' = {}"
proof -
  obtain s' where s': "kheap_init s = Ret () s'" "kernel_heap s' = kernel_heap_layout"
    "\<And>a. \<not> screen_range a \<Longrightarrow> mem s' a =
       (if kheap_reserved a then 0 else if in_region 0x01000000 8 a then 0 else mem s a)"
    using kheap_init_state [OF assms] by blast
  have "mem s' (0x7E00 + of_nat i) = 0" if "i < 25600" for i
  proof -
    have u: "unat ((0x7E00 :: u32) + of_nat i) = 0x7E00 + i"
      using that by (simp add: unat_word_ariths unat_of_nat32)
    then have "kheap_reserved (0x7E00 + of_nat i)" using that unfolding kheap_reserved_iff by simp
    moreover have "\<not> screen_range (0x7E00 + of_nat i)" using u that unfolding screen_range_def by simp
    ultimately show ?thesis using s'(3) by simp
  qed
  then have "table_bytes kernel_heap_layout (mem s') = replicate 25600 0"
    by (intro nth_equalityI) (auto simp: table_bytes_def)
  then show ?thesis
    using s' table_inv_zero live_runs_zero by (auto simp: kheap_ok_def kheap_live_def)
qed

section \<open>An empty heap\<close>

text \<open>A machine whose block table is empty, and its first allocation.\<close>

definition fresh_kernel :: kstate where
  "fresh_kernel = \<lparr>mem = (\<lambda>_. 0), terminal_x = 0, terminal_y = 0, terminal_fg_color = 15,
     terminal_bg_color = 0, kernel_heap = kernel_heap_layout\<rparr>"

lemma first_fit_replicate:
  assumes "0 < n" "n \<le> k"
  shows "first_fit (replicate k 0) n = Some 0"
  using assms unfolding first_fit_Some [OF assms(1)] by (simp add: fits_def)

lemma zero_table: "table_bytes kernel_heap_layout (\<lambda>_. 0) = replicate 25600 0"
  by (rule nth_equalityI) (auto simp: table_bytes_def)

lemma fresh_kernel_ok: "kheap_ok fresh_kernel" "kheap_live fresh_kernel = {}"
  using table_inv_zero live_runs_zero
  by (simp_all add: kheap_ok_def kheap_live_def fresh_kernel_def zero_table)

lemma fresh_kernel_room: "0 < unat sz \<Longrightarrow> unat sz \<le> 104857600 \<Longrightarrow> kheap_room sz fresh_kernel"
  using first_fit_replicate [of "blocks_needed sz" 25600]
  by (simp add: kheap_room_def fresh_kernel_def zero_table blocks_needed_def word_less_nat_alt)

section \<open>Single blocks\<close>

text \<open>How many blocks of the table are free: what bounds the number of requests of one block.\<close>

definition free_blocks :: "'a kstate_scheme \<Rightarrow> nat" where
  "free_blocks s = card {i. i < 25600 \<and> blk_free (table_bytes kernel_heap_layout (mem s) ! i)}"

lemma blocks_needed_1: "0 < sz \<Longrightarrow> unat sz \<le> 4096 \<Longrightarrow> blocks_needed sz = 1"
proof -
  assume "0 < sz" "unat sz \<le> 4096"
  then obtain k where "unat sz = Suc k" "k < 4096" by (cases "unat sz") (auto simp: word_less_nat_alt)
  then show ?thesis by (simp add: blocks_needed_def)
qed

lemma free_block_room:
  assumes "0 < free_blocks s" "0 < sz" "unat sz \<le> 4096"
  shows "kheap_room sz s"
proof -
  let ?t = "table_bytes kernel_heap_layout (mem s)"
  obtain i where "i < 25600" "blk_free (?t ! i)"
    using assms(1) unfolding free_blocks_def by (metis (no_types, lifting) Collect_empty_eq card.empty less_nat_zero_code)
  then have "table_fits ?t 1 i" by (simp add: fits_def)
  then have "first_fit ?t 1 \<noteq> None" using first_fit_None [of 1 ?t] by auto
  then show ?thesis using assms by (simp add: kheap_room_def blocks_needed_1)
qed

text \<open>A state whose memory differs outside the block table only has the same heap.\<close>

lemma kheap_mem_cong:
  assumes "kernel_heap s' = kernel_heap s" "\<And>a. kheap_reserved a \<Longrightarrow> mem s' a = mem s a"
  shows "kheap_ok s' = kheap_ok s" "kheap_live s' = kheap_live s" "free_blocks s' = free_blocks s"
    "kheap_room sz s' = kheap_room sz s"
proof -
  have "mem s' (0x7E00 + of_nat i) = mem s (0x7E00 + of_nat i)" if "i < 25600" for i
  proof -
    have "unat ((0x7E00 :: u32) + of_nat i) = 0x7E00 + i"
      using that by (simp add: unat_word_ariths unat_of_nat32)
    then show ?thesis using that by (intro assms(2)) (simp add: kheap_reserved_iff)
  qed
  then have "table_bytes kernel_heap_layout (mem s') = table_bytes kernel_heap_layout (mem s)"
    by (auto simp: table_bytes_def intro!: bytes_cong)
  then show "kheap_ok s' = kheap_ok s" "kheap_live s' = kheap_live s" "free_blocks s' = free_blocks s"
    "kheap_room sz s' = kheap_room sz s"
    using assms(1) by (simp_all add: kheap_ok_def kheap_live_def free_blocks_def kheap_room_def)
qed

lemma kzalloc_page:
  assumes "kheap_ok s" "0 < free_blocks s" "0 < sz" "unat sz \<le> 4096"
  obtains b where "unat (fst (kzalloc sz s)) = 16777216 + 4096 * b" "b < 25600"
    "kheap_ok (snd (kzalloc sz s))"
    "kheap_live (snd (kzalloc sz s)) = insert (unat (fst (kzalloc sz s)), 4096) (kheap_live s)"
    "(unat (fst (kzalloc sz s)), 4096) \<notin> kheap_live s"
    "Suc (free_blocks (snd (kzalloc sz s))) = free_blocks s"
proof -
  let ?t = "table_bytes kernel_heap_layout (mem s)" and ?s = "snd (kzalloc sz s)" and ?p = "fst (kzalloc sz s)"
  have room: "kheap_room sz s" by (rule free_block_room [OF assms(2-4)])
  note n = blocks_needed_1 [OF assms(3,4)]
  from kmalloc_table [OF assms(1) room] obtain b where
    b: "table_fits ?t 1 b" "unat (fst (kmalloc sz s)) = 16777216 + 4096 * b"
      "table_bytes kernel_heap_layout (mem (snd (kmalloc sz s))) = take_run ?t b 1"
    unfolding n by blast
  have p: "?p = fst (kmalloc sz s)" using khz.zalloc_ptr [OF assms(1) room] .
  have t: "table_bytes kernel_heap_layout (mem ?s) = take_run ?t b 1"
    using kzalloc_table [OF assms(1) room] b(3) by simp
  have lt: "b < 25600" "blk_free (?t ! b)" using b(1) by (auto simp: fits_def)
  have live: "kheap_live ?s = insert (unat ?p, 4096) (kheap_live s)"
    using kheap_live_take [OF b(1) zero_less_one t] b(2) p by (simp add: kheap_live_def)
  have "(16777216 + 4096 * b, 4096) \<notin> kheap_live s"
    using fits_run_not_live [OF b(1) zero_less_one] by (auto simp: kheap_live_iff)
  moreover have "{i. i < 25600 \<and> blk_free (take_run ?t b 1 ! i)} = {i. i < 25600 \<and> blk_free (?t ! i)} - {b}"
    using lt by (auto split: if_splits)
  then have "Suc (free_blocks ?s) = free_blocks s"
    unfolding free_blocks_def t using lt by (simp only:) (rule card_Suc_Diff1, auto)
  ultimately show thesis
    using that [OF _ lt(1) khz.zalloc_ok [OF assms(1) room] live] b(2) p by simp
qed

text \<open>Any state with an empty table, whatever more it holds.\<close>

lemma zero_heap:
  assumes "kernel_heap s = kernel_heap_layout" "mem s = (\<lambda>_. 0)"
  shows "kheap_ok s" "kheap_live s = {}" "free_blocks s = 25600"
proof -
  have "{i. i < 25600 \<and> blk_free (replicate 25600 0 ! i)} = {..<25600}" by auto
  then show "kheap_ok s" "kheap_live s = {}" "free_blocks s = 25600"
    using table_inv_zero live_runs_zero assms
    by (simp_all add: kheap_ok_def kheap_live_def free_blocks_def zero_table)
qed

text \<open>The address of any request, served or not.\<close>

lemma kmalloc_address:
  assumes "kernel_heap s = kernel_heap_layout"
  defines "t \<equiv> table_bytes kernel_heap_layout (mem s)"
  shows "fst (kmalloc sz s) \<noteq> 0"
    and "\<not> kheap_room sz s \<longrightarrow> fst (kmalloc sz s) =
      (if blk_free (last t) then 0x01000000 + 4096 * of_nat (trailing_start t) else 0x00FFD000)"
proof -
  let ?n = "heap_align_size sz div 4096 :: u32" and ?r = "if blk_free (last t) then 0x01000000 + 4096 * of_nat (trailing_start t) else 0x00FFD000 :: u32"
  have len: "length t = 25600" by (simp add: t_def)
  then have "t \<noteq> []" by auto
  note len = len this
  have address: "fst (kmalloc sz s) = 0x01000000 + 4096 * heap_get_start_block kernel_heap_layout ?n (mem s)"
    using assms(1) by (simp add: kmalloc_def heap_alloc_def heap_alloc_blocks_def Let_def heap_block_to_address_def config_defs)
  have trailing: "trailing_start t \<le> 25600" by (simp add: trailing_start_def len)
  have inside: "(0x01000000 + 4096 * of_nat b :: u32) \<noteq> 0" if "b \<le> 25600" for b :: nat
    using that by (simp add: word_unat_eq_iff unat_word_ariths unat_of_nat32)
  have "fst (kmalloc sz s) = ?r" if none: "\<not> kheap_room sz s"
  proof (cases "0 < sz \<and> unat sz \<le> 4294963200")
    case True
    then have n: "?n = of_nat (blocks_needed sz)"
      using heap_align_size_blocks(1) [of sz] by (simp add: config_defs)
    then have pos: "0 < (of_nat (blocks_needed sz) :: u32)" using True
      by (simp add: word_less_nat_alt unat_blocks_needed) (simp add: blocks_needed_def div_greater_zero_iff)
    have "first_fit t (blocks_needed sz) = None" using none True by (simp add: kheap_room_def t_def)
    then show ?thesis
      using heap_get_start_block_eq [OF pos, of kernel_heap_layout "mem s"] len(2)
      unfolding address n by (simp add: unat_blocks_needed Let_def t_def [symmetric] status_defs)
  next
    case False
    then consider "sz = 0" | "4294963200 < unat sz" by (cases "sz = 0") (auto simp: word_gt_0)
    then have "heap_align_size sz = 0"
      by cases (simp add: heap_align_size_def, rule heap_align_size_wraps)
    then have "?n = 0" by simp
    moreover have "total_entries (table kernel_heap_layout) < - 1" by (simp add: kernel_heap_layout_def)
    ultimately show ?thesis
      using heap_get_start_block_zero [of kernel_heap_layout "mem s"] len(2)
      unfolding address by (simp add: Let_def t_def [symmetric] status_defs)
  qed
  then show "\<not> kheap_room sz s \<longrightarrow> fst (kmalloc sz s) = ?r" by blast
  show "fst (kmalloc sz s) \<noteq> 0"
  proof (cases "kheap_room sz s")
    case False
    with \<open>\<not> kheap_room sz s \<Longrightarrow> fst (kmalloc sz s) = ?r\<close> show ?thesis using inside [OF trailing] by auto
  next
    case True
    then have n: "?n = of_nat (blocks_needed sz)"
      using heap_align_size_blocks(1) [of sz] by (simp add: config_defs kheap_room_def)
    then have pos: "0 < (of_nat (blocks_needed sz) :: u32)" "0 < blocks_needed sz"
      using True by (simp_all add: word_less_nat_alt unat_blocks_needed kheap_room_def)
        (simp_all add: blocks_needed_def div_greater_zero_iff)
    obtain b where b: "first_fit t (blocks_needed sz) = Some b" using True by (auto simp: kheap_room_def t_def)
    then have "b \<le> 25600" using first_fit_Some [OF pos(2), of t b] by (simp add: fits_def len)
    then show ?thesis
      using inside [of b] b heap_get_start_block_eq [OF pos(1), of kernel_heap_layout "mem s"]
      unfolding address n by (simp add: unat_blocks_needed Let_def t_def [symmetric])
  qed
qed

section \<open>Properties\<close>

text \<open>\<^verbatim>\<open>kheap_init\<close> succeeds and leaves a well-formed kernel heap without live
  regions.\<close>

theorem kheap_init_correct:
  assumes "cursor_ok s" "unat (terminal_y s) \<le> 70000"
  shows "\<exists>s'. kheap_init s = Ret () s' \<and> kheap_ok s' \<and> kheap_live s' = {}"
  using assms by (rule kheap_init_establishes)

theorem kheap_init_correct_witness: "\<exists>s'. kheap_init fresh_kernel = Ret () s' \<and> kheap_ok s'"
proof -
  have "cursor_ok fresh_kernel" "unat (terminal_y fresh_kernel) \<le> 70000"
    by (simp_all add: cursor_ok_def fresh_kernel_def)
  from kheap_init_correct [OF this] show ?thesis by blast
qed

text \<open>C7. \<^verbatim>\<open>kmalloc\<close> of a request for which there is room: the heap stays well-formed, exactly one
  live region is added, it starts at the returned address, holds at least the bytes asked for and
  was not live before; no byte outside the block table changes.\<close>

theorem kmalloc_refines:
  assumes "kheap_ok s" "kheap_room sz s"
  shows "let (p, s') = kmalloc sz s in
    kheap_ok s'
    \<and> (\<exists>n \<ge> unat sz. (unat p, n) \<notin> kheap_live s \<and> kheap_live s' = insert (unat p, n) (kheap_live s))
    \<and> (\<forall>a. \<not> kheap_reserved a \<longrightarrow> mem s' a = mem s a)"
  using kh.alloc_ok [OF assms] kh.alloc_live [OF assms] kh.alloc_frame [OF assms]
  by (simp add: case_prod_unfold)

theorem kmalloc_refines_witness:
  "kheap_ok fresh_kernel \<and> kheap_room 5000 fresh_kernel
   \<and> (\<exists>n \<ge> 5000. kheap_live (snd (kmalloc 5000 fresh_kernel)) = {(unat (fst (kmalloc 5000 fresh_kernel)), n)})"
proof -
  have room: "kheap_room 5000 fresh_kernel" by (rule fresh_kernel_room) simp_all
  from kmalloc_refines [OF fresh_kernel_ok(1) room] obtain n where
    "unat (5000 :: u32) \<le> n" "kheap_live (snd (kmalloc 5000 fresh_kernel)) = insert (unat (fst (kmalloc 5000 fresh_kernel)), n) {}"
    unfolding case_prod_unfold Let_def fresh_kernel_ok(2) by blast
  then show ?thesis using fresh_kernel_ok(1) room by auto
qed

text \<open>C23. \<^verbatim>\<open>kfree\<close> of a live region: the heap stays well-formed, exactly that region stops being live,
  and no byte outside the block table changes.\<close>

theorem kfree_refines:
  assumes "kheap_ok s" "(unat p, n) \<in> kheap_live s"
  shows "kheap_ok (kfree p s) \<and> kheap_live (kfree p s) = kheap_live s - {(unat p, n)}
    \<and> (\<forall>a. \<not> kheap_reserved a \<longrightarrow> mem (kfree p s) a = mem s a)"
  using kh.release_ok [OF assms] kh.release_live [OF assms] kh.release_frame [OF assms] by blast

theorem kfree_refines_witness:
  "\<exists>(s :: kstate) p n. kheap_ok s \<and> (unat p, n) \<in> kheap_live s \<and> kheap_live (kfree p s) = {}"
proof -
  have room: "kheap_room 1 fresh_kernel" by (rule fresh_kernel_room) simp_all
  note ok = kh.alloc_ok [OF fresh_kernel_ok(1) room]
  obtain n where n: "kheap_live (snd (kmalloc 1 fresh_kernel)) = {(unat (fst (kmalloc 1 fresh_kernel)), n)}"
    using kh.alloc_live [OF fresh_kernel_ok(1) room] fresh_kernel_ok(2) by auto
  then have "(unat (fst (kmalloc 1 fresh_kernel)), n) \<in> kheap_live (snd (kmalloc 1 fresh_kernel))" by simp
  moreover have "kheap_live (kfree (fst (kmalloc 1 fresh_kernel)) (snd (kmalloc 1 fresh_kernel))) = {}"
    using kfree_refines [OF ok calculation] n by simp
  ultimately show ?thesis using ok by blast
qed

text \<open>Live regions never meet: two requests served one after the other get disjoint bytes, and
  neither meets a region that was live before.\<close>

theorem kmalloc_disjoint:
  assumes "kheap_ok s" "kheap_room sz s" "kheap_room sz' (snd (kmalloc sz s))"
  shows "let (p, s1) = kmalloc sz s; (q, s2) = kmalloc sz' s1 in
    (\<forall>a. unat p \<le> a \<and> a < unat p + unat sz \<longrightarrow>
         \<not> (unat q \<le> a \<and> a < unat q + unat sz')
       \<and> (\<forall>r k. (r, k) \<in> kheap_live s \<longrightarrow> \<not> (r \<le> a \<and> a < r + k)))"
  using kh.alloc_twice_disjoint [OF assms] kh.alloc_fresh [OF assms(1,2)]
  by (simp add: case_prod_unfold Let_def) blast

theorem kmalloc_disjoint_witness:
  "\<exists>s :: kstate. kheap_ok s \<and> kheap_room 100 s \<and> kheap_room 100 (snd (kmalloc 100 s))
     \<and> fst (kmalloc 100 (snd (kmalloc 100 s))) \<noteq> fst (kmalloc 100 s)"
proof -
  have room: "kheap_room 100 fresh_kernel" by (rule fresh_kernel_room) simp_all
  from kmalloc_table [OF fresh_kernel_ok(1) room] obtain b where
    b: "table_fits (replicate 25600 0) 1 b"
      "table_bytes kernel_heap_layout (mem (snd (kmalloc 100 fresh_kernel))) = take_run (replicate 25600 0) b 1"
    by (auto simp: fresh_kernel_def zero_table blocks_needed_def)
  let ?t = "take_run (replicate 25600 0) b 1"
  have "table_fits ?t 1 (if b = 0 then 1 else 0)"
    by (auto simp: fits_def take_run_def)
  then have "first_fit ?t 1 \<noteq> None" using first_fit_None [of 1 ?t] by auto
  then have room2: "kheap_room 100 (snd (kmalloc 100 fresh_kernel))"
    by (simp add: kheap_room_def b(2) blocks_needed_def)
  have "fst (kmalloc 100 (snd (kmalloc 100 fresh_kernel))) \<noteq> fst (kmalloc 100 fresh_kernel)"
    using kmalloc_disjoint [OF fresh_kernel_ok(1) room room2]
    by (auto simp: case_prod_unfold Let_def dest: spec [of _ "unat (fst (kmalloc 100 fresh_kernel))"])
  then show ?thesis using fresh_kernel_ok(1) room room2 by blast
qed

text \<open>\<^verbatim>\<open>kzalloc\<close> returns cleared bytes and touches nothing live: every byte it was asked for reads
  0 and every byte of a region that was live before keeps its value.\<close>

theorem kzalloc_correct:
  assumes "kheap_ok s" "kheap_room sz s"
  shows "let (p, s') = kzalloc sz s in
    kheap_ok s' \<and> (\<forall>i < unat sz. mem s' (p + of_nat i) = 0)
    \<and> (\<forall>q k a. (q, k) \<in> kheap_live s \<longrightarrow> q \<le> unat a \<and> unat a < q + k \<longrightarrow> mem s' a = mem s a)"
  using khz.zalloc_ok [OF assms] khz.zalloc_zero [OF assms] khz.zalloc_live_kept [OF assms]
  by (simp add: case_prod_unfold Let_def)

theorem kzalloc_correct_witness:
  "kheap_ok fresh_kernel \<and> kheap_room 8 fresh_kernel
   \<and> mem (snd (kzalloc 8 fresh_kernel)) (fst (kzalloc 8 fresh_kernel) + 7) = 0"
proof -
  have room: "kheap_room 8 fresh_kernel" by (rule fresh_kernel_room) simp_all
  have "mem (snd (kzalloc 8 fresh_kernel)) (fst (kzalloc 8 fresh_kernel) + of_nat 7) = 0"
    using kzalloc_correct [OF fresh_kernel_ok(1) room] unfolding case_prod_unfold Let_def
    by (elim conjE allE [of _ 7]) simp
  then show ?thesis using fresh_kernel_ok(1) room by simp
qed

text \<open>C38. \<^verbatim>\<open>kmalloc\<close> never reports failure: whatever is asked for, and whatever the block table holds,
  the returned address is not 0, since the test \<^verbatim>\<open>start_block < 0\<close> of an \<^verbatim>\<open>unsigned\<close> is false. A request that
  cannot be served (no run of free blocks is long enough, or the size is 0 or rounds up past 4 GiB) gets
  the address of the free blocks at the end of the table when the last block is free, however few they are,
  and otherwise the address three blocks below the heap.\<close>

theorem kmalloc_exhausted:
  assumes "kernel_heap s = kernel_heap_layout" "t = table_bytes kernel_heap_layout (mem s)"
  shows "fst (kmalloc sz s) \<noteq> 0
    \<and> (\<not> kheap_room sz s \<longrightarrow> fst (kmalloc sz s) =
        (if blk_free (last t) then 0x01000000 + 4096 * of_nat (trailing_start t) else 0x00FFD000))"
  using kmalloc_address [OF assms(1), of sz] unfolding assms(2) by blast

theorem kmalloc_exhausted_witness:
  "\<exists>s :: kstate. kernel_heap s = kernel_heap_layout \<and> \<not> kheap_room 1 s \<and> fst (kmalloc 1 s) = 0x00FFD000"
proof -
  let ?s = "fresh_kernel\<lparr>mem := \<lambda>_. 0x41\<rparr>"
  have t: "table_bytes kernel_heap_layout (\<lambda>_. 0x41) = replicate 25600 0x41"
    by (rule nth_equalityI) (auto simp: table_bytes_def)
  have taken: "\<not> blk_free 0x41" by (simp add: blk_free_def heap_get_entry_type_def heap_defs)
  have "first_fit (replicate 25600 0x41) (blocks_needed 1) = None"
    using taken by (subst first_fit_None) (auto simp: blocks_needed_def fits_def)
  then have "\<not> kheap_room 1 ?s" by (simp add: kheap_room_def t)
  moreover have "kernel_heap ?s = kernel_heap_layout" by (simp add: fresh_kernel_def)
  ultimately show ?thesis
    using kmalloc_exhausted [of ?s "replicate 25600 0x41" 1] taken by (intro exI [of _ ?s]) (simp add: t last_replicate)
qed

text \<open>C26. An allocation followed by its release gives back the whole memory and every live
  region.\<close>

theorem kmalloc_kfree_restores:
  assumes "kheap_ok s" "kheap_room sz s"
  shows "let (p, s') = kmalloc sz s in mem (kfree p s') = mem s \<and> kheap_live (kfree p s') = kheap_live s"
proof -
  let ?p = "fst (kmalloc sz s)" and ?s = "snd (kmalloc sz s)"
  obtain n where n: "(unat ?p, n) \<in> kheap_live ?s" using kh.alloc_live [OF assms] by auto
  note ok = kh.alloc_ok [OF assms]
  have live: "kheap_live (kfree ?p ?s) = kheap_live s" by (rule kh.alloc_release_live [OF assms])
  have "mem (kfree ?p ?s) a = mem s a" for a
  proof (cases "kheap_reserved a")
    case False
    then show ?thesis using kh.release_frame [OF ok n] kh.alloc_frame [OF assms] by simp
  next
    case True
    then show ?thesis using kmalloc_kfree_table [OF assms] reserved_byte by metis
  qed
  then show ?thesis using live by (simp add: case_prod_unfold fun_eq_iff)
qed

theorem kmalloc_kfree_restores_witness:
  "kheap_room 12345 fresh_kernel
   \<and> mem (kfree (fst (kmalloc 12345 fresh_kernel)) (snd (kmalloc 12345 fresh_kernel))) = mem fresh_kernel"
  using kmalloc_kfree_restores [OF fresh_kernel_ok(1) fresh_kernel_room [of 12345]] fresh_kernel_room [of 12345]
  by (simp add: case_prod_unfold Let_def)

end
