(* ===== verification/Paging.thy ===== *)
theory Paging
  imports KHeap
begin

text \<open>
  Page directories and page tables: \<^verbatim>\<open>src/kernel/memory/paging/paging.c\<close>. A directory and its
  tables are arrays of 32-bit words in byte memory, read and written where the code reads and
  writes them; a \<^verbatim>\<open>struct paging_4gb_memory_map\<close> is the word \<^verbatim>\<open>d_entry\<close> in memory. \<open>cr3\<close> is
  the register the assembly routine \<^verbatim>\<open>paging_load_directory\<close> loads.
\<close>

section \<open>Constants and state (\<^verbatim>\<open>includes/memory/paging/paging.h\<close>)\<close>

named_theorems paging_defs \<open>the constants of paging.h\<close>

definition PAGING_MASKS_CACHE_DISABLE :: u32 where [paging_defs]: "PAGING_MASKS_CACHE_DISABLE = 0x10"
definition PAGING_MASKS_CACHE_WRITE_THROUGH :: u32 where [paging_defs]: "PAGING_MASKS_CACHE_WRITE_THROUGH = 0x08"
definition PAGING_MASKS_ACCESS_ALL :: u32 where [paging_defs]: "PAGING_MASKS_ACCESS_ALL = 0x04"
definition PAGING_MASKS_IS_WRITABLE :: u32 where [paging_defs]: "PAGING_MASKS_IS_WRITABLE = 0x02"
definition PAGING_MASKS_IS_PRESENT :: u32 where [paging_defs]: "PAGING_MASKS_IS_PRESENT = 0x01"
definition PAGING_TOTAL_TABLE_ENTRIES_PER_DIRECTORY :: u32 where
  [paging_defs]: "PAGING_TOTAL_TABLE_ENTRIES_PER_DIRECTORY = 0x400"
definition PAGING_TOTAL_ENTRIES_PER_TABLE :: u32 where [paging_defs]: "PAGING_TOTAL_ENTRIES_PER_TABLE = 0x400"
definition PAGING_PAGE_SIZE :: u32 where [paging_defs]: "PAGING_PAGE_SIZE = 0x1000"

record vstate = kstate +
  current_directory :: u32
  cr3 :: u32

section \<open>Entries\<close>

text \<open>\<^verbatim>\<open>array[i]\<close> of an array of \<^verbatim>\<open>uint32_t\<close> at \<open>a\<close>.\<close>

abbreviation (input) word_at :: "u32 \<Rightarrow> u32 \<Rightarrow> u32" where
  "word_at a i \<equiv> a + 4 * i"

definition paging_is_aligned :: "u32 \<Rightarrow> bool" where
  "paging_is_aligned addr \<longleftrightarrow> addr mod PAGING_PAGE_SIZE = 0"

definition paging_align_address :: "u32 \<Rightarrow> u32" where
  "paging_align_address addr =
     (if addr mod PAGING_PAGE_SIZE \<noteq> 0 then addr + (PAGING_PAGE_SIZE - addr mod PAGING_PAGE_SIZE) else addr)"

definition paging_align_to_lower_page_addr :: "u32 \<Rightarrow> u32" where
  "paging_align_to_lower_page_addr addr = addr - addr mod PAGING_PAGE_SIZE"

text \<open>The status and the two outputs, which keep their values on an error.\<close>

definition paging_get_indexes :: "u32 \<Rightarrow> u32 \<Rightarrow> u32 \<Rightarrow> u32 \<times> u32 \<times> u32" where
  "paging_get_indexes virtual_address directory_index_out table_index_out =
     (if \<not> paging_is_aligned virtual_address
      then (- EINVARG, directory_index_out, table_index_out)
      else (0,
        virtual_address div (PAGING_TOTAL_TABLE_ENTRIES_PER_DIRECTORY * PAGING_PAGE_SIZE),
        (virtual_address mod (PAGING_TOTAL_ENTRIES_PER_TABLE * PAGING_PAGE_SIZE)) div PAGING_PAGE_SIZE))"

definition paging_set :: "u32 \<Rightarrow> u32 \<Rightarrow> u32 \<Rightarrow> memory \<Rightarrow> u32 \<times> memory" where
  "paging_set directory v_addr val m =
     (if \<not> paging_is_aligned v_addr then (- EINVARG, m)
      else
        let (res, d_index, t_index) = paging_get_indexes v_addr 0 0
        in if res <s 0 then (res, m)
           else let entry = load32 m (word_at directory d_index);
                    tbl = entry AND 0xFFFFF000
                in (res, store32 m (word_at tbl t_index) val))"

definition paging_get :: "u32 \<Rightarrow> u32 \<Rightarrow> memory \<Rightarrow> u32" where
  "paging_get directory v_addr m =
     (let (res, directory_index, table_index) = paging_get_indexes v_addr 0 0;
          entry = load32 m (word_at directory directory_index)
      in if entry AND 1 = 0 then 0
         else let tbl = entry AND 0xFFFFF000 in load32 m (word_at tbl table_index))"

definition paging_get_physical_address :: "u32 \<Rightarrow> u32 \<Rightarrow> memory \<Rightarrow> u32" where
  "paging_get_physical_address directory v_addr m =
     (let v_addr_aligned = paging_align_to_lower_page_addr v_addr;
          difference = v_addr - v_addr_aligned
      in (paging_get directory v_addr_aligned m AND 0xFFFFF000) + difference)"

section \<open>Mapping\<close>

text \<open>\<open>chunk\<close> is the pointer to the \<^verbatim>\<open>struct paging_4gb_memory_map\<close>.\<close>

definition d_entry :: "memory \<Rightarrow> u32 \<Rightarrow> u32" where
  "d_entry m chunk = load32 m chunk"

definition paging_4gb_get_directory_ref :: "u32 \<Rightarrow> memory \<Rightarrow> u32" where
  "paging_4gb_get_directory_ref pconf m = d_entry m pconf"

definition paging_map :: "u32 \<Rightarrow> u32 \<Rightarrow> u32 \<Rightarrow> u32 \<Rightarrow> memory \<Rightarrow> u32 \<times> memory" where
  "paging_map chunk v_addr p_addr flags m =
     (if v_addr mod PAGING_PAGE_SIZE \<noteq> 0 \<or> p_addr mod PAGING_PAGE_SIZE \<noteq> 0 then (- EINVARG, m)
      else paging_set (d_entry m chunk) v_addr (p_addr OR flags) m)"

function paging_map_range_loop ::
  "u32 \<Rightarrow> u32 \<Rightarrow> u32 \<Rightarrow> u32 \<Rightarrow> u32 \<Rightarrow> u32 \<Rightarrow> u32 \<Rightarrow> memory \<Rightarrow> u32 \<times> memory" where
  "paging_map_range_loop chunk v_addr p_addr count flags i res m =
     (if i < count then
        (let (res', m') = paging_map chunk v_addr p_addr flags m
         in if res' <s 0 then (res', m')
            else paging_map_range_loop chunk (v_addr + PAGING_PAGE_SIZE) (p_addr + PAGING_PAGE_SIZE)
                   count flags (i + 1) res' m')
      else (res, m))"
  by pat_completeness auto
termination
  by (relation "measure (\<lambda>(chunk, v_addr, p_addr, count, flags, i, res, m). unat count - unat i)")
     (auto simp: unat_Suc_word word_less_nat_alt)

declare paging_map_range_loop.simps [simp del]

definition paging_map_range :: "u32 \<Rightarrow> u32 \<Rightarrow> u32 \<Rightarrow> u32 \<Rightarrow> u32 \<Rightarrow> memory \<Rightarrow> u32 \<times> memory" where
  "paging_map_range chunk v_addr p_addr count flags m =
     paging_map_range_loop chunk v_addr p_addr count flags 0 0 m"

definition paging_map_to :: "u32 \<Rightarrow> u32 \<Rightarrow> u32 \<Rightarrow> u32 \<Rightarrow> u32 \<Rightarrow> memory \<Rightarrow> u32 \<times> memory" where
  "paging_map_to chunk v_addr p_addr p_addr_end flags m =
     (if v_addr mod PAGING_PAGE_SIZE \<noteq> 0 \<or> p_addr mod PAGING_PAGE_SIZE \<noteq> 0
         \<or> p_addr_end mod PAGING_PAGE_SIZE \<noteq> 0 \<or> p_addr_end < p_addr
      then (- EINVARG, m)
      else let total_bytes = p_addr_end - p_addr;
               total_pages = total_bytes div PAGING_PAGE_SIZE
           in paging_map_range chunk v_addr p_addr total_pages flags m)"

section \<open>Building, releasing and loading a directory\<close>

text \<open>The inner loop of \<^verbatim>\<open>_gen_paging_4gb\<close> fills one table, the outer one makes the 1024 tables.\<close>

definition gen_table :: "u32 \<Rightarrow> u32 \<Rightarrow> u8 \<Rightarrow> memory \<Rightarrow> memory" where
  "gen_table entry offset flags m =
     fold (\<lambda>j m. store32 m (word_at entry (of_nat j)) ((offset + of_nat j * PAGING_PAGE_SIZE) OR ucast flags))
       [0..<unat PAGING_TOTAL_ENTRIES_PER_TABLE] m"

definition gen_directory_step :: "u32 \<Rightarrow> u8 \<Rightarrow> nat \<Rightarrow> u32 \<times> 'a vstate_scheme \<Rightarrow> u32 \<times> 'a vstate_scheme" where
  "gen_directory_step directory flags i os =
     (let (offset, s) = os;
          (entry, s1) = kzalloc (4 * PAGING_TOTAL_ENTRIES_PER_TABLE) s;
          m = gen_table entry offset flags (mem s1);
          val = entry OR ucast flags OR PAGING_MASKS_IS_WRITABLE
      in (offset + PAGING_TOTAL_ENTRIES_PER_TABLE * PAGING_PAGE_SIZE,
          s1\<lparr>mem := store32 m (word_at directory (of_nat i)) val\<rparr>))"

definition gen_paging_4gb :: "u8 \<Rightarrow> 'a vstate_scheme \<Rightarrow> (u32, 'a vstate_scheme) outcome" where
  "gen_paging_4gb flags s =
     (let (directory, s1) = kzalloc (4 * PAGING_TOTAL_TABLE_ENTRIES_PER_DIRECTORY) s
      in if directory = 0
         then Halted (kernel_panic (''Page directory allocation returned zero as allocated address.'' @ [CHR 10]) s1)
         else
           let (offset, s2) = fold (gen_directory_step directory flags)
                 [0..<unat PAGING_TOTAL_TABLE_ENTRIES_PER_DIRECTORY] (0, s1);
               (paging_4gb_chunk, s3) = kzalloc 4 s2
           in if paging_4gb_chunk = 0
              then Halted (kernel_panic (''Paging memory map allocation returned zero as allocated address.'' @ [CHR 10]) s3)
              else Ret paging_4gb_chunk (s3\<lparr>mem := store32 (mem s3) paging_4gb_chunk directory\<rparr>))"

definition paging_free_4gb :: "u32 \<Rightarrow> 'a kstate_scheme \<Rightarrow> 'a kstate_scheme" where
  "paging_free_4gb page s =
     (let s1 = fold (\<lambda>i s. let entry = load32 (mem s) (word_at (d_entry (mem s) page) (of_nat i));
                              tbl = entry AND 0xFFFFF000
                          in kfree tbl s) [0..<0x400] s
      in kfree page (kfree (d_entry (mem s1) page) s1))"

definition paging_switch :: "u32 \<Rightarrow> 'a vstate_scheme \<Rightarrow> 'a vstate_scheme" where
  "paging_switch page s =
     (let s1 = s\<lparr>cr3 := d_entry (mem s) page\<rparr>
      in s1\<lparr>current_directory := d_entry (mem s1) page\<rparr>)"

end
