(* ===== verification/PagingSpec.thy ===== *)
theory PagingSpec
  imports Paging
begin

text \<open>
  The address translation a directory stands for: \<open>wf_dir\<close> says that the 1024 tables are present and
  that no two of them, nor the directory, share a page; \<^verbatim>\<open>paging_set\<close> then is the update of one
  point of the map from page addresses to entries, \<^verbatim>\<open>paging_map_range\<close> that of an interval, and
  \<^verbatim>\<open>_gen_paging_4gb\<close> builds the identity map.
\<close>

section \<open>Pages and slots\<close>

definition page_base :: "u32 \<Rightarrow> u32" where
  "page_base e = e AND 0xFFFFF000"

definition pdx :: "u32 \<Rightarrow> u32" where "pdx v = v div 0x400000"

definition ptx :: "u32 \<Rightarrow> u32" where "ptx v = v mod 0x400000 div 0x1000"

lemma paging_is_aligned_unat: "paging_is_aligned a \<longleftrightarrow> unat a mod 4096 = 0"
  by (simp add: paging_is_aligned_def paging_defs word_unat_eq_iff unat_mod_distrib)

lemma aligned_page:
  assumes "paging_is_aligned a"
  obtains k where "k < 1048576" "unat a = 4096 * k"
proof -
  have eq: "unat a = 4096 * (unat a div 4096)"
    using assms mult_div_mod_eq [of 4096 "unat a"] unfolding paging_is_aligned_unat by linarith
  have "unat a div 4096 < 1048576" by (rule less_mult_imp_div_less) simp
  then show thesis using that eq by blast
qed

lemma aligned_pageI: "unat a = 4096 * k \<Longrightarrow> paging_is_aligned a"
  by (simp add: paging_is_aligned_unat)

lemma page_mod_mask: "(a :: u32) mod 4096 = a AND 0xFFF"
  using take_bit_eq_mod [of 12 a] by (simp add: take_bit_eq_mask mask_eq_exp_minus_1)

lemma page_base_aligned [simp]: "paging_is_aligned (page_base e)"
  by (simp add: paging_is_aligned_def paging_defs page_base_def page_mod_mask and.assoc)

lemma unat_numeral_4096: "unat (4096 :: u32) = 4096"
  by simp

lemma page_mask_disjoint: "(0xFFFFF000 :: u32) AND 0xFFF = 0"
  by simp

lemma page_base_sub: "page_base a = a - a mod 4096"
proof -
  have "(0xFFFFF000 :: u32) OR 0xFFF = - 1" by simp
  then have "(a AND 0xFFFFF000) OR (a AND 0xFFF) = a"
    by (simp only: bit.conj_disj_distrib [symmetric] and.right_neutral)
  moreover have "(a AND 0xFFFFF000) AND (a AND 0xFFF) = 0"
    by (metis and.assoc and.left_commute and_zero_eq page_mask_disjoint)
  ultimately have "a = (a AND 0xFFFFF000) + (a AND 0xFFF)"
    using word_plus_and_or [of "a AND 0xFFFFF000" "a AND 0xFFF"] by simp
  then show ?thesis unfolding page_base_def page_mod_mask by (metis add_diff_cancel_right')
qed

lemma unat_page_base: "unat (page_base a) = 4096 * (unat a div 4096)"
proof -
  have "unat (a - a mod 4096) = unat a - unat (a mod 4096)"
    by (rule unat_sub) (simp add: word_le_nat_alt unat_mod_distrib)
  then show ?thesis unfolding page_base_sub by (simp only: unat_mod_distrib unat_numeral_4096 minus_mod_eq_mult_div)
qed

lemma page_base_of_aligned: "paging_is_aligned a \<Longrightarrow> page_base a = a"
  by (simp add: paging_is_aligned_def paging_defs page_base_sub)

lemma pdx_bound [simp]: "unat (pdx v) < 1024" and ptx_bound [simp]: "unat (ptx v) < 1024"
  using less_mult_imp_div_less [of "unat v" 1024 4194304] unat_u32_less [of v]
    less_mult_imp_div_less [of "unat v mod 4194304" 1024 4096]
  by (simp_all add: pdx_def ptx_def unat_div_distrib unat_mod_distrib)

lemma pdx_ptx: "paging_is_aligned v \<Longrightarrow> unat v = 4194304 * unat (pdx v) + 4096 * unat (ptx v)"
proof -
  assume "paging_is_aligned v"
  then have "(unat v mod 4194304) mod 4096 = 0"
    by (simp add: paging_is_aligned_unat mod_mod_cancel)
  then have "unat v mod 4194304 = 4096 * (unat v mod 4194304 div 4096)" by auto
  moreover have "unat v = 4194304 * (unat v div 4194304) + unat v mod 4194304" by simp
  ultimately show ?thesis by (simp add: pdx_def ptx_def unat_div_distrib unat_mod_distrib)
qed

lemma pdx_ptx_inj:
  assumes "paging_is_aligned v" "paging_is_aligned w" "pdx v = pdx w" "ptx v = ptx w"
  shows "v = w"
  using pdx_ptx [OF assms(1)] pdx_ptx [OF assms(2)] assms(3,4) by (simp add: word_unat_eq_iff)

text \<open>\<open>i\<close>-th word of the page at \<open>a\<close>.\<close>

lemma unat_slot:
  assumes "paging_is_aligned a" "unat i < 1024"
  shows "unat (a + 4 * i) = unat a + 4 * unat i"
proof -
  obtain k where "k < 1048576" "unat a = 4096 * k" using assms(1) by (rule aligned_page)
  then show ?thesis using assms(2) by (simp add: unat_word_ariths)
qed

lemma slot_aligned4: "paging_is_aligned a \<Longrightarrow> unat i < 1024 \<Longrightarrow> aligned4 (a + 4 * i)"
proof (rule aligned_page [of a])
  fix k assume "paging_is_aligned a" "unat i < 1024" "unat a = 4096 * k"
  then have "unat (a + 4 * i) = 4 * (1024 * k + unat i)" by (simp add: unat_slot)
  then show "aligned4 (a + 4 * i)" by (simp add: aligned4_def)
qed

lemma slot_byte:
  assumes "paging_is_aligned a" "unat i < 1024" "k < 4"
  shows "unat (a + 4 * i + of_nat k) = unat a + 4 * unat i + k" "page_base (a + 4 * i + of_nat k) = a"
proof -
  show u: "unat (a + 4 * i + of_nat k) = unat a + 4 * unat i + k"
    using aligned4_plus [OF slot_aligned4 [OF assms(1,2)] assms(3)] unat_slot [OF assms(1,2)] by simp
  obtain q where "unat a = 4096 * q" using assms(1) by (rule aligned_page)
  moreover have "(4096 * q + 4 * unat i + k) div 4096 = q"
    using assms(2,3) div_mult_self4 [of 4096 q "4 * unat i + k"] by (simp add: add.assoc)
  ultimately have "unat (page_base (a + 4 * i + of_nat k)) = unat a"
    unfolding unat_page_base u by simp
  then show "page_base (a + 4 * i + of_nat k) = a" by (simp add: word_unat_eq_iff)
qed

lemma slot_inj:
  assumes "paging_is_aligned a" "paging_is_aligned b" "unat i < 1024" "unat j < 1024"
  shows "a + 4 * i = b + 4 * j \<longleftrightarrow> a = b \<and> i = j"
proof
  assume eq: "a + 4 * i = b + 4 * j"
  then have "a = b"
    using slot_byte(2) [OF assms(1,3), of 0] slot_byte(2) [OF assms(2,4), of 0] by simp
  then show "a = b \<and> i = j"
    using eq unat_slot [OF assms(1,3)] unat_slot [OF assms(2,4)] by (simp add: word_unat_eq_iff)
qed auto

lemma load32_slot_store32 [mem_simps]:
  assumes "paging_is_aligned a" "paging_is_aligned b" "unat i < 1024" "unat j < 1024"
  shows "load32 (store32 m (a + 4 * i) v) (b + 4 * j) = (if a = b \<and> i = j then v else load32 m (b + 4 * j))"
  using slot_inj [OF assms] load32_store32_same load32_store32_other slot_aligned4 assms by metis

lemma store32_slot_frame:
  assumes "paging_is_aligned a" "unat i < 1024" "page_base b \<noteq> a"
  shows "store32 m (a + 4 * i) v b = m b"
  using slot_byte(2) [OF assms(1,2)] assms(3) by (intro store32_other) auto

section \<open>Well-formed directories\<close>

definition table_of :: "memory \<Rightarrow> u32 \<Rightarrow> u32 \<Rightarrow> u32" where
  "table_of m dir i = page_base (load32 m (dir + 4 * i))"

definition wf_dir :: "memory \<Rightarrow> u32 \<Rightarrow> bool" where
  "wf_dir m dir \<longleftrightarrow> paging_is_aligned dir
     \<and> (\<forall>i. unat i < 1024 \<longrightarrow> load32 m (dir + 4 * i) AND 1 \<noteq> 0 \<and> table_of m dir i \<noteq> dir
          \<and> (\<forall>j. unat j < 1024 \<longrightarrow> table_of m dir i = table_of m dir j \<longrightarrow> i = j))"

lemma table_of_aligned [simp]: "paging_is_aligned (table_of m dir i)"
  by (simp add: table_of_def)

lemma wf_dir_table_inj:
  "wf_dir m dir \<Longrightarrow> unat i < 1024 \<Longrightarrow> unat j < 1024 \<Longrightarrow> table_of m dir i = table_of m dir j \<Longrightarrow> i = j"
  by (simp add: wf_dir_def)

lemma paging_indexes:
  "paging_is_aligned v \<Longrightarrow> paging_get_indexes v d t = (0, pdx v, ptx v)"
  by (simp add: paging_get_indexes_def pdx_def ptx_def paging_defs)

lemma paging_set_aligned:
  "paging_is_aligned v \<Longrightarrow>
     paging_set dir v val m = (0, store32 m (table_of m dir (pdx v) + 4 * ptx v) val)"
  by (simp add: paging_set_def paging_indexes table_of_def page_base_def)

lemma paging_set_unaligned: "\<not> paging_is_aligned v \<Longrightarrow> paging_set dir v val m = (- EINVARG, m)"
  by (simp add: paging_set_def)

lemma paging_get_aligned:
  "paging_is_aligned v \<Longrightarrow> paging_get dir v m =
     (if load32 m (dir + 4 * pdx v) AND 1 = 0 then 0 else load32 m (table_of m dir (pdx v) + 4 * ptx v))"
  by (simp add: paging_get_def paging_indexes table_of_def page_base_def Let_def)

lemma wf_dir_get:
  "wf_dir m dir \<Longrightarrow> paging_is_aligned v \<Longrightarrow> paging_get dir v m = load32 m (table_of m dir (pdx v) + 4 * ptx v)"
  by (simp add: paging_get_aligned wf_dir_def)

text \<open>Writing into a table leaves the directory alone.\<close>

lemma directory_kept:
  assumes "wf_dir m dir" "unat i < 1024" "unat j < 1024" "unat k < 1024"
  shows "load32 (store32 m (table_of m dir i + 4 * j) val) (dir + 4 * k) = load32 m (dir + 4 * k)"
  using assms by (subst load32_slot_store32) (auto simp: wf_dir_def)

lemma wf_dir_set:
  assumes "wf_dir m dir" "unat i < 1024" "unat j < 1024"
  shows "wf_dir (store32 m (table_of m dir i + 4 * j) val) dir"
    and "unat k < 1024 \<Longrightarrow> table_of (store32 m (table_of m dir i + 4 * j) val) dir k = table_of m dir k"
  using directory_kept [OF assms] assms(1) unfolding wf_dir_def table_of_def by auto

lemma paging_get_set:
  assumes "wf_dir m dir" "paging_is_aligned v" "paging_is_aligned w"
  shows "paging_get dir w (snd (paging_set dir v val m)) = (if w = v then val else paging_get dir w m)"
proof -
  let ?m = "store32 m (table_of m dir (pdx v) + 4 * ptx v) val"
  note keep = wf_dir_set [OF assms(1) pdx_bound [of v] ptx_bound [of v], where val = val]
  have "paging_get dir w ?m = load32 ?m (table_of m dir (pdx w) + 4 * ptx w)"
    unfolding wf_dir_get [OF keep(1) assms(3)] keep(2) [OF pdx_bound] ..
  also have "\<dots> = (if table_of m dir (pdx v) = table_of m dir (pdx w) \<and> ptx v = ptx w then val
      else load32 m (table_of m dir (pdx w) + 4 * ptx w))"
    by (rule load32_slot_store32 [OF table_of_aligned table_of_aligned ptx_bound ptx_bound])
  also have "table_of m dir (pdx v) = table_of m dir (pdx w) \<longleftrightarrow> pdx v = pdx w"
    using assms(1) by (auto simp: wf_dir_def)
  finally show ?thesis
    using pdx_ptx_inj [OF assms(2,3)] wf_dir_get [OF assms(1,3)] by (auto simp: paging_set_aligned assms(2))
qed

section \<open>Mapping an interval\<close>

text \<open>The structure a \<^verbatim>\<open>paging_4gb_memory_map\<close> pointer stands for: a well-formed directory whose
  tables do not lie in the page of the structure itself.\<close>

definition wf_chunk :: "memory \<Rightarrow> u32 \<Rightarrow> bool" where
  "wf_chunk m chunk \<longleftrightarrow> aligned4 chunk \<and> wf_dir m (d_entry m chunk)
     \<and> (\<forall>i. unat i < 1024 \<longrightarrow> table_of m (d_entry m chunk) i \<noteq> page_base chunk)"

lemma page_base_word:
  assumes "aligned4 c" "k < 4"
  shows "page_base (c + of_nat k) = page_base c"
proof -
  have "unat (page_base (c + of_nat k)) = unat (page_base c)"
  proof -
    obtain q where q: "unat c = 4 * q" using assms(1) unfolding aligned4_def by (metis mod_0_imp_dvd dvdE)
    have "(4 * q + k) div (4 * 1024) = 4 * q div (4 * 1024)"
      using assms(2) by (simp only: div_mult2_eq) simp
    then show ?thesis unfolding unat_page_base aligned4_plus [OF assms] q by simp
  qed
  then show ?thesis by (simp add: word_unat_eq_iff)
qed

lemma wf_chunk_store:
  fixes val :: u32
  assumes "wf_chunk m chunk" "unat i < 1024" "unat j < 1024"
  defines "m' \<equiv> store32 m (table_of m (d_entry m chunk) i + 4 * j) val"
  shows "d_entry m' chunk = d_entry m chunk" "wf_chunk m' chunk"
proof -
  have "m' (chunk + of_nat k) = m (chunk + of_nat k)" if "k < 4" for k
    unfolding m'_def using assms(1-3) page_base_word [OF _ that, of chunk]
    by (intro store32_slot_frame) (auto simp: wf_chunk_def)
  then show d: "d_entry m' chunk = d_entry m chunk"
    unfolding d_entry_def by (rule load32_cong)
  show "wf_chunk m' chunk"
    using assms(1) wf_dir_set [OF _ assms(2,3), of m "d_entry m chunk", where val = val] d
    by (simp add: wf_chunk_def m'_def)
qed

lemma paging_map_ok:
  assumes "wf_chunk m chunk" "paging_is_aligned v" "paging_is_aligned p"
  obtains m' where "paging_map chunk v p flags m = (0, m')" "wf_chunk m' chunk"
    "d_entry m' chunk = d_entry m chunk"
    "\<And>w. paging_is_aligned w \<Longrightarrow> paging_get (d_entry m chunk) w m' =
       (if w = v then p OR flags else paging_get (d_entry m chunk) w m)"
proof
  let ?d = "d_entry m chunk"
  let ?m = "store32 m (table_of m ?d (pdx v) + 4 * ptx v) (p OR flags)"
  show eq: "paging_map chunk v p flags m = (0, ?m)"
    using assms(2,3) by (simp add: paging_map_def paging_set_aligned paging_is_aligned_def)
  show "wf_chunk ?m chunk" "d_entry ?m chunk = ?d"
    using wf_chunk_store [OF assms(1) pdx_bound ptx_bound] by simp_all
  show "paging_get ?d w ?m = (if w = v then p OR flags else paging_get ?d w m)" if "paging_is_aligned w" for w
    using paging_get_set [of m ?d v w "p OR flags"] assms(1,2) that
    by (simp add: wf_chunk_def paging_set_aligned)
qed

lemma aligned_add:
  assumes "paging_is_aligned a" "paging_is_aligned b"
  shows "paging_is_aligned (a + b)"
proof -
  obtain k l where "unat a = 4096 * k" "unat b = 4096 * l" using assms aligned_page by metis
  then have "unat (a + b) = (4096 * k + 4096 * l) mod (4096 * 1048576)" by (simp add: unat_word_ariths)
  also have "\<dots> = 4096 * ((k + l) mod 1048576)"
    unfolding mult_mod_right by (simp only: distrib_left)
  finally show ?thesis by (rule aligned_pageI)
qed

lemma aligned_next: "paging_is_aligned a \<Longrightarrow> paging_is_aligned (a + PAGING_PAGE_SIZE)"
  by (rule aligned_add) (simp_all add: paging_is_aligned_unat paging_defs)

text \<open>Distance of a page from the start of an interval, one page later.\<close>

lemma page_distance_step:
  assumes "paging_is_aligned v" "paging_is_aligned w" "n \<le> 1048576" "0 < n"
  shows "unat (w - v) < 4096 * n \<longleftrightarrow> w = v \<or> unat (w - (v + 4096)) < 4096 * (n - 1)"
    and "w = v \<Longrightarrow> \<not> unat (w - (v + 4096)) < 4096 * (n - 1)"
proof -
  obtain k l where k: "k < 1048576" "unat v = 4096 * k" and l: "unat w = 4096 * l"
    using assms(1,2) aligned_page by metis
  have "unat (w - v) = 4096 * (if k \<le> l then l - k else l + 1048576 - k)"
    using k l unat_sub_if' [of w v] by (simp add: word_le_nat_alt diff_mult_distrib2)
  then have al: "unat (w - v) mod 4096 = 0" by simp
  show neq: "\<not> unat (w - (v + 4096)) < 4096 * (n - 1)" if "w = v"
    using that assms(3) by simp
  show "unat (w - v) < 4096 * n \<longleftrightarrow> w = v \<or> unat (w - (v + 4096)) < 4096 * (n - 1)"
  proof (cases "w = v")
    case False
    then have "unat (w - v) \<noteq> 0" by (simp add: unat_eq_zero)
    then have ge: "4096 \<le> unat (w - v)" using al by (metis mod_less not_le)
    have "unat (w - v - 4096) = unat (w - v) - 4096"
      using ge by (simp add: unat_sub word_le_nat_alt)
    moreover have "w - (v + 4096) = w - v - 4096" by simp
    ultimately show ?thesis using False ge assms(4) by (simp only:) auto
  qed (use assms(4) in simp)
qed

lemma paging_map_range_loop_ok:
  assumes "wf_chunk m chunk" "paging_is_aligned v" "paging_is_aligned p" "unat count - unat i \<le> 1048576"
    "i \<le> count"
  shows "\<exists>m'. paging_map_range_loop chunk v p count flags i 0 m = (0, m') \<and> wf_chunk m' chunk
    \<and> d_entry m' chunk = d_entry m chunk
    \<and> (\<forall>w. paging_is_aligned w \<longrightarrow> paging_get (d_entry m chunk) w m' =
         (if unat (w - v) < 4096 * (unat count - unat i) then (p + (w - v)) OR flags
          else paging_get (d_entry m chunk) w m))"
  using assms
proof (induction "unat count - unat i" arbitrary: i v p m)
  case 0
  then have "\<not> i < count" by (simp add: word_less_nat_alt)
  then show ?case
    using 0 by (intro exI [of _ m]) (simp add: paging_map_range_loop.simps)
next
  case (Suc n)
  let ?d = "d_entry m chunk"
  have lt: "i < count" using Suc.hyps(2) by (simp add: word_less_nat_alt)
  have n: "n = unat count - unat (i + 1)" using Suc.hyps(2) unat_Suc_word [OF lt] by simp
  obtain m1 where m1: "paging_map chunk v p flags m = (0, m1)" "wf_chunk m1 chunk" "d_entry m1 chunk = ?d"
    "\<And>w. paging_is_aligned w \<Longrightarrow> paging_get ?d w m1 = (if w = v then p OR flags else paging_get ?d w m)"
    using paging_map_ok [OF Suc.prems(1-3)] by blast
  have le: "unat count - unat (i + 1) \<le> 1048576" "i + 1 \<le> count"
    using Suc.prems(4) n Suc.hyps(2) lt by (auto simp: inc_le)
  obtain m2 where m2: "paging_map_range_loop chunk (v + 4096) (p + 4096) count flags (i + 1) 0 m1 = (0, m2)"
    "wf_chunk m2 chunk" "d_entry m2 chunk = ?d"
    "\<And>w. paging_is_aligned w \<Longrightarrow> paging_get ?d w m2 =
       (if unat (w - (v + 4096)) < 4096 * n then (p + 4096 + (w - (v + 4096))) OR flags
        else paging_get ?d w m1)"
    using Suc.hyps(1) [OF n m1(2) aligned_next [OF Suc.prems(2)] aligned_next [OF Suc.prems(3)] le]
    unfolding m1(3) n [symmetric] by (auto simp: paging_defs)
  have loop: "paging_map_range_loop chunk v p count flags i 0 m = (0, m2)"
    using lt m1(1) m2(1) by (subst paging_map_range_loop.simps) (simp add: paging_defs)
  have "paging_get ?d w m2 = (if unat (w - v) < 4096 * Suc n then (p + (w - v)) OR flags else paging_get ?d w m)"
    if w: "paging_is_aligned w" for w
  proof -
    have "Suc n \<le> 1048576" using Suc.prems(4) Suc.hyps(2) by simp
    note dist = page_distance_step [OF Suc.prems(2) w this, simplified]
    show ?thesis using dist m2(4) [OF w] m1(4) [OF w] by (auto simp: algebra_simps)
  qed
  then show ?case using loop m2 Suc.hyps(2) by auto
qed

lemma paging_map_range_ok:
  assumes "wf_chunk m chunk" "paging_is_aligned v" "paging_is_aligned p" "unat count \<le> 1048576"
  shows "\<exists>m'. paging_map_range chunk v p count flags m = (0, m') \<and> wf_chunk m' chunk
    \<and> d_entry m' chunk = d_entry m chunk
    \<and> (\<forall>w. paging_is_aligned w \<longrightarrow> paging_get (d_entry m chunk) w m' =
         (if unat (w - v) < 4096 * unat count then (p + (w - v)) OR flags
          else paging_get (d_entry m chunk) w m))"
  using paging_map_range_loop_ok [OF assms(1-3), of count 0 flags] assms(4)
  by (simp add: paging_map_range_def)

text \<open>The physical address: the frame of the entry, with the offset in the page.\<close>

lemma page_offset: "v - paging_align_to_lower_page_addr v = v mod 4096"
  by (simp add: paging_align_to_lower_page_addr_def paging_defs)

lemma lower_page_addr: "paging_align_to_lower_page_addr v = page_base v"
  by (simp add: paging_align_to_lower_page_addr_def paging_defs page_base_sub)

lemma paging_get_physical_address_eq:
  "paging_get_physical_address dir v m = page_base (paging_get dir (page_base v) m) + v mod 4096"
  unfolding paging_get_physical_address_def Let_def page_offset unfolding lower_page_addr
  by (simp add: page_base_def)

text \<open>Entries made of an aligned frame and flags below 4096.\<close>

lemma page_base_frame_or:
  assumes "paging_is_aligned p" "unat f < 4096"
  shows "page_base (p OR f) = p"
proof -
  have "f mod 4096 = f" using assms(2) by (simp add: word_unat_eq_iff unat_mod_distrib)
  then have f: "f AND 0xFFF = f" by (simp add: page_mod_mask)
  have "f AND 0xFFFFF000 = (f AND 0xFFF) AND 0xFFFFF000" by (simp only: f)
  then have "f AND 0xFFFFF000 = 0" by (simp add: and.assoc)
  then show ?thesis
    using page_base_of_aligned [OF assms(1)] by (simp add: page_base_def bit.conj_disj_distrib2)
qed

text \<open>After \<^verbatim>\<open>paging_map_to\<close> an address of the mapped interval translates to the same offset of the
  target interval.\<close>

lemma aligned_diff:
  assumes "paging_is_aligned a" "paging_is_aligned b"
  shows "paging_is_aligned (a - b)"
proof -
  obtain k l where k: "unat a = 4096 * k" "l < 1048576" "unat b = 4096 * l" using assms aligned_page by metis
  have "unat (a - b) = 4096 * (if l \<le> k then k - l else k + 1048576 - l)"
    using k unat_sub_if' [of a b] by (simp add: word_le_nat_alt diff_mult_distrib2)
  then show ?thesis by (rule aligned_pageI)
qed

lemma page_split: "x = page_base x + x mod 4096"
  by (simp add: page_base_sub)

text \<open>The page of an address and the distance from the start of an interval of whole pages.\<close>

lemma page_distance:
  assumes "paging_is_aligned v"
  shows "unat (page_base x - v) < 4096 * n \<longleftrightarrow> unat (x - v) < 4096 * n"
proof -
  have al: "paging_is_aligned (page_base x - v)" using assms by (intro aligned_diff) simp_all
  obtain k where k: "k < 1048576" "unat (page_base x - v) = 4096 * k" using al by (rule aligned_page)
  have r: "unat (x mod 4096) < 4096" by (simp add: unat_mod_distrib)
  have "x - v = (page_base x - v) + x mod 4096" by (subst page_split [of x]) simp
  then have "unat (x - v) = unat ((page_base x - v) + x mod 4096)" by (rule arg_cong)
  also have "\<dots> = 4096 * k + unat (x mod 4096)"
    using k r by (subst unat_add_lem [THEN iffD1]) simp_all
  finally have x: "unat (x - v) = 4096 * k + unat (x mod 4096)" .
  have "k < n \<Longrightarrow> 4096 * Suc k \<le> 4096 * n" by (rule mult_le_mono2) simp
  moreover have "\<not> k < n \<Longrightarrow> 4096 * n \<le> 4096 * k" by simp
  ultimately show ?thesis unfolding k(2) x using r by (cases "k < n") auto
qed

lemma paging_map_to_ok:
  assumes "wf_chunk m chunk" "paging_is_aligned v" "paging_is_aligned p" "paging_is_aligned e" "p \<le> e"
    "unat flags < 4096"
  shows "\<exists>m'. paging_map_to chunk v p e flags m = (0, m') \<and> wf_chunk m' chunk
    \<and> d_entry m' chunk = d_entry m chunk
    \<and> (\<forall>x. paging_get_physical_address (d_entry m chunk) x m' =
         (if x - v < e - p then p + (x - v) else paging_get_physical_address (d_entry m chunk) x m))"
proof -
  let ?d = "d_entry m chunk" and ?n = "unat ((e - p) div 4096)"
  have al: "paging_is_aligned (e - p)" using assms by (intro aligned_diff)
  obtain k where k: "k < 1048576" "unat (e - p) = 4096 * k" using al by (rule aligned_page)
  then have n: "?n = k" by (simp add: unat_div_distrib)
  then have "?n \<le> 1048576" using k by simp
  from paging_map_range_ok [OF assms(1-3) this, of flags] obtain m' where
    m': "paging_map_range chunk v p ((e - p) div 4096) flags m = (0, m')" "wf_chunk m' chunk" "d_entry m' chunk = ?d"
      "\<And>w. paging_is_aligned w \<Longrightarrow> paging_get ?d w m' =
         (if unat (w - v) < 4096 * k then (p + (w - v)) OR flags else paging_get ?d w m)"
    unfolding n by blast
  have "paging_map_to chunk v p e flags m = (0, m')"
    using assms(2-5) m'(1) by (simp add: paging_map_to_def paging_is_aligned_def paging_defs leD)
  moreover have "paging_get_physical_address ?d x m' =
      (if x - v < e - p then p + (x - v) else paging_get_physical_address ?d x m)" for x
  proof -
    have frame: "page_base ((p + (page_base x - v)) OR flags) = p + (page_base x - v)"
      using assms by (intro page_base_frame_or aligned_add aligned_diff) simp_all
    have "x - v < e - p \<longleftrightarrow> unat (page_base x - v) < 4096 * k"
      using page_distance [OF assms(2), of x k] k(2) by (simp add: word_less_nat_alt)
    moreover have "p + (page_base x - v) + x mod 4096 = p + (x - v)"
      using page_split [of x] by (simp add: algebra_simps)
    ultimately show ?thesis
      unfolding paging_get_physical_address_eq using m'(4) [of "page_base x"] frame by simp
  qed
  ultimately show ?thesis using m'(2,3) by blast
qed

section \<open>Building the identity map\<close>

lemma page_region:
  assumes "paging_is_aligned t"
  shows "page_base a = t \<longleftrightarrow> unat t \<le> unat a \<and> unat a < unat t + 4096"
proof -
  obtain k where k: "unat t = 4096 * k" using assms by (rule aligned_page)
  have "page_base a = t \<longleftrightarrow> unat a div 4096 = k"
    by (simp add: word_unat_eq_iff unat_page_base k)
  also have "\<dots> \<longleftrightarrow> 4096 * k \<le> unat a \<and> unat a < 4096 * k + 4096"
    by (auto simp: div_nat_eqI less_eq_div_iff_mult_less_eq dividend_less_times_div mult.commute)
  finally show ?thesis unfolding k .
qed

lemma block_aligned: "unat t = 16777216 + 4096 * b \<Longrightarrow> paging_is_aligned t"
  using aligned_pageI [of t "4096 + b"] by simp

text \<open>One table: the entries are the page addresses from \<open>offset\<close> on.\<close>

lemma gen_table_upto:
  fixes m :: memory and val :: "nat \<Rightarrow> u32"
  assumes "paging_is_aligned t" "n \<le> 1024"
  defines "m' \<equiv> fold (\<lambda>j m. store32 m (t + 4 * of_nat j) (val j)) [0..<n] m"
  shows "(\<forall>j < n. load32 m' (t + 4 * of_nat j) = val j) \<and> (\<forall>a. page_base a \<noteq> t \<longrightarrow> m' a = m a)"
  using assms(2) unfolding m'_def
proof (induction n)
  case (Suc n)
  let ?m = "fold (\<lambda>j m. store32 m (t + 4 * of_nat j) (val j)) [0..<n] m"
  have u: "unat (of_nat j :: u32) = j" if "j \<le> n" for j
    using that Suc.prems by (intro unat_of_nat32) simp
  have "load32 (store32 ?m (t + 4 * of_nat n) (val n)) (t + 4 * of_nat j) = val j" if "j < Suc n" for j
    using that Suc.IH Suc.prems u of_nat32_inj [of n j]
    by (subst load32_slot_store32 [OF assms(1) assms(1)]) (auto simp: less_Suc_eq)
  moreover have "store32 ?m (t + 4 * of_nat n) (val n) a = m a" if "page_base a \<noteq> t" for a
    using that Suc.IH Suc.prems u [of n] store32_slot_frame [OF assms(1) _ that, of "of_nat n"] by simp
  ultimately show ?case by simp
qed simp

lemma gen_table_ok:
  assumes "paging_is_aligned t"
  shows "j < 1024 \<Longrightarrow> load32 (gen_table t off flags m) (t + 4 * of_nat j) = (off + of_nat j * 4096) OR ucast flags"
    and "page_base a \<noteq> t \<Longrightarrow> gen_table t off flags m a = m a"
  using gen_table_upto [OF assms, of 1024 "\<lambda>j. (off + of_nat j * 4096) OR ucast flags" m]
  by (simp_all add: gen_table_def paging_defs)

text \<open>Two live regions of a page are disjoint pages, none of them reserved.\<close>

lemma live_page_neq:
  assumes "kheap_ok s" "(unat t, 4096) \<in> kheap_live s" "(unat u, 4096) \<in> kheap_live s" "t \<noteq> u"
    "paging_is_aligned t" "paging_is_aligned u" "page_base a = t"
  shows "page_base a \<noteq> u"
  using assms kh.live_disjoint [OF assms(1-3), of "unat a"]
  unfolding page_region [OF assms(5)] page_region [OF assms(6)] by (auto simp: word_unat_eq_iff)

lemma live_page_public:
  "kheap_ok s \<Longrightarrow> (unat t, 4096) \<in> kheap_live s \<Longrightarrow> paging_is_aligned t \<Longrightarrow> kheap_reserved a \<Longrightarrow> page_base a \<noteq> t"
  using kh.live_public [of s "unat t" 4096 a] page_region [of t a] by blast

definition dir_val :: "u8 \<Rightarrow> u32 \<Rightarrow> u32" where
  "dir_val flags t = t OR ucast flags OR 2"

text \<open>After \<open>length ts\<close> rounds of the outer loop, started in \<open>s1\<close> with the directory allocated at \<open>dir\<close>:
  \<open>ts\<close> are the tables made so far.\<close>

definition gen_inv :: "'a vstate_scheme \<Rightarrow> u32 \<Rightarrow> u8 \<Rightarrow> u32 list \<Rightarrow> u32 \<times> 'a vstate_scheme \<Rightarrow> bool" where
  "gen_inv s1 dir flags ts os \<longleftrightarrow> (let (off, s) = os in
     off = of_nat (length ts) * 0x400000 \<and> kheap_ok s \<and> free_blocks s + length ts = free_blocks s1
   \<and> kheap_live s = kheap_live s1 \<union> (\<lambda>t. (unat t, 4096)) ` set ts
   \<and> distinct ts \<and> (\<forall>t \<in> set ts. paging_is_aligned t \<and> (unat t, 4096) \<notin> kheap_live s1)
   \<and> (\<forall>i < length ts. load32 (mem s) (dir + 4 * of_nat i) = dir_val flags (ts ! i))
   \<and> (\<forall>i < length ts. \<forall>j < 1024. load32 (mem s) (ts ! i + 4 * of_nat j)
        = (of_nat i * 0x400000 + of_nat j * 4096) OR ucast flags)
   \<and> (\<forall>q k a. (q, k) \<in> kheap_live s1 \<longrightarrow> q \<le> unat a \<and> unat a < q + k \<longrightarrow> page_base a \<noteq> dir \<longrightarrow> mem s a = mem s1 a))"

lemma gen_inv_start: "kheap_ok s1 \<Longrightarrow> gen_inv s1 dir flags [] (0, s1)"
  by (simp add: gen_inv_def)

lemma load32_slot_cong:
  assumes "paging_is_aligned t" "unat i < 1024" "\<And>a. page_base a = t \<Longrightarrow> m a = m' a"
  shows "load32 m (t + 4 * i) = load32 m' (t + 4 * i)"
  using assms slot_byte(2) [OF assms(1,2)] by (intro load32_cong) blast

lemma live_page_bounds: "(q, k) \<in> kheap_live s \<Longrightarrow> kheap_ok s \<Longrightarrow> q \<le> unat a \<Longrightarrow> unat a < q + k \<Longrightarrow> \<not> kheap_reserved a"
  using kh.live_public by blast

lemma gen_step_ok:
  assumes inv: "gen_inv s1 dir flags ts (off, s)" and ts: "length ts < 1024"
    and free: "0 < free_blocks s" and dir: "paging_is_aligned dir" "(unat dir, 4096) \<in> kheap_live s1"
  shows "\<exists>t. gen_inv s1 dir flags (ts @ [t]) (gen_directory_step dir flags (length ts) (off, s))"
proof -
  let ?p = "fst (kzalloc 4096 s)" and ?s = "snd (kzalloc 4096 s)" and ?n = "length ts"
  have I: "off = of_nat ?n * 0x400000" "kheap_ok s" "free_blocks s + ?n = free_blocks s1"
    "kheap_live s = kheap_live s1 \<union> (\<lambda>t. (unat t, 4096)) ` set ts" "distinct ts"
    "\<And>t. t \<in> set ts \<Longrightarrow> paging_is_aligned t \<and> (unat t, 4096) \<notin> kheap_live s1"
    "\<And>i. i < ?n \<Longrightarrow> load32 (mem s) (dir + 4 * of_nat i) = dir_val flags (ts ! i)"
    "\<And>i j. i < ?n \<Longrightarrow> j < 1024 \<Longrightarrow> load32 (mem s) (ts ! i + 4 * of_nat j)
        = (of_nat i * 0x400000 + of_nat j * 4096) OR ucast flags"
    "\<And>q k a. (q, k) \<in> kheap_live s1 \<Longrightarrow> q \<le> unat a \<Longrightarrow> unat a < q + k \<Longrightarrow> page_base a \<noteq> dir \<Longrightarrow> mem s a = mem s1 a"
    using inv unfolding gen_inv_def by auto
  obtain b where b: "unat ?p = 16777216 + 4096 * b" "kheap_ok ?s"
    "kheap_live ?s = insert (unat ?p, 4096) (kheap_live s)" "(unat ?p, 4096) \<notin> kheap_live s"
    "Suc (free_blocks ?s) = free_blocks s"
    by (rule kzalloc_page [OF I(2) free, of 4096]) auto
  have p: "paging_is_aligned ?p" using b(1) by (rule block_aligned)
  have room: "kheap_room 4096 s" by (rule free_block_room [OF free]) simp_all
  have kept: "mem ?s a = mem s a" if "(q, k) \<in> kheap_live s" "q \<le> unat a" "unat a < q + k" for q k a
    using khz.zalloc_live_kept [OF I(2) room that] .
  define m where "m = gen_table ?p off flags (mem ?s)"
  define m' where "m' = store32 m (dir + 4 * of_nat ?n) (dir_val flags ?p)"
  have m_frame: "m a = mem ?s a" if "page_base a \<noteq> ?p" for a
    using gen_table_ok(2) [OF p that] by (simp add: m_def)
  have n: "unat (of_nat ?n :: u32) = ?n" using ts by (intro unat_of_nat32) simp
  have m'_frame: "m' a = mem ?s a" if "page_base a \<noteq> ?p" "page_base a \<noteq> dir" for a
    using store32_slot_frame [OF dir(1) _ that(2), of "of_nat ?n" m] n ts m_frame [OF that(1)] by (simp add: m'_def)
  have live: "(unat dir, 4096) \<in> kheap_live ?s" "(unat ?p, 4096) \<in> kheap_live ?s"
    "\<And>t. t \<in> set ts \<Longrightarrow> (unat t, 4096) \<in> kheap_live ?s"
    using dir(2) b(3) I(4) by auto
  have neq: "?p \<noteq> dir" "?p \<notin> set ts" "dir \<notin> set ts" using b(4) dir(2) I(4,6) by auto
  define s' where "s' = ?s\<lparr>mem := m'\<rparr>"
  have step: "gen_directory_step dir flags ?n (off, s) = (off + 0x400000, s')"
    by (simp add: gen_directory_step_def paging_defs m'_def m_def s'_def dir_val_def case_prod_unfold or.assoc Let_def)
  have reserved: "mem s' a = mem ?s a" if "kheap_reserved a" for a
    using m'_frame live_page_public [OF b(2) live(2) p that] live_page_public [OF b(2) live(1) dir(1) that]
    by (simp add: s'_def)
  have "kernel_heap s' = kernel_heap ?s" by (simp add: s'_def)
  note heap = kheap_mem_cong [OF this reserved]
  have old_page: "load32 m' (t + 4 * of_nat j) = load32 (mem s) (t + 4 * of_nat j)"
    if t: "t \<in> set ts" and j: "j < 1024" for t j
  proof (rule load32_slot_cong)
    show "paging_is_aligned t" using I(6) t by blast
    show "unat (of_nat j :: u32) < 1024" using j by (simp add: unat_of_nat32)
    fix a assume a: "page_base a = t"
    have "page_base a \<noteq> ?p" "page_base a \<noteq> dir" using a neq t by auto
    moreover have "mem ?s a = mem s a"
      using a I(4) t page_region [of t a] I(6) [OF t] by (intro kept [of "unat t" 4096]) auto
    ultimately show "m' a = mem s a" using m'_frame by simp
  qed
  have dir_m: "load32 m (dir + 4 * of_nat i) = load32 (mem s) (dir + 4 * of_nat i)" if "i < 1024" for i
  proof (rule load32_slot_cong [OF dir(1)])
    show "unat (of_nat i :: u32) < 1024" using that by (simp add: unat_of_nat32)
    fix a assume a: "page_base a = dir"
    then have "m a = mem ?s a" using neq(1) by (intro m_frame) auto
    also have "\<dots> = mem s a"
      using a I(4) dir page_region [of dir a] by (intro kept [of "unat dir" 4096]) auto
    finally show "m a = mem s a" .
  qed
  have dirs: "load32 m' (dir + 4 * of_nat i) = dir_val flags ((ts @ [?p]) ! i)" if "i < Suc ?n" for i
  proof -
    have u: "unat (of_nat i :: u32) = i" using that ts by (intro unat_of_nat32) simp
    have "load32 m' (dir + 4 * of_nat i) = (if i = ?n then dir_val flags ?p else load32 m (dir + 4 * of_nat i))"
      unfolding m'_def using that ts u n of_nat32_inj [of ?n i]
      by (subst load32_slot_store32 [OF dir(1) dir(1)]) auto
    then show ?thesis using that ts dir_m [of i] I(7) [of i] by (auto simp: nth_append)
  qed
  have tabs: "load32 m' ((ts @ [?p]) ! i + 4 * of_nat j) = (of_nat i * 0x400000 + of_nat j * 4096) OR ucast flags"
    if i: "i < Suc ?n" and j: "j < 1024" for i j
  proof (cases "i = ?n")
    case True
    have "load32 m' (?p + 4 * of_nat j) = load32 m (?p + 4 * of_nat j)"
    proof (rule load32_slot_cong [OF p])
      show "unat (of_nat j :: u32) < 1024" using j by (simp add: unat_of_nat32)
      fix a assume "page_base a = ?p"
      then show "m' a = m a"
        unfolding m'_def using neq(1) n ts by (intro store32_slot_frame [OF dir(1)]) auto
    qed
    then show ?thesis using True gen_table_ok(1) [OF p j, of off flags "mem ?s"] I(1) by (simp add: m_def)
  next
    case False
    then show ?thesis using i j old_page [of "ts ! i" j] I(8) [of i j] by (simp add: nth_append)
  qed
  have frame: "m' a = mem s1 a" if "(q, k) \<in> kheap_live s1" "q \<le> unat a" "unat a < q + k" "page_base a \<noteq> dir" for q k a
  proof -
    have "(q, k) \<in> kheap_live ?s" using that(1) b(3) I(4) by simp
    moreover have "(q, k) \<noteq> (unat ?p, 4096)" using that(1) b(4) I(4) by auto
    ultimately have "page_base a \<noteq> ?p"
      using kh.live_disjoint [OF b(2) _ live(2), of q k "unat a"] that(2,3) page_region [OF p, of a] by blast
    then have "m' a = mem s a" using m'_frame that kept [of q k a] I(4) by simp
    then show ?thesis using I(9) [OF that] by simp
  qed
  have "gen_inv s1 dir flags (ts @ [?p]) (off + 0x400000, s')"
    unfolding gen_inv_def using I(1,3,4,5,6) b heap p neq dirs tabs frame
    by (auto simp: s'_def algebra_simps)
  then show ?thesis using step by auto
qed

lemma gen_directories_ok:
  assumes "kheap_ok s1" "paging_is_aligned dir" "(unat dir, 4096) \<in> kheap_live s1" "n \<le> 1024"
    "n \<le> free_blocks s1"
  shows "\<exists>ts. length ts = n \<and> gen_inv s1 dir flags ts (fold (gen_directory_step dir flags) [0..<n] (0, s1))"
  using assms(4,5)
proof (induction n)
  case 0
  then show ?case using gen_inv_start [OF assms(1)] by simp
next
  case (Suc n)
  let ?os = "fold (gen_directory_step dir flags) [0..<n] (0, s1)"
  obtain ts off s where ts: "length ts = n" "?os = (off, s)" "gen_inv s1 dir flags ts (off, s)"
    using Suc.IH Suc.prems by (metis Suc_leD surj_pair)
  then have "0 < free_blocks s" using Suc.prems by (auto simp: gen_inv_def)
  then obtain t where "gen_inv s1 dir flags (ts @ [t]) (gen_directory_step dir flags n (off, s))"
    using gen_step_ok [OF ts(3) _ _ assms(2,3)] ts(1) Suc.prems by auto
  then show ?case using ts by (intro exI [of _ "ts @ [t]"]) simp
qed

text \<open>The frames of the entries the code writes, for flags of one byte.\<close>

lemma page_base_flags:
  assumes "paging_is_aligned t"
  shows "page_base (t OR ucast (f :: u8)) = t" "page_base (dir_val f t) = t"
proof -
  have or: "page_base (a OR b) = page_base a OR page_base b" for a b
    by (simp add: page_base_def bit.conj_disj_distrib2)
  have "unat (ucast f :: u32) < 256"
    using unsigned_less [where ?'a = nat, of f] by (simp add: unsigned_ucast_eq take_bit_nat_eq_self)
  then have "unat (page_base (ucast f)) = 0" unfolding unat_page_base by simp
  then have f: "page_base (ucast f) = 0" by (simp add: word_unat_eq_iff)
  show "page_base (t OR ucast f) = t" "page_base (dir_val f t) = t"
    unfolding dir_val_def or f page_base_of_aligned [OF assms] by (simp_all add: page_base_def)
qed

definition chunk_regions :: "memory \<Rightarrow> u32 \<Rightarrow> (nat \<times> nat) set" where
  "chunk_regions m chunk = {(unat chunk, 4096), (unat (d_entry m chunk), 4096)}
     \<union> (\<lambda>i. (unat (table_of m (d_entry m chunk) (of_nat i)), 4096)) ` {..<1024}"

text \<open>The tables of a finished directory, seen in a memory that agrees with it on its pages.\<close>

lemma gen_inv_tables:
  assumes inv: "gen_inv s1 dir flags ts (off, s)" and len: "length ts = 1024" and "paging_is_aligned dir"
    and "(unat dir, 4096) \<in> kheap_live s1" and "flags AND 1 \<noteq> 0"
    and same: "\<And>a. page_base a = dir \<or> page_base a \<in> set ts \<Longrightarrow> m a = mem s a"
  shows "\<And>i. unat i < 1024 \<Longrightarrow> table_of m dir i = ts ! unat i"
    and "wf_dir m dir"
    and "\<And>v. paging_is_aligned v \<Longrightarrow> paging_get dir v m = v OR ucast flags"
proof -
  have I: "distinct ts" "\<And>t. t \<in> set ts \<Longrightarrow> paging_is_aligned t \<and> (unat t, 4096) \<notin> kheap_live s1"
    "\<And>i. i < 1024 \<Longrightarrow> load32 (mem s) (dir + 4 * of_nat i) = dir_val flags (ts ! i)"
    "\<And>i j. i < 1024 \<Longrightarrow> j < 1024 \<Longrightarrow> load32 (mem s) (ts ! i + 4 * of_nat j)
        = (of_nat i * 0x400000 + of_nat j * 4096) OR ucast flags"
    using inv len unfolding gen_inv_def by auto
  have entry: "load32 m (dir + 4 * i) = dir_val flags (ts ! unat i)" if "unat i < 1024" for i
    using I(3) [OF that] load32_slot_cong [OF assms(3) that, of m "mem s"] same by simp
  show tab: "table_of m dir i = ts ! unat i" if "unat i < 1024" for i
    using entry [OF that] page_base_flags(2) I(2) [OF nth_mem] that len by (simp add: table_of_def)
  have flag: "dir_val flags t AND 1 \<noteq> 0" for t
  proof
    assume "dir_val flags t AND 1 = 0"
    then have "(ucast flags :: u32) AND 1 = 0"
      unfolding dir_val_def by (simp add: bit.conj_disj_distrib2 or_eq_0_iff)
    moreover have "(ucast (flags AND 1) :: u32) = ucast flags AND 1" by (simp only: unsigned_and_eq unsigned_1)
    ultimately have "(ucast (flags AND 1) :: u32) = 0" by (simp only:)
    then have "unat (flags AND 1) = 0"
      using unsigned_less [where ?'a = nat, of "flags AND 1"]
      by (simp only: word_unat_eq_iff unsigned_ucast_eq unsigned_0) (simp add: take_bit_nat_eq_self)
    then show False using assms(5) by (simp add: word_unat_eq_iff)
  qed
  show wf: "wf_dir m dir"
    unfolding wf_dir_def
  proof (intro conjI allI impI)
    fix i j :: u32 assume i: "unat i < 1024"
    show "load32 m (dir + 4 * i) AND 1 \<noteq> 0" using entry [OF i] flag by simp
    show "table_of m dir i \<noteq> dir" using tab [OF i] I(2) [OF nth_mem] i len assms(4) by auto
    show "i = j" if "unat j < 1024" "table_of m dir i = table_of m dir j"
    proof -
      have "ts ! unat i = ts ! unat j" using that(2) unfolding tab [OF i] tab [OF that(1)] .
      then show ?thesis using nth_eq_iff_index_eq [OF I(1), of "unat i" "unat j"] i that(1) len
        by (simp add: word_unat_eq_iff)
    qed
  qed (rule assms(3))
  fix v assume v: "paging_is_aligned v"
  have "paging_get dir v m = load32 m (ts ! unat (pdx v) + 4 * ptx v)"
    using wf_dir_get [OF wf v] tab [of "pdx v"] by simp
  also have "\<dots> = load32 (mem s) (ts ! unat (pdx v) + 4 * ptx v)"
    using I(2) len same by (intro load32_slot_cong) auto
  also have "\<dots> = (pdx v * 0x400000 + ptx v * 4096) OR ucast flags"
    using I(4) [of "unat (pdx v)" "unat (ptx v)"] by simp
  also have "pdx v * 0x400000 + ptx v * 4096 = v"
  proof -
    have "v = of_nat (4194304 * unat (pdx v) + 4096 * unat (ptx v))"
      unfolding pdx_ptx [OF v, symmetric] by simp
    then show ?thesis by (simp add: mult.commute)
  qed
  finally show "paging_get dir v m = v OR ucast flags" .
qed

lemma gen_paging_4gb_ok:
  assumes ok: "kheap_ok s" and free: "1026 \<le> free_blocks s" and flags: "flags AND 1 \<noteq> 0"
  shows "\<exists>chunk s'. gen_paging_4gb flags s = Ret chunk s' \<and> kheap_ok s' \<and> wf_chunk (mem s') chunk
    \<and> kheap_live s' = kheap_live s \<union> chunk_regions (mem s') chunk
    \<and> chunk_regions (mem s') chunk \<inter> kheap_live s = {}
    \<and> (\<forall>v. paging_is_aligned v \<longrightarrow> paging_get (d_entry (mem s') chunk) v (mem s') = v OR ucast flags)
    \<and> (\<forall>q k a. (q, k) \<in> kheap_live s \<longrightarrow> q \<le> unat a \<and> unat a < q + k \<longrightarrow> mem s' a = mem s a)"
proof -
  define dir where "dir = fst (kzalloc 4096 s)"
  define s1 where "s1 = snd (kzalloc 4096 s)"
  have room: "kheap_room 4096 s" using free by (intro free_block_room) simp_all
  obtain b where d: "unat dir = 16777216 + 4096 * b" "kheap_ok s1"
    "kheap_live s1 = insert (unat dir, 4096) (kheap_live s)" "(unat dir, 4096) \<notin> kheap_live s"
    "Suc (free_blocks s1) = free_blocks s"
    unfolding dir_def s1_def by (rule kzalloc_page [OF ok, of 4096]) (use free in auto)
  have dir: "paging_is_aligned dir" "(unat dir, 4096) \<in> kheap_live s1" using block_aligned [OF d(1)] d(3) by auto
  obtain ts off s2 where g: "length ts = 1024" "fold (gen_directory_step dir flags) [0..<1024] (0, s1) = (off, s2)"
    "gen_inv s1 dir flags ts (off, s2)"
    using gen_directories_ok [OF d(2) dir order_refl, of flags] free d(5)
    by (cases "fold (gen_directory_step dir flags) [0..<1024] (0, s1)") auto
  have I: "kheap_ok s2" "free_blocks s2 + 1024 = free_blocks s1"
    "kheap_live s2 = kheap_live s1 \<union> (\<lambda>t. (unat t, 4096)) ` set ts"
    "\<And>t. t \<in> set ts \<Longrightarrow> paging_is_aligned t \<and> (unat t, 4096) \<notin> kheap_live s1"
    "\<And>q k a. (q, k) \<in> kheap_live s1 \<Longrightarrow> q \<le> unat a \<Longrightarrow> unat a < q + k \<Longrightarrow> page_base a \<noteq> dir \<Longrightarrow> mem s2 a = mem s1 a"
    using g(1,3) unfolding gen_inv_def by auto
  define chunk where "chunk = fst (kzalloc 4 s2)"
  define s3 where "s3 = snd (kzalloc 4 s2)"
  have free2: "0 < free_blocks s2" using I(2) d(5) free by simp
  have room2: "kheap_room 4 s2" by (rule free_block_room [OF free2]) simp_all
  obtain c where c: "unat chunk = 16777216 + 4096 * c" "kheap_ok s3"
    "kheap_live s3 = insert (unat chunk, 4096) (kheap_live s2)" "(unat chunk, 4096) \<notin> kheap_live s2"
    unfolding chunk_def s3_def by (rule kzalloc_page [OF I(1) free2, of 4]) auto
  have chunk: "paging_is_aligned chunk" using block_aligned [OF c(1)] .
  define s4 where "s4 = s3\<lparr>mem := store32 (mem s3) chunk dir\<rparr>"
  have gen: "gen_paging_4gb flags s = Ret chunk s4"
    using g(2) d(1) c(1) unfolding gen_paging_4gb_def
    by (auto simp: paging_defs dir_def [symmetric] s1_def [symmetric] chunk_def [symmetric] s3_def [symmetric]
        s4_def case_prod_unfold Let_def)
  have s4_frame: "mem s4 a = mem s3 a" if "page_base a \<noteq> chunk" for a
    using store32_slot_frame [OF chunk _ that, of 0] by (simp add: s4_def)
  have "kernel_heap s4 = kernel_heap s3" by (simp add: s4_def)
  moreover have "mem s4 a = mem s3 a" if "kheap_reserved a" for a
    using live_page_public [OF c(2) _ chunk that] c(3) by (intro s4_frame) auto
  ultimately have heap: "kheap_ok s4" "kheap_live s4 = kheap_live s3"
    using kheap_mem_cong [of s4 s3] c(2) by auto
  have kept: "mem s4 a = mem s2 a" if "(q, k) \<in> kheap_live s2" "q \<le> unat a" "unat a < q + k" for q k a
  proof -
    have "(q, k) \<noteq> (unat chunk, 4096)" using that(1) c(4) by auto
    then have "page_base a \<noteq> chunk"
      using kh.live_disjoint [OF c(2), of q k "unat chunk" 4096 "unat a"] that c(3) page_region [OF chunk, of a] by auto
    then show ?thesis using s4_frame khz.zalloc_live_kept [OF I(1) room2 that] by (simp add: s3_def)
  qed
  have same: "mem s4 a = mem s2 a" if "page_base a = dir \<or> page_base a \<in> set ts" for a
  proof -
    have "(unat (page_base a), 4096) \<in> kheap_live s2"
      using that dir(2) unfolding I(3) by (elim disjE) simp_all
    then show ?thesis using page_region [of "page_base a" a] by (intro kept) auto
  qed
  have de: "d_entry (mem s4) chunk = dir"
    by (simp add: d_entry_def s4_def load32_store32_same)
  note tabs = gen_inv_tables [OF g(3,1) dir flags same]
  have neq: "chunk \<noteq> dir" "chunk \<notin> set ts" using c(4) I(3) dir(2) by auto
  have regions: "chunk_regions (mem s4) chunk = {(unat chunk, 4096), (unat dir, 4096)} \<union> (\<lambda>t. (unat t, 4096)) ` set ts"
  proof -
    have "(\<lambda>i. (unat (table_of (mem s4) dir (of_nat i)), 4096 :: nat)) ` {..<1024} = (\<lambda>i. (unat (ts ! i), 4096 :: nat)) ` {..<1024}"
      using tabs(1) by (intro image_cong) (auto simp: unat_of_nat32)
    also have "\<dots> = (\<lambda>t. (unat t, 4096)) ` set ts"
      using g(1) by (auto simp: set_conv_nth)
    finally show ?thesis by (simp add: chunk_regions_def de)
  qed
  have wf: "wf_chunk (mem s4) chunk"
    unfolding wf_chunk_def de page_base_of_aligned [OF chunk]
    using slot_aligned4 [OF chunk, of 0] tabs(1,2) neq(2) g(1) by auto
  have live: "kheap_live s4 = kheap_live s \<union> chunk_regions (mem s4) chunk"
    unfolding regions heap(2) c(3) I(3) d(3) by auto
  have new: "chunk_regions (mem s4) chunk \<inter> kheap_live s = {}"
    unfolding regions using c(4) I(3,4) d(3,4) by auto
  have frame: "mem s4 a = mem s a" if a: "(q, k) \<in> kheap_live s" "q \<le> unat a" "unat a < q + k" for q k a
  proof -
    have live1: "(q, k) \<in> kheap_live s1" using a(1) d(3) by simp
    have "(q, k) \<noteq> (unat dir, 4096)" using a(1) d(4) by auto
    then have "page_base a \<noteq> dir"
      using kh.live_disjoint [OF d(2) live1 dir(2), of "unat a"] a page_region [OF dir(1), of a] by auto
    then have "mem s4 a = mem s1 a" using I(5) [OF live1 a(2,3)] kept [OF _ a(2,3)] live1 I(3) by simp
    then show ?thesis using khz.zalloc_live_kept [OF ok room a] by (simp add: s1_def)
  qed
  have heap4: "kheap_ok s4" using heap(1) by simp
  show ?thesis
  proof (rule exI [of _ chunk], rule exI [of _ s4], unfold de, intro conjI allI impI)
    show "mem s4 a = mem s a" if "(q, k) \<in> kheap_live s" "q \<le> unat a \<and> unat a < q + k" for q k a
      using that frame by blast
  qed (use gen heap4 wf live new tabs(3) in \<open>assumption | simp\<close>)+
qed

section \<open>Releasing a directory\<close>

lemma mem_kfree: "mem (kfree p s) = heap_free (kernel_heap s) p (mem s)"
  by (simp add: kfree_def)

text \<open>The regions of the tables from \<open>n\<close> on.\<close>

lemma paging_free_tables:
  assumes ok: "kheap_ok s" and wf: "wf_chunk (mem s) chunk" and own: "chunk_regions (mem s) chunk \<subseteq> kheap_live s"
    and "n \<le> 1024"
  shows "let s' = fold (\<lambda>i s. kfree (load32 (mem s) (d_entry (mem s) chunk + 4 * of_nat i) AND 0xFFFFF000) s) [0..<n] s
    in kheap_ok s' \<and> (\<forall>a. \<not> kheap_reserved a \<longrightarrow> mem s' a = mem s a)
     \<and> kheap_live s' = kheap_live s - (\<lambda>i. (unat (table_of (mem s) (d_entry (mem s) chunk) (of_nat i)), 4096)) ` {..<n}"
  using assms(4)
proof (induction n)
  case 0
  then show ?case using ok by simp
next
  case (Suc n)
  let ?d = "d_entry (mem s) chunk"
  let ?free = "\<lambda>i s. kfree (load32 (mem s) (d_entry (mem s) chunk + 4 * of_nat i) AND 0xFFFFF000) s"
  let ?t = "\<lambda>i. table_of (mem s) ?d (of_nat i)"
  define s1 where "s1 = fold ?free [0..<n] s"
  have IH: "kheap_ok s1" "\<And>a. \<not> kheap_reserved a \<Longrightarrow> mem s1 a = mem s a"
    "kheap_live s1 = kheap_live s - (\<lambda>i. (unat (?t i), 4096)) ` {..<n}"
    using Suc by (simp_all add: s1_def Let_def)
  have n: "unat (of_nat n :: u32) = n" using Suc.prems by (intro unat_of_nat32) simp
  have wfd: "wf_dir (mem s) ?d" "aligned4 chunk" using wf by (auto simp: wf_chunk_def)
  have own': "(unat chunk, 4096) \<in> kheap_live s" "(unat ?d, 4096) \<in> kheap_live s"
    "i < 1024 \<Longrightarrow> (unat (?t i), 4096) \<in> kheap_live s" for i
    using own by (auto simp: chunk_regions_def)
  have pub: "\<not> kheap_reserved a" if "unat u \<le> unat a" "unat a < unat u + 4096" "(unat u, 4096) \<in> kheap_live s" for a u
    using kh.live_public [OF ok that(3)] that(1,2) by blast
  have d1: "d_entry (mem s1) chunk = ?d"
    unfolding d_entry_def
  proof (rule load32_cong)
    fix i :: nat assume "i < 4"
    then show "mem s1 (chunk + of_nat i) = mem s (chunk + of_nat i)"
      using aligned4_plus [OF wfd(2)] own'(1) by (intro IH(2) pub [of chunk]) auto
  qed
  have dir: "paging_is_aligned ?d" using wfd(1) by (simp add: wf_dir_def)
  have "load32 (mem s1) (?d + 4 * of_nat n) = load32 (mem s) (?d + 4 * of_nat n)"
  proof (rule load32_slot_cong [OF dir])
    fix a assume "page_base a = ?d"
    then show "mem s1 a = mem s a" using page_region [OF dir, of a] pub [of ?d a] own'(2) IH(2) by blast
  qed (use n Suc.prems in simp)
  then have step: "fold ?free [0..<Suc n] s = kfree (?t n) s1"
    unfolding upt_Suc_append [OF le0] fold_append s1_def [symmetric] comp_def
    by (simp add: s1_def [symmetric] d1 table_of_def page_base_def)
  have "?t n \<noteq> ?t i" if "i < n" for i
  proof -
    have "unat (of_nat i :: u32) = i" using that Suc.prems by (intro unat_of_nat32) simp
    then show ?thesis
      using wf_dir_table_inj [OF wfd(1), of "of_nat n" "of_nat i"] n Suc.prems that by auto
  qed
  then have "(unat (?t n), 4096) \<in> kheap_live s1"
    using own'(3) [of n] Suc.prems unfolding IH(3) by (auto simp: word_unat_eq_iff)
  note rel = kh.release_ok [OF IH(1) this] kh.release_live [OF IH(1) this] kh.release_frame [OF IH(1) this]
  show ?case
    unfolding step Let_def using rel(1,3) IH(2) by (simp add: rel(2) IH(3) lessThan_Suc) blast
qed

lemma paging_free_4gb_ok:
  assumes ok: "kheap_ok s" and wf: "wf_chunk (mem s) chunk" and own: "chunk_regions (mem s) chunk \<subseteq> kheap_live s"
  shows "kheap_ok (paging_free_4gb chunk s)"
    and "kheap_live (paging_free_4gb chunk s) = kheap_live s - chunk_regions (mem s) chunk"
    and "\<not> kheap_reserved a \<Longrightarrow> mem (paging_free_4gb chunk s) a = mem s a"
proof -
  let ?d = "d_entry (mem s) chunk"
  let ?tabs = "(\<lambda>i. (unat (table_of (mem s) ?d (of_nat i)), 4096 :: nat)) ` {..<1024}"
  define s1 where "s1 = fold (\<lambda>i s. kfree (load32 (mem s) (d_entry (mem s) chunk + 4 * of_nat i) AND 0xFFFFF000) s) [0..<1024] s"
  have s1: "kheap_ok s1" "\<And>a. \<not> kheap_reserved a \<Longrightarrow> mem s1 a = mem s a" "kheap_live s1 = kheap_live s - ?tabs"
    using paging_free_tables [OF assms order_refl] by (simp_all add: s1_def Let_def)
  have wfd: "wf_dir (mem s) ?d" "aligned4 chunk" "\<And>i. unat i < 1024 \<Longrightarrow> table_of (mem s) ?d i \<noteq> page_base chunk"
    using wf by (auto simp: wf_chunk_def)
  have own': "(unat chunk, 4096) \<in> kheap_live s" "(unat ?d, 4096) \<in> kheap_live s"
    using own by (auto simp: chunk_regions_def)
  have d1: "d_entry (mem s1) chunk = ?d"
    unfolding d_entry_def
  proof (rule load32_cong)
    fix i :: nat assume "i < 4"
    then show "mem s1 (chunk + of_nat i) = mem s (chunk + of_nat i)"
      using aligned4_plus [OF wfd(2), of i] kh.live_public [OF ok own'(1), of "chunk + of_nat i"] s1(2) by simp
  qed
  obtain b n where "unat chunk = 16777216 + 4096 * b" using own'(1) unfolding kheap_live_iff by blast
  then have al: "paging_is_aligned chunk" by (rule block_aligned)
  have u: "unat (of_nat i :: u32) = i" if "i < 1024" for i using that by (intro unat_of_nat32) simp
  have "unat (table_of (mem s) ?d (of_nat i)) \<noteq> unat chunk \<and> unat (table_of (mem s) ?d (of_nat i)) \<noteq> unat ?d"
    if "i < 1024" for i
    using wfd(3) [of "of_nat i"] wfd(1) that page_base_of_aligned [OF al]
    unfolding wf_dir_def word_unat_eq_iff [symmetric] by (simp add: u)
  then have nt: "(unat chunk, 4096) \<notin> ?tabs" "(unat ?d, 4096) \<notin> ?tabs" by fastforce+
  have "chunk \<noteq> ?d"
  proof
    assume eq: "chunk = ?d"
    then have "table_of (mem s) ?d 0 = page_base ?d" by (simp add: table_of_def d_entry_def)
    then show False using wfd(1) page_base_of_aligned [OF al] eq by (auto simp: wf_dir_def)
  qed
  then have neq: "unat chunk \<noteq> unat ?d" by (simp add: word_unat_eq_iff)
  have "(unat ?d, 4096) \<in> kheap_live s1" using own'(2) nt s1(3) by simp
  note r1 = kh.release_ok [OF s1(1) this] kh.release_live [OF s1(1) this] kh.release_frame [OF s1(1) this]
  have "(unat chunk, 4096) \<in> kheap_live (kfree ?d s1)" using own'(1) nt s1(3) r1(2) neq by simp
  note r2 = kh.release_ok [OF r1(1) this] kh.release_live [OF r1(1) this] kh.release_frame [OF r1(1) this]
  have eq: "paging_free_4gb chunk s = kfree chunk (kfree ?d s1)"
    by (simp add: paging_free_4gb_def s1_def [symmetric] d1)
  show "kheap_ok (paging_free_4gb chunk s)" unfolding eq by (rule r2(1))
  show "kheap_live (paging_free_4gb chunk s) = kheap_live s - chunk_regions (mem s) chunk"
    unfolding eq r2(2) r1(2) s1(3) chunk_regions_def by auto
  show "\<not> kheap_reserved a \<Longrightarrow> mem (paging_free_4gb chunk s) a = mem s a"
    unfolding eq using r2(3) r1(3) s1(2) by simp
qed

section \<open>Properties\<close>

definition fresh_vm :: vstate where
  "fresh_vm = \<lparr>mem = (\<lambda>_. 0), terminal_x = 0, terminal_y = 0, terminal_fg_color = 15,
     terminal_bg_color = 0, kernel_heap = kernel_heap_layout, current_directory = 0, cr3 = 0\<rparr>"

lemma fresh_vm_heap: "kheap_ok fresh_vm" "kheap_live fresh_vm = {}" "free_blocks fresh_vm = 25600"
  by (rule zero_heap; simp add: fresh_vm_def)+

lemma fresh_vm_directory:
  obtains chunk s where "gen_paging_4gb 7 fresh_vm = Ret chunk s" "kheap_ok s" "wf_chunk (mem s) chunk"
    "kheap_live s = chunk_regions (mem s) chunk"
    "\<And>v. paging_is_aligned v \<Longrightarrow> paging_get (d_entry (mem s) chunk) v (mem s) = v OR 7"
  using gen_paging_4gb_ok [OF fresh_vm_heap(1), of 7] unfolding fresh_vm_heap by auto

text \<open>C3. \<^verbatim>\<open>_gen_paging_4gb\<close>, given 1026 free blocks and flags with the present bit: it returns a structure whose directory maps every
  page of the 4 GiB to itself with the given flags; the directory, its 1024 tables and the structure
  are new live regions; the heap stays well-formed and nothing live before is overwritten.\<close>

theorem gen_paging_identity:
  assumes "kheap_ok s" "1026 \<le> free_blocks s" "flags AND 1 \<noteq> 0"
  shows "\<exists>chunk s'. gen_paging_4gb flags s = Ret chunk s' \<and> kheap_ok s' \<and> wf_chunk (mem s') chunk
    \<and> kheap_live s' = kheap_live s \<union> chunk_regions (mem s') chunk
    \<and> chunk_regions (mem s') chunk \<inter> kheap_live s = {}
    \<and> (\<forall>v. paging_is_aligned v \<longrightarrow> paging_get (d_entry (mem s') chunk) v (mem s') = v OR ucast flags)
    \<and> (\<forall>q k a. (q, k) \<in> kheap_live s \<longrightarrow> q \<le> unat a \<and> unat a < q + k \<longrightarrow> mem s' a = mem s a)"
  using assms by (rule gen_paging_4gb_ok)

theorem gen_paging_identity_witness:
  "\<exists>chunk s'. gen_paging_4gb 7 fresh_vm = Ret chunk s' \<and> paging_get (d_entry (mem s') chunk) 0x400000 (mem s') = 0x400007"
proof -
  have "1026 \<le> free_blocks fresh_vm" "(7 :: u8) AND 1 \<noteq> 0" using fresh_vm_heap by simp_all
  from gen_paging_identity [OF fresh_vm_heap(1) this] obtain chunk s' where
    "gen_paging_4gb 7 fresh_vm = Ret chunk s'"
    "\<forall>v. paging_is_aligned v \<longrightarrow> paging_get (d_entry (mem s') chunk) v (mem s') = v OR ucast (7 :: u8)"
    by blast
  moreover have "paging_is_aligned 0x400000" by (simp add: paging_is_aligned_unat)
  ultimately show ?thesis by (intro exI conjI) (assumption, simp)
qed

text \<open>\<^verbatim>\<open>paging_free_4gb\<close> of a structure that owns its regions releases exactly those regions: the
  structure, the directory and the 1024 tables.\<close>

theorem paging_free_releases:
  assumes "kheap_ok s" "wf_chunk (mem s) chunk" "chunk_regions (mem s) chunk \<subseteq> kheap_live s"
  shows "kheap_ok (paging_free_4gb chunk s)
    \<and> kheap_live (paging_free_4gb chunk s) = kheap_live s - chunk_regions (mem s) chunk
    \<and> (\<forall>a. \<not> kheap_reserved a \<longrightarrow> mem (paging_free_4gb chunk s) a = mem s a)"
  using paging_free_4gb_ok [OF assms] by blast

theorem paging_free_releases_witness:
  "\<exists>chunk s. gen_paging_4gb 7 fresh_vm = Ret chunk s \<and> kheap_live (paging_free_4gb chunk s) = {}"
proof -
  obtain chunk s where g: "gen_paging_4gb 7 fresh_vm = Ret chunk s" "kheap_ok s" "wf_chunk (mem s) chunk"
    "kheap_live s = chunk_regions (mem s) chunk"
    by (rule fresh_vm_directory)
  from paging_free_releases [OF g(2,3) eq_refl] g(4) have "kheap_live (paging_free_4gb chunk s) = {}" by simp
  then show ?thesis using g(1) by blast
qed

text \<open>\<^verbatim>\<open>paging_set\<close> and \<^verbatim>\<open>paging_get\<close> are update and lookup of a map from pages to
  entries: setting the entry of an aligned address succeeds, is read back, leaves every other page's
  entry and keeps the directory well-formed; an unaligned address is refused and nothing changes.\<close>

theorem paging_set_get:
  assumes "wf_dir m dir"
  shows "(paging_is_aligned v \<longrightarrow> (\<exists>m'. paging_set dir v val m = (0, m') \<and> wf_dir m' dir
       \<and> (\<forall>w. paging_is_aligned w \<longrightarrow> paging_get dir w m' = (if w = v then val else paging_get dir w m))))
    \<and> (\<not> paging_is_aligned v \<longrightarrow> paging_set dir v val m = (- EINVARG, m))"
proof (cases "paging_is_aligned v")
  case True
  then show ?thesis
    using paging_get_set [OF assms True, where val = val] wf_dir_set(1) [OF assms pdx_bound ptx_bound]
    by (simp add: paging_set_aligned)
qed (simp add: paging_set_unaligned)

theorem paging_set_get_witness:
  "\<exists>dir m m'. wf_dir m dir \<and> paging_set dir 0x1000 0x9007 m = (0, m') \<and> paging_get dir 0x1000 m' = 0x9007"
proof -
  obtain chunk and s :: vstate where "wf_chunk (mem s) chunk" by (rule fresh_vm_directory)
  then have wf: "wf_dir (mem s) (d_entry (mem s) chunk)" by (simp add: wf_chunk_def)
  have "paging_is_aligned 0x1000" by (simp add: paging_is_aligned_unat)
  then show ?thesis using paging_set_get [OF wf, of "0x1000" "0x9007"] wf by (metis (full_types))
qed

text \<open>C22. \<^verbatim>\<open>paging_map_to\<close> of page-aligned addresses, the physical end not below the physical start and the flags
  within the low twelve bits: afterwards every virtual address of the interval
  translates to the same offset of the physical interval, every other address translates as before,
  and the structure stays well-formed.\<close>

theorem paging_map_to_translates:
  assumes "wf_chunk m chunk" "paging_is_aligned v" "paging_is_aligned p" "paging_is_aligned e" "p \<le> e"
    "unat flags < 4096"
  shows "\<exists>m'. paging_map_to chunk v p e flags m = (0, m') \<and> wf_chunk m' chunk
    \<and> d_entry m' chunk = d_entry m chunk
    \<and> (\<forall>x. paging_get_physical_address (d_entry m chunk) x m' =
         (if x - v < e - p then p + (x - v) else paging_get_physical_address (d_entry m chunk) x m))"
  using assms by (rule paging_map_to_ok)

theorem paging_map_to_translates_witness:
  "\<exists>chunk m m'. paging_map_to chunk 0x400000 0x1234000 0x1236000 7 m = (0, m')
     \<and> paging_get_physical_address (d_entry m' chunk) 0x401010 m' = 0x1235010"
proof -
  obtain chunk and s :: vstate where wf: "wf_chunk (mem s) chunk" by (rule fresh_vm_directory)
  have "paging_is_aligned 0x400000" "paging_is_aligned 0x1234000" "paging_is_aligned 0x1236000"
    "(0x1234000 :: u32) \<le> 0x1236000" "unat (7 :: u32) < 4096"
    by (simp_all add: paging_is_aligned_unat)
  from paging_map_to_translates [OF wf this] obtain m' where
    "paging_map_to chunk 0x400000 0x1234000 0x1236000 7 (mem s) = (0, m')"
    "d_entry m' chunk = d_entry (mem s) chunk"
    "\<forall>x. paging_get_physical_address (d_entry (mem s) chunk) x m' =
       (if x - 0x400000 < 0x1236000 - 0x1234000 then 0x1234000 + (x - 0x400000)
        else paging_get_physical_address (d_entry (mem s) chunk) x (mem s))"
    by blast
  then show ?thesis by (intro exI conjI) (assumption, simp)
qed

end
