(* ===== verification/HeapObjects.thy ===== *)
theory HeapObjects
  imports PagingSpec
begin

text \<open>
  Objects on the kernel heap. Every request of at most 4096 bytes is served by one page; \<open>grows s s' ps\<close>
  says that from \<open>s\<close> to \<open>s'\<close> exactly the pages \<open>ps\<close> became live and that nothing a client of \<open>s\<close>
  can rely on (\<open>held\<close>) changed. Components that build structures on the heap are proved with it.
\<close>

section \<open>Held bytes\<close>

text \<open>A byte that no later request can hand out: outside the heap and its table, or in a live region.\<close>

definition held :: "'a kstate_scheme \<Rightarrow> u32 \<Rightarrow> bool" where
  "held s a \<longleftrightarrow> \<not> kheap_reserved a \<and>
     (unat a < 16777216 \<or> 121634816 \<le> unat a \<or> (\<exists>q k. (q, k) \<in> kheap_live s \<and> q \<le> unat a \<and> unat a < q + k))"

definition pages :: "u32 list \<Rightarrow> (nat \<times> nat) set" where
  "pages ps = (\<lambda>p. (unat p, 4096)) ` set ps"

lemma pages_simps [simp]:
  "pages [] = {}" "pages (p # ps) = insert (unat p, 4096) (pages ps)" "pages (ps @ qs) = pages ps \<union> pages qs"
  by (auto simp: pages_def)

lemma in_pages [simp]: "(unat p, 4096) \<in> pages ps \<longleftrightarrow> p \<in> set ps"
  by (auto simp: pages_def word_unat_eq_iff [symmetric])

definition grows :: "'a kstate_scheme \<Rightarrow> 'a kstate_scheme \<Rightarrow> u32 list \<Rightarrow> bool" where
  "grows s s' ps \<longleftrightarrow> kheap_ok s' \<and> kheap_live s' = kheap_live s \<union> pages ps \<and> distinct ps
   \<and> (\<forall>p \<in> set ps. paging_is_aligned p \<and> p \<noteq> 0 \<and> (unat p, 4096) \<notin> kheap_live s)
   \<and> (\<forall>a. held s a \<longrightarrow> mem s' a = mem s a) \<and> free_blocks s' + length ps = free_blocks s"

lemma held_mono: "kheap_live s \<subseteq> kheap_live s' \<Longrightarrow> held s a \<Longrightarrow> held s' a"
  unfolding held_def by blast

lemma held_public: "held s a \<Longrightarrow> \<not> kheap_reserved a"
  by (simp add: held_def)

text \<open>A held byte lies in none of the pages that become live.\<close>

lemma held_not_new:
  assumes "kheap_ok s'" "kheap_live s \<subseteq> kheap_live s'" "held s a" "(unat p, 4096) \<in> kheap_live s'"
    "(unat p, 4096) \<notin> kheap_live s" "paging_is_aligned p"
  shows "page_base a \<noteq> p"
proof
  assume "page_base a = p"
  then have a: "unat p \<le> unat a" "unat a < unat p + 4096" using page_region [OF assms(6), of a] by auto
  then have "\<not> (unat a < 16777216 \<or> 121634816 \<le> unat a)" using kheap_live_bounds [OF assms(4)] by auto
  then obtain q k where "(q, k) \<in> kheap_live s" "q \<le> unat a" "unat a < q + k"
    using assms(3) unfolding held_def by blast
  then show False
    using kh.live_disjoint [OF assms(1) _ assms(4), of q k "unat a"] assms(2,5) a by blast
qed

lemma grows_refl: "kheap_ok s \<Longrightarrow> grows s s []"
  by (simp add: grows_def)

lemma grows_held: "grows s s' ps \<Longrightarrow> held s a \<Longrightarrow> held s' a \<and> mem s' a = mem s a"
  by (auto simp: grows_def intro: held_mono [of s s'])

lemma grows_new: "grows s s' ps \<Longrightarrow> held s a \<Longrightarrow> page_base a \<notin> set ps"
  using held_not_new [of s' s a "page_base a"] by (auto simp: grows_def)

lemma grows_ok: "grows s s' ps \<Longrightarrow> kheap_ok s'"
  by (simp add: grows_def)

lemma grows_free: "grows s s' ps \<Longrightarrow> free_blocks s' + length ps = free_blocks s"
  by (simp add: grows_def)

lemma grows_trans:
  assumes "grows s s1 ps" "grows s1 s2 qs"
  shows "grows s s2 (ps @ qs)"
proof -
  have "mem s2 a = mem s a" if "held s a" for a
    using grows_held [OF assms(1) that] grows_held [OF assms(2)] by simp
  then show ?thesis using assms unfolding grows_def by auto
qed

text \<open>The bytes of a page that became live are held.\<close>

lemma live_page_held: "kheap_ok s \<Longrightarrow> (unat p, 4096) \<in> kheap_live s \<Longrightarrow> paging_is_aligned p \<Longrightarrow> page_base a = p \<Longrightarrow> held s a"
  unfolding held_def using kh.live_public [of s "unat p" 4096 a] page_region [of p a] by blast

lemma grows_page_held: "grows s s' ps \<Longrightarrow> page_base a \<in> set ps \<Longrightarrow> held s' a"
  by (rule live_page_held [of s' "page_base a"]) (auto simp: grows_def)

text \<open>Writing to the new pages does not count as a change.\<close>

lemma grows_write:
  assumes g: "grows s s' ps" and w: "\<And>a. page_base a \<notin> set ps \<Longrightarrow> m a = mem s' a"
  shows "grows s (s'\<lparr>mem := m\<rparr>) ps"
proof -
  have res: "mem (s'\<lparr>mem := m\<rparr>) a = mem s' a" if "kheap_reserved a" for a
    using w [of a] that live_page_public [of s' "page_base a" a] g unfolding grows_def by fastforce
  have "m a = mem s a" if "held s a" for a
    using w [OF grows_new [OF g that]] grows_held [OF g that] by simp
  then show ?thesis
    using g kheap_mem_cong [of "s'\<lparr>mem := m\<rparr>" s', OF _ res] unfolding grows_def by simp
qed

lemma grows_kzalloc:
  assumes "kheap_ok s" "0 < free_blocks s" "0 < sz" "unat sz \<le> 4096"
  shows "grows s (snd (kzalloc sz s)) [fst (kzalloc sz s)]"
    and "i < unat sz \<Longrightarrow> mem (snd (kzalloc sz s)) (fst (kzalloc sz s) + of_nat i) = 0"
proof -
  let ?p = "fst (kzalloc sz s)" and ?s = "snd (kzalloc sz s)"
  have room: "kheap_room sz s" by (rule free_block_room [OF assms(2-4)])
  obtain b where b: "unat ?p = 16777216 + 4096 * b" "kheap_ok ?s"
    "kheap_live ?s = insert (unat ?p, 4096) (kheap_live s)" "(unat ?p, 4096) \<notin> kheap_live s"
    "Suc (free_blocks ?s) = free_blocks s"
    by (rule kzalloc_page [OF assms])
  note al = block_aligned [OF b(1)]
  have "?p \<noteq> 0" using b(1) by auto
  moreover have "mem ?s a = mem s a" if "held s a" for a
  proof -
    have "page_base a \<noteq> ?p" using held_not_new [OF b(2) _ that _ b(4) al] b(3) by auto
    then have "\<not> (unat ?p \<le> unat a \<and> unat a < unat ?p + unat sz)"
      using page_region [OF al, of a] assms(4) by linarith
    then show ?thesis
      using khz.zalloc_peek [OF assms(1) room held_public [OF that]]
      unfolding khz.zalloc_ptr [OF assms(1) room] by (simp only: if_False)
  qed
  ultimately show "grows s ?s [?p]" unfolding grows_def using b al by auto
  show "i < unat sz \<Longrightarrow> mem ?s (?p + of_nat i) = 0" by (rule khz.zalloc_zero [OF assms(1) room])
qed

text \<open>Releasing a page that became live.\<close>

lemma grows_kfree:
  assumes "grows s s' ps" "p \<in> set ps"
  shows "kheap_ok (kfree p s')" "kheap_live (kfree p s') = kheap_live s' - {(unat p, 4096)}"
    "\<not> kheap_reserved a \<Longrightarrow> mem (kfree p s') a = mem s' a"
proof -
  have "kheap_ok s'" "(unat p, 4096) \<in> kheap_live s'" using assms by (auto simp: grows_def)
  note r = kh.release_ok [OF this] kh.release_live [OF this] kh.release_frame [OF this]
  show "kheap_ok (kfree p s')" "kheap_live (kfree p s') = kheap_live s' - {(unat p, 4096)}"
    "\<not> kheap_reserved a \<Longrightarrow> mem (kfree p s') a = mem s' a" by (rule r; assumption?)+
qed

lemma free_blocks_kfree:
  assumes "kheap_ok s" "(unat p, 4096) \<in> kheap_live s"
  shows "free_blocks (kfree p s) = Suc (free_blocks s)"
proof -
  from kfree_table [OF assms] obtain b n where
    b: "run_at (table_bytes kernel_heap_layout (mem s)) b n" "4096 = 4096 * n"
      "table_bytes kernel_heap_layout (mem (kfree p s)) = drop_run (table_bytes kernel_heap_layout (mem s)) b n"
    by metis
  let ?t = "table_bytes kernel_heap_layout (mem s)"
  have n: "n = 1" using b(2) by simp
  have t: "?t ! b = run_byte 1 0" "b < 25600" using b(1) unfolding n run_at_def by auto
  have "{i. i < 25600 \<and> blk_free (drop_run ?t b 1 ! i)} = insert b {i. i < 25600 \<and> blk_free (?t ! i)}"
    using t by (auto simp: drop_run_def split: if_splits)
  moreover have "b \<notin> {i. i < 25600 \<and> blk_free (?t ! i)}" using t by simp
  ultimately show ?thesis unfolding free_blocks_def b(3) n by simp
qed

lemma grows_release:
  assumes "grows s s' ps" "p \<in> set ps"
  shows "grows s (kfree p s') (remove1 p ps)"
proof -
  note k = grows_kfree [OF assms]
  have live: "(unat p, 4096) \<in> kheap_live s'" using assms by (auto simp: grows_def)
  have "pages (remove1 p ps) = pages ps - {(unat p, 4096)}"
    using assms(1) unfolding grows_def pages_def by (auto simp: word_unat_eq_iff)
  moreover have "(unat p, 4096) \<notin> kheap_live s" using assms by (auto simp: grows_def)
  moreover have "mem (kfree p s') a = mem s a" if "held s a" for a
    using k(3) [OF held_public [OF that]] grows_held [OF assms(1) that] by simp
  moreover have "free_blocks (kfree p s') + length (remove1 p ps) = free_blocks s"
    using free_blocks_kfree [OF grows_ok [OF assms(1)] live] grows_free [OF assms(1)] assms(2)
    by (simp add: length_remove1) (metis Suc_pred length_pos_if_in_set add_Suc add_Suc_right)
  ultimately show ?thesis using assms(1) k(1,2) unfolding grows_def by (auto dest: notin_set_remove1)
qed

section \<open>Storing a word\<close>

definition put32 :: "u32 \<Rightarrow> u32 \<Rightarrow> 'a console_scheme \<Rightarrow> 'a console_scheme" where
  "put32 a v s = s\<lparr>mem := store32 (mem s) a v\<rparr>"

section \<open>Words and strings of a page\<close>

text \<open>The fields of a structure at offsets 0 and 4 of its page.\<close>

lemma field_store:
  assumes "paging_is_aligned p" "paging_is_aligned q"
  shows "load32 (store32 m p v) p = v"
    "load32 (store32 m (p + 4) v) (p + 4) = v"
    "load32 (store32 m p v) (p + 4) = load32 m (p + 4)"
    "load32 (store32 m (p + 4) v) p = load32 m p"
    "p \<noteq> q \<Longrightarrow> load32 (store32 m p v) q = load32 m q"
    "p \<noteq> q \<Longrightarrow> load32 (store32 m p v) (q + 4) = load32 m (q + 4)"
    "p \<noteq> q \<Longrightarrow> load32 (store32 m (p + 4) v) q = load32 m q"
    "p \<noteq> q \<Longrightarrow> load32 (store32 m (p + 4) v) (q + 4) = load32 m (q + 4)"
  using load32_slot_store32 [OF assms(1,2), of 0 0] load32_slot_store32 [OF assms(1,2), of 0 1]
    load32_slot_store32 [OF assms(1,2), of 1 0] load32_slot_store32 [OF assms(1,2), of 1 1]
    load32_slot_store32 [OF assms(1,1), of 0 1] load32_slot_store32 [OF assms(1,1), of 1 0]
  by (simp_all add: load32_store32_same)

lemma field_frame:
  assumes "paging_is_aligned p" "page_base a \<noteq> p"
  shows "store32 m p v a = m a" "store32 m (p + 4) v a = m a"
  using store32_slot_frame [OF assms(1) _ assms(2), of 0] store32_slot_frame [OF assms(1) _ assms(2), of 1] by simp_all

lemma field_cong:
  assumes "paging_is_aligned p" "\<And>a. page_base a = p \<Longrightarrow> m' a = m a"
  shows "load32 m' p = load32 m p" "load32 m' (p + 4) = load32 m (p + 4)"
  using load32_slot_cong [OF assms(1) _ assms(2), of 0] load32_slot_cong [OF assms(1) _ assms(2), of 1] by simp_all

lemma page_byte:
  assumes "paging_is_aligned p" "i < 4096"
  shows "page_base (p + of_nat i) = p"
proof -
  obtain k where k: "k < 1048576" "unat p = 4096 * k" using assms(1) by (rule aligned_page)
  then have "unat (p + of_nat i) = 4096 * k + i"
    using assms(2) by (simp add: unat_word_ariths unat_of_nat32)
  then show ?thesis using page_region [OF assms(1)] k assms(2) by simp
qed

end
