(* ===== verification/CString.thy ===== *)
theory CString
  imports Memory
begin

text \<open>
  The string routines of \<^verbatim>\<open>src/kernel/string/string.c\<close> on byte memory. A loop whose bound is in
  the data (\<^verbatim>\<open>strlen\<close>, \<^verbatim>\<open>strcpy\<close>, \<^verbatim>\<open>atoi\<close>) is a partial function: None is a
  loop that never ends. The abstract value of a string pointer is the list of its characters.
\<close>

section \<open>The routines\<close>

partial_function (option) strlen_loop :: "memory \<Rightarrow> u32 \<Rightarrow> u32 \<Rightarrow> u32 option" where
  "strlen_loop m str ctr = (if m str \<noteq> 0 then strlen_loop m (str + 1) (ctr + 1) else Some ctr)"

definition strlen :: "memory \<Rightarrow> u32 \<Rightarrow> u32 option" where
  "strlen m str = strlen_loop m str 0"

function strnlen_loop :: "memory \<Rightarrow> u32 \<Rightarrow> u32 \<Rightarrow> u32 \<Rightarrow> u32" where
  "strnlen_loop m str max_len ctr =
     (if ctr < max_len then (if m (str + ctr) = 0 then ctr else strnlen_loop m str max_len (ctr + 1)) else ctr)"
  by pat_completeness auto
termination
  by (relation "measure (\<lambda>(m, str, max_len, ctr). unat max_len - unat ctr)")
     (auto simp: unat_Suc_word word_less_nat_alt)

definition strnlen :: "memory \<Rightarrow> u32 \<Rightarrow> u32 \<Rightarrow> u32" where
  "strnlen m str max_len = strnlen_loop m str max_len 0"

function strncmp :: "memory \<Rightarrow> u32 \<Rightarrow> u32 \<Rightarrow> u32 \<Rightarrow> u32" where
  "strncmp m str1 str2 sz =
     (if 0 < sz then
        (let t1 = m str1; t2 = m str2
         in if t1 \<noteq> t2 then ucast t1 - ucast t2
            else if t1 = 0 then 0
            else strncmp m (str1 + 1) (str2 + 1) (sz - 1))
      else 0)"
  by pat_completeness auto
termination
  by (relation "measure (\<lambda>(m, str1, str2, sz). unat sz)")
     (auto simp: word_gt_0 unat_minus_one unat_gt_0 intro: diff_less)

definition tolower :: "u8 \<Rightarrow> u8" where
  "tolower ch = (if ch < 65 \<or> 90 < ch then ch else ch + 32)"

function istrncmp :: "memory \<Rightarrow> u32 \<Rightarrow> u32 \<Rightarrow> u32 \<Rightarrow> u32" where
  "istrncmp m str1 str2 max_len =
     (if 0 < max_len then
        (let u1 = m str1; u2 = m str2
         in if u1 \<noteq> u2 \<and> tolower u1 \<noteq> tolower u2 then ucast u1 - ucast u2
            else if u1 = 0 then 0
            else istrncmp m (str1 + 1) (str2 + 1) (max_len - 1))
      else 0)"
  by pat_completeness auto
termination
  by (relation "measure (\<lambda>(m, str1, str2, sz). unat sz)")
     (auto simp: word_gt_0 unat_minus_one unat_gt_0 intro: diff_less)

function strnlen_terminator_loop :: "memory \<Rightarrow> u32 \<Rightarrow> u32 \<Rightarrow> u8 \<Rightarrow> u32 \<Rightarrow> u32" where
  "strnlen_terminator_loop m str max_len terminator i =
     (if i < max_len then
        (if m (str + i) = 0 \<or> m (str + i) = terminator then i
         else strnlen_terminator_loop m str max_len terminator (i + 1))
      else i)"
  by pat_completeness auto
termination
  by (relation "measure (\<lambda>(m, str, max_len, t, i). unat max_len - unat i)")
     (auto simp: unat_Suc_word word_less_nat_alt)

definition strnlen_terminator :: "memory \<Rightarrow> u32 \<Rightarrow> u32 \<Rightarrow> u8 \<Rightarrow> u32" where
  "strnlen_terminator m str max_len terminator = strnlen_terminator_loop m str max_len terminator 0"

partial_function (option) strcpy_loop :: "memory \<Rightarrow> u32 \<Rightarrow> u32 \<Rightarrow> memory option" where
  "strcpy_loop m dst src =
     (if m src \<noteq> 0 then strcpy_loop (m(dst := m src)) (dst + 1) (src + 1)
      else Some (m(dst := 0)))"

text \<open>\<^verbatim>\<open>strcpy\<close> and \<^verbatim>\<open>strncpy\<close> return \<open>dst\<close>; here the memory they leave.\<close>

definition strcpy :: "memory \<Rightarrow> u32 \<Rightarrow> u32 \<Rightarrow> memory option" where
  "strcpy m dst src = strcpy_loop m dst src"

function strncpy_loop :: "memory \<Rightarrow> u32 \<Rightarrow> u32 \<Rightarrow> u32 \<Rightarrow> memory" where
  "strncpy_loop m dst src sz =
     (if 0 < sz - 1 \<and> sz \<noteq> 0 \<and> m src \<noteq> 0
      then strncpy_loop (m(dst := m src)) (dst + 1) (src + 1) (sz - 1)
      else m(dst := 0))"
  by pat_completeness auto
termination
  by (relation "measure (\<lambda>(m, dst, src, sz). unat sz)")
     (auto simp: unat_minus_one unat_gt_0 intro: diff_less)

definition strncpy :: "memory \<Rightarrow> u32 \<Rightarrow> u32 \<Rightarrow> u32 \<Rightarrow> memory" where
  "strncpy m dst src sz = (if sz = 0 then m else strncpy_loop m dst src sz)"

text \<open>\<^verbatim>\<open>char\<close> is signed.\<close>

definition isdigit :: "u8 \<Rightarrow> bool" where
  "isdigit c \<longleftrightarrow> 47 <s c \<and> c <s 58"

definition atoic :: "u8 \<Rightarrow> u32" where
  "atoic ch = scast ch - 48"

partial_function (option) atoi_loop :: "memory \<Rightarrow> u32 \<Rightarrow> u32 \<Rightarrow> u32 option" where
  "atoi_loop m str result =
     (if m str \<noteq> 0 \<or> m str < 48 \<or> 57 < m str
      then atoi_loop m (str + 1) (result + (result * 10 + (ucast (m str) - 48)))
      else Some result)"

definition atoi :: "memory \<Rightarrow> u32 \<Rightarrow> u32 option" where
  "atoi m str =
     (let is_neg = (m str = 0x2D);
          str' = (if is_neg then str + 1 else str)
      in map_option (\<lambda>result. if is_neg then result * (- 1) else result) (atoi_loop m str' 0))"

declare strnlen_loop.simps [simp del] strncmp.simps [simp del] istrncmp.simps [simp del]
  strnlen_terminator_loop.simps [simp del] strncpy_loop.simps [simp del]

section \<open>Strings in memory\<close>

text \<open>The string at \<open>p\<close> is \<open>cs\<close>: its characters, none of them 0, then the terminator.\<close>

fun cstr :: "memory \<Rightarrow> u32 \<Rightarrow> u8 list \<Rightarrow> bool" where
  "cstr m p [] = (m p = 0)"
| "cstr m p (c # cs) = (m p = c \<and> c \<noteq> 0 \<and> cstr m (p + 1) cs)"

lemma cstr_iff:
  "cstr m p cs \<longleftrightarrow> bytes m p (length cs) = cs \<and> 0 \<notin> set cs \<and> m (p + of_nat (length cs)) = 0"
  by (induction cs arbitrary: p) (auto simp: bytes_Suc add.assoc)

lemma cstr_cong:
  "(\<And>i. i \<le> length cs \<Longrightarrow> m' (q + of_nat i) = m (p + of_nat i)) \<Longrightarrow> cstr m' q cs = cstr m p cs"
proof (induction cs arbitrary: p q)
  case Nil
  then show ?case using Nil [of 0] by simp
next
  case (Cons c cs)
  have "cstr m' (q + 1) cs = cstr m (p + 1) cs"
  proof (rule Cons.IH)
    fix i assume "i \<le> length cs"
    then show "m' (q + 1 + of_nat i) = m (p + 1 + of_nat i)"
      using Cons.prems [of "Suc i"] by (simp add: add.assoc)
  qed
  then show ?case using Cons.prems [of 0] by simp
qed

text \<open>The characters before the first 0 among the next \<open>n\<close> bytes.\<close>

definition str_upto :: "memory \<Rightarrow> u32 \<Rightarrow> nat \<Rightarrow> u8 list" where
  "str_upto m p n = takeWhile (\<lambda>c. c \<noteq> 0) (bytes m p n)"

lemma str_upto_0 [simp]: "str_upto m p 0 = []"
  by (simp add: str_upto_def)

lemma str_upto_Suc: "str_upto m p (Suc n) = (if m p = 0 then [] else m p # str_upto m (p + 1) n)"
  by (simp add: str_upto_def bytes_Suc)

lemma str_upto_cstr: "cstr m p cs \<Longrightarrow> str_upto m p n = take n cs"
proof (induction cs arbitrary: p n)
  case Nil
  then show ?case by (cases n) (simp_all add: str_upto_Suc)
next
  case (Cons c cs)
  then show ?case by (cases n) (simp_all add: str_upto_Suc)
qed

lemma length_str_upto: "length (str_upto m p n) \<le> n"
  unfolding str_upto_def by (metis length_bytes length_takeWhile_le)

section \<open>Lengths\<close>

lemma strlen_loop_cstr: "cstr m p cs \<Longrightarrow> strlen_loop m p k = Some (k + of_nat (length cs))"
  by (induction cs arbitrary: p k) (simp_all add: strlen_loop.simps add.assoc)

lemma strlen_cstr: "cstr m p cs \<Longrightarrow> strlen m p = Some (of_nat (length cs))"
  by (simp add: strlen_def strlen_loop_cstr)

lemma strnlen_loop_eq:
  "unat (strnlen_loop m p n k) = max (unat k) (unat k + length (str_upto m (p + k) (unat n - unat k)))"
proof (induction m p n k rule: strnlen_loop.induct)
  case (1 m p n k)
  show ?case
  proof (cases "k < n")
    case True
    then have u: "unat (k + 1) = Suc (unat k)" "unat n - unat k = Suc (unat n - Suc (unat k))"
      by (auto simp: unat_Suc_word word_less_nat_alt)
    show ?thesis
      using True "1.IH" unfolding strnlen_loop.simps [of m p n k] u(2) str_upto_Suc
      by (auto simp: u(1) add.assoc)
  qed (simp add: strnlen_loop.simps [of m p n k] word_less_nat_alt)
qed

lemma strnlen_eq: "unat (strnlen m p n) = length (str_upto m p (unat n))"
  using strnlen_loop_eq [of m p n 0] by (simp add: strnlen_def)

lemma strnlen_terminator_loop_eq:
  "unat (strnlen_terminator_loop m p n t k) =
     unat k + length (takeWhile (\<lambda>c. c \<noteq> 0 \<and> c \<noteq> t) (bytes m (p + k) (unat n - unat k)))"
proof (induction m p n t k rule: strnlen_terminator_loop.induct)
  case (1 m p n t k)
  show ?case
  proof (cases "k < n")
    case True
    then have u: "unat (k + 1) = Suc (unat k)" "unat n - unat k = Suc (unat n - Suc (unat k))"
      by (auto simp: unat_Suc_word word_less_nat_alt)
    show ?thesis
      using True "1.IH" unfolding strnlen_terminator_loop.simps [of m p n t k] u(2) bytes_Suc
      by (auto simp: u(1) add.assoc)
  qed (simp add: strnlen_terminator_loop.simps [of m p n t k] word_less_nat_alt)
qed

section \<open>Comparisons\<close>

lemma word_Suc_pred: "0 < (n :: u32) \<Longrightarrow> unat n = Suc (unat (n - 1))"
  by (simp add: unat_minus_one unat_gt_0 word_gt_0)

lemma sint_byte_diff: "sint (ucast (a :: u8) - ucast (b :: u8) :: u32) = uint a - uint b"
proof -
  have "uint a < 256" "uint b < 256" "0 \<le> uint a" "0 \<le> uint b"
    using uint_bounded [of a] uint_bounded [of b] by auto
  moreover have "(ucast a - ucast b :: u32) = word_of_int (uint a - uint b)"
    by (simp only: wi_hom_sub [symmetric]) (simp add: unsigned_ucast_eq)
  moreover have "- 2147483648 \<le> uint a - uint b" "uint a - uint b < 2147483648"
    using calculation(1-4) by linarith+
  ultimately show ?thesis using sint_in_range [of "uint a - uint b"] by (simp only:)
qed

lemma byte_diff_0: "(ucast (a :: u8) - ucast (b :: u8) :: u32) = 0 \<longleftrightarrow> a = b"
proof
  assume "(ucast a - ucast b :: u32) = 0"
  then have "sint (ucast a - ucast b :: u32) = 0" by simp
  then have "uint a = uint b" unfolding sint_byte_diff by simp
  then show "a = b" by (simp add: word_uint_eq_iff)
qed simp

lemma strncmp_sign:
  "(strncmp m p q n = 0 \<longleftrightarrow> str_upto m p (unat n) = str_upto m q (unat n))
   \<and> (strncmp m p q n <s 0 \<longleftrightarrow> str_upto m p (unat n) < str_upto m q (unat n))"
proof (induction m p q n rule: strncmp.induct)
  case (1 m p q n)
  show ?case
  proof (cases "0 < n")
    case True
    note n = word_Suc_pred [OF True]
    show ?thesis
    proof (cases "m p = m q")
      case True
      then show ?thesis
        using "1.IH" [OF \<open>0 < n\<close> refl refl] \<open>0 < n\<close>
        unfolding strncmp.simps [of m p q n] n str_upto_Suc by simp
    next
      case False
      then have "strncmp m p q n = ucast (m p) - ucast (m q)"
        using \<open>0 < n\<close> by (subst strncmp.simps) simp
      then show ?thesis
        using False byte_diff_0 [of "m p" "m q"] unfolding n str_upto_Suc
        by (auto simp: word_sless_alt sint_byte_diff word_less_def [symmetric] word_gt_0)
    qed
  qed (simp add: strncmp.simps [of m p q 0] word_gt_0)
qed

lemma tolower_0 [simp]: "tolower c = 0 \<longleftrightarrow> c = 0"
proof -
  have "c + 32 \<noteq> 0" if "65 \<le> c" "c \<le> 90"
    using that by unat_arith auto
  then show ?thesis by (auto simp: tolower_def not_less)
qed

lemma istrncmp_zero:
  "istrncmp m p q n = 0 \<longleftrightarrow> map tolower (str_upto m p (unat n)) = map tolower (str_upto m q (unat n))"
proof (induction m p q n rule: istrncmp.induct)
  case (1 m p q n)
  show ?case
  proof (cases "0 < n")
    case True
    note n = word_Suc_pred [OF True]
    have zero: "m p = 0 \<longleftrightarrow> m q = 0" if "tolower (m p) = tolower (m q)"
      using that by (metis tolower_0)
    show ?thesis
    proof (cases "tolower (m p) = tolower (m q)")
      case True
      then have "istrncmp m p q n = (if m p = 0 then 0 else istrncmp m (p + 1) (q + 1) (n - 1))"
        using \<open>0 < n\<close> by (subst istrncmp.simps) simp
      then show ?thesis
        using "1.IH" [OF \<open>0 < n\<close> refl refl] True zero unfolding n str_upto_Suc by auto
    next
      case False
      then have "istrncmp m p q n = ucast (m p) - ucast (m q)"
        using \<open>0 < n\<close> by (subst istrncmp.simps) (auto simp: Let_def)
      then show ?thesis
        using False byte_diff_0 [of "m p" "m q"] unfolding n str_upto_Suc by auto
    qed
  qed (simp add: istrncmp.simps [of m p q 0] word_gt_0)
qed

section \<open>Copies\<close>

text \<open>\<open>cs\<close> followed by its terminator, written at \<open>p\<close>.\<close>

definition put_cstr :: "memory \<Rightarrow> u32 \<Rightarrow> u8 list \<Rightarrow> memory" where
  "put_cstr m p cs = (\<lambda>a. let i = unat (a - p) in
     if i < length cs then cs ! i else if i = length cs then 0 else m a)"

lemma put_cstr_Nil: "m(p := 0) = put_cstr m p []"
  by (auto simp: put_cstr_def fun_eq_iff Let_def unat_eq_zero)

lemma put_cstr_Cons:
  assumes "length cs < 4294967295"
  shows "put_cstr (m(p := c)) (p + 1) cs = put_cstr m p (c # cs)"
proof
  fix a
  show "put_cstr (m(p := c)) (p + 1) cs a = put_cstr m p (c # cs) a"
  proof (cases "a = p")
    case True
    then show ?thesis using assms by (simp add: put_cstr_def Let_def)
  next
    case False
    then have "unat (a - p) \<noteq> 0" by (simp add: unat_eq_zero)
    moreover have "unat (a - (p + 1)) = unat (a - p) - 1"
      using False unat_minus_one [of "a - p"] by (simp add: diff_diff_eq [symmetric])
    ultimately show ?thesis using False by (auto simp: put_cstr_def Let_def nth_Cons' gr0_conv_Suc)
  qed
qed

lemma cstr_put_cstr:
  assumes "0 \<notin> set cs" "length cs < 4294967296"
  shows "cstr (put_cstr m p cs) p cs"
proof -
  have "unat (of_nat i :: u32) = i" if "i \<le> length cs" for i
    using that assms(2) by (intro unat_of_nat32) simp
  then show ?thesis
    using assms(1) by (auto simp: cstr_iff put_cstr_def Let_def intro!: nth_equalityI)
qed

text \<open>A copy reads the source unchanged when no written byte lies in it.\<close>

lemma strcpy_loop_cstr:
  assumes "cstr m src cs" "length cs < 4294967295"
    "\<And>i j. i \<le> length cs \<Longrightarrow> j \<le> length cs \<Longrightarrow> dst + of_nat i \<noteq> src + of_nat j"
  shows "strcpy_loop m dst src = Some (put_cstr m dst cs)"
  using assms
proof (induction cs arbitrary: m dst src)
  case Nil
  then show ?case by (simp add: strcpy_loop.simps put_cstr_Nil)
next
  case (Cons c cs)
  have "cstr (m(dst := c)) (src + 1) cs \<longleftrightarrow> cstr m (src + 1) cs"
  proof (rule cstr_cong)
    fix i assume "i \<le> length cs"
    then show "(m(dst := c)) (src + 1 + of_nat i) = m (src + 1 + of_nat i)"
      using Cons.prems(3) [of 0 "Suc i"] by (simp add: add.assoc)
  qed
  moreover have "dst + 1 + of_nat i \<noteq> src + 1 + of_nat j" if "i \<le> length cs" "j \<le> length cs" for i j
    using Cons.prems(3) [of "Suc i" "Suc j"] that by (simp add: add.assoc)
  moreover from calculation(1) have "cstr (m(dst := c)) (src + 1) cs" using Cons.prems(1) by simp
  ultimately have "strcpy_loop (m(dst := c)) (dst + 1) (src + 1) = Some (put_cstr (m(dst := c)) (dst + 1) cs)"
    using Cons.prems(2) Cons.IH [of "m(dst := c)" "src + 1" "dst + 1"] by fastforce
  then show ?case using Cons.prems by (simp add: strcpy_loop.simps [of m dst src] put_cstr_Cons)
qed

lemma strncpy_loop_eq:
  assumes "0 < n" "\<And>i j. i < unat n \<Longrightarrow> j < unat n \<Longrightarrow> dst + of_nat i \<noteq> src + of_nat j"
  shows "strncpy_loop m dst src n = put_cstr m dst (str_upto m src (unat n - 1))"
  using assms
proof (induction "unat n" arbitrary: m dst src n)
  case (Suc k)
  note n = word_Suc_pred [OF Suc.prems(1)]
  have k: "k = unat (n - 1)" using Suc.hyps(2) n by simp
  have nz: "n \<noteq> 0" using Suc.prems(1) by (simp add: word_gt_0)
  show ?case
  proof (cases "0 < n - 1 \<and> m src \<noteq> 0")
    case True
    note n1 = word_Suc_pred [of "n - 1"]
    have apart: "dst + 1 + of_nat i \<noteq> src + 1 + of_nat j" if "i < unat (n - 1)" "j < unat (n - 1)" for i j
      using Suc.prems(2) [of "Suc i" "Suc j"] that n by (simp add: add.assoc)
    have str: "str_upto (m(dst := m src)) (src + 1) (unat (n - 1) - 1) = str_upto m (src + 1) (unat (n - 1) - 1)"
      unfolding str_upto_def
    proof (intro arg_cong [where f = "takeWhile _"] bytes_cong)
      fix i assume "i < unat (n - 1) - 1"
      then have "dst \<noteq> src + of_nat (Suc i)" using Suc.prems(2) [of 0 "Suc i"] n by simp
      then show "(m(dst := m src)) (src + 1 + of_nat i) = m (src + 1 + of_nat i)"
        by (auto simp: add.assoc)
    qed
    have "strncpy_loop m dst src n = strncpy_loop (m(dst := m src)) (dst + 1) (src + 1) (n - 1)"
      using True nz by (subst strncpy_loop.simps) simp
    also have "\<dots> = put_cstr (m(dst := m src)) (dst + 1) (str_upto m (src + 1) (unat (n - 1) - 1))"
      using Suc.hyps(1) [OF k _ apart, of "m(dst := m src)"] True str by simp
    also have "\<dots> = put_cstr m dst (m src # str_upto m (src + 1) (unat (n - 1) - 1))"
      using length_str_upto [of m "src + 1" "unat (n - 1) - 1"] unat_u32_less [of "n - 1"] n1 True
      by (intro put_cstr_Cons) linarith
    also have "m src # str_upto m (src + 1) (unat (n - 1) - 1) = str_upto m src (unat n - 1)"
      using n n1 True str_upto_Suc [of m src "unat (n - 1) - 1"] by simp
    finally show ?thesis .
  next
    case False
    then have "str_upto m src (unat n - 1) = []"
      using n by (cases "unat (n - 1)") (auto simp: str_upto_Suc word_gt_0 unat_eq_zero)
    moreover have "strncpy_loop m dst src n = m(dst := 0)"
      using False nz by (subst strncpy_loop.simps) auto
    ultimately show ?thesis by (simp add: put_cstr_Nil)
  qed
qed (simp add: word_less_nat_alt)

section \<open>Number parsing\<close>

text \<open>The loop condition of \<^verbatim>\<open>atoi\<close> holds for every character, the terminator included.\<close>

lemma atoi_condition: "m str \<noteq> 0 \<or> m str < 48 \<or> 57 < (m str :: u8)"
  by auto

lemma atoi_loop_never: "atoi_loop m str result = Some r \<Longrightarrow> False"
proof (rule atoi_loop.raw_induct [where P = "\<lambda>_ _ _ _. False"])
  fix f :: "memory \<Rightarrow> u32 \<Rightarrow> u32 \<Rightarrow> u32 option" and m :: memory and str result r
  assume IH: "\<And>m str result r. f m str result = Some r \<Longrightarrow> False"
    and "(if m str \<noteq> 0 \<or> m str < 48 \<or> 57 < m str
          then f m (str + 1) (result + (result * 10 + (ucast (m str) - 48))) else Some result) = Some r"
  then show False using atoi_condition [of m str] by (metis (full_types))
qed

lemma atoi_loop_none: "atoi_loop m str result = None"
  using atoi_loop_never by fastforce

section \<open>Properties\<close>

text \<open>\<^verbatim>\<open>strlen\<close> of a terminated string returns its length; the bounded \<^verbatim>\<open>strnlen\<close> returns
  the smaller of the length and the bound.\<close>

theorem strlen_correct:
  assumes "cstr m p cs"
  shows "strlen m p = Some (of_nat (length cs)) \<and> unat (strnlen m p n) = min (length cs) (unat n)"
  using strlen_cstr [OF assms] strnlen_eq [of m p n] str_upto_cstr [OF assms] by (simp add: min.commute)

definition sample_text :: memory where
  "sample_text = (\<lambda>_. 0)(0x100 := 0x61, 0x101 := 0x42, 0x200 := 0x41, 0x201 := 0x62)"

lemma offset_apart:
  assumes "j < n" "n + i < 4294967296"
  shows "(p :: u32) + of_nat n + of_nat i \<noteq> p + of_nat j"
  using assms add_of_nat_inj [of "n + i" j p] by (simp add: add.assoc)

lemma sample_text_strings: "cstr sample_text 0x100 [0x61, 0x42]" "cstr sample_text 0x200 [0x41, 0x62]"
  by (simp_all add: sample_text_def)

theorem strlen_correct_witness: "strlen sample_text 0x100 = Some 2 \<and> unat (strnlen sample_text 0x100 1) = 1"
  using strlen_correct [OF sample_text_strings(1), of 1] by simp

text \<open>C39. \<^verbatim>\<open>strncmp\<close> orders strings: it is 0 exactly when the first \<open>n\<close> characters (up to a terminator)
  agree, and negative exactly when those of the first string come first in lexicographic order;
  \<^verbatim>\<open>istrncmp\<close> is 0 exactly when they agree up to the case of ASCII letters.\<close>

theorem strncmp_correct:
  "(strncmp m p q n = 0 \<longleftrightarrow> str_upto m p (unat n) = str_upto m q (unat n))
   \<and> (strncmp m p q n <s 0 \<longleftrightarrow> str_upto m p (unat n) < str_upto m q (unat n))
   \<and> (istrncmp m p q n = 0 \<longleftrightarrow> map tolower (str_upto m p (unat n)) = map tolower (str_upto m q (unat n)))"
  using strncmp_sign [of m p q n] istrncmp_zero [of m p q n] by blast

text \<open>\<^verbatim>\<open>strcpy\<close> of a terminated string to a buffer that does not meet it ends, and writes the
  string and its terminator there and nothing else.\<close>

theorem strcpy_correct:
  assumes "cstr m src cs" "length cs < 4294967295"
    "\<forall>i j. i \<le> length cs \<longrightarrow> j \<le> length cs \<longrightarrow> dst + of_nat i \<noteq> src + of_nat j"
  shows "\<exists>m'. strcpy m dst src = Some m' \<and> cstr m' dst cs
    \<and> (\<forall>a. length cs < unat (a - dst) \<longrightarrow> m' a = m a)"
proof -
  have "strcpy m dst src = Some (put_cstr m dst cs)"
    unfolding strcpy_def using assms by (intro strcpy_loop_cstr) auto
  moreover have "0 \<notin> set cs" using assms(1) by (simp add: cstr_iff)
  then have "cstr (put_cstr m dst cs) dst cs" using assms(2) by (intro cstr_put_cstr) auto
  ultimately show ?thesis by (auto simp: put_cstr_def Let_def)
qed

theorem strcpy_correct_witness:
  "\<exists>m'. strcpy sample_text 0x300 0x100 = Some m' \<and> cstr m' 0x300 [0x61, 0x42] \<and> m' 0x200 = 0x41"
proof -
  have apart: "\<forall>i j. i \<le> length [0x61, 0x42 :: u8] \<longrightarrow> j \<le> length [0x61, 0x42 :: u8] \<longrightarrow>
      (0x300 :: u32) + of_nat i \<noteq> 0x100 + of_nat j"
    using offset_apart [of _ 512 _ "0x100"] by simp
  have "length [0x61, 0x42 :: u8] < 4294967295" by simp
  from strcpy_correct [OF sample_text_strings(1) this apart] show ?thesis
    by (auto simp: sample_text_def dest: spec [of _ "0x200"])
qed

text \<open>C40. \<^verbatim>\<open>strncpy\<close> with a positive size never writes more than that many bytes, always terminates
  the copy, and copies the longest prefix of the source that leaves room for the terminator.\<close>

theorem strncpy_correct:
  assumes "0 < n" "\<forall>i j. i < unat n \<longrightarrow> j < unat n \<longrightarrow> dst + of_nat i \<noteq> src + of_nat j"
  shows "cstr (strncpy m dst src n) dst (str_upto m src (unat n - 1))
    \<and> (\<forall>a. n \<le> a - dst \<longrightarrow> strncpy m dst src n a = m a)"
proof -
  let ?cs = "str_upto m src (unat n - 1)"
  have eq: "strncpy m dst src n = put_cstr m dst ?cs"
    using strncpy_loop_eq [OF assms(1), of dst src m] assms by (auto simp: strncpy_def)
  have "0 \<notin> set ?cs" by (auto simp: str_upto_def dest: set_takeWhileD)
  moreover have len: "length ?cs < unat n"
    using length_str_upto [of m src "unat n - 1"] word_Suc_pred [OF assms(1)] by linarith
  moreover have "length ?cs < 4294967296" using len unat_u32_less [of n] by linarith
  ultimately show ?thesis
    using cstr_put_cstr [of ?cs m dst] unfolding eq by (auto simp: put_cstr_def Let_def word_le_nat_alt)
qed

theorem strncpy_correct_witness:
  "cstr (strncpy sample_text 0x300 0x100 2) 0x300 [0x61] \<and> strncpy sample_text 0x300 0x100 2 0x302 = 0"
proof -
  have apart: "\<forall>i j. i < unat (2 :: u32) \<longrightarrow> j < unat (2 :: u32) \<longrightarrow> (0x300 :: u32) + of_nat i \<noteq> 0x100 + of_nat j"
    using offset_apart [of _ 512 _ "0x100"] by simp
  have "str_upto sample_text 0x100 (unat (2 :: u32) - 1) = [0x61]"
    using str_upto_cstr [OF sample_text_strings(1), of 1] by simp
  then show ?thesis
    using strncpy_correct [OF _ apart, of sample_text] by (auto simp: sample_text_def dest: spec [of _ "0x302"])
qed

text \<open>\<^verbatim>\<open>atoi\<close> never returns, whatever the string: the condition of its loop is also true for the
  terminator and for every character that is not a digit.\<close>

theorem atoi_diverges: "atoi m str = None"
  by (simp add: atoi_def atoi_loop_none Let_def)

end
