(* ===== verification/PathParser.thy ===== *)
theory PathParser
  imports HeapObjects CString
begin

text \<open>
  The path parser of \<^verbatim>\<open>src/kernel/fs/pparser.c\<close>. A \<^verbatim>\<open>struct path_root\<close> is two words on the heap
  (\<^verbatim>\<open>drive_number\<close>, \<^verbatim>\<open>first\<close>), a \<^verbatim>\<open>struct path_part\<close> too (\<^verbatim>\<open>part\<close>, \<^verbatim>\<open>next\<close>). A parameter
  of type \<^verbatim>\<open>const char**\<close> is passed and returned by value. The specification is \<open>path_parts\<close>, the
  components of a path.
\<close>

definition FS_MAX_PATH_LEN :: u32 where [config_defs]: "FS_MAX_PATH_LEN = 108"
definition FS_NULL_ADDRESS :: u32 where [config_defs]: "FS_NULL_ADDRESS = 0"

section \<open>The fields\<close>

definition root_drive_number :: "memory \<Rightarrow> u32 \<Rightarrow> u32" where "root_drive_number m r = load32 m r"
definition root_first :: "memory \<Rightarrow> u32 \<Rightarrow> u32" where "root_first m r = load32 m (r + 4)"
definition part_part :: "memory \<Rightarrow> u32 \<Rightarrow> u32" where "part_part m p = load32 m p"
definition part_next :: "memory \<Rightarrow> u32 \<Rightarrow> u32" where "part_next m p = load32 m (p + 4)"

section \<open>Parsing\<close>

text \<open>\<^verbatim>\<open>memcmp\<close> with the literal \<^verbatim>\<open>":/"\<close> is 0 exactly when the two bytes are these.\<close>

definition path_valid_format :: "memory \<Rightarrow> u32 \<Rightarrow> bool" where
  "path_valid_format m filename \<longleftrightarrow>
     (let len = strnlen m filename FS_MAX_PATH_LEN
      in 2 <s len \<and> isdigit (m filename) \<and> bytes m (filename + 1) 2 = [0x3A, 0x2F])"

definition get_drive_by_path :: "memory \<Rightarrow> u32 \<Rightarrow> u32 \<times> u32" where
  "get_drive_by_path m path =
     (if \<not> path_valid_format m path then (- EBADPATH, path)
      else (atoic (m path), path + 3))"

definition pparser_create_root :: "u32 \<Rightarrow> 'a kstate_scheme \<Rightarrow> u32 \<times> 'a kstate_scheme" where
  "pparser_create_root d_number s =
     (let (path_r, s1) = kzalloc 8 s
      in (path_r, put32 (path_r + 4) 0 (put32 path_r d_number s1)))"

partial_function (option) path_part_loop :: "u32 \<Rightarrow> u32 \<Rightarrow> u32 \<Rightarrow> memory \<Rightarrow> (u32 \<times> u32 \<times> memory) option" where
  "path_part_loop result_path_part path ctr m =
     (if m path \<noteq> 0x2F \<and> m path \<noteq> 0
      then path_part_loop result_path_part (path + 1) (ctr + 1) (m(result_path_part + ctr := m path))
      else Some (path, ctr, m))"

definition pparser_get_path_part :: "u32 \<Rightarrow> 'a kstate_scheme \<Rightarrow> (u32 \<times> u32 \<times> 'a kstate_scheme) option" where
  "pparser_get_path_part path s =
     (let (result_path_part, s1) = kzalloc FS_MAX_PATH_LEN s
      in case path_part_loop result_path_part path 0 (mem s1) of
           None \<Rightarrow> None
         | Some (path1, ctr, m) \<Rightarrow>
             let s2 = s1\<lparr>mem := m\<rparr>;
                 path2 = (if mem s2 path1 = 0x2F then path1 + 1 else path1)
             in if ctr = 0 then Some (0, path2, kfree result_path_part s2)
                else Some (result_path_part, path2, s2))"

definition pparser_parse_path_part ::
  "u32 \<Rightarrow> u32 \<Rightarrow> 'a kstate_scheme \<Rightarrow> (u32 \<times> u32 \<times> 'a kstate_scheme) option" where
  "pparser_parse_path_part last_part path s =
     (case pparser_get_path_part path s of
        None \<Rightarrow> None
      | Some (path_part_str, path1, s1) \<Rightarrow>
          if path_part_str = 0 then Some (0, path1, s1)
          else
            let (part, s2) = kzalloc 8 s1;
                s3 = put32 (part + 4) FS_NULL_ADDRESS (put32 part path_part_str s2);
                s4 = (if last_part \<noteq> 0 then put32 (last_part + 4) part s3 else s3)
            in Some (part, path1, s4))"

partial_function (option) pparser_rest :: "u32 \<Rightarrow> u32 \<Rightarrow> 'a kstate_scheme \<Rightarrow> 'a kstate_scheme option" where
  "pparser_rest part path s =
     (if part \<noteq> 0
      then (case pparser_parse_path_part part path s of
              None \<Rightarrow> None
            | Some (part', path', s') \<Rightarrow> pparser_rest part' path' s')
      else Some s)"

definition pparser_parse :: "u32 \<Rightarrow> u32 \<Rightarrow> 'a kstate_scheme \<Rightarrow> (u32 \<times> 'a kstate_scheme) option" where
  "pparser_parse path cwd s =
     (case strlen (mem s) path of
        None \<Rightarrow> None
      | Some len \<Rightarrow>
          if FS_MAX_PATH_LEN < len then Some (0, s)
          else
            let (res, tmp_path) = get_drive_by_path (mem s) path
            in if res <s 0 then Some (0, s)
               else
                 let (path_root, s1) = pparser_create_root res s
                 in if path_root = 0 then Some (0, s1)
                    else case pparser_parse_path_part FS_NULL_ADDRESS tmp_path s1 of
                           None \<Rightarrow> None
                         | Some (first_part, tmp_path, s2) \<Rightarrow>
                             if first_part = 0 then Some (path_root, s2)
                             else case pparser_parse_path_part first_part tmp_path
                                         (put32 (path_root + 4) first_part s2) of
                                    None \<Rightarrow> None
                                  | Some (part, tmp_path, s3) \<Rightarrow>
                                      map_option (Pair path_root) (pparser_rest part tmp_path s3))"

partial_function (option) pparser_free_parts :: "u32 \<Rightarrow> 'a kstate_scheme \<Rightarrow> 'a kstate_scheme option" where
  "pparser_free_parts part s =
     (if part \<noteq> 0
      then (let n_part = part_next (mem s) part
            in pparser_free_parts n_part (kfree part (kfree (part_part (mem s) part) s)))
      else Some s)"

definition pparser_free :: "u32 \<Rightarrow> 'a kstate_scheme \<Rightarrow> 'a kstate_scheme option" where
  "pparser_free root s = map_option (kfree root) (pparser_free_parts (root_first (mem s) root) s)"

section \<open>Specification\<close>

text \<open>The components of a path: parsing stops at the end or at an empty component.\<close>

function path_parts :: "u8 list \<Rightarrow> u8 list list" where
  "path_parts cs =
     (let p = takeWhile (\<lambda>c. c \<noteq> 0x2F) cs; r = dropWhile (\<lambda>c. c \<noteq> 0x2F) cs
      in if p = [] then [] else p # path_parts (tl r))"
  by pat_completeness auto
termination
proof (relation "measure length", goal_cases)
  case (2 cs p r)
  then have "cs \<noteq> []" by auto
  moreover have "length r \<le> length cs" unfolding 2(2) by (rule length_dropWhile_le)
  moreover have "r \<noteq> cs" using 2 by (metis dropWhile_eq_self_iff hd_Cons_tl takeWhile_eq_Nil_iff)
  ultimately show ?case
    using 2(2) by (metis in_measure diff_less length_greater_0_conv length_tl less_imp_diff_less list.sel(2) nat_less_le zero_less_one order_le_less_trans diff_le_self)
qed simp

declare path_parts.simps [simp del]

section \<open>Collecting a component\<close>

abbreviation component :: "u8 list \<Rightarrow> u8 list" where
  "component \<equiv> takeWhile (\<lambda>c. c \<noteq> 0x2F)"

lemma path_part_loop_run:
  assumes "cstr m path cs" "length cs < 4294967295"
    "\<And>i j. i < length (component cs) \<Longrightarrow> j \<le> length cs \<Longrightarrow> buf + ctr + of_nat i \<noteq> path + of_nat j"
  shows "path_part_loop buf path ctr m =
    Some (path + of_nat (length (component cs)), ctr + of_nat (length (component cs)),
          put_bytes m (buf + ctr) (component cs))"
  using assms
proof (induction cs arbitrary: m path ctr)
  case Nil
  then show ?case by (simp add: path_part_loop.simps)
next
  case (Cons c cs)
  show ?case
  proof (cases "c = 0x2F")
    case True
    then show ?thesis using Cons.prems by (simp add: path_part_loop.simps)
  next
    case False
    let ?m = "m(buf + ctr := c)"
    have src: "cstr ?m (path + 1) cs"
    proof -
      have "cstr ?m (path + 1) cs \<longleftrightarrow> cstr m (path + 1) cs"
      proof (rule cstr_cong)
        fix i assume "i \<le> length cs"
        then have "buf + ctr \<noteq> path + of_nat (Suc i)" using Cons.prems(3) [of 0 "Suc i"] False by simp
        then show "?m (path + 1 + of_nat i) = m (path + 1 + of_nat i)" by (auto simp: add.assoc)
      qed
      then show ?thesis using Cons.prems(1) by simp
    qed
    have apart: "buf + (ctr + 1) + of_nat i \<noteq> path + 1 + of_nat j"
      if "i < length (component cs)" "j \<le> length cs" for i j
      using Cons.prems(3) [of "Suc i" "Suc j"] that False by (simp add: add.assoc)
    have "length cs < 4294967295" using Cons.prems(2) by simp
    moreover have "length (component cs) \<le> length cs" by (rule length_takeWhile_le)
    moreover have "path_part_loop buf (path + 1) (ctr + 1) ?m =
      Some (path + 1 + of_nat (length (component cs)), ctr + 1 + of_nat (length (component cs)),
        put_bytes ?m (buf + (ctr + 1)) (component cs))"
      by (rule Cons.IH [OF src calculation(1) apart])
    ultimately show ?thesis
      using Cons.prems(1) False put_bytes_Cons [of "component cs" m "buf + ctr" c]
      by (simp add: path_part_loop.simps [of buf path ctr m] add.assoc)
  qed
qed

lemma put_bytes_cstr:
  assumes "0 \<notin> set cs" "length cs < n" "n \<le> 4294967296" "\<And>i. i < n \<Longrightarrow> m (p + of_nat i) = 0"
  shows "cstr (put_bytes m p cs) p cs"
proof -
  have "unat (of_nat i :: u32) = i" if "i \<le> length cs" for i
    using that assms(2,3) by (intro unat_of_nat32) simp
  then show ?thesis
    using assms by (auto simp: cstr_iff put_bytes_def Let_def intro!: nth_equalityI)
qed

section \<open>One step of the parser\<close>

text \<open>A string a client may read: its bytes and its terminator are held.\<close>

definition held_str :: "'a kstate_scheme \<Rightarrow> u32 \<Rightarrow> u8 list \<Rightarrow> bool" where
  "held_str s p cs \<longleftrightarrow> cstr (mem s) p cs \<and> (\<forall>i \<le> length cs. held s (p + of_nat i))"

lemma held_str_grows:
  assumes "grows s s' ps" "held_str s p cs"
  shows "held_str s' p cs"
proof -
  have "cstr (mem s') p cs = cstr (mem s) p cs"
    by (rule cstr_cong) (use assms grows_held in \<open>unfold held_str_def, blast\<close>)
  then show ?thesis using assms grows_held [OF assms(1)] unfolding held_str_def by blast
qed

lemma cstr_drop: "cstr m p cs \<Longrightarrow> n \<le> length cs \<Longrightarrow> cstr m (p + of_nat n) (drop n cs)"
proof (induction n arbitrary: p cs)
  case (Suc n)
  then obtain c ds where cs: "cs = c # ds" "cstr m (p + 1) ds" "n \<le> length ds" by (cases cs) auto
  have "cstr m (p + 1 + of_nat n) (drop n ds)" by (rule Suc.IH [OF cs(2,3)])
  then show ?case using cs(1) by (simp add: add.assoc)
qed simp

lemma held_str_drop: "held_str s p cs \<Longrightarrow> n \<le> length cs \<Longrightarrow> held_str s (p + of_nat n) (drop n cs)"
  unfolding held_str_def using cstr_drop [of "mem s" p cs n]
  by (auto simp: add.assoc of_nat_add [symmetric] simp del: of_nat_add)

definition rest_of :: "u8 list \<Rightarrow> u8 list" where
  "rest_of cs = tl (dropWhile (\<lambda>c. c \<noteq> 0x2F) cs)"

lemma path_parts_unfold:
  "path_parts cs = (if component cs = [] then [] else component cs # path_parts (rest_of cs))"
  by (subst path_parts.simps) (simp add: rest_of_def Let_def)

lemma rest_of_drop:
  "rest_of cs = drop (length (component cs) + (if length (component cs) < length cs then 1 else 0)) cs"
proof -
  have "dropWhile (\<lambda>c. c \<noteq> 0x2F) cs = drop (length (component cs)) cs" by (rule dropWhile_eq_drop)
  moreover have "length (component cs) \<le> length cs" by (rule length_takeWhile_le)
  ultimately show ?thesis by (simp add: rest_of_def tl_drop drop_Suc not_less)
qed

text \<open>How many characters a component and the slash after it take.\<close>

definition skip :: "u8 list \<Rightarrow> nat" where
  "skip cs = length (component cs) + (if length (component cs) < length cs then 1 else 0)"

lemma skip_le: "skip cs \<le> length cs"
  using length_takeWhile_le [of "\<lambda>c. c \<noteq> 0x2F" cs] by (simp add: skip_def)

lemma rest_of_skip: "rest_of cs = drop (skip cs) cs"
  by (simp add: rest_of_drop skip_def)

lemma path_part_found:
  assumes ok: "kheap_ok s" and free: "0 < free_blocks s" and str: "held_str s path cs"
    and len: "length cs < 108" and part: "component cs \<noteq> []"
  obtains buf s' where "pparser_get_path_part path s = Some (buf, path + of_nat (skip cs), s')"
    "grows s s' [buf]" "cstr (mem s') buf (component cs)"
proof -
  define buf where "buf = fst (kzalloc 108 s)"
  define s1 where "s1 = snd (kzalloc 108 s)"
  have g: "grows s s1 [buf]" and zero: "\<And>i. i < 108 \<Longrightarrow> mem s1 (buf + of_nat i) = 0"
    using grows_kzalloc [OF ok free, of 108] by (simp_all add: buf_def s1_def)
  have buf: "paging_is_aligned buf" "buf \<noteq> 0" using g by (auto simp: grows_def)
  let ?p = "component cs" and ?n = "length (component cs)"
  have n: "?n \<le> length cs" "?n < 108" using length_takeWhile_le [of _ cs] len by (auto intro: le_less_trans)
  note str1 = held_str_grows [OF g str]
  have "buf + 0 + of_nat i \<noteq> path + of_nat j" if "i < ?n" "j \<le> length cs" for i j
    using grows_new [OF g, of "path + of_nat j"] str that page_byte [OF buf(1), of i] n(2)
    unfolding held_str_def by auto
  from path_part_loop_run [OF _ _ this, of "mem s1"] str1 len
  have loop: "path_part_loop buf path 0 (mem s1) = Some (path + of_nat ?n, of_nat ?n, put_bytes (mem s1) buf ?p)"
    by (simp add: held_str_def)
  let ?s2 = "s1\<lparr>mem := put_bytes (mem s1) buf ?p\<rparr>"
  have "put_bytes (mem s1) buf ?p a = mem s1 a" if "page_base a \<noteq> buf" for a
  proof -
    have "\<not> unat (a - buf) < ?n"
      using page_byte [OF buf(1), of "unat (a - buf)"] that n(2) by auto
    then show ?thesis by (simp add: put_bytes_def Let_def)
  qed
  then have g2: "grows s ?s2 [buf]" by (intro grows_write [OF g]) simp
  have "0 \<notin> set cs" using str by (simp add: held_str_def cstr_iff)
  then have nz: "0 \<notin> set ?p" by (auto dest: set_takeWhileD)
  have c: "cstr (mem ?s2) buf ?p"
    by simp (intro put_bytes_cstr [OF nz n(2)] zero, simp_all)
  note str2 = held_str_grows [OF g2 str]
  have ctr: "(of_nat ?n :: u32) \<noteq> 0" using part n(2) of_nat_eq_u32 [of ?n 0] by simp
  have slash: "mem ?s2 (path + of_nat ?n) = 0x2F \<longleftrightarrow> ?n < length cs"
  proof (cases "?n < length cs")
    case True
    have "mem ?s2 (path + of_nat ?n) = cs ! ?n"
      using str2 True nth_bytes [of ?n "length cs" "mem ?s2" path] unfolding held_str_def cstr_iff by simp
    then show ?thesis using True nth_length_takeWhile [of "\<lambda>c. c \<noteq> 0x2F" cs] by simp
  next
    case False
    then show ?thesis using str2 n unfolding held_str_def cstr_iff by simp
  qed
  have "pparser_get_path_part path s = Some (buf, path + of_nat (skip cs), ?s2)"
    using loop ctr slash
    by (simp add: pparser_get_path_part_def config_defs buf_def [symmetric] s1_def [symmetric] case_prod_unfold Let_def
        add.assoc skip_def)
  then show thesis using that g2 c by blast
qed

lemma path_part_none:
  assumes ok: "kheap_ok s" and free: "0 < free_blocks s" and str: "held_str s path cs"
    and part: "component cs = []"
  obtains path' s' where "pparser_get_path_part path s = Some (0, path', s')" "grows s s' []"
proof -
  define buf where "buf = fst (kzalloc 108 s)"
  define s1 where "s1 = snd (kzalloc 108 s)"
  have g: "grows s s1 [buf]" using grows_kzalloc [OF ok free, of 108] by (simp add: buf_def s1_def)
  have "mem s1 path = 0x2F \<or> mem s1 path = 0"
    using held_str_grows [OF g str] part by (cases cs) (auto simp: held_str_def split: if_splits)
  then have "path_part_loop buf path 0 (mem s1) = Some (path, 0, mem s1)"
    by (subst path_part_loop.simps) auto
  then have "pparser_get_path_part path s = Some (0, if mem s1 path = 0x2F then path + 1 else path, kfree buf s1)"
    by (simp add: pparser_get_path_part_def config_defs buf_def [symmetric] s1_def [symmetric] case_prod_unfold Let_def)
  moreover have "grows s (kfree buf s1) []" using grows_release [OF g, of buf] by simp
  ultimately show thesis using that by blast
qed

lemma parse_part_found:
  assumes ok: "kheap_ok s" and free: "2 \<le> free_blocks s" and str: "held_str s path cs"
    and len: "length cs < 108" and part: "component cs \<noteq> []"
  obtains buf q s3 where
    "pparser_parse_path_part l path s =
       Some (q, path + of_nat (skip cs), if l \<noteq> 0 then put32 (l + 4) q s3 else s3)"
    "grows s s3 [buf, q]" "part_part (mem s3) q = buf" "part_next (mem s3) q = 0"
    "cstr (mem s3) buf (component cs)"
proof -
  have "0 < free_blocks s" using free by simp
  from path_part_found [OF ok this str len part] obtain buf s1 where
    s1: "pparser_get_path_part path s = Some (buf, path + of_nat (skip cs), s1)" "grows s s1 [buf]"
      "cstr (mem s1) buf (component cs)" by blast
  define q where "q = fst (kzalloc 8 s1)"
  define s2 where "s2 = snd (kzalloc 8 s1)"
  have buf: "paging_is_aligned buf" "buf \<noteq> 0" using s1(2) by (auto simp: grows_def)
  have "0 < free_blocks s1" using grows_free [OF s1(2)] free by simp
  then have g2: "grows s1 s2 [q]" using grows_kzalloc [OF grows_ok [OF s1(2)], of 8] by (simp add: q_def s2_def)
  have q: "paging_is_aligned q" "q \<noteq> 0" using g2 by (auto simp: grows_def)
  have neq: "q \<noteq> buf" using grows_trans [OF s1(2) g2] by (auto simp: grows_def)
  let ?s3 = "put32 (q + 4) 0 (put32 q buf s2)"
  have s3: "?s3 = s2\<lparr>mem := store32 (store32 (mem s2) q buf) (q + 4) 0\<rparr>" by (simp add: put32_def)
  have frame: "mem ?s3 a = mem s2 a" if "page_base a \<noteq> q" for a
    using field_frame [OF q(1) that] by (simp add: s3)
  then have g3: "grows s1 ?s3 [q]" unfolding s3 by (intro grows_write [OF g2]) simp
  have buf_bytes: "mem ?s3 a = mem s1 a" if "page_base a = buf" for a
    using frame [of a] that neq grows_held [OF g2 grows_page_held [OF s1(2), of a]] by simp
  have "length (component cs) < 4096" using len length_takeWhile_le [of "\<lambda>c. c \<noteq> 0x2F" cs] by linarith
  then have "cstr (mem ?s3) buf (component cs) = cstr (mem s1) buf (component cs)"
    using page_byte [OF buf(1)] by (intro cstr_cong buf_bytes) simp
  moreover have "part_part (mem ?s3) q = buf" "part_next (mem ?s3) q = 0"
    using field_store [OF q(1) q(1)] by (simp_all add: part_part_def part_next_def s3)
  moreover have "pparser_parse_path_part l path s =
      Some (q, path + of_nat (skip cs), if l \<noteq> 0 then put32 (l + 4) q ?s3 else ?s3)"
    using s1(1) buf(2) by (simp add: pparser_parse_path_part_def q_def [symmetric] s2_def [symmetric]
        case_prod_unfold config_defs Let_def)
  ultimately show thesis using that grows_trans [OF s1(2) g3] s1(3) by simp
qed

lemma parse_part_none:
  assumes "kheap_ok s" "0 < free_blocks s" "held_str s path cs" "component cs = []"
  obtains path' s' where "pparser_parse_path_part l path s = Some (0, path', s')" "grows s s' []"
proof (rule path_part_none [OF assms])
  fix path' s' assume "pparser_get_path_part path s = Some (0, path', s')" "grows s s' []"
  then show thesis using that by (simp add: pparser_parse_path_part_def)
qed

section \<open>Lists of components\<close>

text \<open>\<open>seg m p ns e\<close>: from \<open>p\<close> the nodes \<open>ns\<close> (address, string address, string) are linked up to \<open>e\<close>.\<close>

type_synonym node = "u32 \<times> u32 \<times> u8 list"

fun seg :: "memory \<Rightarrow> u32 \<Rightarrow> node list \<Rightarrow> u32 \<Rightarrow> bool" where
  "seg m p [] e = (p = e)"
| "seg m p ((n, str, cs) # ns) e = (p = n \<and> n \<noteq> 0 \<and> part_part m n = str \<and> cstr m str cs
     \<and> length cs < 4096 \<and> seg m (part_next m n) ns e)"

abbreviation node_strings :: "node list \<Rightarrow> u8 list list" where
  "node_strings ns \<equiv> map (\<lambda>x. snd (snd x)) ns"

definition node_pages :: "node list \<Rightarrow> u32 list" where
  "node_pages ns = concat (map (\<lambda>(n, str, cs). [str, n]) ns)"

lemma node_pages_simps [simp]:
  "node_pages [] = []" "node_pages ((n, str, cs) # ns) = str # n # node_pages ns"
  "node_pages (ns @ ms) = node_pages ns @ node_pages ms"
  by (simp_all add: node_pages_def)

lemma seg_append: "seg m p (ns @ ms) e \<longleftrightarrow> (\<exists>r. seg m p ns r \<and> seg m r ms e)"
  by (induction ns arbitrary: p) auto

lemma seg_cong:
  assumes "\<And>a. page_base a \<in> set (node_pages ns) \<Longrightarrow> m' a = m a" "\<forall>q \<in> set (node_pages ns). paging_is_aligned q"
  shows "seg m' p ns e = seg m p ns e"
  using assms
proof (induction ns arbitrary: p)
  case (Cons x ns)
  obtain n str cs where x: "x = (n, str, cs)" by (cases x)
  have al: "paging_is_aligned n" "paging_is_aligned str" using Cons.prems(2) by (simp_all add: x)
  have "part_part m' n = part_part m n" "part_next m' n = part_next m n"
    using field_cong [OF al(1), of m' m] Cons.prems(1) by (simp_all add: part_part_def part_next_def x)
  moreover have "cstr m' str cs = cstr m str cs" if "length cs < 4096"
    using page_byte [OF al(2)] that Cons.prems(1) by (intro cstr_cong) (simp add: x)
  moreover have "seg m' q ns e = seg m q ns e" for q
    using Cons.prems by (intro Cons.IH) (simp_all add: x)
  ultimately show ?case by (auto simp: x)
qed simp

text \<open>Appending a node after the last one.\<close>

lemma seg_extend:
  assumes "seg m p (ns @ [(l, str, cs)]) 0" "distinct (node_pages (ns @ [(l, str, cs)]) @ [q, qs])"
    "\<forall>r \<in> set (node_pages (ns @ [(l, str, cs)]) @ [q, qs]). paging_is_aligned r"
    "part_part m q = qs" "part_next m q = 0" "cstr m qs qc" "length qc < 4096" "q \<noteq> 0"
  shows "seg (store32 m (l + 4) q) p (ns @ [(l, str, cs)] @ [(q, qs, qc)]) 0"
proof -
  let ?m = "store32 m (l + 4) q"
  have al: "paging_is_aligned l" "paging_is_aligned str" "paging_is_aligned q" "paging_is_aligned qs"
    using assms(3) by simp_all
  have frame: "?m a = m a" if "page_base a \<noteq> l" for a using field_frame(2) [OF al(1) that] .
  have s: "seg m p ns l" "part_part m l = str" "cstr m str cs" "length cs < 4096" "l \<noteq> 0"
    using assms(1) by (auto simp: seg_append)
  have "seg ?m p ns l"
    using s(1) assms(2,3) by (subst seg_cong [where m = m]) (auto intro!: frame)
  moreover have str_kept: "cstr ?m b c = cstr m b c" if "b \<noteq> l" "length c < 4096" "paging_is_aligned b" for b c
    using page_byte [OF that(3)] that(1,2) by (intro cstr_cong frame) simp
  have "part_part ?m l = str" "part_next ?m l = q"
    using s(2) field_store(2,4) [OF al(1) al(1)] by (simp_all add: part_part_def part_next_def)
  moreover have "part_part ?m q = qs" "part_next ?m q = 0"
    using assms(2,4,5) field_store(7,8) [OF al(1) al(3)] by (auto simp: part_part_def part_next_def)
  moreover have "cstr ?m str cs" "cstr ?m qs qc"
    using str_kept [OF _ s(4) al(2)] str_kept [OF _ assms(7) al(4)] s(3) assms(2,6) by auto
  ultimately show ?thesis using s assms(7,8) by (auto simp: seg_append)
qed

section \<open>The whole parser\<close>

lemma pparser_rest_run:
  assumes "grows s0 s (r # node_pages (ns @ [(l, ls, lc)]))" "seg (mem s) p (ns @ [(l, ls, lc)]) 0"
    "held_str s0 path cs" "length cs < 108" "2 * length (path_parts cs) < free_blocks s"
  shows "\<exists>s' ms. pparser_rest l path s = Some s' \<and> grows s0 s' (r # node_pages (ns @ [(l, ls, lc)] @ ms))
    \<and> seg (mem s') p (ns @ [(l, ls, lc)] @ ms) 0 \<and> node_strings ms = path_parts cs
    \<and> (\<forall>a. page_base a = r \<longrightarrow> mem s' a = mem s a)"
  using assms
proof (induction cs arbitrary: s ns l ls lc path rule: path_parts.induct)
  case (1 cs)
  let ?ns = "ns @ [(l, ls, lc)]"
  note g = "1.prems"(1)
  have l: "l \<noteq> 0" using "1.prems"(2) by (auto simp: seg_append)
  have al: "\<forall>q \<in> set (node_pages ?ns). paging_is_aligned q" using g by (simp add: grows_def)
  note str = held_str_grows [OF g "1.prems"(3)]
  show ?case
  proof (cases "component cs = []")
    case True
    from parse_part_none [OF grows_ok [OF g] _ str True, of l] "1.prems"(5) obtain path' s' where
      s': "pparser_parse_path_part l path s = Some (0, path', s')" "grows s s' []" by auto
    have run: "pparser_rest l path s = Some s'"
      using l s'(1) by (simp add: pparser_rest.simps [of l] pparser_rest.simps [of 0])
    have kept: "mem s' a = mem s a" if "page_base a \<in> set (r # node_pages ?ns)" for a
      using grows_held [OF s'(2) grows_page_held [OF g that]] by simp
    have "seg (mem s') p ?ns 0" using "1.prems"(2) kept al by (subst seg_cong [where m = "mem s"]) auto
    moreover have "grows s0 s' (r # node_pages ?ns)" using grows_trans [OF g s'(2)] by simp
    ultimately show ?thesis
      using run kept True by (intro exI [of _ s'] exI [of _ "[]"]) (simp add: path_parts_unfold [of cs])
  next
    case False
    have parts: "path_parts cs = component cs # path_parts (rest_of cs)"
      using False by (simp add: path_parts_unfold [of cs])
    have "2 \<le> free_blocks s" using "1.prems"(5) unfolding parts by simp
    from parse_part_found [OF grows_ok [OF g] this str "1.prems"(4) False, of l] obtain buf q s3 where
      s3: "pparser_parse_path_part l path s = Some (q, path + of_nat (skip cs), if l \<noteq> 0 then put32 (l + 4) q s3 else s3)"
        "grows s s3 [buf, q]" "part_part (mem s3) q = buf" "part_next (mem s3) q = 0" "cstr (mem s3) buf (component cs)"
      by blast
    let ?m = "store32 (mem s3) (l + 4) q"
    define s4 where "s4 = s3\<lparr>mem := ?m\<rparr>"
    have run: "pparser_rest l path s = pparser_rest q (path + of_nat (skip cs)) s4"
      using l s3(1) by (simp add: pparser_rest.simps [of l] s4_def put32_def)
    have g3: "grows s0 s3 (r # node_pages ?ns @ [buf, q])" using grows_trans [OF g s3(2)] by simp
    have kept: "mem s3 a = mem s a" if "page_base a \<in> set (r # node_pages ?ns)" for a
      using grows_held [OF s3(2) grows_page_held [OF g that]] by simp
    have seg3: "seg (mem s3) p ?ns 0" using "1.prems"(2) kept al by (subst seg_cong [where m = "mem s"]) auto
    have pages3: "distinct (r # node_pages ?ns @ [q, buf])" "\<forall>u \<in> set (r # node_pages ?ns @ [q, buf]). paging_is_aligned u" "q \<noteq> 0"
      using g3 by (auto simp: grows_def)
    have len: "length (component cs) < 4096"
      using "1.prems"(4) length_takeWhile_le [of "\<lambda>c. c \<noteq> 0x2F" cs] by linarith
    have seg4: "seg ?m p (?ns @ [(q, buf, component cs)]) 0"
      using seg_extend [OF seg3, of q buf "component cs"] pages3 s3(3-5) len by auto
    have lpage: "paging_is_aligned l" "l \<in> set (node_pages ?ns)" using al by auto
    have "grows s0 s4 (r # node_pages ?ns @ [buf, q])"
      unfolding s4_def by (rule grows_write [OF g3]) (use field_frame(2) [OF lpage(1)] lpage(2) in auto)
    then have g4: "grows s0 s4 (r # node_pages (?ns @ [(q, buf, component cs)]))" by simp
    have free4: "2 * length (path_parts (rest_of cs)) < free_blocks s4"
      using grows_free [OF g4] grows_free [OF g] "1.prems"(5) unfolding parts by simp
    have str4: "held_str s0 (path + of_nat (skip cs)) (rest_of cs)"
      unfolding rest_of_skip by (rule held_str_drop [OF "1.prems"(3) skip_le])
    have len4: "length (rest_of cs) < 108" using "1.prems"(4) by (simp add: rest_of_skip)
    have seg4': "seg (mem s4) p (?ns @ [(q, buf, component cs)]) 0" using seg4 by (simp add: s4_def)
    obtain s' ms where
      s': "pparser_rest q (path + of_nat (skip cs)) s4 = Some s'"
        "grows s0 s' (r # node_pages (?ns @ [(q, buf, component cs)] @ ms))"
        "seg (mem s') p (?ns @ [(q, buf, component cs)] @ ms) 0" "node_strings ms = path_parts (rest_of cs)"
        "\<And>a. page_base a = r \<Longrightarrow> mem s' a = mem s4 a"
      using "1.IH" [OF refl refl False g4 seg4' str4 [unfolded rest_of_def] len4 [unfolded rest_of_def]
          free4 [unfolded rest_of_def]] unfolding rest_of_def by blast
    have "mem s' a = mem s a" if "page_base a = r" for a
    proof -
      have "r \<noteq> l" using pages3(1) lpage(2) by auto
      then show ?thesis
        using s'(5) [OF that] kept [of a] that field_frame(2) [OF lpage(1), of a] by (simp add: s4_def)
    qed
    then show ?thesis
      using s' run parts by (intro exI [of _ s'] exI [of _ "(q, buf, component cs) # ms"]) simp
  qed
qed

lemma get_drive_valid:
  assumes "cstr m path (d # 0x3A # 0x2F # rest)" "isdigit d"
  shows "get_drive_by_path m path = (atoic d, path + 3)" "\<not> atoic d <s 0"
proof -
  have "unat (strnlen m path 108) = min 108 (Suc (Suc (Suc (length rest))))"
    using strnlen_eq [of m path 108] str_upto_cstr [OF assms(1), of 108] by simp
  then have "2 <s strnlen m path 108"
    by (simp add: word_sless_alt sint_eq_if uint_nat)
  moreover have "bytes m (path + 1) 2 = [0x3A, 0x2F]"
    using assms(1) by (simp add: bytes_Suc numeral_2_eq_2)
  ultimately show "get_drive_by_path m path = (atoic d, path + 3)"
    using assms by (simp add: get_drive_by_path_def path_valid_format_def config_defs)
  have "0 \<le> sint d - 48" "sint d - 48 < 10" using assms(2) by (auto simp: isdigit_def word_sless_alt)
  moreover have "atoic d = word_of_int (sint d - 48)"
    by (simp add: atoic_def signed_scast_eq flip: wi_hom_sub)
  ultimately show "\<not> atoic d <s 0"
    using sint_in_range [of "sint d - 48"] by (simp add: word_sless_alt)
qed

lemma pparser_parse_valid:
  assumes ok: "kheap_ok s" and str: "held_str s path (d # 0x3A # 0x2F # rest)" and d: "isdigit d"
    and len: "length rest \<le> 105" and free: "2 * length (path_parts rest) + 2 \<le> free_blocks s"
  shows "\<exists>root s' ns. pparser_parse path cwd s = Some (root, s') \<and> root \<noteq> 0
    \<and> grows s s' (root # node_pages ns) \<and> root_drive_number (mem s') root = atoic d
    \<and> seg (mem s') (root_first (mem s') root) ns 0 \<and> node_strings ns = path_parts rest"
proof -
  let ?cs = "d # 0x3A # 0x2F # rest"
  have cstr: "cstr (mem s) path ?cs" using str by (simp add: held_str_def)
  have "unat (of_nat (length ?cs) :: u32) = length ?cs" using len by (intro unat_of_nat32) simp
  then have n: "\<not> (108 :: u32) < of_nat (length ?cs)" using len by (simp only: word_less_nat_alt) simp
  have head: "pparser_parse path cwd s =
    (let (path_root, s1) = pparser_create_root (atoic d) s
     in if path_root = 0 then Some (0, s1)
        else case pparser_parse_path_part 0 (path + 3) s1 of
               None \<Rightarrow> None
             | Some (first_part, tmp_path, s2) \<Rightarrow>
                 if first_part = 0 then Some (path_root, s2)
                 else case pparser_parse_path_part first_part tmp_path (put32 (path_root + 4) first_part s2) of
                        None \<Rightarrow> None
                      | Some (part, tmp_path, s3) \<Rightarrow> map_option (Pair path_root) (pparser_rest part tmp_path s3))"
    using get_drive_valid(2) [OF cstr d]
    unfolding pparser_parse_def strlen_cstr [OF cstr] get_drive_valid(1) [OF cstr d] config_defs
      option.case if_not_P [OF n] Let_def prod.case by (simp only: if_False)
  define root where "root = fst (kzalloc 8 s)"
  define s1 where "s1 = snd (kzalloc 8 s)"
  have g1: "grows s s1 [root]" using grows_kzalloc [OF ok, of 8] free by (simp add: root_def s1_def)
  have root: "paging_is_aligned root" "root \<noteq> 0" using g1 by (auto simp: grows_def)
  define s2 where "s2 = put32 (root + 4) 0 (put32 root (atoic d) s1)"
  have create: "pparser_create_root (atoic d) s = (root, s2)"
    by (simp add: pparser_create_root_def root_def s1_def s2_def case_prod_unfold Let_def)
  have g2: "grows s s2 [root]"
  proof -
    have "s2 = s1\<lparr>mem := store32 (store32 (mem s1) root (atoic d)) (root + 4) 0\<rparr>"
      by (simp add: s2_def put32_def)
    then show ?thesis using field_frame [OF root(1)] by (simp only:) (intro grows_write [OF g1], simp)
  qed
  have f2: "load32 (mem s2) root = atoic d" "load32 (mem s2) (root + 4) = 0"
    using field_store [OF root(1) root(1)] by (simp_all add: s2_def put32_def)
  have str2: "held_str s (path + of_nat 3) rest"
    using held_str_drop [OF str, of 3] by simp
  note strg = held_str_grows [OF g2 str2]
  have free2: "2 * length (path_parts rest) + 1 \<le> free_blocks s2" using grows_free [OF g2] free by simp
  have root_kept: "load32 m root = atoic d" if "\<And>a. page_base a = root \<Longrightarrow> m a = mem s2 a" for m
    using field_cong(1) [OF root(1) that] f2(1) by simp
  show ?thesis
  proof (cases "component rest = []")
    case True
    have "0 < free_blocks s2" using free2 by simp
    from parse_part_none [OF grows_ok [OF g2] this strg True, of 0] obtain path' s' where
      s': "pparser_parse_path_part 0 (path + of_nat 3) s2 = Some (0, path', s')" "grows s2 s' []" by blast
    have kept: "mem s' a = mem s2 a" if "page_base a = root" for a
      using grows_held [OF s'(2) grows_page_held [OF g2, of a]] that by simp
    have "pparser_parse path cwd s = Some (root, s')" using head create root(2) s'(1) by simp
    moreover have "grows s s' (root # node_pages [])" using grows_trans [OF g2 s'(2)] by simp
    ultimately show ?thesis
      using root(2) root_kept [OF kept] field_cong(2) [OF root(1) kept] f2(2) path_parts_unfold [of rest] True
      by (intro exI [of _ root] exI [of _ s'] exI [of _ "[]"]) (simp add: root_drive_number_def root_first_def)
  next
    case False
    have parts: "path_parts rest = component rest # path_parts (rest_of rest)"
      using False by (simp add: path_parts_unfold [of rest])
    have "2 \<le> free_blocks s2" "length rest < 108" using free2 len by (auto simp: parts)
    from parse_part_found [OF grows_ok [OF g2] this(1) strg this(2) False, of 0] obtain buf q s3 where
      s3: "pparser_parse_path_part 0 (path + of_nat 3) s2 = Some (q, path + of_nat 3 + of_nat (skip rest), s3)"
        "grows s2 s3 [buf, q]" "part_part (mem s3) q = buf" "part_next (mem s3) q = 0" "cstr (mem s3) buf (component rest)"
      unfolding simp_thms if_False by blast
    define s4 where "s4 = put32 (root + 4) q s3"
    have s4: "s4 = s3\<lparr>mem := store32 (mem s3) (root + 4) q\<rparr>" by (simp add: s4_def put32_def)
    have g3: "grows s s3 [root, buf, q]" using grows_trans [OF g2 s3(2)] by simp
    then have al: "paging_is_aligned buf" "paging_is_aligned q" "q \<noteq> 0" "q \<noteq> root" "buf \<noteq> root" "q \<noteq> buf"
      by (auto simp: grows_def)
    have frame: "mem s4 a = mem s3 a" if "page_base a \<noteq> root" for a
      using field_frame(2) [OF root(1) that] by (simp add: s4)
    have g4: "grows s s4 (root # node_pages ([] @ [(q, buf, component rest)]))"
      unfolding s4 by (simp, rule grows_write [OF g3]) (use field_frame(2) [OF root(1)] in auto)
    have len': "length (component rest) < 4096"
      using len length_takeWhile_le [of "\<lambda>c. c \<noteq> 0x2F" rest] by linarith
    have "seg (mem s3) q ([] @ [(q, buf, component rest)]) 0" using s3(3-5) al(3) len' by simp
    then have seg4: "seg (mem s4) q ([] @ [(q, buf, component rest)]) 0"
      using al frame by (subst seg_cong [where m = "mem s3"]) (auto intro!: frame)
    have str4: "held_str s (path + of_nat 3 + of_nat (skip rest)) (rest_of rest)"
      unfolding rest_of_skip by (rule held_str_drop [OF str2 skip_le])
    have "length (rest_of rest) < 108" "2 * length (path_parts (rest_of rest)) < free_blocks s4"
      using len free grows_free [OF g4] by (simp_all add: rest_of_skip parts)
    from pparser_rest_run [OF g4 seg4 str4 this] obtain s' ms where
      s': "pparser_rest q (path + of_nat 3 + of_nat (skip rest)) s4 = Some s'"
        "grows s s' (root # node_pages ([(q, buf, component rest)] @ ms))"
        "seg (mem s') q ([(q, buf, component rest)] @ ms) 0" "node_strings ms = path_parts (rest_of rest)"
        "\<And>a. page_base a = root \<Longrightarrow> mem s' a = mem s4 a"
      by auto
    have "pparser_rest q (path + of_nat 3 + of_nat (skip rest)) s4 =
        (case pparser_parse_path_part q (path + of_nat 3 + of_nat (skip rest)) s4 of
           None \<Rightarrow> None | Some (part', path', s') \<Rightarrow> pparser_rest part' path' s')"
      using al(3) by (subst pparser_rest.simps) simp
    then have run: "pparser_parse path cwd s = Some (root, s')"
      using head create root(2) s3(1) al(3) s'(1) unfolding s4_def
      by (auto split: option.splits prod.splits)
    have "load32 (mem s4) root = atoic d"
    proof -
      have "load32 (mem s4) root = load32 (mem s3) root" using field_store(4) [OF root(1) root(1)] by (simp add: s4)
      moreover have "mem s3 a = mem s2 a" if "page_base a = root" for a
        using grows_held [OF s3(2) grows_page_held [OF g2, of a]] that by simp
      ultimately show ?thesis using root_kept by simp
    qed
    moreover have "load32 (mem s4) (root + 4) = q" using field_store(2) [OF root(1) root(1)] by (simp add: s4)
    ultimately have "root_drive_number (mem s') root = atoic d" "root_first (mem s') root = q"
      using field_cong [OF root(1) s'(5)] by (simp_all add: root_drive_number_def root_first_def)
    then show ?thesis using run root(2) s'(2-4) parts
      by (intro exI [of _ root] exI [of _ s'] exI [of _ "[(q, buf, component rest)] @ ms"]) simp
  qed
qed

section \<open>Releasing a path\<close>

lemma grows_release_filter:
  assumes "grows s s' ps" "p \<in> set ps"
  shows "grows s (kfree p s') (filter (\<lambda>q. q \<noteq> p) ps)"
proof -
  have "distinct ps" using assms(1) by (simp add: grows_def)
  then have "remove1 p ps = filter (\<lambda>q. q \<noteq> p) ps"
    by (simp add: distinct_remove1_removeAll removeAll_filter_not_eq) (metis (lifting))
  then show ?thesis using grows_release [OF assms] by simp
qed

lemma pparser_free_parts_run:
  assumes "grows s s' ps" "set (node_pages ns) \<subseteq> set ps" "distinct (node_pages ns)" "seg (mem s') p ns 0"
  shows "\<exists>s''. pparser_free_parts p s' = Some s''
    \<and> grows s s'' (filter (\<lambda>q. q \<notin> set (node_pages ns)) ps)"
  using assms
proof (induction ns arbitrary: s' p ps)
  case Nil
  then show ?case by (simp add: pparser_free_parts.simps [of 0])
next
  case (Cons x ns)
  obtain n str cs where x: "x = (n, str, cs)" by (cases x)
  have n: "p = n" "n \<noteq> 0" "part_part (mem s') n = str" "seg (mem s') (part_next (mem s') n) ns 0"
    using Cons.prems(4) by (simp_all add: x)
  let ?s = "kfree n (kfree str s')" and ?ps = "filter (\<lambda>q. q \<noteq> n) (filter (\<lambda>q. q \<noteq> str) ps)"
  have mem: "str \<in> set ps" "n \<in> set ps" "n \<noteq> str" using Cons.prems(2,3) by (auto simp: x)
  note g1 = grows_release_filter [OF Cons.prems(1) mem(1)]
  have n1: "n \<in> set (filter (\<lambda>q. q \<noteq> str) ps)" using mem by simp
  note g2 = grows_release_filter [OF g1 n1]
  have same: "mem ?s a = mem s' a" if "\<not> kheap_reserved a" for a
    using grows_kfree(3) [OF g1 n1 that] grows_kfree(3) [OF Cons.prems(1) mem(1) that] by simp
  have "seg (mem ?s) (part_next (mem s') n) ns 0"
  proof (subst seg_cong [where m = "mem s'"])
    fix a assume "page_base a \<in> set (node_pages ns)"
    then have "page_base a \<in> set ps" using Cons.prems(2) by (auto simp: x)
    then show "mem ?s a = mem s' a" by (intro same held_public [OF grows_page_held [OF Cons.prems(1)]])
  next
    show "\<forall>q \<in> set (node_pages ns). paging_is_aligned q"
      using Cons.prems(1,2) by (auto simp: x grows_def)
  qed (rule n(4))
  moreover have "set (node_pages ns) \<subseteq> set ?ps" "distinct (node_pages ns)"
    using Cons.prems(2,3) by (auto simp: x)
  ultimately obtain s'' where s'': "pparser_free_parts (part_next (mem s') n) ?s = Some s''"
    "grows s s'' (filter (\<lambda>q. q \<notin> set (node_pages ns)) ?ps)"
    using Cons.IH [OF g2] by blast
  have "filter (\<lambda>q. q \<notin> set (node_pages ns)) ?ps = filter (\<lambda>q. q \<notin> set (node_pages (x # ns))) ps"
    by (auto simp: x intro: filter_cong)
  moreover have "pparser_free_parts p s' = Some s''"
    using n(1-3) s''(1) by (subst pparser_free_parts.simps) (simp add: Let_def)
  ultimately show ?case using s''(2) by auto
qed

lemma pparser_free_run:
  assumes g: "grows s s' (root # node_pages ns)" and "seg (mem s') (root_first (mem s') root) ns 0"
  shows "\<exists>s''. pparser_free root s' = Some s'' \<and> grows s s'' []"
proof -
  have d: "distinct (root # node_pages ns)" using g by (simp add: grows_def)
  then obtain s1 where s1: "pparser_free_parts (root_first (mem s') root) s' = Some s1"
    "grows s s1 (filter (\<lambda>q. q \<notin> set (node_pages ns)) (root # node_pages ns))"
    using pparser_free_parts_run [OF g _ _ assms(2)] by auto
  have "filter (\<lambda>q. q \<notin> set (node_pages ns)) (root # node_pages ns) = [root]"
    using d by (simp add: filter_empty_conv)
  then have "grows s (kfree root s1) []" using grows_release [of s s1 "[root]" root] s1(2) by simp
  then show ?thesis using s1(1) by (simp add: pparser_free_def)
qed

section \<open>Properties\<close>

text \<open>C13. \<^verbatim>\<open>pparser_parse\<close> of a path \<open>d:/rest\<close> of at most 108 characters, given enough free blocks: it
  returns a root with the drive number of \<open>d\<close> and the list of the components of \<open>rest\<close> in order; the
  pages that became live are exactly those of this structure, and nothing a client holds changed.\<close>

theorem pparser_parse_correct:
  assumes "kheap_ok s" "held_str s path (d # 0x3A # 0x2F # rest)" "isdigit d" "length rest \<le> 105"
    "2 * length (path_parts rest) + 2 \<le> free_blocks s"
  shows "\<exists>root s' ns. pparser_parse path cwd s = Some (root, s') \<and> root \<noteq> 0
    \<and> grows s s' (root # node_pages ns) \<and> root_drive_number (mem s') root = atoic d
    \<and> seg (mem s') (root_first (mem s') root) ns 0 \<and> node_strings ns = path_parts rest"
  using assms by (rule pparser_parse_valid)

text \<open>A machine with the string \<^verbatim>\<open>0:/ab/c\<close> at \<open>0x500\<close>.\<close>

definition path_machine :: kstate where
  "path_machine = \<lparr>mem = (\<lambda>_. 0)(0x500 := 0x30, 0x501 := 0x3A, 0x502 := 0x2F, 0x503 := 0x61, 0x504 := 0x62,
     0x505 := 0x2F, 0x506 := 0x63), terminal_x = 0, terminal_y = 0, terminal_fg_color = 15,
     terminal_bg_color = 0, kernel_heap = kernel_heap_layout\<rparr>"

lemma path_machine_heap: "kheap_ok path_machine" "free_blocks path_machine = 25600" "kheap_live path_machine = {}"
proof -
  have "mem path_machine a = mem fresh_kernel a" if "kheap_reserved a" for a
    using that unfolding kheap_reserved_iff by (auto simp: path_machine_def fresh_kernel_def)
  note c = kheap_mem_cong [OF _ this]
  have k: "kernel_heap path_machine = kernel_heap fresh_kernel" by (simp add: path_machine_def fresh_kernel_def)
  have z: "kernel_heap fresh_kernel = kernel_heap_layout" "mem fresh_kernel = (\<lambda>_. 0)" by (simp_all add: fresh_kernel_def)
  show "kheap_ok path_machine" "free_blocks path_machine = 25600" "kheap_live path_machine = {}"
    using c [OF k] zero_heap [OF z] by simp_all
qed

lemma path_machine_str: "held_str path_machine 0x500 [0x30, 0x3A, 0x2F, 0x61, 0x62, 0x2F, 0x63]"
proof -
  have "held path_machine (0x500 + of_nat i)" if "i \<le> 7" for i
  proof -
    have "unat (0x500 + of_nat i :: u32) = 0x500 + i" using that by (simp add: unat_word_ariths unat_of_nat32)
    then show ?thesis using that by (simp add: held_def kheap_reserved_iff)
  qed
  moreover have "cstr (mem path_machine) 0x500 [0x30, 0x3A, 0x2F, 0x61, 0x62, 0x2F, 0x63]"
    by (simp add: path_machine_def)
  ultimately show ?thesis by (simp add: held_str_def)
qed

lemma path_machine_parts: "path_parts [0x61, 0x62, 0x2F, 0x63] = [[0x61, 0x62], [0x63]]"
  by (simp add: path_parts.simps)

lemma path_machine_side:
  "isdigit 0x30" "length [0x61, 0x62, 0x2F, 0x63 :: u8] \<le> 105"
  "2 * length (path_parts [0x61, 0x62, 0x2F, 0x63]) + 2 \<le> free_blocks path_machine"
  by (simp_all add: isdigit_def path_machine_parts path_machine_heap word_sless_alt)

theorem pparser_parse_correct_witness:
  "\<exists>root s' ns. pparser_parse 0x500 0 path_machine = Some (root, s') \<and> root_drive_number (mem s') root = 0
     \<and> seg (mem s') (root_first (mem s') root) ns 0 \<and> node_strings ns = [[0x61, 0x62], [0x63]]"
proof -
  obtain root s' ns where "pparser_parse 0x500 0 path_machine = Some (root, s')" "root_drive_number (mem s') root = atoic 0x30"
    "seg (mem s') (root_first (mem s') root) ns 0" "node_strings ns = [[0x61, 0x62], [0x63]]"
    using pparser_parse_correct [OF path_machine_heap(1) path_machine_str path_machine_side, of 0]
    unfolding path_machine_parts by (elim exE conjE) (rule that)
  then show ?thesis by (intro exI conjI) (assumption | simp add: atoic_def)+
qed

text \<open>C31. Parsing leaks nothing: \<^verbatim>\<open>pparser_free\<close> of what \<^verbatim>\<open>pparser_parse\<close> returned ends and gives
  back every page, so the live regions are those from before the call.\<close>

theorem pparser_parse_free:
  assumes "kheap_ok s" "held_str s path (d # 0x3A # 0x2F # rest)" "isdigit d" "length rest \<le> 105"
    "2 * length (path_parts rest) + 2 \<le> free_blocks s"
  shows "\<exists>root s' s''. pparser_parse path cwd s = Some (root, s') \<and> pparser_free root s' = Some s''
    \<and> kheap_ok s'' \<and> kheap_live s'' = kheap_live s \<and> (\<forall>a. held s a \<longrightarrow> mem s'' a = mem s a)"
proof -
  obtain root s' ns where p: "pparser_parse path cwd s = Some (root, s')" "grows s s' (root # node_pages ns)"
    "seg (mem s') (root_first (mem s') root) ns 0"
    using pparser_parse_valid [OF assms] by blast
  then show ?thesis using pparser_free_run [OF p(2,3)] by (auto simp: grows_def)
qed

theorem pparser_parse_free_witness:
  "\<exists>root s' s''. pparser_parse 0x500 0 path_machine = Some (root, s') \<and> pparser_free root s' = Some s''
     \<and> kheap_live s'' = {}"
  using pparser_parse_free [OF path_machine_heap(1) path_machine_str path_machine_side, of 0]
  unfolding path_machine_heap(3) by blast

text \<open>C33. A path is refused (the null pointer, and nothing changes) when it is longer than 108
  characters or does not start with a digit, a colon and a slash.\<close>

theorem pparser_parse_refused:
  assumes "cstr (mem s) path cs" "length cs < 4294967296"
    "108 < length cs \<or> \<not> (\<exists>d rest. cs = d # 0x3A # 0x2F # rest \<and> isdigit d)"
  shows "pparser_parse path cwd s = Some (0, s)"
proof -
  have n: "strlen (mem s) path = Some (of_nat (length cs))" "unat (of_nat (length cs) :: u32) = length cs"
    using strlen_cstr [OF assms(1)] unat_of_nat32 [OF assms(2)] by simp_all
  show ?thesis
  proof (cases "108 < length cs")
    case True
    then have "(108 :: u32) < of_nat (length cs)" using n(2) by (simp add: word_less_nat_alt)
    then show ?thesis using n(1) by (simp add: pparser_parse_def config_defs)
  next
    case False
    have "\<not> path_valid_format (mem s) path"
    proof
      assume v: "path_valid_format (mem s) path"
      have "unat (strnlen (mem s) path 108) = length cs"
        using strnlen_eq [of "mem s" path 108] str_upto_cstr [OF assms(1), of 108] False by simp
      then have "2 < length cs"
        using v False by (simp add: path_valid_format_def config_defs word_sless_alt sint_eq_if uint_nat Let_def)
      then obtain a b c rest where cs: "cs = a # b # c # rest" by (auto simp: Suc_le_length_iff less_eq_Suc_le numeral_eq_Suc)
      then have "mem s path = a" "mem s (path + 1) = b" "mem s (path + 2) = c"
        using assms(1) by (simp_all add: add.assoc)
      moreover have "isdigit (mem s path)" "mem s (path + 1) = 0x3A" "mem s (path + 2) = 0x2F"
        using v by (simp_all add: path_valid_format_def Let_def bytes_Suc numeral_2_eq_2 add.assoc)
      ultimately show False using assms(3) False cs by auto
    qed
    then show ?thesis
      using n by (simp add: pparser_parse_def get_drive_by_path_def config_defs status_defs Let_def word_sless_alt)
  qed
qed

theorem pparser_parse_refused_witness:
  "cstr (mem path_machine) 0x503 [0x61, 0x62, 0x2F, 0x63] \<and> pparser_parse 0x503 0 path_machine = Some (0, path_machine)"
proof -
  have c: "cstr (mem path_machine) 0x503 [0x61, 0x62, 0x2F, 0x63]" by (simp add: path_machine_def)
  then show ?thesis using pparser_parse_refused [OF c, of 0] by simp
qed

end
