(* ===== verification/Effects.thy ===== *)
theory Effects
  imports PathParser
begin

text \<open>
  Routines that may stop the machine or never return. A value of type \<open>('a, 's) run\<close> takes the state
  to \<open>None\<close> when the routine never returns (a loop that goes on for ever, a processor fault), to
  \<open>Some (Halted s)\<close> when it ends in \<^verbatim>\<open>kernel_panic\<close> with the screen in \<open>s\<close>, to \<open>Some (Resumed r s)\<close>
  when it leaves the kernel for the task whose registers are at \<open>r\<close>, and otherwise to its value and
  the state after it. \<open>andthen\<close> is the semicolon of the source.
\<close>

type_synonym ('a, 's) run = "'s \<Rightarrow> ('a, 's) outcome option"

definition ret :: "'a \<Rightarrow> ('a, 's) run" where
  "ret a s = Some (Ret a s)"

definition andthen :: "('a, 's) run \<Rightarrow> ('a \<Rightarrow> ('b, 's) run) \<Rightarrow> ('b, 's) run" where
  "andthen f g s =
     (case f s of
        None \<Rightarrow> None
      | Some (Ret a s') \<Rightarrow> g a s'
      | Some (Halted s') \<Rightarrow> Some (Halted s')
      | Some (Resumed r s') \<Rightarrow> Some (Resumed r s'))"

definition never :: "('a, 's) run" where
  "never s = None"

text \<open>A routine of the paging layer, which may panic, and \<^verbatim>\<open>task_return\<close>.\<close>

definition from_outcome :: "('s \<Rightarrow> ('a, 's) outcome) \<Rightarrow> ('a, 's) run" where
  "from_outcome f s = Some (f s)"

definition resume :: "u32 \<Rightarrow> ('a, 's) run" where
  "resume regs s = Some (Resumed regs s)"

definition panic :: "string \<Rightarrow> ('a, 'b console_scheme) run" where
  "panic msg s = Some (Halted (kernel_panic msg s))"

text \<open>Reading a part of the state, changing it, and routines that always return.\<close>

definition gets :: "('s \<Rightarrow> 'a) \<Rightarrow> ('a, 's) run" where
  "gets f s = Some (Ret (f s) s)"

definition modify :: "('s \<Rightarrow> 's) \<Rightarrow> (unit, 's) run" where
  "modify f s = Some (Ret () (f s))"

definition always :: "('s \<Rightarrow> 'a \<times> 's) \<Rightarrow> ('a, 's) run" where
  "always f s = (case f s of (a, s') \<Rightarrow> Some (Ret a s'))"

definition perhaps :: "('s \<Rightarrow> ('a \<times> 's) option) \<Rightarrow> ('a, 's) run" where
  "perhaps f s = (case f s of None \<Rightarrow> None | Some (a, s') \<Rightarrow> Some (Ret a s'))"

definition changes :: "('s \<Rightarrow> 's option) \<Rightarrow> (unit, 's) run" where
  "changes f s = map_option (Ret ()) (f s)"

definition read32 :: "u32 \<Rightarrow> (u32, 'b console_scheme) run" where
  "read32 a s = Some (Ret (load32 (mem s) a) s)"

definition write32 :: "u32 \<Rightarrow> u32 \<Rightarrow> (unit, 'b console_scheme) run" where
  "write32 a v s = Some (Ret () (put32 a v s))"

definition read8 :: "u32 \<Rightarrow> (u32, 'b console_scheme) run" where
  "read8 a s = Some (Ret (ucast (mem s a)) s)"

definition read16 :: "u32 \<Rightarrow> (u32, 'b console_scheme) run" where
  "read16 a s = Some (Ret (ucast (load16 (mem s) a)) s)"

definition write8 :: "u32 \<Rightarrow> u8 \<Rightarrow> (unit, 'b console_scheme) run" where
  "write8 a v s = Some (Ret () (s\<lparr>mem := (mem s)(a := v)\<rparr>))"

text \<open>An unsigned division by zero raises a processor exception; the routine does not go on.\<close>

definition udiv :: "u32 \<Rightarrow> u32 \<Rightarrow> (u32, 's) run" where
  "udiv a b = (if b = 0 then never else ret (a div b))"

definition umod :: "u32 \<Rightarrow> u32 \<Rightarrow> (u32, 's) run" where
  "umod a b = (if b = 0 then never else ret (a mod b))"

text \<open>How the sequencing computes; a proof about a routine rewrites with these.\<close>

named_theorems run_simps \<open>evaluation of routines\<close>

lemma andthen_ret [run_simps]: "f s = Some (Ret a s') \<Longrightarrow> andthen f g s = g a s'"
  by (simp add: andthen_def)

lemma andthen_none [run_simps]: "f s = None \<Longrightarrow> andthen f g s = None"
  by (simp add: andthen_def)

lemma andthen_halted [run_simps]: "f s = Some (Halted s') \<Longrightarrow> andthen f g s = Some (Halted s')"
  by (simp add: andthen_def)

lemma andthen_resumed [run_simps]: "f s = Some (Resumed r s') \<Longrightarrow> andthen f g s = Some (Resumed r s')"
  by (simp add: andthen_def)

lemmas basic_runs [run_simps] = ret_def never_def panic_def resume_def from_outcome_def gets_def modify_def read32_def write32_def read8_def read16_def write8_def

lemma andthen_basic [run_simps]:
  "andthen (ret a) g s = g a s" "andthen (gets f) g s = g (f s) s" "andthen (modify h) g s = g () (h s)"
  "andthen (read32 p) k t = k (load32 (mem t) p) t" "andthen (write32 p v) l t = l () (put32 p v t)"
  "andthen (read8 p) k t = k (ucast (mem t p)) t" "andthen (read16 p) k t = k (ucast (load16 (mem t) p)) t"
  "andthen (write8 p b) l t = l () (t\<lparr>mem := (mem t)(p := b)\<rparr>)"
  "andthen never g s = None" "andthen (panic msg) k t = Some (Halted (kernel_panic msg t))"
  by (simp_all add: andthen_def basic_runs)

lemma andthen_always [run_simps]: "andthen (always f) g s = g (fst (f s)) (snd (f s))"
  by (simp add: andthen_def always_def case_prod_unfold)

lemma andthen_assoc [run_simps]: "andthen (andthen f g) h s = andthen f (\<lambda>a. andthen (g a) h) s"
  by (simp add: andthen_def split: option.split outcome.split)

text \<open>Loops may be written with the sequencing.\<close>

lemma andthen_mono [partial_function_mono]:
  fixes B :: "('x \<Rightarrow> 'y option) \<Rightarrow> ('a, 's) run" and C :: "'a \<Rightarrow> ('x \<Rightarrow> 'y option) \<Rightarrow> ('b, 's) run"
  assumes "\<And>s. mono_option (\<lambda>f. B f s)" "\<And>y s. mono_option (\<lambda>f. C y f s)"
  shows "mono_option (\<lambda>f. andthen (B f) (\<lambda>y. C y f) s)"
proof (rule monotoneI)
  fix f g :: "'x \<Rightarrow> 'y option"
  assume fg: "fun_ord option_ord f g"
  have B: "option_ord (B f s) (B g s)" using assms(1) by (rule monotoneD [of _ _ _ f g]) (rule fg)
  have C: "option_ord (C y f t) (C y g t)" for y t using assms(2) by (rule monotoneD [of _ _ _ f g]) (rule fg)
  show "option_ord (andthen (B f) (\<lambda>y. C y f) s) (andthen (B g) (\<lambda>y. C y g) s)"
  proof (cases "B f s")
    case None
    then show ?thesis by (simp add: andthen_def flat_ord_def)
  next
    case (Some r)
    then have "B g s = Some r" using B by (simp add: flat_ord_def)
    then show ?thesis using Some C by (simp add: andthen_def flat_ord_def split: outcome.split)
  qed
qed

lemma if_run_mono [partial_function_mono]:
  "mono_option (\<lambda>f. X f s) \<Longrightarrow> mono_option (\<lambda>f. Y f s) \<Longrightarrow> mono_option (\<lambda>f. (if b then X f else Y f) s)"
  by (cases b) simp_all

lemma let_run_mono [partial_function_mono]:
  "mono_option (\<lambda>f. F f a s) \<Longrightarrow> mono_option (\<lambda>f. (Let a (F f)) s)"
  by simp

lemma if_run: "(if b then f else g) s = (if b then f s else g s)"
  by simp

end
