(* ===== verification/Gdt.thy ===== *)
theory Gdt
  imports TerminalSpec
begin

text \<open>
  Segment descriptors: \<^verbatim>\<open>src/kernel/gdt/gdt.c\<close> and the segment table of \<^verbatim>\<open>kernel.c\<close>. A descriptor is
  eight bytes of memory; \<open>decode_gdt_entry\<close> reads them the way the processor does, with the limit
  in bytes or, when the granularity bit is set, in pages. The theorems say that the encoder and
  this reading agree on every entry the encoder accepts.
\<close>

section \<open>Structured entries\<close>

record gdt_entry_st =
  base :: u32
  limit :: u32
  access_byte :: u8

text \<open>The 32-bit task state segment has 25 words.\<close>

definition sizeof_tss :: u32 where "sizeof_tss = 100"

definition gdt_structured :: "u32 \<Rightarrow> gdt_entry_st list" where
  "gdt_structured tss =
     [\<lparr>base = 0, limit = 0, access_byte = 0\<rparr>,
      \<lparr>base = 0, limit = 0xFFFFFFFF, access_byte = 0x9A\<rparr>,
      \<lparr>base = 0, limit = 0xFFFFFFFF, access_byte = 0x92\<rparr>,
      \<lparr>base = 0, limit = 0xFFFFFFFF, access_byte = 0xF8\<rparr>,
      \<lparr>base = 0, limit = 0xFFFFFFFF, access_byte = 0xF2\<rparr>,
      \<lparr>base = tss, limit = sizeof_tss, access_byte = 0xE9\<rparr>]"

section \<open>Encoding\<close>

definition encode_gdt_entry ::
  "u32 \<Rightarrow> gdt_entry_st \<Rightarrow> 'a console_scheme \<Rightarrow> (unit, 'a console_scheme) outcome" where
  "encode_gdt_entry target src s =
     (if limit src > 65536 \<and> limit src AND 0xFFF \<noteq> 0xFFF
      then Halted (kernel_panic (''Encode GDT: Invalid argument.'' @ [CHR 10]) s)
      else
        let big = limit src > 65536;
            m1 = (mem s)(target + 6 := if big then 0xC0 else 0x40);
            lim = (if big then drop_bit 12 (limit src) else limit src);
            m2 = m1(target := ucast (lim AND 0xFF));
            m3 = m2(target + 1 := ucast (drop_bit 8 lim AND 0xFF));
            m4 = m3(target + 6 := m3 (target + 6) OR ucast (drop_bit 16 lim AND 0x0F));
            m5 = m4(target + 2 := ucast (base src AND 0xFF));
            m6 = m5(target + 3 := ucast (drop_bit 8 (base src) AND 0xFF));
            m7 = m6(target + 4 := ucast (drop_bit 16 (base src) AND 0xFF));
            m8 = m7(target + 7 := ucast (drop_bit 24 (base src) AND 0xFF));
            m9 = m8(target + 5 := access_byte src)
        in Ret () (s\<lparr>mem := m9\<rparr>))"

text \<open>The loop of \<^verbatim>\<open>unpack_structured_gdt\<close> over the entries from index \<open>i\<close> on.\<close>

fun unpack_loop :: "gdt_entry_st list \<Rightarrow> u32 \<Rightarrow> u32 \<Rightarrow> 'a console_scheme \<Rightarrow> (unit, 'a console_scheme) outcome" where
  "unpack_loop [] gdt i s = Ret () s"
| "unpack_loop (e # es) gdt i s =
     (case encode_gdt_entry (gdt + 8 * i) e s of
        Ret _ s' \<Rightarrow> unpack_loop es gdt (i + 1) s'
      | stopped \<Rightarrow> stopped)"

definition unpack_structured_gdt ::
  "gdt_entry_st list \<Rightarrow> u32 \<Rightarrow> u32 \<Rightarrow> 'a console_scheme \<Rightarrow> (unit, 'a console_scheme) outcome" where
  "unpack_structured_gdt s_gdt gdt total_entries s = unpack_loop (take (unat total_entries) s_gdt) gdt 0 s"

section \<open>The processor's reading of a descriptor\<close>

definition decode_gdt_entry :: "memory \<Rightarrow> u32 \<Rightarrow> gdt_entry_st" where
  "decode_gdt_entry m t =
     (let raw = push_bit 16 (ucast (m (t + 6)) AND 0x0F) OR push_bit 8 (ucast (m (t + 1))) OR ucast (m t) :: u32
      in \<lparr>base = push_bit 24 (ucast (m (t + 7))) OR push_bit 16 (ucast (m (t + 4)))
                 OR push_bit 8 (ucast (m (t + 3))) OR ucast (m (t + 2)),
          limit = (if bit (m (t + 6)) 7 then push_bit 12 raw OR 0xFFF else raw),
          access_byte = m (t + 5)\<rparr>)"

definition gdt_encodable :: "gdt_entry_st \<Rightarrow> bool" where
  "gdt_encodable e \<longleftrightarrow> limit e \<le> 65536 \<or> limit e AND 0xFFF = 0xFFF"

lemma masks: "(0xFF :: u32) = mask 8" "(0x0F :: u32) = mask 4" "(0xFFF :: u32) = mask 12"
  by (simp_all add: mask_eq_exp_minus_1)

lemma byte_cases:
  fixes n :: nat
  obtains "n < 8" | k where "n = 8 + k" "k < 8" | k where "n = 16 + k" "k < 8" | k where "n = 24 + k"
proof -
  consider "n < 8" | "8 \<le> n \<and> n < 16" | "16 \<le> n \<and> n < 24" | "24 \<le> n" by linarith
  then show thesis using that(1) that(2) [of "n - 8"] that(3) [of "n - 16"] that(4) [of "n - 24"] by cases auto
qed

lemma base_by_bytes:
  "push_bit 24 (ucast (ucast (drop_bit 24 w AND 0xFF :: u32) :: u8)) OR push_bit 16 (ucast (ucast (drop_bit 16 w AND 0xFF :: u32) :: u8))
     OR push_bit 8 (ucast (ucast (drop_bit 8 w AND 0xFF :: u32) :: u8)) OR ucast (ucast (w AND 0xFF) :: u8) = (w :: u32)" (is "?l = w")
proof (rule bit_word_eqI)
  fix n assume "n < LENGTH(32)"
  then show "bit ?l n = bit w n"
    by (cases n rule: byte_cases) (auto simp: masks bit_simps)
qed

lemma limit_by_bytes:
  assumes "drop_bit 20 l = 0"
  shows "push_bit 16 (drop_bit 16 l AND 0x0F) OR push_bit 8 (ucast (ucast (drop_bit 8 l AND 0xFF :: u32) :: u8))
     OR ucast (ucast (l AND 0xFF) :: u8) = (l :: u32)" (is "?v = l")
proof (rule bit_word_eqI)
  fix n assume n: "n < LENGTH(32)"
  have high: "\<not> bit l j" if "20 \<le> j" for j
  proof -
    have "bit (drop_bit 20 l) (j - 20) = bit l j" using that by (simp add: bit_drop_bit_eq)
    then show ?thesis using assms(1) by simp
  qed
  have "k < 4" if "bit l (16 + k)" for k using high [of "16 + k"] that by (cases "k < 4") auto
  then show "bit ?v n = bit l n" using n high [of n]
    by (cases n rule: byte_cases) (auto simp: masks bit_simps)
qed

text \<open>The high nibble of byte 6 holds the flags, the low one the top of the limit.\<close>

lemma nibble_cast: "(ucast (ucast (x AND 0x0F :: u32) :: u8) :: u32) = x AND 0x0F"
  by (rule bit_word_eqI) (auto simp: masks bit_simps)

lemma flags_nibble:
  assumes "f = (0x40 :: u8) \<or> f = 0xC0"
  shows "ucast (f OR ucast (x AND 0x0F :: u32)) AND (0x0F :: u32) = x AND 0x0F"
    and "bit (f OR ucast (x AND 0x0F :: u32)) 7 \<longleftrightarrow> f = 0xC0"
proof -
  have "(ucast f :: u32) AND 0x0F = 0" using assms by auto
  moreover have "(ucast (f OR ucast (x AND 0x0F)) :: u32) = ucast f OR (x AND 0x0F)"
    using nibble_cast [of x] by (simp add: unsigned_or_eq)
  ultimately show "ucast (f OR ucast (x AND 0x0F :: u32)) AND (0x0F :: u32) = x AND 0x0F"
    by (simp add: bit.conj_disj_distrib2 and.assoc)
  have "\<not> bit (ucast (x AND 0x0F :: u32) :: u8) 7" by (simp add: masks bit_simps)
  then show "bit (f OR ucast (x AND 0x0F :: u32)) 7 \<longleftrightarrow> f = 0xC0" using assms by (auto simp: bit_or_iff)
qed

lemma pages_of_limit:
  assumes "l AND 0xFFF = 0xFFF"
  shows "push_bit 12 (drop_bit 12 l) OR 0xFFF = (l :: u32)"
proof (rule bit_word_eqI)
  fix n assume n: "n < LENGTH(32)"
  have "bit l n" if "n < 12"
  proof -
    have "bit (l AND mask 12) n" unfolding masks [symmetric] assms using that n by (simp add: masks bit_simps)
    then show ?thesis by (simp add: bit_simps)
  qed
  then show "bit (push_bit 12 (drop_bit 12 l) OR 0xFFF) n = bit l n" using n by (auto simp: masks bit_simps)
qed

lemma drop_bit_20_small:
  assumes "(l :: u32) \<le> 65536"
  shows "drop_bit 20 l = 0"
  using assms by (simp add: drop_bit_eq_div word_less_nat_alt word_le_nat_alt unat_div div_eq_0_iff flip: unat_eq_0)

lemma drop_bit_20_pages: "drop_bit 20 (drop_bit 12 (l :: u32)) = 0"
  by (rule bit_word_eqI) (auto simp: bit_simps dest: bit_imp_le_length)

section \<open>Round trip\<close>

lemma encode_gdt_entry_decodes:
  assumes "gdt_encodable e"
  obtains m where "encode_gdt_entry t e s = Ret () (s\<lparr>mem := m\<rparr>)" "decode_gdt_entry m t = e"
    "\<And>a. \<not> in_region t 8 a \<Longrightarrow> m a = mem s a"
proof -
  let ?big = "limit e > 65536" and ?f = "if limit e > 65536 then 0xC0 else 0x40 :: u8"
  let ?l = "if limit e > 65536 then drop_bit 12 (limit e) else limit e"
  define m where "m = (mem s)(t + 6 := ?f OR ucast (drop_bit 16 ?l AND 0x0F), t := ucast (?l AND 0xFF),
    t + 1 := ucast (drop_bit 8 ?l AND 0xFF), t + 2 := ucast (base e AND 0xFF),
    t + 3 := ucast (drop_bit 8 (base e) AND 0xFF), t + 4 := ucast (drop_bit 16 (base e) AND 0xFF),
    t + 7 := ucast (drop_bit 24 (base e) AND 0xFF), t + 5 := access_byte e)"
  have enc: "encode_gdt_entry t e s = Ret () (s\<lparr>mem := m\<rparr>)"
    using assms by (auto simp: encode_gdt_entry_def gdt_encodable_def Let_def m_def fun_upd_twist)
  have f: "?f = 0x40 \<or> ?f = 0xC0" by simp
  note fl = flags_nibble [OF f, of "drop_bit 16 ?l"]
  have raw: "push_bit 16 (ucast (m (t + 6)) AND 0x0F) OR push_bit 8 (ucast (m (t + 1))) OR ucast (m t) = ?l"
    unfolding m_def using fl(1) limit_by_bytes [of ?l] drop_bit_20_small [of "limit e"] drop_bit_20_pages [of "limit e"]
    by simp
  have bs: "push_bit 24 (ucast (m (t + 7))) OR push_bit 16 (ucast (m (t + 4))) OR push_bit 8 (ucast (m (t + 3)))
      OR ucast (m (t + 2)) = base e"
    unfolding m_def using base_by_bytes [of "base e"] by simp
  have g: "bit (m (t + 6)) 7 \<longleftrightarrow> ?big" unfolding m_def using fl(2) by simp
  have lim: "(if bit (m (t + 6)) 7 then push_bit 12 ?l OR 0xFFF else ?l) = limit e"
    unfolding g using assms pages_of_limit [of "limit e"] by (auto simp: gdt_encodable_def)
  have dec: "decode_gdt_entry m t = e"
    unfolding decode_gdt_entry_def Let_def raw bs lim by (simp add: m_def)
  have "m a = mem s a" if "\<not> in_region t 8 a" for a
    using that unfolding m_def in_region_def by auto
  then show thesis using that enc dec by blast
qed


text \<open>Entries at different indices of the table do not overlap.\<close>

lemma entries_apart:
  assumes "i < 536870912" "j < 536870912" "i \<noteq> j" "k < 8"
  shows "\<not> in_region (gdt + 8 * of_nat i) 8 (gdt + 8 * of_nat j + of_nat k)"
proof
  assume "in_region (gdt + 8 * of_nat i) 8 (gdt + 8 * of_nat j + of_nat k)"
  then have "(of_nat (8 * j + k) - of_nat (8 * i) :: u32) < 8" by (simp add: in_region_def algebra_simps)
  then have less: "unat (of_nat (8 * j + k) - of_nat (8 * i) :: u32) < 8" by (simp add: word_less_nat_alt)
  have "unat (of_nat (8 * j + k) :: u32) = 8 * j + k" "unat (of_nat (8 * i) :: u32) = 8 * i"
    using assms by (auto intro: unat_of_nat32 simp del: of_nat_add of_nat_mult)
  then have "unat (of_nat (8 * j + k) - of_nat (8 * i) :: u32) =
      (if 8 * i \<le> 8 * j + k then 8 * j + k - 8 * i else 8 * j + k + 4294967296 - 8 * i)"
    by (simp add: unat_sub_if' del: of_nat_add of_nat_mult)
  then show False using less assms by (auto split: if_splits)
qed

lemma decode_gdt_cong:
  assumes "\<And>k. k < 8 \<Longrightarrow> m' (t + of_nat k) = m (t + of_nat k)"
  shows "decode_gdt_entry m' t = decode_gdt_entry m t"
  using assms [of 0] assms [of 1] assms [of 2] assms [of 3] assms [of 4] assms [of 5] assms [of 6] assms [of 7]
  by (simp add: decode_gdt_entry_def)

text \<open>The loop writes the entries before the first one the encoder does not accept, and stops there.\<close>

abbreviation accepted_entries :: "gdt_entry_st list \<Rightarrow> nat" where
  "accepted_entries es \<equiv> length (takeWhile gdt_encodable es)"

lemma encode_gdt_entry_panics:
  "\<not> gdt_encodable e \<Longrightarrow> encode_gdt_entry t e s = Halted (kernel_panic (''Encode GDT: Invalid argument.'' @ [CHR 10]) s)"
  by (simp add: encode_gdt_entry_def gdt_encodable_def not_le)

lemma unpack_loop_decodes:
  assumes "n + length es < 536870912"
  shows "\<exists>m. unpack_loop es gdt (of_nat n) s = (if list_all gdt_encodable es then Ret () (s\<lparr>mem := m\<rparr>)
        else Halted (kernel_panic (''Encode GDT: Invalid argument.'' @ [CHR 10]) (s\<lparr>mem := m\<rparr>)))
    \<and> (\<forall>i < accepted_entries es. decode_gdt_entry m (gdt + 8 * of_nat (n + i)) = es ! i)
    \<and> (\<forall>a. (\<forall>i < accepted_entries es. \<not> in_region (gdt + 8 * of_nat (n + i)) 8 a) \<longrightarrow> m a = mem s a)"
  using assms
proof (induction es arbitrary: n s)
  case Nil
  have "s\<lparr>mem := mem s\<rparr> = s" by simp
  then show ?case by (intro exI [of _ "mem s"]) simp
next
  case (Cons e es)
  show ?case
  proof (cases "gdt_encodable e")
    case False
    have "s\<lparr>mem := mem s\<rparr> = s" by simp
    then show ?thesis using False by (intro exI [of _ "mem s"]) (simp add: encode_gdt_entry_panics)
  next
    case True
    obtain m1 where m1: "encode_gdt_entry (gdt + 8 * of_nat n) e s = Ret () (s\<lparr>mem := m1\<rparr>)"
      "decode_gdt_entry m1 (gdt + 8 * of_nat n) = e"
      "\<And>a. \<not> in_region (gdt + 8 * of_nat n) 8 a \<Longrightarrow> m1 a = mem s a"
      using encode_gdt_entry_decodes [OF True, of "gdt + 8 * of_nat n" s] by metis
    have k: "accepted_entries es \<le> length es" by (rule length_takeWhile_le)
    have len: "Suc n + length es < 536870912" using Cons.prems by simp
    have upd: "\<And>m. s\<lparr>mem := m1, mem := m\<rparr> = s\<lparr>mem := m\<rparr>" "mem (s\<lparr>mem := m1\<rparr>) = m1" by simp_all
    from Cons.IH [OF len, of "s\<lparr>mem := m1\<rparr>", unfolded upd] obtain m where m:
      "unpack_loop es gdt (of_nat (Suc n)) (s\<lparr>mem := m1\<rparr>) = (if list_all gdt_encodable es then Ret () (s\<lparr>mem := m\<rparr>)
        else Halted (kernel_panic (''Encode GDT: Invalid argument.'' @ [CHR 10]) (s\<lparr>mem := m\<rparr>)))"
      "\<forall>i < accepted_entries es. decode_gdt_entry m (gdt + 8 * of_nat (Suc n + i)) = es ! i"
      "\<And>a. \<forall>i < accepted_entries es. \<not> in_region (gdt + 8 * of_nat (Suc n + i)) 8 a \<Longrightarrow> m a = m1 a"
      by blast
    have "decode_gdt_entry m (gdt + 8 * of_nat n) = decode_gdt_entry m1 (gdt + 8 * of_nat n)"
    proof (rule decode_gdt_cong, rule m(3), intro allI impI)
      fix j i assume "j < (8 :: nat)" "i < accepted_entries es"
      then show "\<not> in_region (gdt + 8 * of_nat (Suc n + i)) 8 (gdt + 8 * of_nat n + of_nat j)"
        using Cons.prems k by (intro entries_apart) auto
    qed
    then have "decode_gdt_entry m (gdt + 8 * of_nat (n + i)) = (e # es) ! i" if "i < Suc (accepted_entries es)" for i
      using m(2) m1(2) that by (cases i) auto
    moreover have "m a = mem s a" if out: "\<forall>i < Suc (accepted_entries es). \<not> in_region (gdt + 8 * of_nat (n + i)) 8 a" for a
    proof -
      have "\<not> in_region (gdt + 8 * of_nat (Suc n + i)) 8 a" if "i < accepted_entries es" for i
        using out [rule_format, of "Suc i"] that by simp
      then have "m a = m1 a" using m(3) by blast
      moreover have "\<not> in_region (gdt + 8 * of_nat n) 8 a" using out [rule_format, of 0] by simp
      ultimately show ?thesis using m1(3) by simp
    qed
    moreover have "unpack_loop (e # es) gdt (of_nat n) s = unpack_loop es gdt (of_nat (Suc n)) (s\<lparr>mem := m1\<rparr>)"
      using m1(1) by (simp add: add.commute)
    ultimately show ?thesis using True m(1) by (intro exI [of _ m]) simp
  qed
qed

section \<open>Properties\<close>

text \<open>C34. Descriptor round trip, for every table of fewer than 2 ^ 29 entries: \<^verbatim>\<open>unpack_structured_gdt\<close> succeeds exactly when each structured
  entry has a limit the encoder accepts (at most 65536 bytes, or whole pages); an entry with any other limit,
  wherever it stands in the table, stops the machine with the panic message. The processor reads each
  descriptor written, all of them or those before the first refused one, back as the entry it was made from: base, limit
  and access byte. The loop writes no other byte of memory; the panic message then goes to the screen.\<close>

theorem gdt_unpack_decodes:
  assumes "length es = unat n" "unat n < 536870912"
  shows "\<exists>m. unpack_structured_gdt es gdt n s = (if list_all gdt_encodable es then Ret () (s\<lparr>mem := m\<rparr>)
        else Halted (kernel_panic (''Encode GDT: Invalid argument.'' @ [CHR 10]) (s\<lparr>mem := m\<rparr>)))
    \<and> (\<forall>i < length (takeWhile gdt_encodable es). decode_gdt_entry m (gdt + 8 * of_nat i) = es ! i)
    \<and> (\<forall>a. (\<forall>i < length (takeWhile gdt_encodable es). \<not> in_region (gdt + 8 * of_nat i) 8 a) \<longrightarrow> m a = mem s a)"
  using unpack_loop_decodes [of 0 es gdt s] assms by (simp add: unpack_structured_gdt_def)

theorem gdt_unpack_decodes_witness:
  "\<exists>m. unpack_structured_gdt (gdt_structured 0x5000) 0x1000 6 blank_console = Ret () (blank_console\<lparr>mem := m\<rparr>)
    \<and> (\<forall>i < 6. decode_gdt_entry m (0x1000 + 8 * of_nat i) = gdt_structured 0x5000 ! i)"
proof -
  have "list_all gdt_encodable (gdt_structured 0x5000)" "length (gdt_structured 0x5000) = unat (6 :: u32)"
    by (simp_all add: gdt_structured_def gdt_encodable_def sizeof_tss_def)
  moreover from this have all: "takeWhile gdt_encodable (gdt_structured 0x5000) = gdt_structured 0x5000"
    by (simp add: takeWhile_eq_all_conv list_all_iff)
  ultimately show ?thesis using gdt_unpack_decodes [of "gdt_structured 0x5000" 6 "0x1000" blank_console] unfolding all by auto
qed

end
