(* ===== verification/Disk.thy ===== *)
theory Disk
  imports Effects Gdt
begin

text \<open>
  The disk driver \<^verbatim>\<open>src/kernel/disk/disk.c\<close> and the byte stream over it, \<^verbatim>\<open>src/kernel/disk/streamer.c\<close>.

  The drive is not code of the kernel. What the driver sees of it are two ports, given as functions of the
  command registers the driver has written: the status byte at the \<open>k\<close>-th poll for the \<open>i\<close>-th sector of the
  command, and the \<open>n\<close>-th word the data port delivers. \<open>drive_holds\<close> states the documented behaviour
  of a drive whose contents are an image. The global \<^verbatim>\<open>struct disk disk\<close> lies at \<open>disk_at\<close>, where the
  linker put it, and the local arrays of the routines at \<open>kstack\<close>.
\<close>

section \<open>State\<close>

text \<open>The command registers of the primary bus, ports 0x1F2 to 0x1F7.\<close>

record ata_regs =
  ata_count :: u8
  ata_lba_low :: u8
  ata_lba_mid :: u8
  ata_lba_high :: u8
  ata_drive :: u8
  ata_command :: u8

record dstate = vstate +
  disk_at :: u32
  kstack :: u32
  ata_status :: "ata_regs \<Rightarrow> nat \<Rightarrow> nat \<Rightarrow> u8"
  ata_data :: "ata_regs \<Rightarrow> nat \<Rightarrow> u16"

definition DISK_FS_SIZE :: u32 where [config_defs]: "DISK_FS_SIZE = 0x200"
definition DISK_SECTOR_SIZE :: u32 where [config_defs]: "DISK_SECTOR_SIZE = 0x200"
definition DISK_TYPE_REAL :: u32 where [config_defs]: "DISK_TYPE_REAL = 0"

text \<open>The fields of \<^verbatim>\<open>struct disk\<close> (20 bytes) and of \<^verbatim>\<open>struct disk_stream\<close> (8 bytes).\<close>

definition disk_sector_size :: "memory \<Rightarrow> u32 \<Rightarrow> u32" where "disk_sector_size m d = load32 m (d + 4)"
definition disk_id :: "memory \<Rightarrow> u32 \<Rightarrow> u32" where "disk_id m d = load32 m (d + 8)"
definition disk_filesystem :: "memory \<Rightarrow> u32 \<Rightarrow> u32" where "disk_filesystem m d = load32 m (d + 12)"
definition disk_fs_private :: "memory \<Rightarrow> u32 \<Rightarrow> u32" where "disk_fs_private m d = load32 m (d + 16)"

definition stream_pos :: "memory \<Rightarrow> u32 \<Rightarrow> u32" where "stream_pos m p = load32 m p"
definition stream_disk :: "memory \<Rightarrow> u32 \<Rightarrow> u32" where "stream_disk m p = load32 m (p + 4)"

section \<open>Reading sectors\<close>

definition ata_read_command :: "u32 \<Rightarrow> u32 \<Rightarrow> ata_regs" where
  "ata_read_command lba tot =
     \<lparr>ata_count = ucast tot, ata_lba_low = ucast (lba AND 0xFF), ata_lba_mid = ucast (signed_drop_bit 8 lba),
      ata_lba_high = ucast (signed_drop_bit 16 lba), ata_drive = ucast (signed_drop_bit 24 lba OR 0xE0),
      ata_command = 0x20\<rparr>"

text \<open>The poll of the status port until the drive has data.\<close>

partial_function (option) disk_wait :: "(nat \<Rightarrow> u8) \<Rightarrow> nat \<Rightarrow> nat option" where
  "disk_wait status k = (if status k AND 0x08 = 0 then disk_wait status (Suc k) else Some k)"

definition disk_copy_sector :: "(nat \<Rightarrow> u16) \<Rightarrow> u32 \<Rightarrow> memory \<Rightarrow> memory" where
  "disk_copy_sector w ptr m = fold (\<lambda>j m. store16 m (ptr + 2 * of_nat j) (w j)) [0..<256] m"

partial_function (option) disk_read_loop ::
  "ata_regs \<Rightarrow> u32 \<Rightarrow> u32 \<Rightarrow> u32 \<Rightarrow> 'a dstate_scheme \<Rightarrow> 'a dstate_scheme option" where
  "disk_read_loop regs i tot ptr s =
     (if i < tot then
        (case disk_wait (ata_status s regs (unat i)) 0 of
           None \<Rightarrow> None
         | Some k \<Rightarrow> disk_read_loop regs (i + 1) tot (ptr + 512)
             (s\<lparr>mem := disk_copy_sector (\<lambda>j. ata_data s regs (256 * unat i + j)) ptr (mem s)\<rparr>))
      else Some s)"

definition disk_read_sector :: "u32 \<Rightarrow> u32 \<Rightarrow> u32 \<Rightarrow> (u32, 'a dstate_scheme) run" where
  "disk_read_sector lba tot buffer =
     andthen (changes (disk_read_loop (ata_read_command lba tot) 0 tot buffer)) (\<lambda>_. ret 0)"

definition disk_get :: "u32 \<Rightarrow> 'a dstate_scheme \<Rightarrow> u32" where
  "disk_get index s = (if index \<noteq> 0 then 0 else disk_at s)"

definition disk_read_block :: "u32 \<Rightarrow> u32 \<Rightarrow> u32 \<Rightarrow> u32 \<Rightarrow> (u32, 'a dstate_scheme) run" where
  "disk_read_block idisk lba tot buffer s =
     (if idisk \<noteq> disk_at s then ret (- EIO) s else disk_read_sector lba tot buffer s)"

section \<open>Streams\<close>

definition diskstreamer_new :: "u32 \<Rightarrow> 'a dstate_scheme \<Rightarrow> u32 \<times> 'a dstate_scheme" where
  "diskstreamer_new d_id s =
     (let disk = disk_get d_id s
      in if disk = 0 then (0, s)
         else let (streamer, s1) = kzalloc 8 s
              in (streamer, put32 (streamer + 4) disk (put32 streamer 0 s1)))"

definition diskstreamer_seek :: "u32 \<Rightarrow> u32 \<Rightarrow> 'a dstate_scheme \<Rightarrow> u32 \<times> 'a dstate_scheme" where
  "diskstreamer_seek streamer pos s = (0, put32 streamer pos s)"

text \<open>The local array \<^verbatim>\<open>buf\<close> of \<^verbatim>\<open>diskstreamer_read\<close> and the copy out of it.\<close>

definition sector_buf :: "'a dstate_scheme \<Rightarrow> u32" where "sector_buf s = kstack s"

definition copy_byte :: "u32 \<Rightarrow> u32 \<Rightarrow> nat \<Rightarrow> memory \<Rightarrow> memory" where
  "copy_byte out src i m = m(out + of_nat i := m (src + of_nat i))"

definition stream_copy :: "u32 \<Rightarrow> u32 \<Rightarrow> u32 \<Rightarrow> memory \<Rightarrow> memory" where
  "stream_copy out src count m =
     fold (copy_byte out src) [0..<(if 0 <s count then unat count else 0)] m"

definition stream_chunk :: "u32 \<Rightarrow> u32 \<Rightarrow> u32" where
  "stream_chunk offset tot =
     (if DISK_SECTOR_SIZE \<le> offset + tot then tot - ((offset + tot) - DISK_SECTOR_SIZE) else tot)"

partial_function (option) diskstreamer_loop :: "u32 \<Rightarrow> u32 \<Rightarrow> u32 \<Rightarrow> u32 \<Rightarrow> (u32, 'a dstate_scheme) run" where
  "diskstreamer_loop streamer out tot res s =
     (if tot = 0 then ret res s
      else
        let sector_no = stream_pos (mem s) streamer div DISK_SECTOR_SIZE;
            offset = stream_pos (mem s) streamer mod DISK_SECTOR_SIZE;
            total_to_read = stream_chunk offset tot
        in andthen (disk_read_block (stream_disk (mem s) streamer) sector_no 1 (sector_buf s))
             (\<lambda>res s1. if res <s 0 then ret res s1
                else let s2 = s1\<lparr>mem := stream_copy out (sector_buf s1 + offset) total_to_read (mem s1)\<rparr>;
                         s3 = put32 streamer (stream_pos (mem s2) streamer + total_to_read) s2
                     in diskstreamer_loop streamer (out + total_to_read) (tot - total_to_read) res s3) s)"

definition diskstreamer_read :: "u32 \<Rightarrow> u32 \<Rightarrow> u32 \<Rightarrow> (u32, 'a dstate_scheme) run" where
  "diskstreamer_read streamer out tot = diskstreamer_loop streamer out tot 0"

definition diskstreamer_close :: "u32 \<Rightarrow> 'a dstate_scheme \<Rightarrow> 'a dstate_scheme" where
  "diskstreamer_close stream s = kfree stream s"

section \<open>What a drive delivers\<close>

text \<open>
  The drive holds an image: asked for one sector below the 28-bit limit it gets ready after some polls
  and delivers the 512 bytes of that sector, low byte of each word first. Streams address bytes with
  32 bits, so they reach the first 8388608 sectors.
\<close>

definition drive_holds :: "'a dstate_scheme \<Rightarrow> (nat \<Rightarrow> u8) \<Rightarrow> bool" where
  "drive_holds s img \<longleftrightarrow> (\<forall>lba < 8388608.
     (\<exists>k. ata_status s (ata_read_command (of_nat lba) 1) 0 k AND 0x08 \<noteq> 0)
     \<and> (\<forall>j < 256. ata_data s (ata_read_command (of_nat lba) 1) j
          = word_cat (img (512 * lba + 2 * j + 1)) (img (512 * lba + 2 * j))))"

lemma disk_wait_from: "status (n + d) AND 0x08 \<noteq> 0 \<Longrightarrow> \<exists>k. disk_wait status n = Some k"
proof (induction d arbitrary: n)
  case 0
  then show ?case by (simp add: disk_wait.simps)
next
  case (Suc d)
  then have "\<exists>k. disk_wait status (Suc n) = Some k" by simp
  then show ?case by (subst disk_wait.simps) auto
qed

lemma disk_wait_returns: "status d AND 0x08 \<noteq> 0 \<Longrightarrow> \<exists>k. disk_wait status 0 = Some k"
  using disk_wait_from [of status 0 d] by simp

lemma store16_put_bytes: "store16 m a w = put_bytes m a [ucast w, ucast (drop_bit 8 w)]"
proof
  fix x
  consider "x = a" | "x = a + 1" | "x \<noteq> a" "x \<noteq> a + 1" by blast
  then show "store16 m a w x = put_bytes m a [ucast w, ucast (drop_bit 8 w)] x"
  proof cases
    case 3
    have "unat (x - a) \<noteq> 0" using 3(1) by (simp add: unat_eq_zero)
    moreover have "unat (x - a) \<noteq> 1"
      using 3(2) addr_eq_offset [of 1 x a] by simp
    ultimately have "\<not> unat (x - a) < 2" by linarith
    then show ?thesis using 3 by (simp add: store16_def put_bytes_def Let_def)
  qed (simp_all add: store16_def put_bytes_def Let_def)
qed

lemma disk_copy_put_bytes:
  "n \<le> 256 \<Longrightarrow> fold (\<lambda>j m. store16 m (ptr + 2 * of_nat j) (w j)) [0..<n] m
     = put_bytes m ptr (concat (map (\<lambda>j. [ucast (w j), ucast (drop_bit 8 (w j))]) [0..<n]))"
proof (induction n)
  case (Suc n)
  have "length (concat (map (\<lambda>j. [ucast (w j) :: u8, ucast (drop_bit 8 (w j))]) [0..<n])) = 2 * n" for n
    by (induction n) simp_all
  then show ?case using Suc put_bytes_append [of "concat (map (\<lambda>j. [ucast (w j), ucast (drop_bit 8 (w j))]) [0..<n])"
      "[ucast (w n), ucast (drop_bit 8 (w n))]" m ptr] by (simp add: store16_put_bytes)
qed simp

lemma word_cat_bytes: "ucast (word_cat (h :: u8) (l :: u8) :: u16) = l" "ucast (drop_bit 8 (word_cat (h :: u8) (l :: u8) :: u16)) = h"
  by (rule bit_word_eqI, simp add: bit_simps)+

definition sector_bytes :: "(nat \<Rightarrow> u8) \<Rightarrow> nat \<Rightarrow> u8 list" where
  "sector_bytes img lba = map (\<lambda>i. img (512 * lba + i)) [0..<512]"

lemma pairs_upt: "concat (map (\<lambda>j. [f (2 * j), f (2 * j + 1)]) [0..<n]) = map f [0..<2 * n]"
  by (induction n) simp_all

lemma disk_read_block_sector:
  assumes "drive_holds s img" "lba < 8388608"
  shows "disk_read_block (disk_at s) (of_nat lba) 1 buf s
    = Some (Ret 0 (s\<lparr>mem := put_bytes (mem s) buf (sector_bytes img lba)\<rparr>))"
proof -
  let ?r = "ata_read_command (of_nat lba) 1"
  obtain k where "disk_wait (ata_status s ?r 0) 0 = Some k"
    using assms disk_wait_returns [of "ata_status s ?r 0"] unfolding drive_holds_def by blast
  moreover have "disk_copy_sector (ata_data s ?r) buf (mem s) = put_bytes (mem s) buf (sector_bytes img lba)"
  proof -
    have "map (\<lambda>j. [ucast (ata_data s ?r j) :: u8, ucast (drop_bit 8 (ata_data s ?r j))]) [0..<256]
        = map (\<lambda>j. [img (512 * lba + 2 * j), img (512 * lba + (2 * j + 1))]) [0..<256]"
      using assms unfolding drive_holds_def by (intro map_cong) (auto simp: word_cat_bytes)
    then show ?thesis
      using pairs_upt [of "\<lambda>i. img (512 * lba + i)" 256] unfolding disk_copy_sector_def sector_bytes_def
      by (simp only: disk_copy_put_bytes order_refl) simp
  qed
  ultimately have "disk_read_loop ?r 0 1 buf s = Some (s\<lparr>mem := put_bytes (mem s) buf (sector_bytes img lba)\<rparr>)"
    by (subst disk_read_loop.simps, subst disk_read_loop.simps) simp
  then show ?thesis by (simp add: disk_read_block_def disk_read_sector_def changes_def run_simps)
qed

section \<open>Reading a stream\<close>

lemma copy_put_bytes:
  assumes "n < 4294967296" "\<And>i j. i < n \<Longrightarrow> j < n \<Longrightarrow> src + of_nat i \<noteq> out + of_nat j"
  shows "fold (copy_byte out src) [0..<n] m = put_bytes m out (bytes m src n)"
  using assms
proof (induction n)
  case (Suc n)
  let ?m = "put_bytes m out (bytes m src n)"
  have "\<not> unat (src + of_nat n - out) < n"
  proof
    assume "unat (src + of_nat n - out) < n"
    moreover have "src + of_nat n = out + of_nat (unat (src + of_nat n - out))" by simp
    ultimately show False using Suc.prems(2) [of n "unat (src + of_nat n - out)"] by auto
  qed
  then have "?m (src + of_nat n) = m (src + of_nat n)" by (intro put_bytes_outside) simp
  then have "copy_byte out src n ?m = put_bytes ?m (out + of_nat n) [m (src + of_nat n)]"
    by (auto simp: copy_byte_def put_bytes_def [of _ _ "[_]"] Let_def unat_eq_zero)
  moreover have "fold (copy_byte out src) [0..<n] m = ?m" using Suc by simp
  moreover have "bytes m src (Suc n) = bytes m src n @ [m (src + of_nat n)]" by (simp add: bytes_def)
  ultimately show ?case
    using put_bytes_append [of "bytes m src n" "[m (src + of_nat n)]" m out] Suc.prems(1) by simp
qed simp

lemma stream_chunk_eq:
  assumes "unat off < 512" "unat tot < 2147483648"
  shows "unat (stream_chunk off tot) = min (unat tot) (512 - unat off)"
proof -
  have sum: "unat (off + tot) = unat off + unat tot" using assms by (simp add: unat_word_ariths)
  show ?thesis
  proof (cases "DISK_SECTOR_SIZE \<le> off + tot")
    case True
    then have le: "512 \<le> unat off + unat tot" using sum by (simp add: DISK_SECTOR_SIZE_def word_le_nat_alt)
    have "stream_chunk off tot = 512 - off" using True by (simp add: stream_chunk_def DISK_SECTOR_SIZE_def)
    moreover have "unat (512 - off) = 512 - unat off" using assms(1) by (simp add: unat_sub word_le_nat_alt)
    ultimately show ?thesis using le by simp
  next
    case False
    then have "unat off + unat tot < 512" using sum by (simp add: DISK_SECTOR_SIZE_def word_le_nat_alt)
    then show ?thesis using False by (simp add: stream_chunk_def)
  qed
qed

text \<open>Two regions with no address in common.\<close>

definition apart :: "u32 \<Rightarrow> u32 \<Rightarrow> u32 \<Rightarrow> u32 \<Rightarrow> bool" where
  "apart p n q k \<longleftrightarrow> (\<forall>i < unat n. \<forall>j < unat k. p + of_nat i \<noteq> q + of_nat j)"

lemma apart_not_in: "apart p n q k \<Longrightarrow> i < unat n \<Longrightarrow> \<not> in_region q k (p + of_nat i)"
  unfolding apart_def in_region_iff by blast

lemma apart_sym: "apart p n q k \<Longrightarrow> apart q k p n"
  unfolding apart_def by metis

lemma apart_tail:
  assumes "apart p n q k" "c \<le> n"
  shows "apart (p + c) (n - c) q k"
  unfolding apart_def
proof (intro allI impI)
  fix i j assume ij: "i < unat (n - c)" "j < unat k"
  have "unat c + i < unat n" using ij(1) assms(2) by (simp add: unat_sub)
  then have "p + of_nat (unat c + i) \<noteq> q + of_nat j" using assms(1) ij(2) unfolding apart_def by blast
  then show "p + c + of_nat i \<noteq> q + of_nat j" by (simp add: add.assoc)
qed

text \<open>The stream structure at \<open>st\<close>, the local buffer and the destination share no byte.\<close>

lemma load32_put_bytes:
  assumes "\<And>k. k < 4 \<Longrightarrow> \<not> in_region q (of_nat (length cs)) (p + of_nat k)" "length cs < 4294967296"
  shows "load32 (put_bytes m q cs) p = load32 m p"
proof (rule load32_cong)
  fix k :: nat assume "k < 4"
  then have "\<not> in_region q (of_nat (length cs)) (p + of_nat k)" by (rule assms(1))
  then show "put_bytes m q cs (p + of_nat k) = m (p + of_nat k)"
    using assms(2) by (intro put_bytes_outside) (simp add: in_region_def word_less_nat_alt unat_of_nat32)
qed

lemma apart_byte: "apart p n q k \<Longrightarrow> in_region p n a \<Longrightarrow> \<not> in_region q k a"
  unfolding in_region_iff apart_def by metis

lemma put_bytes_frame:
  "length cs = unat n \<Longrightarrow> \<not> in_region p n a \<Longrightarrow> put_bytes m p cs a = m a"
  by (rule put_bytes_outside) (simp add: in_region_def word_less_nat_alt)

lemma stream_fields_put_bytes:
  assumes "length cs = unat n" "apart p n st 8"
  shows "stream_pos (put_bytes m p cs) st = stream_pos m st" "stream_disk (put_bytes m p cs) st = stream_disk m st"
proof -
  have "\<not> in_region p n (st + of_nat i)" if "i < 8" for i
    using apart_not_in [OF apart_sym [OF assms(2)], of i] that by simp
  then have eq: "put_bytes m p cs (st + of_nat i) = m (st + of_nat i)" if "i < 8" for i
    using put_bytes_frame [OF assms(1)] that by blast
  show "stream_pos (put_bytes m p cs) st = stream_pos m st"
    unfolding stream_pos_def by (rule load32_cong, rule eq) simp
  have "put_bytes m p cs (st + 4 + of_nat i) = m (st + 4 + of_nat i)" if "i < 4" for i
    using eq [of "4 + i"] that by (simp add: add.assoc)
  then show "stream_disk (put_bytes m p cs) st = stream_disk m st"
    unfolding stream_disk_def by (rule load32_cong)
qed

lemma stream_fields_store:
  "stream_pos (store32 m st v) st = v" "stream_disk (store32 m st v) st = stream_disk m st"
  by (simp_all add: stream_pos_def stream_disk_def load32_store32_same) (simp add: load32_def store32_def)

lemma in_region_4: "\<not> in_region st 4 a \<Longrightarrow> store32 m st v a = m a"
  by (intro store32_other) (auto simp: in_region_iff)

lemma diskstreamer_step:
  assumes drive: "drive_holds s img" and disk: "stream_disk (mem s) st = disk_at s"
    and pos: "stream_pos (mem s) st = pos"
    and lim: "unat tot < 2147483648" "tot \<noteq> 0"
    and ap: "apart out tot (kstack s) 512" "apart out tot st 8" "apart (kstack s) 512 st 8"
  defines "c \<equiv> stream_chunk (pos mod 512) tot"
  shows "\<exists>m. diskstreamer_loop st out tot 0 s = diskstreamer_loop st (out + c) (tot - c) 0 (s\<lparr>mem := m\<rparr>)
    \<and> bytes m out (unat c) = map (\<lambda>i. img (unat pos + i)) [0..<unat c]
    \<and> stream_pos m st = pos + c \<and> stream_disk m st = disk_at s
    \<and> (\<forall>a. \<not> in_region out c a \<longrightarrow> \<not> in_region (kstack s) 512 a \<longrightarrow> \<not> in_region st 4 a \<longrightarrow> m a = mem s a)"
proof -
  define off where "off = pos mod 512"
  define lba where "lba = unat pos div 512"
  have off: "unat off < 512" "unat off = unat pos mod 512" by (simp_all add: off_def unat_mod)
  have tot: "0 < unat tot" using lim by (simp add: unat_gt_0)
  have c: "unat c = min (unat tot) (512 - unat off)"
    unfolding c_def off_def [symmetric] by (rule stream_chunk_eq [OF off(1) lim(1)])
  then have c0: "0 < unat c" "unat c \<le> unat tot" "unat off + unat c \<le> 512" using tot off(1) by auto
  have cpos: "0 <s c" using c0 lim sint_less_iff_small [of 0 c] by simp
  have lba: "lba < 8388608" "pos div 512 = of_nat lba"
  proof -
    show "lba < 8388608" using unat_u32_less [of pos] unfolding lba_def by (simp add: div_less_iff_less_mult)
    have "pos div 512 = of_nat (unat (pos div 512))" by simp
    then show "pos div 512 = of_nat lba" unfolding lba_def by (simp add: unat_div)
  qed
  let ?m1 = "put_bytes (mem s) (kstack s) (sector_bytes img lba)"
  have len: "length (sector_bytes img lba) = unat (512 :: u32)" by (simp add: sector_bytes_def)
  have "apart out c (kstack s) 512" "apart out c st 8"
    using ap(1,2) c0(2) unfolding apart_def by (meson less_le_trans)+
  note ap' = this
  have src: "bytes ?m1 (kstack s + off) (unat c) = map (\<lambda>i. img (unat pos + i)) [0..<unat c]"
  proof (rule nth_equalityI)
    fix i assume "i < length (bytes ?m1 (kstack s + off) (unat c))"
    then have i: "i < unat c" by simp
    then have less: "unat off + i < 512" using c0(3) by simp
    have at: "kstack s + off + of_nat i = kstack s + of_nat (unat off + i)" by (simp add: add.assoc)
    have "512 * lba + (unat off + i) = unat pos + i" unfolding lba_def off(2) by simp
    then have "sector_bytes img lba ! (unat off + i) = img (unat pos + i)" using less by (simp only: sector_bytes_def nth_map_upt0)
    moreover have "?m1 (kstack s + of_nat (unat off + i)) = sector_bytes img lba ! (unat off + i)"
      by (rule put_bytes_at) (use less len in simp_all)
    ultimately have "?m1 (kstack s + off + of_nat i) = img (unat pos + i)" unfolding at by (rule trans [rotated])
    then show "bytes ?m1 (kstack s + off) (unat c) ! i = map (\<lambda>i. img (unat pos + i)) [0..<unat c] ! i"
      using i by simp
  qed simp
  have "kstack s + off + of_nat i \<noteq> out + of_nat j" if "i < unat c" "j < unat c" for i j
  proof -
    have "unat off + i < unat (512 :: u32)" using that c0(3) by simp
    then have "out + of_nat j \<noteq> kstack s + of_nat (unat off + i)" using ap'(1) that(2) unfolding apart_def by blast
    then show ?thesis by (simp add: add.assoc)
  qed
  then have copy: "stream_copy out (kstack s + off) c ?m1 = put_bytes ?m1 out (bytes ?m1 (kstack s + off) (unat c))"
    using cpos unfolding stream_copy_def by (simp add: copy_put_bytes)
  let ?m2 = "put_bytes ?m1 out (bytes ?m1 (kstack s + off) (unat c))"
  have l2: "length (bytes ?m1 (kstack s + off) (unat c)) = unat c" by simp
  note f1 = stream_fields_put_bytes [OF len ap(3), of "mem s"]
  note f2 = stream_fields_put_bytes [OF l2 ap'(2), of ?m1]
  let ?m = "store32 ?m2 st (pos + c)"
  have cc: "stream_chunk off tot = c" by (simp only: c_def off_def)
  have run: "diskstreamer_loop st out tot 0 s = diskstreamer_loop st (out + c) (tot - c) 0 (s\<lparr>mem := ?m\<rparr>)"
    using disk_read_block_sector [OF drive lba(1), of "kstack s"] lim copy f1 f2 disk pos
    by (subst diskstreamer_loop.simps)
      (simp add: DISK_SECTOR_SIZE_def lba(2) off_def [symmetric] cc sector_buf_def Let_def run_simps put32_def)
  have "bytes ?m out (unat c) = bytes ?m2 out (unat c)"
  proof (rule bytes_cong)
    fix i assume "i < unat c"
    then have "\<not> in_region st 8 (out + of_nat i)" by (rule apart_not_in [OF ap'(2)])
    then have "\<not> in_region st 4 (out + of_nat i)" by (auto simp: in_region_def word_less_nat_alt)
    then show "?m (out + of_nat i) = ?m2 (out + of_nat i)" by (rule in_region_4)
  qed
  also have "\<dots> = bytes ?m1 (kstack s + off) (unat c)"
    by (rule nth_equalityI) (auto simp: less_imp_le intro: order_trans [OF less_imp_le [OF unat_u32_less]])
  finally have out: "bytes ?m out (unat c) = map (\<lambda>i. img (unat pos + i)) [0..<unat c]" using src by simp
  have frame: "?m a = mem s a" if "\<not> in_region out c a" "\<not> in_region (kstack s) 512 a" "\<not> in_region st 4 a" for a
    using in_region_4 [OF that(3)] put_bytes_frame [OF l2 that(1)] put_bytes_frame [OF len that(2)] by simp
  show ?thesis
    by (intro exI [of _ ?m] conjI allI impI run out frame) (use f1 f2 disk in \<open>simp_all add: stream_fields_store\<close>)
qed

lemma region_split:
  assumes "c \<le> tot" "in_region (out + c) (tot - c) a \<or> in_region out c a"
  shows "in_region out tot a"
  using assms(2)
proof
  assume "in_region (out + c) (tot - c) a"
  then obtain i where i: "i < unat (tot - c)" "a = out + c + of_nat i" unfolding in_region_iff by blast
  then have "unat c + i < unat tot" "a = out + of_nat (unat c + i)" using assms(1) by (simp_all add: unat_sub add.assoc)
  then show ?thesis unfolding in_region_iff by blast
next
  assume "in_region out c a"
  then have "a - out < c" by (simp only: in_region_def)
  then show ?thesis using assms(1) unfolding in_region_def by (rule less_le_trans)
qed

lemma diskstreamer_run:
  assumes "drive_holds s img" "stream_disk (mem s) st = disk_at s" "stream_pos (mem s) st = pos"
    "unat pos + unat tot < 4294967296" "unat tot < 2147483648"
    "apart out tot (kstack s) 512" "apart out tot st 8" "apart (kstack s) 512 st 8"
  shows "\<exists>m. diskstreamer_loop st out tot 0 s = Some (Ret 0 (s\<lparr>mem := m\<rparr>))
    \<and> bytes m out (unat tot) = map (\<lambda>i. img (unat pos + i)) [0..<unat tot]
    \<and> stream_pos m st = pos + tot \<and> stream_disk m st = disk_at s
    \<and> (\<forall>a. \<not> in_region out tot a \<longrightarrow> \<not> in_region (kstack s) 512 a \<longrightarrow> \<not> in_region st 4 a \<longrightarrow> m a = mem s a)"
  using assms
proof (induction "unat tot" arbitrary: tot out pos s rule: less_induct)
  case less
  show ?case
  proof (cases "tot = 0")
    case True
    then show ?thesis using less.prems
      by (intro exI [of _ "mem s"]) (simp add: diskstreamer_loop.simps ret_def)
  next
    case False
    define c where "c = stream_chunk (pos mod 512) tot"
    have c: "unat c = min (unat tot) (512 - unat (pos mod 512))"
      unfolding c_def by (rule stream_chunk_eq [OF _ less.prems(5)]) (simp add: unat_mod)
    have c0: "0 < unat c" "c \<le> tot" using c False by (auto simp: unat_mod unat_gt_0 word_le_nat_alt)
    have rest: "unat (tot - c) = unat tot - unat c" using c0(2) by (simp add: unat_sub)
    have sum: "unat (pos + c) = unat pos + unat c"
      using less.prems(4) c0(2) by (simp add: unat_word_ariths word_le_nat_alt)
    obtain m where m: "diskstreamer_loop st out tot 0 s = diskstreamer_loop st (out + c) (tot - c) 0 (s\<lparr>mem := m\<rparr>)"
      "bytes m out (unat c) = map (\<lambda>i. img (unat pos + i)) [0..<unat c]"
      "stream_pos m st = pos + c" "stream_disk m st = disk_at s"
      "\<forall>a. \<not> in_region out c a \<longrightarrow> \<not> in_region (kstack s) 512 a \<longrightarrow> \<not> in_region st 4 a \<longrightarrow> m a = mem s a"
      using diskstreamer_step [OF less.prems(1-3,5) False less.prems(6-8)] unfolding c_def by blast
    note tail = apart_tail [OF less.prems(6) c0(2)] apart_tail [OF less.prems(7) c0(2)]
    have "unat (tot - c) < unat tot" using rest c0 False by (simp add: word_le_nat_alt unat_gt_0)
    note lt = this
    let ?s = "s\<lparr>mem := m\<rparr>"
    have p: "drive_holds ?s img" "stream_disk (mem ?s) st = disk_at ?s" "stream_pos (mem ?s) st = pos + c"
      "unat (pos + c) + unat (tot - c) < 4294967296" "unat (tot - c) < 2147483648"
      "apart (out + c) (tot - c) (kstack ?s) 512" "apart (out + c) (tot - c) st 8" "apart (kstack ?s) 512 st 8"
      using less.prems m(3,4) tail sum rest lt c0(2) unfolding word_le_nat_alt by (simp_all add: drive_holds_def)
    obtain m' where m': "diskstreamer_loop st (out + c) (tot - c) 0 ?s = Some (Ret 0 (s\<lparr>mem := m'\<rparr>))"
      "bytes m' (out + c) (unat (tot - c)) = map (\<lambda>i. img (unat (pos + c) + i)) [0..<unat (tot - c)]"
      "stream_pos m' st = pos + c + (tot - c)" "stream_disk m' st = disk_at s"
      "\<forall>a. \<not> in_region (out + c) (tot - c) a \<longrightarrow> \<not> in_region (kstack s) 512 a \<longrightarrow> \<not> in_region st 4 a \<longrightarrow> m' a = m a"
      using less.hyps [OF lt p] by auto
    have first: "m' (out + of_nat i) = m (out + of_nat i)" if "i < unat c" for i
    proof -
      have i: "i < unat tot" using that c0(2) by (simp add: word_le_nat_alt)
      have "\<not> in_region (out + c) (tot - c) (out + of_nat i)"
      proof
        assume "in_region (out + c) (tot - c) (out + of_nat i)"
        then obtain j where j: "j < unat (tot - c)" "out + of_nat i = out + of_nat (unat c + j)"
          unfolding in_region_iff by (auto simp: add.assoc)
        have "i = unat c + j"
          using j i rest unat_u32_less [of tot] by (subst (asm) add_of_nat_inj) linarith+
        then show False using that by simp
      qed
      moreover have "\<not> in_region st 8 (out + of_nat i)" by (rule apart_not_in [OF less.prems(7) i])
      then have "\<not> in_region st 4 (out + of_nat i)" by (auto simp: in_region_def word_less_nat_alt)
      ultimately show ?thesis using m'(5) apart_not_in [OF less.prems(6) i] by blast
    qed
    have "bytes m' out (unat tot) = map (\<lambda>i. img (unat pos + i)) [0..<unat tot]"
    proof (rule nth_equalityI)
      fix i assume "i < length (bytes m' out (unat tot))"
      then have i: "i < unat tot" by simp
      have "m' (out + of_nat i) = img (unat pos + i)"
      proof (cases "i < unat c")
        case True
        then show ?thesis using first [OF True] arg_cong [OF m(2), of "\<lambda>xs. xs ! i"] by simp
      next
        case False
        then have "i = unat c + (i - unat c)" "i - unat c < unat (tot - c)" using i rest by simp_all
        then obtain j where j: "i = unat c + j" "j < unat (tot - c)" by blast
        then show ?thesis using arg_cong [OF m'(2), of "\<lambda>xs. xs ! j"] sum by (simp add: add.assoc)
      qed
      then show "bytes m' out (unat tot) ! i = map (\<lambda>i. img (unat pos + i)) [0..<unat tot] ! i" using i by simp
    qed simp
    moreover have "m' a = mem s a" if "\<not> in_region out tot a" "\<not> in_region (kstack s) 512 a" "\<not> in_region st 4 a" for a
      using m(5) m'(5) region_split [OF c0(2), of out a] that by metis
    ultimately show ?thesis using m(1) m'(1,3,4) by (intro exI [of _ m']) simp
  qed
qed

section \<open>Properties\<close>

text \<open>C27. \<^verbatim>\<open>diskstreamer_read\<close> over a drive that holds an image: reading \<open>tot\<close> bytes returns 0, puts
  exactly the image bytes from the stream position on at the destination, whatever sector boundaries
  they cross, advances the position by \<open>tot\<close>, and changes no byte outside the destination, the local
  sector buffer and the position field.\<close>

theorem diskstreamer_read_correct:
  assumes "drive_holds s img" "stream_disk (mem s) st = disk_at s"
    "unat (stream_pos (mem s) st) + unat tot < 4294967296" "unat tot < 2147483648"
    "apart out tot (sector_buf s) 512" "apart out tot st 8" "apart (sector_buf s) 512 st 8"
  shows "\<exists>m. diskstreamer_read st out tot s = Some (Ret 0 (s\<lparr>mem := m\<rparr>))
    \<and> bytes m out (unat tot) = map (\<lambda>i. img (unat (stream_pos (mem s) st) + i)) [0..<unat tot]
    \<and> stream_pos m st = stream_pos (mem s) st + tot \<and> stream_disk m st = disk_at s
    \<and> (\<forall>a. \<not> in_region out tot a \<longrightarrow> \<not> in_region (sector_buf s) 512 a \<longrightarrow> \<not> in_region st 4 a \<longrightarrow> m a = mem s a)"
  unfolding diskstreamer_read_def sector_buf_def
  by (rule diskstreamer_run [OF assms(1,2) refl assms(3-7) [unfolded sector_buf_def]])

text \<open>A drive that is ready at once and holds byte \<open>i mod 251\<close> at position \<open>i\<close>, and a stream at 500.\<close>

definition lba_of :: "ata_regs \<Rightarrow> nat" where
  "lba_of r = unat (ata_lba_low r) + 256 * unat (ata_lba_mid r) + 65536 * unat (ata_lba_high r)"

definition sample_disk_image :: "nat \<Rightarrow> u8" where
  "sample_disk_image i = of_nat (i mod 251)"

definition streaming_machine :: dstate where
  "streaming_machine = \<lparr>mem = store32 (store32 (\<lambda>_. 0) 0x2000 500) 0x2004 0x9000,
     terminal_x = 0, terminal_y = 0, terminal_fg_color = 0, terminal_bg_color = 0,
     kernel_heap = kernel_heap_layout, current_directory = 0, cr3 = 0, disk_at = 0x9000, kstack = 0x4000,
     ata_status = (\<lambda>_ _ _. 0x58),
     ata_data = (\<lambda>r j. word_cat (sample_disk_image (512 * lba_of r + 2 * j + 1)) (sample_disk_image (512 * lba_of r + 2 * j)))\<rparr>"

lemma lba_of_command:
  assumes "lba < 8388608"
  shows "lba_of (ata_read_command (of_nat lba) 1) = lba"
proof -
  have s: "sint (of_nat lba :: u32) = int lba" using assms by (intro sint_of_nat32) simp
  have shift: "signed_drop_bit k (of_nat lba :: u32) = of_nat (lba div 2 ^ k)" for k
  proof -
    have "signed_drop_bit k (of_nat lba :: u32) = word_of_int (sint (signed_drop_bit k (of_nat lba :: u32)))" by simp
    also have "\<dots> = of_nat (lba div 2 ^ k)"
      unfolding sint_signed_drop_bit_eq s drop_bit_eq_div by (metis of_int_of_nat_eq of_nat_numeral of_nat_power zdiv_int)
    finally show ?thesis .
  qed
  have low: "unat (ucast (of_nat n :: u32) :: u8) = n mod 256" for n
    by (simp add: unsigned_ucast_eq take_bit_eq_mod unsigned_of_nat mod_mod_cancel)
  have "ucast (w AND 0xFF) = (ucast w :: u8)" for w :: u32
    unfolding masks by (rule bit_word_eqI) (auto simp: bit_simps)
  note byte = this
  have top: "lba div 65536 < 256" using assms by (simp add: div_less_iff_less_mult)
  have "lba div 256 div 256 = lba div 65536" by (simp add: div_mult2_eq [symmetric])
  then have "lba div 256 = lba div 256 mod 256 + 256 * (lba div 65536)"
    using div_mult_mod_eq [of "lba div 256" 256] by simp
  then have "lba mod 256 + 256 * (lba div 256 mod 256) + 65536 * (lba div 65536) = lba"
    using div_mult_mod_eq [of lba 256] by linarith
  then show ?thesis
    unfolding lba_of_def ata_read_command_def by (simp add: shift low byte mod_less [OF top])
qed

lemma streaming_machine_holds: "drive_holds streaming_machine sample_disk_image"
  unfolding drive_holds_def streaming_machine_def by (auto simp: lba_of_command)

lemma apart_interval:
  assumes "unat p + unat n \<le> unat q" "unat q + unat k \<le> 4294967296"
  shows "apart p n q k"
  unfolding apart_def
proof (intro allI impI notI)
  fix i j assume ij: "i < unat n" "j < unat k" and eq: "p + of_nat i = q + of_nat j"
  have "unat (p + of_nat i) = unat p + i" "unat (q + of_nat j) = unat q + j"
    using assms ij by (simp_all add: unat_word_ariths unat_of_nat32)
  then show False using eq assms ij by simp
qed

theorem diskstreamer_read_correct_witness:
  "\<exists>m. diskstreamer_read 0x2000 0x6000 100 streaming_machine = Some (Ret 0 (streaming_machine\<lparr>mem := m\<rparr>))
    \<and> bytes m 0x6000 (unat (100 :: u32)) = map (\<lambda>i. sample_disk_image (unat (500 :: u32) + i)) [0..<unat (100 :: u32)]
    \<and> stream_pos m 0x2000 = 500 + 100"
proof -
  have f: "stream_pos (mem streaming_machine) 0x2000 = 500" "stream_disk (mem streaming_machine) 0x2000 = disk_at streaming_machine"
    "sector_buf streaming_machine = 0x4000"
    by (simp_all add: streaming_machine_def stream_pos_def stream_disk_def sector_buf_def load32_store32_same) code_simp
  have ap: "apart 0x6000 100 (sector_buf streaming_machine) 512" "apart 0x6000 100 0x2000 8"
    "apart (sector_buf streaming_machine) 512 0x2000 8"
    unfolding f by (rule apart_interval apart_sym [OF apart_interval]; simp)+
  have "unat (stream_pos (mem streaming_machine) 0x2000) + unat (100 :: u32) < 4294967296" "unat (100 :: u32) < 2147483648"
    by (simp_all add: f)
  from diskstreamer_read_correct [OF streaming_machine_holds f(2) this ap] show ?thesis unfolding f by blast
qed

end
