(* ===== verification/Fat16.thy ===== *)
theory Fat16
  imports Disk
begin

text \<open>
  The FAT16 driver \<^verbatim>\<open>src/kernel/fs/fat/fat16.c\<close> with the structures of \<^verbatim>\<open>fat16.h\<close>. All structures are
  bytes in memory at the offsets the compiler gives their fields: \<^verbatim>\<open>struct fat_private\<close> is 92 bytes
  (the 62-byte packed header, the root directory at 64, the three streams at 80, 84 and 88), a
  directory item is the packed 32-byte record of the disk. The local arrays of the routines lie at
  fixed distances from \<open>kstack\<close>; no two routines active at once share one.
\<close>

section \<open>Constants and state\<close>

named_theorems fat_defs \<open>the constants of fat16.h and file.h\<close>

definition FAT16_signature :: u32 where [fat_defs]: "FAT16_signature = 0x29"
definition FAT16_FAT_ENTRY_SIZE :: u32 where [fat_defs]: "FAT16_FAT_ENTRY_SIZE = 2"
definition FAT16_BAD_SECTOR :: u32 where [fat_defs]: "FAT16_BAD_SECTOR = 0xFF7"
definition FAT_ITEM_TYPE_DIRECTORY :: u32 where [fat_defs]: "FAT_ITEM_TYPE_DIRECTORY = 0"
definition FAT_ITEM_TYPE_FILE :: u32 where [fat_defs]: "FAT_ITEM_TYPE_FILE = 1"
definition FAT_MASKS_FILE_READ_ONLY :: u8 where [fat_defs]: "FAT_MASKS_FILE_READ_ONLY = 1"
definition FAT_MASKS_FILE_SUBDIRECTORY :: u8 where [fat_defs]: "FAT_MASKS_FILE_SUBDIRECTORY = 0x10"
definition SEEK_SET :: u32 where [fat_defs]: "SEEK_SET = 0"
definition SEEK_CUR :: u32 where [fat_defs]: "SEEK_CUR = 1"
definition SEEK_END :: u32 where [fat_defs]: "SEEK_END = 2"
definition FILE_MODE_READ :: u32 where [fat_defs]: "FILE_MODE_READ = 0"
definition FILE_MODE_WRITE :: u32 where [fat_defs]: "FILE_MODE_WRITE = 1"
definition FILE_MODE_APPEND :: u32 where [fat_defs]: "FILE_MODE_APPEND = 2"
definition FILE_MODE_INVALID :: u32 where [fat_defs]: "FILE_MODE_INVALID = 3"
definition FILE_STAT_RO :: u32 where [fat_defs]: "FILE_STAT_RO = 1"

text \<open>The address of the global \<^verbatim>\<open>fat16_fs\<close> and the two tables of \<^verbatim>\<open>file.c\<close>.\<close>

record fstate = dstate +
  fat16_fs_at :: u32
  filesystems :: "u32 list"
  file_descriptors :: "u32 list"

text \<open>Local arrays: the directory item and the FAT entry read from the disk, a file name.\<close>

definition item_buf :: "'a dstate_scheme \<Rightarrow> u32" where "item_buf s = kstack s + 512"
definition fat_entry_buf :: "'a dstate_scheme \<Rightarrow> u32" where "fat_entry_buf s = kstack s + 544"
definition filename_buf :: "'a dstate_scheme \<Rightarrow> u32" where "filename_buf s = kstack s + 552"

section \<open>Fields\<close>

definition sectors_per_cluster :: "u32 \<Rightarrow> (u32, 'a console_scheme) run" where "sectors_per_cluster private = read8 (private + 13)"
definition num_reserved_sectors :: "u32 \<Rightarrow> (u32, 'a console_scheme) run" where "num_reserved_sectors private = read16 (private + 14)"
definition num_fat_copies :: "u32 \<Rightarrow> (u32, 'a console_scheme) run" where "num_fat_copies private = read8 (private + 16)"
definition root_directory_entries :: "u32 \<Rightarrow> (u32, 'a console_scheme) run" where "root_directory_entries private = read16 (private + 17)"
definition sectors_per_fat :: "u32 \<Rightarrow> (u32, 'a console_scheme) run" where "sectors_per_fat private = read16 (private + 22)"
definition header_signature :: "u32 \<Rightarrow> (u32, 'a console_scheme) run" where "header_signature private = read8 (private + 38)"

text \<open>\<^verbatim>\<open>struct fat_directory\<close> at \<open>d\<close>; the root directory is at offset 64 of the private data.\<close>

definition directory_item :: "u32 \<Rightarrow> u32" where "directory_item d = d"
definition directory_total :: "u32 \<Rightarrow> u32" where "directory_total d = d + 4"
definition directory_sector_pos :: "u32 \<Rightarrow> u32" where "directory_sector_pos d = d + 8"
definition directory_ending_sector_pos :: "u32 \<Rightarrow> u32" where "directory_ending_sector_pos d = d + 12"
definition private_root_directory :: "u32 \<Rightarrow> u32" where "private_root_directory private = private + 64"
definition cluster_read_stream :: "u32 \<Rightarrow> u32" where "cluster_read_stream private = private + 80"
definition fat_read_stream :: "u32 \<Rightarrow> u32" where "fat_read_stream private = private + 84"
definition directory_stream :: "u32 \<Rightarrow> u32" where "directory_stream private = private + 88"

lemmas fat_fields = sectors_per_cluster_def num_reserved_sectors_def num_fat_copies_def root_directory_entries_def
  sectors_per_fat_def header_signature_def directory_item_def directory_total_def directory_sector_pos_def
  directory_ending_sector_pos_def private_root_directory_def cluster_read_stream_def fat_read_stream_def
  directory_stream_def

section \<open>Opening the volume\<close>

definition fat16_init :: "'a fstate_scheme \<Rightarrow> u32 \<times> 'a fstate_scheme" where
  "fat16_init s = (fat16_fs_at s,
     s\<lparr>mem := put_bytes (mem s) (fat16_fs_at s + 24) (map of_char ''FAT16'' @ [0])\<rparr>)"

definition fat16_init_private :: "u32 \<Rightarrow> u32 \<Rightarrow> (unit, 'a fstate_scheme) run" where
  "fat16_init_private disk private =
     andthen (modify (\<lambda>s. s\<lparr>mem := memset (mem s) private 0 92\<rparr>)) (\<lambda>_.
     andthen (read32 (disk + 8)) (\<lambda>id. andthen (always (diskstreamer_new id)) (\<lambda>c.
     andthen (write32 (cluster_read_stream private) c) (\<lambda>_.
     andthen (read32 (disk + 8)) (\<lambda>id. andthen (always (diskstreamer_new id)) (\<lambda>f.
     andthen (write32 (fat_read_stream private) f) (\<lambda>_.
     andthen (read32 (disk + 8)) (\<lambda>id. andthen (always (diskstreamer_new id)) (\<lambda>d.
     write32 (directory_stream private) d)))))))))"

definition fat16_sector_to_absolute :: "u32 \<Rightarrow> u32 \<Rightarrow> (u32, 'a fstate_scheme) run" where
  "fat16_sector_to_absolute disk sector =
     andthen (read32 (disk + 4)) (\<lambda>sector_size. ret (sector * sector_size))"

partial_function (option) fat16_count_loop :: "u32 \<Rightarrow> u32 \<Rightarrow> (u32, 'a fstate_scheme) run" where
  "fat16_count_loop stream i s =
     andthen (diskstreamer_read stream (item_buf s) 32) (\<lambda>r s1.
       if r \<noteq> NE then ret (- EIO) s1
       else if mem s1 (item_buf s1) = 0 then ret i s1
       else if mem s1 (item_buf s1) = 0xE5 then fat16_count_loop stream i s1
       else fat16_count_loop stream (i + 1) s1) s"

definition fat16_get_total_items_for_directory :: "u32 \<Rightarrow> u32 \<Rightarrow> (u32, 'a fstate_scheme) run" where
  "fat16_get_total_items_for_directory disk directory_start_sector =
     andthen (read32 (disk + 16)) (\<lambda>private.
     andthen (fat16_sector_to_absolute disk directory_start_sector) (\<lambda>directory_start_pos.
     andthen (read32 (directory_stream private)) (\<lambda>stream.
     andthen (always (diskstreamer_seek stream directory_start_pos)) (\<lambda>r.
       if r \<noteq> NE then ret (- EIO) else fat16_count_loop stream 0))))"

definition fat16_get_root_directory :: "u32 \<Rightarrow> u32 \<Rightarrow> u32 \<Rightarrow> (u32, 'a fstate_scheme) run" where
  "fat16_get_root_directory disk private out_directory =
     andthen (num_fat_copies private) (\<lambda>copies. andthen (sectors_per_fat private) (\<lambda>per_fat.
     andthen (num_reserved_sectors private) (\<lambda>reserved.
     andthen (root_directory_entries private) (\<lambda>root_dir_entries.
     let root_dir_sector_pos = copies * per_fat + reserved;
         root_dir_size = root_dir_entries * 32
     in andthen (read32 (disk + 4)) (\<lambda>sector_size. andthen (udiv root_dir_size sector_size) (\<lambda>_.
     andthen (fat16_get_total_items_for_directory disk root_dir_sector_pos) (\<lambda>total_items.
     andthen (always (kzalloc root_dir_size)) (\<lambda>d_item.
       if d_item = 0 then ret (- ENOMEM)
       else
         andthen (read32 (directory_stream private)) (\<lambda>stream.
         andthen (fat16_sector_to_absolute disk root_dir_sector_pos) (\<lambda>start.
         andthen (always (diskstreamer_seek stream start)) (\<lambda>r.
           if r \<noteq> NE then ret (- EIO)
           else andthen (diskstreamer_read stream d_item root_dir_size) (\<lambda>r.
             if r \<noteq> NE then ret (- EIO)
             else
               andthen (write32 (directory_item out_directory) d_item) (\<lambda>_.
               andthen (write32 (directory_total out_directory) total_items) (\<lambda>_.
               andthen (write32 (directory_sector_pos out_directory) root_dir_sector_pos) (\<lambda>_.
               andthen (read32 (disk + 4)) (\<lambda>sector_size. andthen (udiv root_dir_size sector_size) (\<lambda>n.
               andthen (write32 (directory_ending_sector_pos out_directory) (root_dir_sector_pos + n)) (\<lambda>_.
               ret 0))))))))))))))))))"

text \<open>The part of \<^verbatim>\<open>fat16_resolve\<close> between the stream and the label \<^verbatim>\<open>out\<close>.\<close>

definition fat16_resolve_header :: "u32 \<Rightarrow> u32 \<Rightarrow> u32 \<Rightarrow> (u32, 'a fstate_scheme) run" where
  "fat16_resolve_header disk fat_priv stream =
     andthen (diskstreamer_read stream fat_priv 62) (\<lambda>r.
       if r \<noteq> NE then ret (- EIO)
       else andthen (header_signature fat_priv) (\<lambda>sig.
         if sig \<noteq> 0x29 then ret (- EFSNOTSUPPORTED)
         else andthen (fat16_get_root_directory disk fat_priv (private_root_directory fat_priv)) (\<lambda>r.
           if r \<noteq> NE then ret (- EIO) else ret 0)))"

text \<open>The result is returned as an \<^verbatim>\<open>unsigned char\<close>.\<close>

definition fat16_resolve :: "u32 \<Rightarrow> (u8, 'a fstate_scheme) run" where
  "fat16_resolve disk =
     andthen (always (kzalloc 92)) (\<lambda>fat_priv.
     andthen (fat16_init_private disk fat_priv) (\<lambda>_.
     andthen (write32 (disk + 16) fat_priv) (\<lambda>_.
     andthen (gets fat16_fs_at) (\<lambda>fs. andthen (write32 (disk + 12) fs) (\<lambda>_.
     andthen (read32 (disk + 8)) (\<lambda>id. andthen (always (diskstreamer_new id)) (\<lambda>stream.
     andthen (if stream = 0 then ret (- ENOMEM) else fat16_resolve_header disk fat_priv stream) (\<lambda>res.
     andthen (modify (\<lambda>s. if stream \<noteq> 0 then diskstreamer_close stream s else s)) (\<lambda>_.
     andthen (if res <s 0
              then andthen (modify (kfree fat_priv)) (\<lambda>_. write32 (disk + 16) 0)
              else ret ()) (\<lambda>_.
     ret (ucast res)))))))))))"

section \<open>File names\<close>

text \<open>\<^verbatim>\<open>fat16_to_string\<close>: the output pointer after the copy and the memory.\<close>

partial_function (option) fat16_to_string_loop :: "u32 \<Rightarrow> u32 \<Rightarrow> memory \<Rightarrow> (u32 \<times> u32 \<times> memory) option" where
  "fat16_to_string_loop out src m =
     (if m src \<noteq> 0 \<and> m src \<noteq> 0x20 then fat16_to_string_loop (out + 1) (src + 1) (m(out := m src))
      else Some (out, src, m))"

definition fat16_to_string :: "u32 \<Rightarrow> u32 \<Rightarrow> memory \<Rightarrow> (u32 \<times> memory) option" where
  "fat16_to_string out src m =
     (case fat16_to_string_loop out src m of
        None \<Rightarrow> None
      | Some (out', src', m') \<Rightarrow> Some (out', if m' src' = 0x20 then m'(out' := 0) else m'))"

definition fat16_get_full_relative_filename :: "u32 \<Rightarrow> u32 \<Rightarrow> u32 \<Rightarrow> memory \<Rightarrow> memory option" where
  "fat16_get_full_relative_filename item out nbytes m =
     (case fat16_to_string out item (memset m out 0 nbytes) of
        None \<Rightarrow> None
      | Some (out_tmp, m1) \<Rightarrow>
          if m1 (item + 8) \<noteq> 0 \<and> m1 (item + 8) \<noteq> 0x20
          then map_option snd (fat16_to_string (out_tmp + 1) (item + 8) (m1(out_tmp := 0x2E)))
          else Some m1)"

definition fat16_clone_directory_item :: "u32 \<Rightarrow> u32 \<Rightarrow> 'a fstate_scheme \<Rightarrow> u32 \<times> 'a fstate_scheme" where
  "fat16_clone_directory_item item nbytes s =
     (if nbytes < 32 then (0, s)
      else let (item_copy, s1) = kzalloc nbytes s
           in if item_copy = 0 then (0, s1)
              else (item_copy, s1\<lparr>mem := memcpy (mem s1) item_copy item nbytes\<rparr>))"

section \<open>Clusters\<close>

definition fat16_get_first_cluster :: "u32 \<Rightarrow> (u32, 'a fstate_scheme) run" where
  "fat16_get_first_cluster item =
     andthen (read16 (item + 20)) (\<lambda>high. andthen (read16 (item + 26)) (\<lambda>low. ret (high OR low)))"

definition fat16_cluster_to_sector :: "u32 \<Rightarrow> u32 \<Rightarrow> (u32, 'a fstate_scheme) run" where
  "fat16_cluster_to_sector private cluster =
     andthen (read32 (directory_ending_sector_pos (private_root_directory private))) (\<lambda>ending.
     andthen (sectors_per_cluster private) (\<lambda>n. ret (ending + (cluster - 2) * n)))"

definition fat16_get_first_fat_sector :: "u32 \<Rightarrow> (u32, 'a fstate_scheme) run" where
  "fat16_get_first_fat_sector private = num_reserved_sectors private"

definition fat16_get_fat_entry :: "u32 \<Rightarrow> u32 \<Rightarrow> (u32, 'a fstate_scheme) run" where
  "fat16_get_fat_entry disk cluster =
     andthen (read32 (disk + 16)) (\<lambda>private. andthen (read32 (fat_read_stream private)) (\<lambda>stream.
       if stream = 0 then ret (- 1)
       else
         andthen (fat16_get_first_fat_sector private) (\<lambda>first. andthen (read32 (disk + 4)) (\<lambda>sector_size.
         let fat_table_position = first * sector_size
         in andthen (always (diskstreamer_seek stream (fat_table_position * (cluster * FAT16_FAT_ENTRY_SIZE)))) (\<lambda>res.
              if res <s 0 then ret res
              else
                andthen (gets fat_entry_buf) (\<lambda>result.
                andthen (modify (\<lambda>s. s\<lparr>mem := store16 (mem s) result 0\<rparr>)) (\<lambda>_.
                andthen (diskstreamer_read stream result 2) (\<lambda>res.
                  if res <s 0 then ret res else read16 result))))))))"

text \<open>The loop follows \<open>cluster_ahead\<close> entries of the table from \<open>i\<close> on. The tests are those of the code, in its order.\<close>

function fat16_follow_clusters :: "u32 \<Rightarrow> u32 \<Rightarrow> u32 \<Rightarrow> u32 \<Rightarrow> (u32, 'a fstate_scheme) run" where
  "fat16_follow_clusters disk cluster_to_use i cluster_ahead =
     (if i < cluster_ahead then
        andthen (fat16_get_fat_entry disk cluster_to_use) (\<lambda>entry.
          if entry = 0xFF8 \<or> entry = 0xFFF then ret (- EIO)
          else if entry = FAT16_BAD_SECTOR then ret (- EIO)
          else if 0xFF0 \<le>s entry \<or> entry \<le>s 0xFF6 then ret (- EIO)
          else if entry = 0 then ret (- EIO)
          else fat16_follow_clusters disk entry (i + 1) cluster_ahead)
      else ret cluster_to_use)"
  by pat_completeness auto
termination
  by (relation "measure (\<lambda>(disk, cluster, i, n). unat n - unat i)")
     (auto simp: unat_Suc_word word_less_nat_alt)

declare fat16_follow_clusters.simps [simp del]

definition cluster_bytes :: "u32 \<Rightarrow> (u32, 'a fstate_scheme) run" where
  "cluster_bytes disk =
     andthen (read32 (disk + 16)) (\<lambda>private. andthen (sectors_per_cluster private) (\<lambda>n.
     andthen (read32 (disk + 4)) (\<lambda>sector_size. ret (n * sector_size))))"

definition fat16_get_cluster_for_offset :: "u32 \<Rightarrow> u32 \<Rightarrow> u32 \<Rightarrow> (u32, 'a fstate_scheme) run" where
  "fat16_get_cluster_for_offset disk starting_cluster offset =
     andthen (cluster_bytes disk) (\<lambda>size_of_cluster_bytes.
     andthen (udiv offset size_of_cluster_bytes) (\<lambda>cluster_ahead.
       fat16_follow_clusters disk starting_cluster 0 cluster_ahead))"

partial_function (option) fat16_read_loop ::
  "u32 \<Rightarrow> u32 \<Rightarrow> u32 \<Rightarrow> u32 \<Rightarrow> u32 \<Rightarrow> u32 \<Rightarrow> u32 \<Rightarrow> u32 \<Rightarrow> u32 \<Rightarrow> (u32, 'a fstate_scheme) run" where
  "fat16_read_loop disk private size_of_cluster_bytes stream cluster offset remaining out res s =
     (if 0 < remaining then
        andthen (fat16_get_cluster_for_offset disk cluster offset) (\<lambda>cluster_to_use.
          if cluster_to_use <s 0 then ret cluster_to_use
          else
            andthen (umod offset size_of_cluster_bytes) (\<lambda>offset_from_cluster.
            andthen (fat16_cluster_to_sector private cluster_to_use) (\<lambda>starting_sector.
            andthen (read32 (disk + 4)) (\<lambda>sector_size.
            let starting_pos = starting_sector * sector_size + offset_from_cluster;
                total_to_read = (if size_of_cluster_bytes < remaining then size_of_cluster_bytes else remaining)
            in andthen (always (diskstreamer_seek stream starting_pos)) (\<lambda>res.
                 if res \<noteq> NE then ret res
                 else andthen (diskstreamer_read stream out total_to_read) (\<lambda>res.
                   if res \<noteq> NE then ret res
                   else fat16_read_loop disk private size_of_cluster_bytes stream cluster
                          (offset + total_to_read) (remaining - total_to_read) (out + total_to_read) res)))))) s
      else ret res s)"

definition fat16_read_internal_from_stream :: "u32 \<Rightarrow> u32 \<Rightarrow> u32 \<Rightarrow> u32 \<Rightarrow> u32 \<Rightarrow> u32 \<Rightarrow> (u32, 'a fstate_scheme) run" where
  "fat16_read_internal_from_stream disk stream cluster offset remaining out =
     andthen (read32 (disk + 16)) (\<lambda>private. andthen (cluster_bytes disk) (\<lambda>size_of_cluster_bytes.
       fat16_read_loop disk private size_of_cluster_bytes stream cluster offset remaining out 0))"

definition fat16_read_internal :: "u32 \<Rightarrow> u32 \<Rightarrow> u32 \<Rightarrow> u32 \<Rightarrow> u32 \<Rightarrow> (u32, 'a fstate_scheme) run" where
  "fat16_read_internal disk starting_cluster offset remaining out =
     andthen (read32 (disk + 16)) (\<lambda>fs_private. andthen (read32 (cluster_read_stream fs_private)) (\<lambda>stream.
       fat16_read_internal_from_stream disk stream starting_cluster offset remaining out))"

section \<open>Directories\<close>

definition fat16_free_directory :: "u32 \<Rightarrow> 'a fstate_scheme \<Rightarrow> 'a fstate_scheme" where
  "fat16_free_directory directory s =
     (if directory = 0 then s
      else let item = load32 (mem s) (directory_item directory)
           in kfree directory (if item \<noteq> 0 then kfree item s else s))"

definition fat16_fat_item_free :: "u32 \<Rightarrow> (unit, 'a fstate_scheme) run" where
  "fat16_fat_item_free item =
     andthen (read32 (item + 4)) (\<lambda>type. andthen (read32 item) (\<lambda>payload.
       if type = FAT_ITEM_TYPE_DIRECTORY then modify (fat16_free_directory payload)
       else if type = FAT_ITEM_TYPE_FILE then modify (kfree payload)
       else andthen (modify (kfree item)) (\<lambda>_.
              panic (''[FAT16 driver] Free: Item being fred is of invalid type!'' @ [CHR 10]))))"

text \<open>On an error the directory is released, and its address is returned all the same.\<close>

definition fat16_load_fat_directory :: "u32 \<Rightarrow> u32 \<Rightarrow> (u32, 'a fstate_scheme) run" where
  "fat16_load_fat_directory disk item =
     andthen (read32 (disk + 16)) (\<lambda>private. andthen (gets (\<lambda>s. mem s (item + 11))) (\<lambda>attributes.
       if attributes AND FAT_MASKS_FILE_SUBDIRECTORY = 0
       then andthen (modify (fat16_free_directory 0)) (\<lambda>_. ret 0)
       else andthen (always (kzalloc 16)) (\<lambda>directory.
         if directory = 0 then andthen (modify (fat16_free_directory 0)) (\<lambda>_. ret 0)
         else
           andthen (fat16_get_first_cluster item) (\<lambda>cluster.
           andthen (fat16_cluster_to_sector private cluster) (\<lambda>cluster_sector.
           andthen (fat16_get_total_items_for_directory disk cluster_sector) (\<lambda>total_items.
           andthen (write32 (directory_total directory) total_items) (\<lambda>_.
           let directory_size = total_items * 32
           in andthen (always (kzalloc directory_size)) (\<lambda>items.
              andthen (write32 (directory_item directory) items) (\<lambda>_.
              andthen (if items = 0 then ret (- ENOMEM)
                       else fat16_read_internal disk cluster 0 directory_size items) (\<lambda>res.
              andthen (modify (if res \<noteq> NE then fat16_free_directory directory else id)) (\<lambda>_.
              ret directory)))))))))))"

definition fat16_new_fat_item_for_directory_item :: "u32 \<Rightarrow> u32 \<Rightarrow> (u32, 'a fstate_scheme) run" where
  "fat16_new_fat_item_for_directory_item disk item =
     andthen (always (kzalloc 8)) (\<lambda>f_item.
       if f_item = 0 then ret 0
       else
         andthen (gets (\<lambda>s. mem s (item + 11))) (\<lambda>attributes.
         andthen (if attributes AND FAT_MASKS_FILE_SUBDIRECTORY \<noteq> 0
                  then andthen (fat16_load_fat_directory disk item) (\<lambda>d.
                       andthen (write32 f_item d) (\<lambda>_. write32 (f_item + 4) FAT_ITEM_TYPE_DIRECTORY))
                  else ret ()) (\<lambda>_.
         andthen (write32 (f_item + 4) FAT_ITEM_TYPE_FILE) (\<lambda>_.
         andthen (always (fat16_clone_directory_item item 32)) (\<lambda>copy.
         andthen (write32 f_item copy) (\<lambda>_. ret f_item))))))"

partial_function (option) fat16_find_loop :: "u32 \<Rightarrow> u32 \<Rightarrow> u32 \<Rightarrow> u32 \<Rightarrow> u32 \<Rightarrow> (u32, 'a fstate_scheme) run" where
  "fat16_find_loop disk directory path i f_item s =
     (if i < load32 (mem s) (directory_total directory) then
        let item = load32 (mem s) (directory_item directory) + 32 * i
        in andthen (changes (\<lambda>s. map_option (\<lambda>m. s\<lparr>mem := m\<rparr>)
                     (fat16_get_full_relative_filename item (filename_buf s) FS_MAX_PATH_LEN (mem s)))) (\<lambda>_ s1.
             let item = load32 (mem s1) (directory_item directory) + 32 * i
             in if istrncmp (mem s1) (filename_buf s1) path FS_MAX_PATH_LEN = 0
                then andthen (fat16_new_fat_item_for_directory_item disk item) (\<lambda>f.
                       fat16_find_loop disk directory path (i + 1) f) s1
                else fat16_find_loop disk directory path (i + 1) f_item s1) s
      else ret f_item s)"

definition fat16_find_item_in_directory :: "u32 \<Rightarrow> u32 \<Rightarrow> u32 \<Rightarrow> (u32, 'a fstate_scheme) run" where
  "fat16_find_item_in_directory disk directory path = fat16_find_loop disk directory path 0 0"

partial_function (option) fat16_walk_loop :: "u32 \<Rightarrow> u32 \<Rightarrow> u32 \<Rightarrow> (u32, 'a fstate_scheme) run" where
  "fat16_walk_loop disk next_part current_item s =
     (if next_part \<noteq> 0 then
        (if load32 (mem s) (current_item + 4) \<noteq> FAT_ITEM_TYPE_DIRECTORY then ret 0 s
         else
           andthen (fat16_find_item_in_directory disk (load32 (mem s) current_item) (part_part (mem s) next_part)) (\<lambda>tmp_item.
           andthen (fat16_fat_item_free current_item) (\<lambda>_ s1.
             fat16_walk_loop disk (part_next (mem s1) next_part) tmp_item s1)) s)
      else ret current_item s)"

definition fat16_get_directory_entry :: "u32 \<Rightarrow> u32 \<Rightarrow> (u32, 'a fstate_scheme) run" where
  "fat16_get_directory_entry disk path =
     andthen (read32 (disk + 16)) (\<lambda>private. andthen (gets (\<lambda>s. part_part (mem s) path)) (\<lambda>part.
     andthen (fat16_find_item_in_directory disk (private_root_directory private) part) (\<lambda>root_item.
       if root_item = 0 then ret 0
       else andthen (gets (\<lambda>s. part_next (mem s) path)) (\<lambda>next_part.
              fat16_walk_loop disk next_part root_item))))"

section \<open>The driver interface\<close>

definition fat16_open :: "u32 \<Rightarrow> u32 \<Rightarrow> u32 \<Rightarrow> (u32, 'a fstate_scheme) run" where
  "fat16_open disk path mode =
     (if mode \<noteq> FILE_MODE_READ then ret (- ERDONLY)
      else andthen (always (kzalloc 8)) (\<lambda>descriptor.
        if descriptor = 0 then ret (- ENOMEM)
        else
          andthen (fat16_get_directory_entry disk path) (\<lambda>item.
          andthen (write32 descriptor item) (\<lambda>_.
            if item = 0 then ret (- EIO)
            else andthen (write32 (descriptor + 4) 0) (\<lambda>_. ret descriptor)))))"

definition fat16_free_file_descriptor :: "u32 \<Rightarrow> (unit, 'a fstate_scheme) run" where
  "fat16_free_file_descriptor desc =
     andthen (read32 desc) (\<lambda>item. andthen (fat16_fat_item_free item) (\<lambda>_. modify (kfree desc)))"

definition fat16_close :: "u32 \<Rightarrow> (u32, 'a fstate_scheme) run" where
  "fat16_close private = andthen (fat16_free_file_descriptor private) (\<lambda>_. ret 0)"

definition fat16_stat :: "u32 \<Rightarrow> u32 \<Rightarrow> u32 \<Rightarrow> (u32, 'a fstate_scheme) run" where
  "fat16_stat disk private stat =
     andthen (read32 private) (\<lambda>desc_item. andthen (read32 (desc_item + 4)) (\<lambda>type.
       if type \<noteq> FAT_ITEM_TYPE_FILE then ret (- EINVARG)
       else
         andthen (read32 desc_item) (\<lambda>ritem. andthen (read32 (ritem + 28)) (\<lambda>file_size.
         andthen (write32 (stat + 4) file_size) (\<lambda>_. andthen (write32 stat 0) (\<lambda>_.
         andthen (gets (\<lambda>s. mem s (ritem + 11))) (\<lambda>attributes.
           if attributes AND FAT_MASKS_FILE_READ_ONLY \<noteq> 0
           then andthen (read32 stat) (\<lambda>flags. andthen (write32 stat (flags OR FILE_STAT_RO)) (\<lambda>_. ret 0))
           else ret 0)))))))"

partial_function (option) fat16_read_blocks ::
  "u32 \<Rightarrow> u32 \<Rightarrow> u32 \<Rightarrow> u32 \<Rightarrow> u32 \<Rightarrow> u32 \<Rightarrow> u32 \<Rightarrow> (u32, 'a fstate_scheme) run" where
  "fat16_read_blocks disk item nbytes nmemb i offset out s =
     (if i < nmemb then
        andthen (fat16_get_first_cluster item) (\<lambda>cluster.
        andthen (fat16_read_internal disk cluster offset nbytes out) (\<lambda>res.
          if IS_ERR res then ret res
          else fat16_read_blocks disk item nbytes nmemb (i + 1) (offset + nbytes) (out + nbytes))) s
      else ret nmemb s)"

definition fat16_read :: "u32 \<Rightarrow> u32 \<Rightarrow> u32 \<Rightarrow> u32 \<Rightarrow> u32 \<Rightarrow> (u32, 'a fstate_scheme) run" where
  "fat16_read disk desc nbytes nmemb out =
     andthen (read32 desc) (\<lambda>fat_item. andthen (read32 fat_item) (\<lambda>item.
     andthen (read32 (desc + 4)) (\<lambda>offset. fat16_read_blocks disk item nbytes nmemb 0 offset out)))"

definition fat16_seek :: "u32 \<Rightarrow> u32 \<Rightarrow> u32 \<Rightarrow> (u32, 'a fstate_scheme) run" where
  "fat16_seek private offset seek_mode =
     andthen (read32 private) (\<lambda>desc_item. andthen (read32 (desc_item + 4)) (\<lambda>type.
       if type \<noteq> FAT_ITEM_TYPE_FILE then ret (- EINVARG)
       else
         andthen (read32 desc_item) (\<lambda>ritem. andthen (read32 (ritem + 28)) (\<lambda>file_size.
           if file_size \<le> offset then ret (- EIO)
           else if seek_mode = SEEK_SET then andthen (write32 (private + 4) offset) (\<lambda>_. ret 0)
           else if seek_mode = SEEK_END then ret (- EUNIMP)
           else if seek_mode = SEEK_CUR then
             andthen (read32 (private + 4)) (\<lambda>pos. andthen (write32 (private + 4) (pos + offset)) (\<lambda>_. ret 0))
           else ret (- EINVARG)))))"

end
