(* ===== verification/File.thy ===== *)
theory File
  imports Fat16
begin

text \<open>
  The file layer \<^verbatim>\<open>src/kernel/fs/file.c\<close> and \<^verbatim>\<open>disk_search_and_init\<close> of \<^verbatim>\<open>disk.c\<close>: the table of file
  systems, the table of open descriptors and the calls through a file system's function pointers.
  The only \<^verbatim>\<open>struct filesystem\<close> of the program is \<^verbatim>\<open>fat16_fs\<close>; a call through any other address
  would be a wild jump and never returns. A \<^verbatim>\<open>struct file_descriptor\<close> is 16 bytes: \<^verbatim>\<open>id\<close>, \<^verbatim>\<open>fs\<close>,
  \<^verbatim>\<open>private\<close>, \<^verbatim>\<open>disk\<close>.
\<close>

definition MAX_FILESYSTEMS :: nat where "MAX_FILESYSTEMS = 12"
definition MAX_FILE_DESCRIPTORS_ACTIVE :: nat where "MAX_FILE_DESCRIPTORS_ACTIVE = 512"

definition fd_id :: "memory \<Rightarrow> u32 \<Rightarrow> u32" where "fd_id m d = load32 m d"
definition fd_fs :: "memory \<Rightarrow> u32 \<Rightarrow> u32" where "fd_fs m d = load32 m (d + 4)"
definition fd_private :: "memory \<Rightarrow> u32 \<Rightarrow> u32" where "fd_private m d = load32 m (d + 8)"
definition fd_disk :: "memory \<Rightarrow> u32 \<Rightarrow> u32" where "fd_disk m d = load32 m (d + 12)"

section \<open>Calls through a file system\<close>

text \<open>\<^verbatim>\<open>fs->f(...)\<close> for a function \<open>f\<close> of the FAT16 table.\<close>

definition through :: "u32 \<Rightarrow> ('b, 'a fstate_scheme) run \<Rightarrow> ('b, 'a fstate_scheme) run" where
  "through fs f s = (if fs = fat16_fs_at s then f s else None)"

section \<open>The table of file systems\<close>

text \<open>The index of the first free slot.\<close>

definition free_slot :: "u32 list \<Rightarrow> nat option" where
  "free_slot xs = (if 0 \<in> set xs then Some (length (takeWhile (\<lambda>p. p \<noteq> 0) xs)) else None)"

definition fs_get_free_filesystem :: "'a fstate_scheme \<Rightarrow> nat option" where
  "fs_get_free_filesystem s = free_slot (filesystems s)"

definition fs_insert_filesystem :: "u32 \<Rightarrow> (unit, 'a fstate_scheme) run" where
  "fs_insert_filesystem filesystem =
     (if filesystem = 0 then panic (''Insert filesystem: Filesystem is provided as NULL.'' @ [CHR 10])
      else andthen (gets fs_get_free_filesystem) (\<lambda>fs.
        case fs of
          None \<Rightarrow> panic ''Insert filesystem: No free filesystems available - failure to insert.''
        | Some i \<Rightarrow> modify (\<lambda>s. s\<lparr>filesystems := (filesystems s)[i := filesystem]\<rparr>)))"

definition fs_static_load :: "(unit, 'a fstate_scheme) run" where
  "fs_static_load = andthen (always fat16_init) fs_insert_filesystem"

definition fs_load :: "(unit, 'a fstate_scheme) run" where
  "fs_load = andthen (modify (\<lambda>s. s\<lparr>filesystems := replicate MAX_FILESYSTEMS 0\<rparr>)) (\<lambda>_. fs_static_load)"

definition fs_init :: "(unit, 'a fstate_scheme) run" where
  "fs_init = andthen (modify (\<lambda>s. s\<lparr>file_descriptors := replicate MAX_FILE_DESCRIPTORS_ACTIVE 0\<rparr>)) (\<lambda>_. fs_load)"

fun fs_resolve_loop :: "u32 \<Rightarrow> u32 list \<Rightarrow> (u32, 'a fstate_scheme) run" where
  "fs_resolve_loop disk [] = ret 0"
| "fs_resolve_loop disk (fs # rest) =
     (if fs \<noteq> 0 then andthen (through fs (fat16_resolve disk)) (\<lambda>r.
        if r = 0 then ret fs else fs_resolve_loop disk rest)
      else fs_resolve_loop disk rest)"

definition fs_resolve :: "u32 \<Rightarrow> (u32, 'a fstate_scheme) run" where
  "fs_resolve disk s = fs_resolve_loop disk (filesystems s) s"

definition disk_search_and_init :: "(unit, 'a fstate_scheme) run" where
  "disk_search_and_init =
     andthen (gets disk_at) (\<lambda>disk.
     andthen (modify (\<lambda>s. s\<lparr>mem := memset (mem s) disk 0 20\<rparr>)) (\<lambda>_.
     andthen (write32 disk DISK_TYPE_REAL) (\<lambda>_.
     andthen (write32 (disk + 4) DISK_FS_SIZE) (\<lambda>_.
     andthen (write32 (disk + 8) 0) (\<lambda>_.
     andthen (fs_resolve disk) (\<lambda>fs. write32 (disk + 12) fs))))))"

section \<open>Descriptors\<close>

definition file_free_descriptor :: "u32 \<Rightarrow> 'a fstate_scheme \<Rightarrow> 'a fstate_scheme" where
  "file_free_descriptor desc s =
     kfree desc (s\<lparr>file_descriptors := (file_descriptors s)[unat (fd_id (mem s) desc - 1) := 0]\<rparr>)"

text \<open>The status and the descriptor, which has no value on an error.\<close>

definition file_new_descriptor :: "'a fstate_scheme \<Rightarrow> (u32 \<times> u32) \<times> 'a fstate_scheme" where
  "file_new_descriptor s =
     (case free_slot (file_descriptors s) of
        None \<Rightarrow> ((- ENOMEM, 0), s)
      | Some i \<Rightarrow>
          let (desc, s1) = kzalloc 16 s;
              s2 = put32 desc (of_nat i + 1) s1
          in ((0, desc), s2\<lparr>file_descriptors := (file_descriptors s2)[i := desc]\<rparr>))"

definition file_get_fd :: "u32 \<Rightarrow> 'a fstate_scheme \<Rightarrow> u32" where
  "file_get_fd fd s =
     (if fd <s 1 \<or> of_nat MAX_FILE_DESCRIPTORS_ACTIVE < fd then 0 else file_descriptors s ! unat (fd - 1))"

section \<open>Operations\<close>

text \<open>\<^verbatim>\<open>strncmp\<close> with a one-character literal and length 1 compares the first byte, all it reads of
  the mode string.\<close>

definition file_get_mode_by_str :: "u8 \<Rightarrow> u32" where
  "file_get_mode_by_str c =
     (if c = 0x72 then FILE_MODE_READ else if c = 0x77 then FILE_MODE_WRITE
      else if c = 0x61 then FILE_MODE_APPEND else FILE_MODE_INVALID)"

text \<open>\<^verbatim>\<open>fopen\<close> from the parsed path on.\<close>

definition fopen_path :: "u32 \<Rightarrow> u8 \<Rightarrow> (u32, 'a fstate_scheme) run" where
  "fopen_path root_path mode_c =
     (if root_path = 0 then ret (- EINVARG)
      else andthen (gets (\<lambda>s. root_first (mem s) root_path)) (\<lambda>first.
        if first = 0 then ret (- EINVARG)
        else andthen (gets (\<lambda>s. disk_get (root_drive_number (mem s) root_path) s)) (\<lambda>disk.
          if disk = 0 then ret (- EIO)
          else andthen (read32 (disk + 12)) (\<lambda>fs.
            if fs = 0 then ret (- EIO)
            else
              let mode = file_get_mode_by_str mode_c
              in if mode = FILE_MODE_INVALID then ret (- EINVARG)
                 else andthen (through fs (fat16_open disk first mode)) (\<lambda>descriptor_private_data.
                   if IS_ERR descriptor_private_data then ret descriptor_private_data
                   else andthen (always file_new_descriptor) (\<lambda>(res, desc).
                     if res <s 0 then ret res
                     else
                       andthen (read32 (disk + 12)) (\<lambda>fs. andthen (write32 (desc + 4) fs) (\<lambda>_.
                       andthen (write32 (desc + 12) disk) (\<lambda>_.
                       andthen (write32 (desc + 8) descriptor_private_data) (\<lambda>_. read32 desc))))))))))"

definition fopen :: "u32 \<Rightarrow> u8 \<Rightarrow> (u32, 'a fstate_scheme) run" where
  "fopen filename mode_c =
     andthen (perhaps (pparser_parse filename 0)) (\<lambda>root_path.
     andthen (fopen_path root_path mode_c) (\<lambda>res. ret (if res <s 0 then 0 else res)))"

definition fstat :: "u32 \<Rightarrow> u32 \<Rightarrow> (u32, 'a fstate_scheme) run" where
  "fstat fd stat =
     andthen (gets (file_get_fd fd)) (\<lambda>desc.
       if desc = 0 then ret (- EIO)
       else andthen (read32 (desc + 4)) (\<lambda>fs. andthen (read32 (desc + 12)) (\<lambda>disk.
            andthen (read32 (desc + 8)) (\<lambda>private. through fs (fat16_stat disk private stat)))))"

definition fclose :: "u32 \<Rightarrow> (u32, 'a fstate_scheme) run" where
  "fclose fd =
     andthen (gets (file_get_fd fd)) (\<lambda>desc.
       if desc = 0 then ret (- EIO)
       else andthen (read32 (desc + 4)) (\<lambda>fs. andthen (read32 (desc + 8)) (\<lambda>private.
            andthen (through fs (fat16_close private)) (\<lambda>res.
              if res = NE then andthen (modify (file_free_descriptor desc)) (\<lambda>_. ret res) else ret res))))"

definition fseek :: "u32 \<Rightarrow> u32 \<Rightarrow> u32 \<Rightarrow> (u32, 'a fstate_scheme) run" where
  "fseek fd offset whence =
     andthen (gets (file_get_fd fd)) (\<lambda>desc.
       if desc = 0 then ret (- EIO)
       else andthen (read32 (desc + 4)) (\<lambda>fs. andthen (read32 (desc + 8)) (\<lambda>private.
            through fs (fat16_seek private offset whence))))"

definition fread :: "u32 \<Rightarrow> u32 \<Rightarrow> u32 \<Rightarrow> u32 \<Rightarrow> (u32, 'a fstate_scheme) run" where
  "fread ptr nbytes nmemb fd =
     (if nbytes = 0 \<or> nmemb = 0 \<or> fd <s 1 then ret (- EINVARG)
      else andthen (gets (file_get_fd fd)) (\<lambda>descriptor.
        if descriptor = 0 then ret (- EINVARG)
        else andthen (read32 (descriptor + 4)) (\<lambda>fs. andthen (read32 (descriptor + 12)) (\<lambda>disk.
             andthen (read32 (descriptor + 8)) (\<lambda>private.
               through fs (fat16_read disk private nbytes nmemb ptr))))))"

end
