(* ===== verification/Elf.thy ===== *)
theory Elf
  imports File
begin

text \<open>
  The ELF loader: \<^verbatim>\<open>src/kernel/loader/formats/elf.c\<close> and \<^verbatim>\<open>elf_loader.c\<close> over the structures of
  \<^verbatim>\<open>elf.h\<close> and \<^verbatim>\<open>elf_loader.h\<close>. The headers are read at their packed offsets in the file image;
  \<^verbatim>\<open>struct elf_file\<close> is 132 bytes.
\<close>

section \<open>Constants and fields\<close>

named_theorems elf_defs \<open>constants and fields of elf.h and elf_loader.h\<close>

definition PT_LOAD :: u32 where [elf_defs]: "PT_LOAD = 1"
definition PF_W :: u32 where [elf_defs]: "PF_W = 2"
definition ET_EXEC :: u16 where [elf_defs]: "ET_EXEC = 2"
definition ELFCLASSNONE :: u8 where [elf_defs]: "ELFCLASSNONE = 0"
definition ELFCLASS32 :: u8 where [elf_defs]: "ELFCLASS32 = 1"
definition ELFDATANONE :: u8 where [elf_defs]: "ELFDATANONE = 0"
definition ELFDATA2LSB :: u8 where [elf_defs]: "ELFDATA2LSB = 1"
definition EI_CLASS :: u32 where [elf_defs]: "EI_CLASS = 4"
definition EI_DATA :: u32 where [elf_defs]: "EI_DATA = 5"
definition ELF_SIGNATURE :: "u8 list" where [elf_defs]: "ELF_SIGNATURE = [0x7F, 0x45, 0x4C, 0x46]"
definition TASK_PROGRAM_VIRTUAL_ADDR :: u32 where [config_defs]: "TASK_PROGRAM_VIRTUAL_ADDR = 0x400000"

definition e_type :: "memory \<Rightarrow> u32 \<Rightarrow> u16" where [elf_defs]: "e_type m h = load16 m (h + 16)"
definition e_entry :: "memory \<Rightarrow> u32 \<Rightarrow> u32" where [elf_defs]: "e_entry m h = load32 m (h + 24)"
definition e_phoff :: "memory \<Rightarrow> u32 \<Rightarrow> u32" where [elf_defs]: "e_phoff m h = load32 m (h + 28)"
definition e_shoff :: "memory \<Rightarrow> u32 \<Rightarrow> u32" where [elf_defs]: "e_shoff m h = load32 m (h + 32)"
definition e_phnum :: "memory \<Rightarrow> u32 \<Rightarrow> u16" where [elf_defs]: "e_phnum m h = load16 m (h + 44)"
definition e_shstrndx :: "memory \<Rightarrow> u32 \<Rightarrow> u16" where [elf_defs]: "e_shstrndx m h = load16 m (h + 50)"

definition p_type :: "memory \<Rightarrow> u32 \<Rightarrow> u32" where "p_type m p = load32 m p"
definition p_offset :: "memory \<Rightarrow> u32 \<Rightarrow> u32" where "p_offset m p = load32 m (p + 4)"
definition p_vaddr :: "memory \<Rightarrow> u32 \<Rightarrow> u32" where "p_vaddr m p = load32 m (p + 8)"
definition p_filesz :: "memory \<Rightarrow> u32 \<Rightarrow> u32" where "p_filesz m p = load32 m (p + 16)"
definition p_memsz :: "memory \<Rightarrow> u32 \<Rightarrow> u32" where "p_memsz m p = load32 m (p + 20)"
definition p_flags :: "memory \<Rightarrow> u32 \<Rightarrow> u32" where "p_flags m p = load32 m (p + 24)"
definition sh_offset :: "memory \<Rightarrow> u32 \<Rightarrow> u32" where "sh_offset m p = load32 m (p + 16)"

definition elf_memory :: "memory \<Rightarrow> u32 \<Rightarrow> u32" where "elf_memory m file = load32 m (file + 112)"
definition elf_virtual_base :: "memory \<Rightarrow> u32 \<Rightarrow> u32" where "elf_virtual_base m file = load32 m (file + 116)"
definition elf_virtual_end :: "memory \<Rightarrow> u32 \<Rightarrow> u32" where "elf_virtual_end m file = load32 m (file + 120)"
definition elf_physical_base :: "memory \<Rightarrow> u32 \<Rightarrow> u32" where "elf_physical_base m file = load32 m (file + 124)"
definition elf_physical_end :: "memory \<Rightarrow> u32 \<Rightarrow> u32" where "elf_physical_end m file = load32 m (file + 128)"

definition elf_get_entry_ptr :: "memory \<Rightarrow> u32 \<Rightarrow> u32" where "elf_get_entry_ptr m h = e_entry m h"
definition elf_get_entry :: "memory \<Rightarrow> u32 \<Rightarrow> u32" where "elf_get_entry m h = e_entry m h"

section \<open>Validation\<close>

text \<open>\<^verbatim>\<open>memcmp\<close> against the signature is 0 exactly when the four bytes are these.\<close>

definition elf_valid_signature :: "memory \<Rightarrow> u32 \<Rightarrow> bool" where
  "elf_valid_signature m buffer \<longleftrightarrow> bytes m buffer 4 = ELF_SIGNATURE"

definition elf_valid_class :: "memory \<Rightarrow> u32 \<Rightarrow> bool" where
  "elf_valid_class m header \<longleftrightarrow> m (header + EI_CLASS) = ELFCLASSNONE \<or> m (header + EI_CLASS) = ELFCLASS32"

definition elf_valid_encoding :: "memory \<Rightarrow> u32 \<Rightarrow> bool" where
  "elf_valid_encoding m header \<longleftrightarrow> m (header + EI_DATA) = ELFDATANONE \<or> m (header + EI_DATA) = ELFDATA2LSB"

definition elf_is_executable :: "memory \<Rightarrow> u32 \<Rightarrow> bool" where
  "elf_is_executable m header \<longleftrightarrow> e_type m header = ET_EXEC \<and> TASK_PROGRAM_VIRTUAL_ADDR \<le> e_entry m header"

definition elf_has_program_header :: "memory \<Rightarrow> u32 \<Rightarrow> bool" where
  "elf_has_program_header m header \<longleftrightarrow> e_phoff m header \<noteq> 0"

definition elf_header :: "memory \<Rightarrow> u32 \<Rightarrow> u32" where "elf_header m file = elf_memory m file"

definition elf_sheader :: "memory \<Rightarrow> u32 \<Rightarrow> u32" where "elf_sheader m header = header + e_shoff m header"

definition elf_pheader :: "memory \<Rightarrow> u32 \<Rightarrow> u32" where
  "elf_pheader m header = (if elf_has_program_header m header then header + e_phoff m header else 0)"

definition elf_program_header :: "memory \<Rightarrow> u32 \<Rightarrow> u32 \<Rightarrow> u32" where
  "elf_program_header m header idx = elf_pheader m header + 32 * idx"

definition elf_section :: "memory \<Rightarrow> u32 \<Rightarrow> u32 \<Rightarrow> u32" where
  "elf_section m header idx = elf_sheader m header + 40 * idx"

definition elf_str_table :: "memory \<Rightarrow> u32 \<Rightarrow> u32" where
  "elf_str_table m header = header + sh_offset m (elf_section m header (ucast (e_shstrndx m header)))"

definition elf_phdr_compute_physical_address :: "memory \<Rightarrow> u32 \<Rightarrow> u32 \<Rightarrow> u32" where
  "elf_phdr_compute_physical_address m file phdr = elf_memory m file + p_offset m phdr"

definition elf_validate_loaded :: "memory \<Rightarrow> u32 \<Rightarrow> u32" where
  "elf_validate_loaded m header =
     (if elf_valid_signature m header \<and> elf_valid_class m header \<and> elf_valid_encoding m header
         \<and> elf_has_program_header m header then NE else - EINVFORMAT)"

section \<open>Program headers\<close>

definition elf_process_phdr_pt_load :: "u32 \<Rightarrow> u32 \<Rightarrow> memory \<Rightarrow> u32 \<times> memory" where
  "elf_process_phdr_pt_load elf_file phdr m =
     (let m1 = (if p_vaddr m phdr \<le> elf_virtual_base m elf_file \<or> elf_virtual_base m elf_file = 0
                then let m' = store32 m (elf_file + 116) (p_vaddr m phdr)
                     in store32 m' (elf_file + 124) (elf_memory m' elf_file + p_offset m' phdr)
                else m);
          end_virtual_address = p_vaddr m1 phdr + p_filesz m1 phdr;
          m2 = (if elf_virtual_end m1 elf_file \<le> end_virtual_address \<or> elf_virtual_end m1 elf_file = 0
                then let m' = store32 m1 (elf_file + 120) end_virtual_address
                     in store32 m' (elf_file + 128) (elf_memory m' elf_file + p_offset m' phdr + p_filesz m' phdr)
                else m1)
      in (0, m2))"

definition elf_process_pheader :: "u32 \<Rightarrow> u32 \<Rightarrow> memory \<Rightarrow> u32 \<times> memory" where
  "elf_process_pheader elf_file phdr m =
     (if p_type m phdr = PT_LOAD then elf_process_phdr_pt_load elf_file phdr m else (- EIO, m))"

lemma unat_u16_less: "unat (w :: u16) < 65536"
  using unsigned_less [where w = w and ?'a = nat] by simp

text \<open>The loop over the program headers from index \<open>i\<close> on; \<^verbatim>\<open>e_phnum\<close> is read in every round.\<close>

function elf_pheaders_loop :: "u32 \<Rightarrow> u32 \<Rightarrow> nat \<Rightarrow> u32 \<Rightarrow> memory \<Rightarrow> u32 \<times> memory" where
  "elf_pheaders_loop elf_file header i res m =
     (if i < unat (e_phnum m header) then
        (let (res', m') = elf_process_pheader elf_file (elf_program_header m header (of_nat i)) m
         in if res' <s 0 then (res', m') else elf_pheaders_loop elf_file header (i + 1) res' m')
      else (res, m))"
  by pat_completeness auto
termination
proof (relation "measure (\<lambda>(elf_file, header, i, res, m). 65536 - i)", goal_cases)
  case (2 elf_file header i res m)
  then show ?case using unat_u16_less [of "e_phnum m header"] by simp
qed simp

declare elf_pheaders_loop.simps [simp del]

definition elf_process_pheaders :: "u32 \<Rightarrow> memory \<Rightarrow> u32 \<times> memory" where
  "elf_process_pheaders elf_file m = elf_pheaders_loop elf_file (elf_header m elf_file) 0 0 m"

definition elf_process_loaded :: "u32 \<Rightarrow> memory \<Rightarrow> u32 \<times> memory" where
  "elf_process_loaded elf_file m =
     (let res = elf_validate_loaded m (elf_header m elf_file)
      in if res <s 0 then (res, m) else elf_process_pheaders elf_file m)"

section \<open>Loading and closing\<close>

definition elf_stat_buf :: "'a dstate_scheme \<Rightarrow> u32" where "elf_stat_buf s = kstack s + 664"

text \<open>\<^verbatim>\<open>elf_load\<close> after the allocation of the \<^verbatim>\<open>struct elf_file\<close>, up to the label \<^verbatim>\<open>out\<close>: the status and
  the descriptor to close.\<close>

definition elf_load_file :: "u32 \<Rightarrow> u32 \<Rightarrow> (u32 \<times> u32, 'a fstate_scheme) run" where
  "elf_load_file filename elf_file =
     andthen (fopen filename 0x72) (\<lambda>fd.
       if fd \<le>s 0 then ret (- EIO, 0)
       else
         andthen (gets elf_stat_buf) (\<lambda>stat. andthen (fstat fd stat) (\<lambda>res.
           if res <s 0 then ret (res, fd)
           else
             andthen (read32 (stat + 4)) (\<lambda>file_size. andthen (always (kzalloc file_size)) (\<lambda>mem_ptr.
             andthen (write32 (elf_file + 112) mem_ptr) (\<lambda>_.
               if mem_ptr = 0 then ret (- ENOMEM, fd)
               else
                 andthen (read32 (stat + 4)) (\<lambda>file_size. andthen (fread mem_ptr file_size 1 fd) (\<lambda>res.
                   if res <s 0 then ret (res, fd)
                   else andthen (always (\<lambda>s. let (r, m) = elf_process_loaded elf_file (mem s) in (r, s\<lparr>mem := m\<rparr>)))
                          (\<lambda>res. ret (res, fd))))))))))"

text \<open>The status and the value of \<^verbatim>\<open>*file_out\<close>, which is \<open>out\<close> before the call. When the first
  allocation fails the descriptor closed is a variable with no value; it is taken as 0.\<close>

definition elf_load :: "u32 \<Rightarrow> u32 \<Rightarrow> (u32 \<times> u32, 'a fstate_scheme) run" where
  "elf_load filename out =
     andthen (always (kzalloc 132)) (\<lambda>elf_file.
     andthen (if elf_file = 0 then ret (- ENOMEM, 0) else elf_load_file filename elf_file) (\<lambda>(res, fd).
     andthen (fclose fd) (\<lambda>_. ret (res, if res <s 0 then out else elf_file))))"

definition elf_close :: "u32 \<Rightarrow> 'a fstate_scheme \<Rightarrow> 'a fstate_scheme" where
  "elf_close elf_file s =
     (if elf_file = 0 then s else kfree elf_file (kfree (elf_memory (mem s) elf_file) s))"

end
