(* ===== verification/Task.thy ===== *)
theory Task
  imports Elf
begin

text \<open>
  Tasks: \<^verbatim>\<open>src/kernel/task/task.c\<close>. A \<^verbatim>\<open>struct task\<close> is 64 bytes: the page directory at 0, the saved
  registers from 4, the process at 52 and the links of the task list at 56 and 60. While a task's
  directory is loaded the kernel reads the task's memory through the page tables; \<open>mmu\<close> is the
  processor's walk of them, and an access to a page that is not present does not return (the page
  fault handler ends the task). The assembly routines \<^verbatim>\<open>kernel_registers\<close> and \<^verbatim>\<open>user_registers\<close> load
  the data segment registers, \<^verbatim>\<open>task_return\<close> leaves the kernel for the task.
\<close>

section \<open>State and fields\<close>

record tstate = fstate +
  kernel_paging_chunk :: u32
  data_segments :: u32
  current_task :: u32
  task_tail :: u32
  task_head :: u32

definition TASK_USER_DATA_SEGMENT :: u32 where [config_defs]: "TASK_USER_DATA_SEGMENT = 0x23"
definition TASK_USER_CODE_SEGMENT :: u32 where [config_defs]: "TASK_USER_CODE_SEGMENT = 0x1B"
definition TASK_USER_STACK_SIZE :: u32 where [config_defs]: "TASK_USER_STACK_SIZE = 0x4000"
definition TASK_PROGRAM_VIRTUAL_STACK_ADDR_START :: u32 where
  [config_defs]: "TASK_PROGRAM_VIRTUAL_STACK_ADDR_START = 0x3FF000"
definition KERNEL_DATA_SELECTOR :: u32 where [config_defs]: "KERNEL_DATA_SELECTOR = 0x10"
definition KERNEL_CODE_SELECTOR :: u32 where [config_defs]: "KERNEL_CODE_SELECTOR = 0x08"

definition task_page_directory :: "memory \<Rightarrow> u32 \<Rightarrow> u32" where "task_page_directory m t = load32 m t"
definition task_registers :: "u32 \<Rightarrow> u32" where "task_registers t = t + 4"
definition task_process :: "memory \<Rightarrow> u32 \<Rightarrow> u32" where "task_process m t = load32 m (t + 52)"
definition task_prev :: "memory \<Rightarrow> u32 \<Rightarrow> u32" where "task_prev m t = load32 m (t + 56)"
definition task_link :: "memory \<Rightarrow> u32 \<Rightarrow> u32" where "task_link m t = load32 m (t + 60)"

text \<open>Offsets in \<^verbatim>\<open>struct registers\<close>.\<close>

definition reg_edi :: u32 where "reg_edi = 0"
definition reg_esi :: u32 where "reg_esi = 4"
definition reg_ebp :: u32 where "reg_ebp = 8"
definition reg_ebx :: u32 where "reg_ebx = 12"
definition reg_edx :: u32 where "reg_edx = 16"
definition reg_ecx :: u32 where "reg_ecx = 20"
definition reg_eax :: u32 where "reg_eax = 24"
definition reg_eip :: u32 where "reg_eip = 28"
definition reg_cs :: u32 where "reg_cs = 32"
definition reg_eflags :: u32 where "reg_eflags = 36"
definition reg_esp :: u32 where "reg_esp = 40"
definition reg_ss :: u32 where "reg_ss = 44"

lemmas reg_defs = reg_edi_def reg_esi_def reg_ebp_def reg_ebx_def reg_edx_def reg_ecx_def reg_eax_def
  reg_eip_def reg_cs_def reg_eflags_def reg_esp_def reg_ss_def

text \<open>Offsets in \<^verbatim>\<open>struct interrupt_frame\<close> of \<^verbatim>\<open>interrupts.h\<close>.\<close>

definition frame_edi :: u32 where "frame_edi = 0"
definition frame_esi :: u32 where "frame_esi = 4"
definition frame_ebp :: u32 where "frame_ebp = 8"
definition frame_ebx :: u32 where "frame_ebx = 16"
definition frame_edx :: u32 where "frame_edx = 20"
definition frame_ecx :: u32 where "frame_ecx = 24"
definition frame_eax :: u32 where "frame_eax = 28"
definition frame_err_code :: u32 where "frame_err_code = 32"
definition frame_eip :: u32 where "frame_eip = 36"
definition frame_cs :: u32 where "frame_cs = 40"
definition frame_eflags :: u32 where "frame_eflags = 44"
definition frame_esp :: u32 where "frame_esp = 48"
definition frame_ss :: u32 where "frame_ss = 52"

lemmas frame_defs = frame_edi_def frame_esi_def frame_ebp_def frame_ebx_def frame_edx_def frame_ecx_def
  frame_eax_def frame_err_code_def frame_eip_def frame_cs_def frame_eflags_def frame_esp_def frame_ss_def

text \<open>The fields of \<^verbatim>\<open>struct process\<close> a task refers to.\<close>

definition PROCESS_FORMAT_ELF :: u8 where "PROCESS_FORMAT_ELF = 0"
definition PROCESS_FORMAT_FBIN :: u8 where "PROCESS_FORMAT_FBIN = 1"
definition process_filetype :: "memory \<Rightarrow> u32 \<Rightarrow> u8" where "process_filetype m p = m (p + 8308)"
definition process_ptr :: "memory \<Rightarrow> u32 \<Rightarrow> u32" where "process_ptr m p = load32 m (p + 8312)"

section \<open>Pages and segments\<close>

definition kernel_registers :: "'a tstate_scheme \<Rightarrow> 'a tstate_scheme" where
  "kernel_registers s = s\<lparr>data_segments := KERNEL_DATA_SELECTOR\<rparr>"

definition user_registers :: "'a tstate_scheme \<Rightarrow> 'a tstate_scheme" where
  "user_registers s = s\<lparr>data_segments := TASK_USER_DATA_SEGMENT\<rparr>"

definition kernel_page :: "'a tstate_scheme \<Rightarrow> 'a tstate_scheme" where
  "kernel_page s = (let s1 = kernel_registers s in paging_switch (kernel_paging_chunk s1) s1)"

definition task_switch :: "u32 \<Rightarrow> 'a tstate_scheme \<Rightarrow> 'a tstate_scheme" where
  "task_switch task s =
     (let s1 = s\<lparr>current_task := task\<rparr> in paging_switch (task_page_directory (mem s1) task) s1)"

definition task_page :: "'a tstate_scheme \<Rightarrow> 'a tstate_scheme" where
  "task_page s = (let s1 = user_registers s in task_switch (current_task s1) s1)"

definition task_page_task :: "u32 \<Rightarrow> 'a tstate_scheme \<Rightarrow> 'a tstate_scheme" where
  "task_page_task task s =
     (let s1 = user_registers s in paging_switch (task_page_directory (mem s1) task) s1)"

text \<open>The walk of the directory at \<open>dir\<close> for the address \<open>a\<close>.\<close>

definition mmu :: "u32 \<Rightarrow> memory \<Rightarrow> u32 \<Rightarrow> u32 option" where
  "mmu dir m a =
     (let entry = paging_get dir (paging_align_to_lower_page_addr a) m
      in if entry AND PAGING_MASKS_IS_PRESENT = 0 then None
         else Some ((entry AND 0xFFFFF000) + (a - paging_align_to_lower_page_addr a)))"

definition mmu_read8 :: "u32 \<Rightarrow> memory \<Rightarrow> u32 \<Rightarrow> u8 option" where
  "mmu_read8 dir m a = map_option m (mmu dir m a)"

definition mmu_read32 :: "u32 \<Rightarrow> memory \<Rightarrow> u32 \<Rightarrow> u32 option" where
  "mmu_read32 dir m a =
     (case (mmu_read8 dir m a, mmu_read8 dir m (a + 1), mmu_read8 dir m (a + 2), mmu_read8 dir m (a + 3)) of
        (Some b0, Some b1, Some b2, Some b3) \<Rightarrow>
          Some (word_cat b3 (word_cat b2 (word_cat b1 b0 :: u16) :: 24 word))
      | _ \<Rightarrow> None)"

text \<open>\<^verbatim>\<open>strncpy\<close> while the directory \<open>dir\<close> is loaded: both pointers go through the page tables.\<close>

definition mmu_write8 :: "u32 \<Rightarrow> u32 \<Rightarrow> u8 \<Rightarrow> memory \<Rightarrow> memory option" where
  "mmu_write8 dir a v m = map_option (\<lambda>q. m(q := v)) (mmu dir m a)"

function mmu_strncpy_loop :: "u32 \<Rightarrow> memory \<Rightarrow> u32 \<Rightarrow> u32 \<Rightarrow> u32 \<Rightarrow> memory option" where
  "mmu_strncpy_loop dir m dst src n =
     (let n' = n - 1
      in if n' = 0 \<or> n = 0 then mmu_write8 dir dst 0 m
         else case mmu_read8 dir m src of
                None \<Rightarrow> None
              | Some c \<Rightarrow>
                  if c = 0 then mmu_write8 dir dst 0 m
                  else case mmu_write8 dir dst c m of
                         None \<Rightarrow> None
                       | Some m' \<Rightarrow> mmu_strncpy_loop dir m' (dst + 1) (src + 1) n')"
  by pat_completeness auto
termination
  by (relation "measure (\<lambda>(dir, m, dst, src, n). unat n)") (auto simp: unat_minus_one unat_gt_0)

declare mmu_strncpy_loop.simps [simp del]

definition mmu_strncpy :: "u32 \<Rightarrow> memory \<Rightarrow> u32 \<Rightarrow> u32 \<Rightarrow> u32 \<Rightarrow> memory option" where
  "mmu_strncpy dir m dst src n = (if n = 0 then Some m else mmu_strncpy_loop dir m dst src n)"

section \<open>The task list\<close>

definition task_get_next :: "'a tstate_scheme \<Rightarrow> u32" where
  "task_get_next s =
     (if task_link (mem s) (current_task s) \<noteq> 0 then task_link (mem s) (current_task s) else task_head s)"

definition task_list_remove :: "u32 \<Rightarrow> 'a tstate_scheme \<Rightarrow> 'a tstate_scheme" where
  "task_list_remove task s =
     (let s1 = (if task_prev (mem s) task \<noteq> 0 then put32 (task_prev (mem s) task + 60) (task_link (mem s) task) s else s);
          s2 = (if task = task_head s1 then s1\<lparr>task_head := task_link (mem s1) task\<rparr> else s1);
          s3 = (if task = task_tail s2 then s2\<lparr>task_tail := task_prev (mem s2) task\<rparr> else s2)
      in if task = current_task s3 then s3\<lparr>current_task := task_get_next s3\<rparr> else s3)"

definition task_free :: "u32 \<Rightarrow> 'a tstate_scheme \<Rightarrow> u32 \<times> 'a tstate_scheme" where
  "task_free task s =
     (0, kfree task (task_list_remove task (paging_free_4gb (task_page_directory (mem s) task) s)))"

definition task_init :: "u32 \<Rightarrow> u32 \<Rightarrow> (u32, 'a tstate_scheme) run" where
  "task_init task process =
     andthen (modify (\<lambda>s. s\<lparr>mem := memset (mem s) task 0 64\<rparr>)) (\<lambda>_.
     andthen (from_outcome (gen_paging_4gb (ucast (PAGING_MASKS_IS_PRESENT OR PAGING_MASKS_ACCESS_ALL)))) (\<lambda>dir.
     andthen (write32 task dir) (\<lambda>_.
       if dir = 0 then ret (- EIO)
       else
         andthen (gets (\<lambda>s. if process_filetype (mem s) process = PROCESS_FORMAT_ELF
                            then e_entry (mem s) (elf_header (mem s) (process_ptr (mem s) process))
                            else TASK_PROGRAM_VIRTUAL_ADDR)) (\<lambda>eip.
         andthen (write32 (task_registers task + reg_eip) eip) (\<lambda>_.
         andthen (write32 (task_registers task + reg_ss) TASK_USER_DATA_SEGMENT) (\<lambda>_.
         andthen (write32 (task_registers task + reg_cs) TASK_USER_CODE_SEGMENT) (\<lambda>_.
         andthen (write32 (task_registers task + reg_esp) TASK_PROGRAM_VIRTUAL_STACK_ADDR_START) (\<lambda>_.
         andthen (write32 (task + 52) process) (\<lambda>_. ret 0)))))))))"

definition task_insert :: "u32 \<Rightarrow> 'a tstate_scheme \<Rightarrow> 'a tstate_scheme" where
  "task_insert task s =
     (if task_head s = 0 then s\<lparr>task_head := task, task_tail := task, current_task := task\<rparr>
      else let s1 = put32 (task_tail s + 60) task s;
               s2 = put32 (task + 56) (task_tail s1) s1
           in s2\<lparr>task_tail := task\<rparr>)"

definition task_new :: "u32 \<Rightarrow> (u32, 'a tstate_scheme) run" where
  "task_new process =
     andthen (always (kzalloc 64)) (\<lambda>task.
     andthen (if task = 0 then ret (- ENOMEM)
              else andthen (task_init task process) (\<lambda>res.
                if res \<noteq> NE then ret res else andthen (modify (task_insert task)) (\<lambda>_. ret res))) (\<lambda>res.
       if IS_ERR res then andthen (always (task_free task)) (\<lambda>_. ret res) else ret task))"

section \<open>Running\<close>

definition task_next :: "(unit, 'a tstate_scheme) run" where
  "task_next =
     andthen (gets task_get_next) (\<lambda>next_task.
       if next_task = 0 then panic (''No more tasks to start!'' @ [CHR 10])
       else andthen (modify (task_switch next_task)) (\<lambda>_. resume (task_registers next_task)))"

definition task_run_first_task :: "(unit, 'a tstate_scheme) run" where
  "task_run_first_task =
     andthen (gets current_task) (\<lambda>current.
       if current = 0 then panic (''Task run failure: No current task to execute!'' @ [CHR 10])
       else andthen (gets task_head) (\<lambda>task. andthen (modify (task_switch task)) (\<lambda>_. resume (task_registers task))))"

definition task_save_state :: "u32 \<Rightarrow> u32 \<Rightarrow> 'a tstate_scheme \<Rightarrow> 'a tstate_scheme" where
  "task_save_state task frame s =
     fold (\<lambda>(reg, field) s. put32 (task_registers task + reg) (load32 (mem s) (frame + field)) s)
       [(reg_eip, frame_eip), (reg_cs, frame_cs), (reg_eflags, frame_eflags), (reg_esp, frame_esp),
        (reg_ss, frame_ss), (reg_eax, frame_eax), (reg_ebp, frame_ebp), (reg_ebx, frame_ebx),
        (reg_ecx, frame_ecx), (reg_edi, frame_edi), (reg_edx, frame_edx), (reg_esi, frame_esi)] s"

definition task_current_save_state :: "u32 \<Rightarrow> (unit, 'a tstate_scheme) run" where
  "task_current_save_state frame =
     andthen (gets current_task) (\<lambda>task.
       if task = 0 then panic (''No task to save!'' @ [CHR 10]) else modify (task_save_state task frame))"

section \<open>Reading a task's memory\<close>

text \<open>\<^verbatim>\<open>copy_string_from_task\<close> once the buffer \<open>tmp\<close> is allocated.\<close>

definition copy_string_through :: "u32 \<Rightarrow> u32 \<Rightarrow> u32 \<Rightarrow> u32 \<Rightarrow> u32 \<Rightarrow> (u32, 'a tstate_scheme) run" where
  "copy_string_through task virtual physical max_len tmp =
     andthen (gets (\<lambda>s. d_entry (mem s) (task_page_directory (mem s) task))) (\<lambda>task_directory.
     andthen (gets (\<lambda>s. paging_get task_directory tmp (mem s))) (\<lambda>old_entry.
     andthen (modify (\<lambda>s. s\<lparr>mem := snd (paging_map (task_page_directory (mem s) task) tmp tmp
                (PAGING_MASKS_IS_WRITABLE OR PAGING_MASKS_IS_PRESENT OR PAGING_MASKS_ACCESS_ALL) (mem s))\<rparr>)) (\<lambda>_.
     andthen (modify (\<lambda>s. paging_switch (task_page_directory (mem s) task) s)) (\<lambda>_.
     andthen (changes (\<lambda>s. map_option (\<lambda>m. s\<lparr>mem := m\<rparr>) (mmu_strncpy (cr3 s) (mem s) tmp virtual max_len))) (\<lambda>_.
     andthen (modify kernel_page) (\<lambda>_.
     andthen (always (\<lambda>s. let (r, m) = paging_set task_directory tmp old_entry (mem s) in (r, s\<lparr>mem := m\<rparr>))) (\<lambda>res.
       if res <s 0 then ret (- EIO)
       else andthen (modify (\<lambda>s. s\<lparr>mem := strncpy (mem s) physical tmp max_len\<rparr>)) (\<lambda>_. ret res))))))))"

definition copy_string_from_task :: "u32 \<Rightarrow> u32 \<Rightarrow> u32 \<Rightarrow> u32 \<Rightarrow> (u32, 'a tstate_scheme) run" where
  "copy_string_from_task task virtual physical max_len =
     (if PAGING_PAGE_SIZE \<le> max_len then ret (- EINVARG)
      else andthen (always (kzalloc max_len)) (\<lambda>tmp.
        if tmp = 0 then ret (- ENOMEM)
        else andthen (copy_string_through task virtual physical max_len tmp) (\<lambda>res.
             andthen (modify (kfree tmp)) (\<lambda>_. ret res))))"

definition task_get_stack_item :: "u32 \<Rightarrow> u32 \<Rightarrow> (u32, 'a tstate_scheme) run" where
  "task_get_stack_item task idx =
     andthen (read32 (task_registers task + reg_esp)) (\<lambda>sp_ptr.
     andthen (modify (task_page_task task)) (\<lambda>_.
     andthen (perhaps (\<lambda>s. map_option (\<lambda>v. (v, s)) (mmu_read32 (cr3 s) (mem s) (sp_ptr + 4 * idx)))) (\<lambda>result.
     andthen (modify kernel_page) (\<lambda>_. ret result))))"

definition task_virtual_address_to_physical :: "u32 \<Rightarrow> u32 \<Rightarrow> 'a tstate_scheme \<Rightarrow> u32" where
  "task_virtual_address_to_physical task v_addr s =
     paging_get_physical_address (d_entry (mem s) (task_page_directory (mem s) task)) v_addr (mem s)"

end
