(* ===== verification/Process.thy ===== *)
theory Process
  imports Task
begin

text \<open>
  Processes: \<^verbatim>\<open>src/kernel/task/process.c\<close>. A \<^verbatim>\<open>struct process\<close> is 9364 bytes on the kernel heap: id,
  file name at 4, task at 112, 1024 allocations of address and size from 116, file type at 8308, the
  program memory or ELF file at 8312, stack and size, the keyboard ring from 8324 with tail and head
  at 9348 and 9352, and the arguments at 9356. The process table is a global of twelve pointers.
\<close>

section \<open>State and fields\<close>

record pstate = tstate +
  current_process :: u32
  processes :: "u32 list"

definition MAX_PROCESSES :: u32 where [config_defs]: "MAX_PROCESSES = 0xC"
definition MAX_ALLOCATIONS_ALLOWED_PER_PROCESS :: nat where "MAX_ALLOCATIONS_ALLOWED_PER_PROCESS = 1024"
definition KEYBOARD_BUFFER_SIZE :: u32 where [config_defs]: "KEYBOARD_BUFFER_SIZE = 0x400"

definition process_id :: "memory \<Rightarrow> u32 \<Rightarrow> u32" where "process_id m p = load32 m p"
definition process_task :: "memory \<Rightarrow> u32 \<Rightarrow> u32" where "process_task m p = load32 m (p + 112)"
definition process_stack :: "memory \<Rightarrow> u32 \<Rightarrow> u32" where "process_stack m p = load32 m (p + 8316)"
definition process_size :: "memory \<Rightarrow> u32 \<Rightarrow> u32" where "process_size m p = load32 m (p + 8320)"
definition process_argc :: "memory \<Rightarrow> u32 \<Rightarrow> u32" where "process_argc m p = load32 m (p + 9356)"
definition process_argv :: "memory \<Rightarrow> u32 \<Rightarrow> u32" where "process_argv m p = load32 m (p + 9360)"

text \<open>\<^verbatim>\<open>&process->allocations[i]\<close>, whose \<^verbatim>\<open>ptr\<close> is at 0 and \<^verbatim>\<open>size\<close> at 4.\<close>

definition allocation_at :: "u32 \<Rightarrow> nat \<Rightarrow> u32" where "allocation_at p i = p + 116 + 8 * of_nat i"
definition allocation_ptr :: "memory \<Rightarrow> u32 \<Rightarrow> nat \<Rightarrow> u32" where "allocation_ptr m p i = load32 m (allocation_at p i)"
definition allocation_size :: "memory \<Rightarrow> u32 \<Rightarrow> nat \<Rightarrow> u32" where "allocation_size m p i = load32 m (allocation_at p i + 4)"

definition argument_next :: "memory \<Rightarrow> u32 \<Rightarrow> u32" where "argument_next m a = load32 m (a + 512)"

definition process_page_directory :: "memory \<Rightarrow> u32 \<Rightarrow> u32" where
  "process_page_directory m p = task_page_directory m (process_task m p)"

section \<open>The process table\<close>

definition process_init :: "u32 \<Rightarrow> 'a pstate_scheme \<Rightarrow> 'a pstate_scheme" where
  "process_init process s = s\<lparr>mem := memset (mem s) process 0 9364\<rparr>"

definition get_current_process :: "'a pstate_scheme \<Rightarrow> u32" where
  "get_current_process s = current_process s"

definition get_process :: "u32 \<Rightarrow> 'a pstate_scheme \<Rightarrow> u32" where
  "get_process pid s = (if pid <s 0 \<or> MAX_PROCESSES \<le> pid then 0 else processes s ! unat pid)"

definition process_switch :: "u32 \<Rightarrow> 'a pstate_scheme \<Rightarrow> 'a pstate_scheme" where
  "process_switch process s = s\<lparr>current_process := process\<rparr>"

definition get_free_process_slot :: "'a pstate_scheme \<Rightarrow> u32" where
  "get_free_process_slot s =
     (case List.find (\<lambda>i. processes s ! i = 0) [0..<unat MAX_PROCESSES] of
        Some i \<Rightarrow> of_nat i | None \<Rightarrow> - EPROC_NOMEM)"

section \<open>Loading program data\<close>

definition binary_stat_buf :: "'a dstate_scheme \<Rightarrow> u32" where "binary_stat_buf s = kstack s + 672"

text \<open>\<^verbatim>\<open>process_load_binary\<close> between \<^verbatim>\<open>fopen\<close> and the label \<^verbatim>\<open>out\<close>.\<close>

definition process_load_binary_data :: "u32 \<Rightarrow> u32 \<Rightarrow> (u32, 'a pstate_scheme) run" where
  "process_load_binary_data fd process =
     andthen (gets binary_stat_buf) (\<lambda>stat. andthen (fstat fd stat) (\<lambda>res.
       if res \<noteq> NE then ret res
       else
         andthen (read32 (stat + 4)) (\<lambda>file_size. andthen (always (kzalloc file_size)) (\<lambda>program_data_ptr.
           if program_data_ptr = 0 then ret (- ENOMEM)
           else
             andthen (read32 (stat + 4)) (\<lambda>file_size. andthen (fread program_data_ptr file_size 1 fd) (\<lambda>n.
               if n \<noteq> 1 then ret (- EIO)
               else
                 andthen (write8 (process + 8308) PROCESS_FORMAT_FBIN) (\<lambda>_.
                 andthen (write32 (process + 8312) program_data_ptr) (\<lambda>_.
                 andthen (read32 (stat + 4)) (\<lambda>file_size.
                 andthen (write32 (process + 8320) file_size) (\<lambda>_. ret res))))))))))"

definition process_load_binary :: "u32 \<Rightarrow> u32 \<Rightarrow> (u32, 'a pstate_scheme) run" where
  "process_load_binary filename process =
     andthen (fopen filename 0x72) (\<lambda>fd.
     andthen (if fd = 0 then ret (- EIO) else process_load_binary_data fd process) (\<lambda>res.
     andthen (fclose fd) (\<lambda>_. ret res)))"

definition process_load_elf :: "u32 \<Rightarrow> u32 \<Rightarrow> (u32, 'a pstate_scheme) run" where
  "process_load_elf filename process =
     andthen (elf_load filename 0) (\<lambda>(res, elf_file).
       if res <s 0 then ret res
       else andthen (write8 (process + 8308) PROCESS_FORMAT_ELF) (\<lambda>_.
            andthen (write32 (process + 8312) elf_file) (\<lambda>_. ret res)))"

definition process_load_data :: "u32 \<Rightarrow> u32 \<Rightarrow> (u32, 'a pstate_scheme) run" where
  "process_load_data filename process =
     andthen (process_load_elf filename process) (\<lambda>res.
       if res = - EINVFORMAT then process_load_binary filename process else ret res)"

section \<open>Mapping program memory\<close>

definition user_flags :: u32 where
  "user_flags = PAGING_MASKS_ACCESS_ALL OR PAGING_MASKS_IS_PRESENT OR PAGING_MASKS_IS_WRITABLE"

definition process_map_binary :: "u32 \<Rightarrow> memory \<Rightarrow> u32 \<times> memory" where
  "process_map_binary process m =
     (0, snd (paging_map_to (process_page_directory m process) TASK_PROGRAM_VIRTUAL_ADDR (process_ptr m process)
           (paging_align_address (process_ptr m process + process_size m process)) user_flags m))"

function process_map_elf_loop :: "u32 \<Rightarrow> u32 \<Rightarrow> u32 \<Rightarrow> u32 \<Rightarrow> nat \<Rightarrow> u32 \<Rightarrow> memory \<Rightarrow> u32 \<times> memory" where
  "process_map_elf_loop process elf_file header phdrs i res m =
     (if i < unat (e_phnum m header) then
        (let phdr = phdrs + 32 * of_nat i;
             phdr_physical_addr = elf_phdr_compute_physical_address m elf_file phdr;
             flags0 = PAGING_MASKS_IS_PRESENT OR PAGING_MASKS_ACCESS_ALL;
             flags = (if p_flags m phdr AND PF_W \<noteq> 0 then flags0 OR PAGING_MASKS_IS_WRITABLE else flags0);
             (res', m') = paging_map_to (process_page_directory m process)
               (paging_align_to_lower_page_addr (p_vaddr m phdr))
               (paging_align_to_lower_page_addr phdr_physical_addr)
               (paging_align_address (phdr_physical_addr + p_memsz m phdr)) flags m
         in if res' <s 0 then (res', m')
            else process_map_elf_loop process elf_file header phdrs (i + 1) res' m')
      else (res, m))"
  by pat_completeness auto
termination
proof (relation "measure (\<lambda>(process, elf_file, header, phdrs, i, res, m). 65536 - i)", goal_cases)
  case (2 process elf_file header phdrs i res m)
  then show ?case using unat_u16_less [of "e_phnum m header"] by simp
qed simp

declare process_map_elf_loop.simps [simp del]

definition process_map_elf :: "u32 \<Rightarrow> memory \<Rightarrow> u32 \<times> memory" where
  "process_map_elf process m =
     (let elf_file = process_ptr m process;
          header = elf_header m elf_file
      in process_map_elf_loop process elf_file header (elf_pheader m header) 0 0 m)"

text \<open>The macro of the end of the stack expands to a difference.\<close>

definition process_map_memory :: "u32 \<Rightarrow> memory \<Rightarrow> u32 \<times> memory" where
  "process_map_memory process m =
     (let (res, m1) =
            (if process_filetype m process = PROCESS_FORMAT_ELF then process_map_elf process m
             else if process_filetype m process = PROCESS_FORMAT_FBIN then process_map_binary process m
             else (- EINVFORMAT, m))
      in if res <s 0 then (res, m1)
         else (res, snd (paging_map_to (process_page_directory m1 process)
                (TASK_PROGRAM_VIRTUAL_STACK_ADDR_START - TASK_USER_STACK_SIZE) (process_stack m1 process)
                (paging_align_address (process_stack m1 process + TASK_USER_STACK_SIZE)) user_flags m1)))"

section \<open>Loading a process\<close>

text \<open>The cleanup at the label \<^verbatim>\<open>out\<close> when the status is negative.\<close>

definition process_load_undo :: "u32 \<Rightarrow> 'a pstate_scheme \<Rightarrow> 'a pstate_scheme" where
  "process_load_undo process s =
     (if process = 0 then s
      else
        let s1 = (if process_task (mem s) process \<noteq> 0 then snd (task_free (process_task (mem s) process) s) else s);
            s2 = (if process_stack (mem s1) process \<noteq> 0 then kfree (process_stack (mem s1) process) s1 else s1);
            s3 = (if process_ptr (mem s2) process \<noteq> 0 then kfree (process_ptr (mem s2) process) s2 else s2)
        in kfree process s3)"

text \<open>From the loaded program data on: stack, name, task, mapping, table entry. The second component
  is the value of \<^verbatim>\<open>*process\<close> when it was assigned. A null task ends it with status 0.\<close>

definition process_start :: "u32 \<Rightarrow> u32 \<Rightarrow> u32 \<Rightarrow> (u32 \<times> u32 option, 'a pstate_scheme) run" where
  "process_start filename process process_slot =
     andthen (always (kzalloc TASK_USER_STACK_SIZE)) (\<lambda>program_stack_ptr.
       if program_stack_ptr = 0 then ret (- ENOMEM, None)
       else
         andthen (write32 (process + 8316) program_stack_ptr) (\<lambda>_.
         andthen (modify (\<lambda>s. s\<lparr>mem := strncpy (mem s) (process + 4) filename FS_MAX_PATH_LEN\<rparr>)) (\<lambda>_.
         andthen (write32 process process_slot) (\<lambda>_.
         andthen (task_new process) (\<lambda>task.
           if task = 0 then ret (task, None)
           else
             andthen (write32 (process + 112) task) (\<lambda>_.
             andthen (always (\<lambda>s. let (r, m) = process_map_memory process (mem s) in (r, s\<lparr>mem := m\<rparr>))) (\<lambda>res.
               if res <s 0 then ret (res, None)
               else andthen (modify (\<lambda>s. s\<lparr>processes := (processes s)[unat process_slot := process]\<rparr>)) (\<lambda>_.
                    ret (res, Some process)))))))))"

text \<open>The status and \<^verbatim>\<open>*process\<close>, which is \<open>out\<close> before the call. When the slot is taken \<^verbatim>\<open>_process\<close>
  has no value at the cleanup; it is taken as null.\<close>

definition process_load_for_slot :: "u32 \<Rightarrow> u32 \<Rightarrow> u32 \<Rightarrow> (u32 \<times> u32, 'a pstate_scheme) run" where
  "process_load_for_slot filename out process_slot =
     andthen (gets (get_process process_slot)) (\<lambda>taken.
       if taken \<noteq> 0 then ret (- EPID_ISTKN, out)
       else
         andthen (always (kzalloc 9364)) (\<lambda>process.
         andthen (if process = 0 then ret (- ENOMEM, None)
                  else
                    andthen (modify (process_init process)) (\<lambda>_.
                    andthen (process_load_data filename process) (\<lambda>res.
                      if res <s 0 then ret (res, None) else process_start filename process process_slot))) (\<lambda>(res, assigned).
         andthen (modify (if res <s 0 then process_load_undo process else id)) (\<lambda>_.
           ret (res, case assigned of Some p \<Rightarrow> p | None \<Rightarrow> out)))))"

definition process_load :: "u32 \<Rightarrow> u32 \<Rightarrow> (u32 \<times> u32, 'a pstate_scheme) run" where
  "process_load filename out =
     andthen (gets get_free_process_slot) (\<lambda>process_slot.
       if process_slot <s 0 then ret (- EPROC_NOMEM, out) else process_load_for_slot filename out process_slot)"

definition process_load_switch :: "u32 \<Rightarrow> u32 \<Rightarrow> (u32 \<times> u32, 'a pstate_scheme) run" where
  "process_load_switch filename out =
     andthen (process_load filename out) (\<lambda>(res, process).
       if res = 0 then andthen (modify (process_switch process)) (\<lambda>_. ret (res, process)) else ret (res, process))"

section \<open>Memory of a process\<close>

definition process_find_free_allocation_slot :: "u32 \<Rightarrow> memory \<Rightarrow> u32" where
  "process_find_free_allocation_slot process m =
     (case List.find (\<lambda>i. allocation_ptr m process i = 0) [0..<MAX_ALLOCATIONS_ALLOWED_PER_PROCESS] of
        Some i \<Rightarrow> of_nat i | None \<Rightarrow> - ENOMEM)"

definition process_malloc :: "u32 \<Rightarrow> u32 \<Rightarrow> 'a pstate_scheme \<Rightarrow> u32 \<times> 'a pstate_scheme" where
  "process_malloc process sz s =
     (let idx = process_find_free_allocation_slot process (mem s)
      in if idx <s 0 then (0, s)
         else
           let (ptr, s1) = kzalloc sz s
           in if ptr = 0 then (0, s1)
              else
                let (res, m) = paging_map_to (process_page_directory (mem s1) process) ptr ptr
                      (paging_align_address (ptr + sz)) user_flags (mem s1);
                    s2 = s1\<lparr>mem := m\<rparr>
                in if res <s 0 then (0, kfree ptr s2)
                   else (ptr, put32 (allocation_at process (unat idx) + 4) sz
                               (put32 (allocation_at process (unat idx)) ptr s2)))"

definition process_free :: "u32 \<Rightarrow> u32 \<Rightarrow> 'a pstate_scheme \<Rightarrow> 'a pstate_scheme" where
  "process_free process ptr s =
     (case List.find (\<lambda>i. allocation_ptr (mem s) process i = ptr) [0..<MAX_ALLOCATIONS_ALLOWED_PER_PROCESS] of
        None \<Rightarrow> s
      | Some i \<Rightarrow>
          let pa_ptr = allocation_ptr (mem s) process i;
              (res, m) = paging_map_to (process_page_directory (mem s) process) pa_ptr pa_ptr
                (paging_align_address (pa_ptr + allocation_size (mem s) process i)) 0 (mem s);
              s1 = s\<lparr>mem := m\<rparr>
          in if res <s 0 then s1
             else kfree ptr (put32 (allocation_at process i + 4) 0 (put32 (allocation_at process i) 0 s1)))"

section \<open>Arguments\<close>

text \<open>\<^verbatim>\<open>*argc\<close> and \<^verbatim>\<open>*argv\<close> are stored at the two addresses.\<close>

definition process_get_arguments :: "u32 \<Rightarrow> u32 \<Rightarrow> u32 \<Rightarrow> 'a pstate_scheme \<Rightarrow> 'a pstate_scheme" where
  "process_get_arguments process argc_at argv_at s =
     (let s1 = put32 argc_at (process_argc (mem s) process) s
      in put32 argv_at (process_argv (mem s1) process) s1)"

partial_function (option) count_arguments_loop :: "u32 \<Rightarrow> u32 \<Rightarrow> memory \<Rightarrow> u32 option" where
  "count_arguments_loop current i m =
     (if current \<noteq> 0 then count_arguments_loop (argument_next m current) (i + 1) m else Some i)"

definition process_count_command_arguments :: "u32 \<Rightarrow> memory \<Rightarrow> u32 option" where
  "process_count_command_arguments root_argument m = count_arguments_loop root_argument 0 m"

partial_function (option) inject_arguments_loop ::
  "u32 \<Rightarrow> u32 \<Rightarrow> u32 \<Rightarrow> u32 \<Rightarrow> u32 \<Rightarrow> 'a pstate_scheme \<Rightarrow> (u32 \<times> 'a pstate_scheme) option" where
  "inject_arguments_loop process argc argv current i s =
     (if current \<noteq> 0 then
        (let (argument_str, s1) = process_malloc process 512 s
         in if argument_str = 0 then Some (- ENOMEM, s1)
            else
              let s2 = s1\<lparr>mem := strncpy (mem s1) argument_str current 512\<rparr>;
                  s3 = put32 (argv + 4 * i) argument_str s2
              in inject_arguments_loop process argc argv (argument_next (mem s3) current) (i + 1) s3)
      else Some (0, put32 (process + 9360) argv (put32 (process + 9356) argc s)))"

definition process_inject_arguments :: "u32 \<Rightarrow> u32 \<Rightarrow> 'a pstate_scheme \<Rightarrow> (u32 \<times> 'a pstate_scheme) option" where
  "process_inject_arguments process root_argument s =
     (case process_count_command_arguments root_argument (mem s) of
        None \<Rightarrow> None
      | Some argc \<Rightarrow>
          if argc = 0 then Some (- EIO, s)
          else
            let (argv, s1) = process_malloc process (4 * argc) s
            in if argv = 0 then Some (- ENOMEM, s1)
               else inject_arguments_loop process argc argv root_argument 0 s1)"

section \<open>Termination of a process\<close>

definition process_terminal_allocations :: "u32 \<Rightarrow> 'a pstate_scheme \<Rightarrow> u32 \<times> 'a pstate_scheme" where
  "process_terminal_allocations process s =
     (0, fold (\<lambda>i s. if allocation_ptr (mem s) process i \<noteq> 0
                     then process_free process (allocation_ptr (mem s) process i) s else s)
           [0..<MAX_ALLOCATIONS_ALLOWED_PER_PROCESS] s)"

definition process_unload_process :: "u32 \<Rightarrow> 'a pstate_scheme \<Rightarrow> u32 \<times> 'a pstate_scheme" where
  "process_unload_process process s =
     (if process_filetype (mem s) process = PROCESS_FORMAT_FBIN then (0, kfree (process_ptr (mem s) process) s)
      else if process_filetype (mem s) process = PROCESS_FORMAT_ELF then (0, elf_close (process_ptr (mem s) process) s)
      else (- EINVARG, s))"

definition process_switch_available :: "(unit, 'a pstate_scheme) run" where
  "process_switch_available s =
     (case List.find (\<lambda>p. p \<noteq> 0) (processes s) of
        Some p \<Rightarrow> ret () (process_switch p s)
      | None \<Rightarrow> panic (''No process to switch too!'' @ [CHR 10]) s)"

definition process_unlink :: "u32 \<Rightarrow> (unit, 'a pstate_scheme) run" where
  "process_unlink process =
     andthen (modify (\<lambda>s. s\<lparr>processes := (processes s)[unat (process_id (mem s) process) := 0]\<rparr>)) (\<lambda>_.
     andthen (gets current_process) (\<lambda>current.
       if current = process then process_switch_available else ret ()))"

definition process_terminate :: "u32 \<Rightarrow> (u32, 'a pstate_scheme) run" where
  "process_terminate process =
     andthen (always (process_terminal_allocations process)) (\<lambda>res.
       if res <s 0 then ret res
       else
         andthen (always (process_unload_process process)) (\<lambda>res.
         andthen (modify (\<lambda>s. kfree (process_stack (mem s) process) s)) (\<lambda>_.
         andthen (modify (\<lambda>s. snd (task_free (process_task (mem s) process) s))) (\<lambda>_.
         andthen (process_unlink process) (\<lambda>_. ret res)))))"

end
