(* ===== verification/Idt.thy ===== *)
theory Idt
  imports Process
begin

text \<open>
  The interrupt descriptor table and the callback registration of \<^verbatim>\<open>src/kernel/idt/idt.c\<close>. A gate is eight
  bytes of memory at \<open>idt_at\<close>; \<open>gate_at\<close> reads one the way the processor does. The handlers of the
  assembly file are addresses. A callback is one of the handlers of the program, named by a constructor;
  it is run in the theory \<open>Interrupts\<close>. Bytes written to ports are recorded.
\<close>

section \<open>State\<close>

datatype callback = Int_zero | Invalid_opcode_fault | Int_gp_fault | Page_fault | Timer_interrupt | Classic_keyboard

record istate = pstate +
  idt_at :: u32
  idtr_at :: u32
  idt_register :: "u16 \<times> u32"
  interrupt_pointer_table :: "nat \<Rightarrow> u32"
  isr80h_wrapper :: u32
  interrupt_callbacks :: "callback option list"
  port_writes :: "(u16 \<times> u8) list"

definition IDT_MAX_ENTRIES :: u32 where [config_defs]: "IDT_MAX_ENTRIES = 0x100"
definition IDT_ENTRY_MASK_LOW_OFFSET :: u32 where "IDT_ENTRY_MASK_LOW_OFFSET = 0xFFFF"
definition INTERRUPT_GATE_KERNEL_SPACE :: u8 where "INTERRUPT_GATE_KERNEL_SPACE = 0x8E"
definition INTERRUPT_GATE_USER_SPACE :: u8 where "INTERRUPT_GATE_USER_SPACE = 0xEE"

definition outb :: "u16 \<Rightarrow> u8 \<Rightarrow> 'a istate_scheme \<Rightarrow> 'a istate_scheme" where
  "outb port val s = s\<lparr>port_writes := port_writes s @ [(port, val)]\<rparr>"

section \<open>Gates\<close>

definition idt_set :: "nat \<Rightarrow> u32 \<Rightarrow> u16 \<Rightarrow> u8 \<Rightarrow> 'a istate_scheme \<Rightarrow> 'a istate_scheme" where
  "idt_set interrupt_number addr selector type_attr s =
     (let d = idt_at s + 8 * of_nat interrupt_number;
          m1 = store16 (mem s) d (ucast (addr AND IDT_ENTRY_MASK_LOW_OFFSET));
          m2 = store16 m1 (d + 2) selector;
          m3 = m2(d + 4 := 0);
          m4 = m3(d + 5 := type_attr);
          m5 = store16 m4 (d + 6) (ucast (drop_bit 16 addr))
      in s\<lparr>mem := m5\<rparr>)"

definition idt_load :: "u32 \<Rightarrow> 'a istate_scheme \<Rightarrow> 'a istate_scheme" where
  "idt_load ptr s = s\<lparr>idt_register := (load16 (mem s) ptr, load32 (mem s) (ptr + 2))\<rparr>"

definition idt_register_interrupt_callback :: "u32 \<Rightarrow> callback \<Rightarrow> 'a istate_scheme \<Rightarrow> u32 \<times> 'a istate_scheme" where
  "idt_register_interrupt_callback interrupt_id callback s =
     (if interrupt_id <s 0 \<or> IDT_MAX_ENTRIES \<le>s interrupt_id then (- EINVARG, s)
      else (NE, s\<lparr>interrupt_callbacks := (interrupt_callbacks s)[unat interrupt_id := Some callback]\<rparr>))"

definition register_callback :: "u32 \<Rightarrow> callback \<Rightarrow> 'a istate_scheme \<Rightarrow> 'a istate_scheme" where
  "register_callback interrupt_id callback s = snd (idt_register_interrupt_callback interrupt_id callback s)"

definition idt_init :: "'a istate_scheme \<Rightarrow> 'a istate_scheme" where
  "idt_init s =
     (let s1 = s\<lparr>mem := memset (mem s) (idt_at s) 0 2048\<rparr>;
          s2 = s1\<lparr>mem := store16 (mem s1) (idtr_at s1) (2048 - 1)\<rparr>;
          s3 = s2\<lparr>mem := store32 (mem s2) (idtr_at s2 + 2) (idt_at s2)\<rparr>;
          s4 = idt_load (idtr_at s3) s3;
          s5 = fold (\<lambda>i s. idt_set i (interrupt_pointer_table s i) (ucast KERNEL_CODE_SELECTOR) INTERRUPT_GATE_KERNEL_SPACE s)
                 [0..<unat IDT_MAX_ENTRIES] s4;
          s6 = idt_set 0x80 (isr80h_wrapper s5) (ucast KERNEL_CODE_SELECTOR) INTERRUPT_GATE_USER_SPACE s5;
          s7 = register_callback 0 Int_zero s6;
          s8 = register_callback 6 Invalid_opcode_fault s7;
          s9 = register_callback 13 Int_gp_fault s8;
          s10 = register_callback 14 Page_fault s9
      in register_callback 0x20 Timer_interrupt s10)"

section \<open>The processor's reading of a gate\<close>

definition gate_at :: "memory \<Rightarrow> u32 \<Rightarrow> u32 \<times> u16 \<times> u8" where
  "gate_at m d = (push_bit 16 (ucast (load16 m (d + 6))) OR ucast (load16 m d), load16 m (d + 2), m (d + 5))"

end
