(* ===== verification/Keyboard.thy ===== *)
theory Keyboard
  imports Idt
begin

text \<open>
  The keyboard layer \<^verbatim>\<open>src/kernel/keyboard/keyboard.c\<close> and the PS/2 driver \<^verbatim>\<open>classic.c\<close>. Each process
  has a ring of 1024 characters; \<^verbatim>\<open>tail\<close> and \<^verbatim>\<open>head\<close> count the characters pushed and popped. A
  \<^verbatim>\<open>struct keyboard\<close> is 48 bytes: \<^verbatim>\<open>init\<close>, the name, \<^verbatim>\<open>next\<close> at 40 and the caps-lock state at 44. The
  bytes the keyboard controller delivers on port 0x60 are a sequence given from outside.
\<close>

section \<open>State\<close>

record kbstate = istate +
  keyboard_list_head :: u32
  keyboard_list_tail :: u32
  classic_keyboard_at :: u32
  keyboard_port :: "nat \<Rightarrow> u8"
  keyboard_reads :: nat
  scan_set_behind :: u8

named_theorems keyboard_defs \<open>constants of keyboard.h and classic.h\<close>

definition KEYBOARD_CAPS_LOCK_ON :: u32 where [keyboard_defs]: "KEYBOARD_CAPS_LOCK_ON = 1"
definition KEYBOARD_CAPS_LOCK_OFF :: u32 where [keyboard_defs]: "KEYBOARD_CAPS_LOCK_OFF = 0"
definition PS2_PORT :: u16 where [keyboard_defs]: "PS2_PORT = 0x64"
definition PS2_ENABLE_FIRST_PORT :: u8 where [keyboard_defs]: "PS2_ENABLE_FIRST_PORT = 0xAE"
definition CLASSIC_KEYBOARD_KEY_RELEASED :: u8 where [keyboard_defs]: "CLASSIC_KEYBOARD_KEY_RELEASED = 0x80"
definition ISR_KEYBOARD_INTERRUPT :: u32 where [keyboard_defs]: "ISR_KEYBOARD_INTERRUPT = 0x21"
definition CLASSIC_KEYBOARD_CAPS_LOCK_SCAN_CODE :: u8 where
  [keyboard_defs]: "CLASSIC_KEYBOARD_CAPS_LOCK_SCAN_CODE = 0x3A"

definition keyboard_caps_lock_state :: "memory \<Rightarrow> u32 \<Rightarrow> u32" where "keyboard_caps_lock_state m k = load32 m (k + 44)"

text \<open>The ring of a process.\<close>

definition ring_at :: "u32 \<Rightarrow> u32" where "ring_at p = p + 8324"
definition ring_tail :: "memory \<Rightarrow> u32 \<Rightarrow> u32" where "ring_tail m p = load32 m (p + 9348)"
definition ring_head :: "memory \<Rightarrow> u32 \<Rightarrow> u32" where "ring_head m p = load32 m (p + 9352)"

section \<open>The ring\<close>

text \<open>\<^verbatim>\<open>tail\<close> is an \<^verbatim>\<open>int\<close>, \<^verbatim>\<open>sizeof\<close> is unsigned: the remainder is the unsigned one.\<close>

definition keyboard_get_tail_index :: "memory \<Rightarrow> u32 \<Rightarrow> u32" where
  "keyboard_get_tail_index m process = ring_tail m process mod KEYBOARD_BUFFER_SIZE"

definition keyboard_backspace :: "u32 \<Rightarrow> 'a kbstate_scheme \<Rightarrow> 'a kbstate_scheme" where
  "keyboard_backspace process s =
     (let s1 = put32 (process + 9348) (ring_tail (mem s) process - 1) s;
          real_idx = keyboard_get_tail_index (mem s1) process
      in s1\<lparr>mem := (mem s1)(ring_at process + real_idx := 0)\<rparr>)"

definition keyboard_push :: "u8 \<Rightarrow> 'a kbstate_scheme \<Rightarrow> 'a kbstate_scheme" where
  "keyboard_push c s =
     (let process = get_current_process s
      in if process = 0 then s
         else if c = 0 then s
         else
           let real_idx = keyboard_get_tail_index (mem s) process;
               s1 = s\<lparr>mem := (mem s)(ring_at process + real_idx := c)\<rparr>
           in put32 (process + 9348) (ring_tail (mem s1) process + 1) s1)"

definition keyboard_pop :: "'a kbstate_scheme \<Rightarrow> u8 \<times> 'a kbstate_scheme" where
  "keyboard_pop s =
     (if current_task s = 0 then (0, s)
      else
        let process = task_process (mem s) (current_task s);
            real_idx = ring_head (mem s) process mod KEYBOARD_BUFFER_SIZE;
            c = mem s (ring_at process + real_idx)
        in if c = 0 then (0, s)
           else
             let s1 = s\<lparr>mem := (mem s)(ring_at process + real_idx := 0)\<rparr>
             in (c, put32 (process + 9352) (ring_head (mem s1) process + 1) s1))"

definition keyboard_set_caps_lock :: "u32 \<Rightarrow> u32 \<Rightarrow> 'a kbstate_scheme \<Rightarrow> 'a kbstate_scheme" where
  "keyboard_set_caps_lock keyboard state s = put32 (keyboard + 44) state s"

definition keyboard_get_caps_lock :: "u32 \<Rightarrow> 'a kbstate_scheme \<Rightarrow> u32" where
  "keyboard_get_caps_lock keyboard s = keyboard_caps_lock_state (mem s) keyboard"

section \<open>The classic driver\<close>

definition keyboard_scan_set_one :: "u8 list" where
  "keyboard_scan_set_one =
     [0x00, 0x1B] @ map of_char ''1234567890-='' @
     [0x08, 0x09] @ map of_char ''QWERTYUIOP[]'' @
     [0x0D, 0x00] @ map of_char ''ASDFGHJKL;'' @ [0x27, 0x60] @
     [0x00, 0x5C] @ map of_char ''ZXCVBNM,./'' @ [0x00, of_char CHR ''*''] @
     [0x00, 0x20, 0x00, 0x00, 0x00, 0x00,
      0x00, 0x00, 0x00, 0x00, 0x00, 0x00,
      0x00] @ map of_char ''789-456+1230.''"

text \<open>The bound lets the length of the table through; the byte behind the table is then what the
  linker put there, \<open>scan_set_behind\<close>.\<close>

definition classic_keyboard_scancode_to_char :: "u8 \<Rightarrow> 'a kbstate_scheme \<Rightarrow> u8" where
  "classic_keyboard_scancode_to_char scancode s =
     (let size_of_keyboard_set_one = length keyboard_scan_set_one
      in if size_of_keyboard_set_one < unat scancode then 0
         else
           let c = (if unat scancode = size_of_keyboard_set_one then scan_set_behind s else keyboard_scan_set_one ! unat scancode)
           in if keyboard_get_caps_lock (classic_keyboard_at s) s = KEYBOARD_CAPS_LOCK_OFF
                 \<and> 0x41 \<le>s c \<and> c \<le>s 0x5A
              then c + 32 else c)"

definition classic_keyboard_init :: "'a kbstate_scheme \<Rightarrow> u32 \<times> 'a kbstate_scheme" where
  "classic_keyboard_init s =
     (let s1 = register_callback ISR_KEYBOARD_INTERRUPT Classic_keyboard s;
          s2 = keyboard_set_caps_lock (classic_keyboard_at s1) KEYBOARD_CAPS_LOCK_OFF s1
      in (0, outb PS2_PORT PS2_ENABLE_FIRST_PORT s2))"

definition insb_keyboard :: "'a kbstate_scheme \<Rightarrow> u8 \<times> 'a kbstate_scheme" where
  "insb_keyboard s = (keyboard_port s (keyboard_reads s), s\<lparr>keyboard_reads := Suc (keyboard_reads s)\<rparr>)"

definition classic_keyboard_handle_interrupt :: "'a kbstate_scheme \<Rightarrow> 'a kbstate_scheme" where
  "classic_keyboard_handle_interrupt s =
     (let s1 = kernel_page s;
          (scancode, s2) = insb_keyboard s1;
          s3 = snd (insb_keyboard s2)
      in if scancode AND CLASSIC_KEYBOARD_KEY_RELEASED \<noteq> 0 then s3
         else
           let s4 = (if scancode = CLASSIC_KEYBOARD_CAPS_LOCK_SCAN_CODE
                     then keyboard_set_caps_lock (classic_keyboard_at s3)
                            (keyboard_get_caps_lock (classic_keyboard_at s3) s3 XOR KEYBOARD_CAPS_LOCK_ON) s3
                     else s3);
               c = classic_keyboard_scancode_to_char scancode s4;
               s5 = (if c \<noteq> 0 then keyboard_push c s4 else s4)
           in task_page s5)"

definition classic_init :: "'a kbstate_scheme \<Rightarrow> u32" where
  "classic_init s = classic_keyboard_at s"

section \<open>The list of keyboards\<close>

text \<open>A call of \<^verbatim>\<open>keyboard->init\<close>: the only keyboard of the program is the classic one.\<close>

definition keyboard_insert :: "u32 \<Rightarrow> (u32, 'a kbstate_scheme) run" where
  "keyboard_insert keyboard =
     andthen (read32 keyboard) (\<lambda>init.
       if init = 0
       then andthen (modify (print_lit ''Keyboard doesn't have init function.'')) (\<lambda>_. ret (- EINVARG))
       else
         andthen (modify (\<lambda>s.
           if keyboard_list_tail s \<noteq> 0
           then (put32 (keyboard_list_tail s + 40) keyboard s)\<lparr>keyboard_list_tail := keyboard\<rparr>
           else s\<lparr>keyboard_list_head := keyboard, keyboard_list_tail := keyboard\<rparr>)) (\<lambda>_.
         andthen (gets classic_keyboard_at) (\<lambda>classic.
           if keyboard = classic then always classic_keyboard_init else never)))"

definition keyboard_init :: "(unit, 'a kbstate_scheme) run" where
  "keyboard_init = andthen (gets classic_init) (\<lambda>k. andthen (keyboard_insert k) (\<lambda>_. ret ()))"

end
