(* ===== verification/Syscalls.thy ===== *)
theory Syscalls
  imports Keyboard
begin

text \<open>
  System calls: \<^verbatim>\<open>src/kernel/isr80h/\<close> and the registration and dispatch of \<^verbatim>\<open>idt/interrupts.c\<close>. A handler
  is named by a constructor; \<open>run_command\<close> is the call through the table. The local arrays of the
  handlers lie at fixed distances from \<open>kstack\<close>, disjoint from those of the file system.
\<close>

section \<open>State\<close>

datatype command = Cmd_exit | Cmd_print | Cmd_print_ext | Cmd_get_key | Cmd_putchar | Cmd_malloc | Cmd_free
  | Cmd_process_load_start | Cmd_invoke_sys_command | Cmd_get_process_arguments

record sstate = kbstate +
  isr80h_commands :: "command option list"

definition MAX_SYSCALL_HANDLE_COMMANDS :: u32 where [config_defs]: "MAX_SYSCALL_HANDLE_COMMANDS = 0x400"

definition syscall_ids :: "(u32 \<times> command) list" where
  "syscall_ids =
     [(0, Cmd_exit), (1, Cmd_print), (2, Cmd_print_ext), (3, Cmd_get_key), (4, Cmd_putchar), (5, Cmd_malloc),
      (6, Cmd_free), (7, Cmd_process_load_start), (8, Cmd_invoke_sys_command), (9, Cmd_get_process_arguments)]"

text \<open>The local arrays. \<^verbatim>\<open>tss.esp0\<close> is 0x600000, so \<open>kstack\<close> and all of them lie below it, above the text buffer.\<close>

definition char_buf :: "'a dstate_scheme \<Rightarrow> u32" where "char_buf s = kstack s + 680"
definition start_filename_buf :: "'a dstate_scheme \<Rightarrow> u32" where "start_filename_buf s = kstack s + 688"
definition path_buf :: "'a dstate_scheme \<Rightarrow> u32" where "path_buf s = kstack s + 800"
definition print_buf :: "'a dstate_scheme \<Rightarrow> u32" where "print_buf s = kstack s + 1024"

section \<open>Input and output (\<^verbatim>\<open>io.c\<close>)\<close>

definition isr_sys_print :: "(u32, 'a sstate_scheme) run" where
  "isr_sys_print =
     andthen (gets current_task) (\<lambda>task. andthen (task_get_stack_item task 0) (\<lambda>user_space_msg_buf.
     andthen (gets print_buf) (\<lambda>buf. andthen (gets current_task) (\<lambda>task.
     andthen (copy_string_from_task task user_space_msg_buf buf 1024) (\<lambda>_.
     andthen (changes (print buf)) (\<lambda>_. ret 0))))))"

partial_function (option) print_ext_loop :: "u32 \<Rightarrow> u32 \<Rightarrow> u32 \<Rightarrow> u32 \<Rightarrow> (unit, 'a sstate_scheme) run" where
  "print_ext_loop msg_buf_addr buf size_requested ctr s =
     (if size_requested \<noteq> 0 then
        andthen (gets current_task) (\<lambda>task.
          if size_requested <s 1024
          then andthen (copy_string_from_task task (msg_buf_addr + ctr) (buf + ctr) size_requested) (\<lambda>_.
                 print_ext_loop msg_buf_addr buf 0 (ctr + 1024))
          else andthen (copy_string_from_task task (msg_buf_addr + ctr) (buf + ctr) 1024) (\<lambda>_.
                 print_ext_loop msg_buf_addr buf (size_requested - 1024) (ctr + 1024))) s
      else ret () s)"

definition isr_sys_print_ext :: "(u32, 'a sstate_scheme) run" where
  "isr_sys_print_ext =
     andthen (gets current_task) (\<lambda>task. andthen (task_get_stack_item task 0) (\<lambda>size_requested.
     andthen (gets current_task) (\<lambda>task. andthen (task_get_stack_item task 1) (\<lambda>msg_buf_addr.
       if size_requested \<le>s 0 then ret (- 1)
       else if size_requested <s 1025 then
         andthen (gets print_buf) (\<lambda>buf. andthen (gets current_task) (\<lambda>task.
         andthen (copy_string_from_task task msg_buf_addr buf size_requested) (\<lambda>_.
         andthen (changes (print buf)) (\<lambda>_. ret 0))))
       else if 0x1000 <s size_requested then ret (- 2)
       else
         andthen (always (kzalloc size_requested)) (\<lambda>buf.
           if buf = 0 then ret (- ENOMEM)
           else
             andthen (print_ext_loop msg_buf_addr buf size_requested 0) (\<lambda>_.
             andthen (changes (print buf)) (\<lambda>_. andthen (modify (kfree buf)) (\<lambda>_. ret 0))))))))"

definition sys_get_key :: "(u32, 'a sstate_scheme) run" where
  "sys_get_key = andthen (always keyboard_pop) (\<lambda>c. ret (scast c))"

text \<open>\<^verbatim>\<open>terminal_write(&c)\<close> reads on behind the one character until it meets a zero byte.\<close>

definition sys_putchar :: "(u32, 'a sstate_scheme) run" where
  "sys_putchar =
     andthen (gets current_task) (\<lambda>task. andthen (task_get_stack_item task 0) (\<lambda>v.
     andthen (gets char_buf) (\<lambda>c. andthen (write8 c (ucast v)) (\<lambda>_.
     andthen (changes (terminal_write c)) (\<lambda>_. ret 0)))))"

section \<open>Memory (\<^verbatim>\<open>memory.c\<close>) and \<^verbatim>\<open>misc.c\<close>\<close>

definition sys_malloc :: "(u32, 'a sstate_scheme) run" where
  "sys_malloc =
     andthen (gets current_task) (\<lambda>task. andthen (task_get_stack_item task 0) (\<lambda>sz.
     andthen (gets (\<lambda>s. task_process (mem s) task)) (\<lambda>process. always (process_malloc process sz))))"

definition isr_sys_free :: "(u32, 'a sstate_scheme) run" where
  "isr_sys_free =
     andthen (gets current_task) (\<lambda>task. andthen (task_get_stack_item task 0) (\<lambda>ptr.
     andthen (gets (\<lambda>s. task_process (mem s) task)) (\<lambda>process.
     andthen (modify (process_free process ptr)) (\<lambda>_. ret 0))))"

definition sys_sum :: "(u32, 'a sstate_scheme) run" where
  "sys_sum =
     andthen (gets current_task) (\<lambda>task. andthen (task_get_stack_item task 1) (\<lambda>v2.
     andthen (gets current_task) (\<lambda>task. andthen (task_get_stack_item task 0) (\<lambda>v1. ret (v1 + v2)))))"

section \<open>Processes (\<^verbatim>\<open>process.c\<close>)\<close>

text \<open>Leaving for the task of a process.\<close>

definition run_process :: "u32 \<Rightarrow> (u32, 'a sstate_scheme) run" where
  "run_process process =
     andthen (modify (\<lambda>s. task_switch (process_task (mem s) process) s)) (\<lambda>_.
     andthen (gets (\<lambda>s. task_registers (process_task (mem s) process))) (\<lambda>regs. resume regs))"

definition drive_prefix :: "u8 list" where "drive_prefix = [0x30, 0x3A, 0x2F, 0]"

definition sys_process_load_start :: "(u32, 'a sstate_scheme) run" where
  "sys_process_load_start =
     andthen (gets current_task) (\<lambda>task. andthen (task_get_stack_item task 0) (\<lambda>filename_ptr.
     andthen (gets start_filename_buf) (\<lambda>filename. andthen (gets current_task) (\<lambda>task.
     andthen (copy_string_from_task task filename_ptr filename FS_MAX_PATH_LEN) (\<lambda>res.
       if res <s 0 then ret res
       else
         andthen (gets path_buf) (\<lambda>path.
         andthen (modify (\<lambda>s. s\<lparr>mem := put_bytes (mem s) path drive_prefix\<rparr>)) (\<lambda>_.
         andthen (changes (\<lambda>s. map_option (\<lambda>m. s\<lparr>mem := m\<rparr>) (strcpy (mem s) (path + 3) filename))) (\<lambda>_.
         andthen (process_load_switch path 0) (\<lambda>(res, process).
           if res <s 0 then ret res else run_process process)))))))))"

definition sys_invoke_sys_command :: "(u32, 'a sstate_scheme) run" where
  "sys_invoke_sys_command =
     andthen (gets current_task) (\<lambda>task. andthen (task_get_stack_item task 0) (\<lambda>v_addr.
     andthen (gets (task_virtual_address_to_physical task v_addr)) (\<lambda>arguments.
     andthen (if arguments = 0 then ret 0 else perhaps (\<lambda>s. map_option (\<lambda>n. (n, s)) (strlen (mem s) arguments))) (\<lambda>len.
       if len = 0 then ret (- EINVARG)
       else
         andthen (gets path_buf) (\<lambda>path.
         andthen (modify (\<lambda>s. s\<lparr>mem := put_bytes (mem s) path drive_prefix\<rparr>)) (\<lambda>_.
         andthen (modify (\<lambda>s. s\<lparr>mem := strncpy (mem s) (path + 3) arguments FS_MAX_PATH_LEN\<rparr>)) (\<lambda>_.
         andthen (process_load_switch path 0) (\<lambda>(res, process).
           if res <s 0 then ret res
           else andthen (perhaps (process_inject_arguments process arguments)) (\<lambda>res.
             if res <s 0 then ret res else run_process process)))))))))"

definition sys_get_process_arguments :: "(u32, 'a sstate_scheme) run" where
  "sys_get_process_arguments =
     andthen (gets current_task) (\<lambda>task.
     andthen (gets (\<lambda>s. task_process (mem s) task)) (\<lambda>process. andthen (task_get_stack_item task 0) (\<lambda>v_addr.
     andthen (gets (task_virtual_address_to_physical task v_addr)) (\<lambda>arguments.
     andthen (modify (process_get_arguments process arguments (arguments + 4))) (\<lambda>_. ret 0)))))"

definition sys_exit :: "(u32, 'a sstate_scheme) run" where
  "sys_exit =
     andthen (gets (\<lambda>s. task_process (mem s) (current_task s))) (\<lambda>process.
     andthen (process_terminate process) (\<lambda>_. andthen task_next (\<lambda>_. ret 0)))"

section \<open>Registration and dispatch\<close>

definition isr80h_register_command :: "u32 \<Rightarrow> command \<Rightarrow> (unit, 'a sstate_scheme) run" where
  "isr80h_register_command command_id handler =
     (if command_id <s 0 \<or> MAX_SYSCALL_HANDLE_COMMANDS \<le> command_id
      then panic (''Syscall handler exceeds bounds!'' @ [CHR 10])
      else andthen (gets (\<lambda>s. isr80h_commands s ! unat command_id)) (\<lambda>old.
        if old \<noteq> None then panic (''Syscall already registered.'' @ [CHR 10])
        else modify (\<lambda>s. s\<lparr>isr80h_commands := (isr80h_commands s)[unat command_id := Some handler]\<rparr>)))"

fun register_commands :: "(u32 \<times> command) list \<Rightarrow> (unit, 'a sstate_scheme) run" where
  "register_commands [] = ret ()"
| "register_commands ((command_id, handler) # rest) =
     andthen (isr80h_register_command command_id handler) (\<lambda>_. register_commands rest)"

definition isr80h_register_commands :: "(unit, 'a sstate_scheme) run" where
  "isr80h_register_commands = register_commands syscall_ids"

fun run_command :: "command \<Rightarrow> (u32, 'a sstate_scheme) run" where
  "run_command Cmd_exit = sys_exit"
| "run_command Cmd_print = isr_sys_print"
| "run_command Cmd_print_ext = isr_sys_print_ext"
| "run_command Cmd_get_key = sys_get_key"
| "run_command Cmd_putchar = sys_putchar"
| "run_command Cmd_malloc = sys_malloc"
| "run_command Cmd_free = isr_sys_free"
| "run_command Cmd_process_load_start = sys_process_load_start"
| "run_command Cmd_invoke_sys_command = sys_invoke_sys_command"
| "run_command Cmd_get_process_arguments = sys_get_process_arguments"

definition isr80h_handle_command :: "u32 \<Rightarrow> (u32, 'a sstate_scheme) run" where
  "isr80h_handle_command command =
     (if command <s 0 \<or> MAX_SYSCALL_HANDLE_COMMANDS \<le> command then ret 0
      else andthen (gets (\<lambda>s. isr80h_commands s ! unat command)) (\<lambda>handler.
        case handler of None \<Rightarrow> ret 0 | Some c \<Rightarrow> run_command c))"

definition isr80h_handler :: "u32 \<Rightarrow> u32 \<Rightarrow> (u32, 'a sstate_scheme) run" where
  "isr80h_handler command frame =
     andthen (modify kernel_page) (\<lambda>_. andthen (task_current_save_state frame) (\<lambda>_.
     andthen (isr80h_handle_command command) (\<lambda>res. andthen (modify task_page) (\<lambda>_. ret res))))"

end
