(* ===== verification/Interrupts.thy ===== *)
theory Interrupts
  imports Syscalls
begin

text \<open>
  Exception and device handlers of \<^verbatim>\<open>src/kernel/idt/interrupts.c\<close> and \<^verbatim>\<open>irq.c\<close>, the common entry
  \<^verbatim>\<open>interrupt_handler\<close> of \<^verbatim>\<open>idt.c\<close>, and \<^verbatim>\<open>kernel_main\<close>. \<open>cr2\<close> is the register with the faulting
  address; the interrupt frame is memory on the kernel stack.
\<close>

record machine = sstate +
  cr2 :: u32

definition frame_field :: "u32 \<Rightarrow> u32 \<Rightarrow> 'a console_scheme \<Rightarrow> u32" where
  "frame_field frame field s = load32 (mem s) (frame + field)"

section \<open>Exceptions\<close>

definition interrupt_handlers_terminate_current_process :: "(unit, 'a machine_scheme) run" where
  "interrupt_handlers_terminate_current_process =
     andthen (gets (\<lambda>s. task_process (mem s) (current_task s))) (\<lambda>process.
     andthen (process_terminate process) (\<lambda>_. task_next))"

definition int_zero :: "(unit, 'a machine_scheme) run" where
  "int_zero = modify (print_lit (''Divide by zero error!'' @ [CHR 10]))"

definition invalid_opcode_fault_handler :: "(unit, 'a machine_scheme) run" where
  "invalid_opcode_fault_handler =
     andthen (modify (print_lit (CHR 10 # ''Undefined instruction (or reserved op-code) executed.'' @ [CHR 10]))) (\<lambda>_.
       interrupt_handlers_terminate_current_process)"

text \<open>The first eight instruction bytes, read through the task's page tables.\<close>

fun print_instruction :: "u32 \<Rightarrow> nat \<Rightarrow> (unit, 'a machine_scheme) run" where
  "print_instruction a 0 = ret ()"
| "print_instruction a (Suc n) =
     andthen (perhaps (\<lambda>s. map_option (\<lambda>b. (b, s)) (mmu_read8 (cr3 s) (mem s) a))) (\<lambda>b.
     andthen (modify (print_hex_byte b)) (\<lambda>_. print_instruction (a + 1) n))"

text \<open>The common part of the two fault screens: the instruction, the code segment and the flags.\<close>

definition print_faulting_code :: "u32 \<Rightarrow> (unit, 'a machine_scheme) run" where
  "print_faulting_code frame =
     andthen (modify task_page) (\<lambda>_.
     andthen (gets (\<lambda>s. paging_get (d_entry (mem s) (task_page_directory (mem s) (current_task s)))
                          (frame_field frame frame_eip s) (mem s))) (\<lambda>page_entry.
     andthen (if page_entry AND 1 \<noteq> 0
              then andthen (modify (print_lit (CHR 10 # '' INS:''))) (\<lambda>_.
                   andthen (gets (frame_field frame frame_eip)) (\<lambda>eip. print_instruction eip 8))
              else ret ()) (\<lambda>_.
     andthen (modify kernel_page) (\<lambda>_.
     andthen (modify (print_lit (CHR 10 # ''Processor CS value: ''))) (\<lambda>_.
     andthen (modify (\<lambda>s. printint (frame_field frame frame_cs s) s)) (\<lambda>_.
     andthen (modify (print_lit (CHR 10 # ''Processor eflags: ''))) (\<lambda>_.
     modify (\<lambda>s. printint (frame_field frame frame_eflags s) s))))))))"

definition int_gp_fault :: "u32 \<Rightarrow> (unit, 'a machine_scheme) run" where
  "int_gp_fault frame =
     andthen (modify terminal_clear) (\<lambda>_.
     andthen (modify (print_lit ''General Protection Fault (#GP).'')) (\<lambda>_.
     andthen (modify (print_lit (CHR 10 # ''Raised at address: ''))) (\<lambda>_.
     andthen (modify (\<lambda>s. printint (frame_field frame frame_eip s) s)) (\<lambda>_.
     andthen (modify (print_lit (CHR 10 # ''Error Code: ''))) (\<lambda>_.
     andthen (modify (\<lambda>s. printint (frame_field frame frame_err_code s) s)) (\<lambda>_.
     andthen (print_faulting_code frame) (\<lambda>_.
     andthen (modify (print_lit [CHR 10])) (\<lambda>_. interrupt_handlers_terminate_current_process))))))))"

definition err_flag :: "u32 \<Rightarrow> u32 \<Rightarrow> string \<Rightarrow> string \<Rightarrow> 'a console_scheme \<Rightarrow> 'a console_scheme" where
  "err_flag frame bit_mask yes no s =
     print_lit (if frame_field frame frame_err_code s AND bit_mask \<noteq> 0 then yes else no) s"

definition page_fault_h :: "u32 \<Rightarrow> (unit, 'a machine_scheme) run" where
  "page_fault_h frame =
     andthen (modify terminal_clear) (\<lambda>_.
     andthen (modify (print_lit ''Page Fault (#PF).'')) (\<lambda>_.
     andthen (modify (print_lit (CHR 10 # ''Faulting address (CR2): ''))) (\<lambda>_.
     andthen (modify (\<lambda>s. printint (cr2 s) s)) (\<lambda>_.
     andthen (modify (print_lit (CHR 10 # ''Raised at address: ''))) (\<lambda>_.
     andthen (modify (\<lambda>s. printint (frame_field frame frame_eip s) s)) (\<lambda>_.
     andthen (modify (print_lit (CHR 10 # ''Error Code: ''))) (\<lambda>_.
     andthen (modify (\<lambda>s. printint (frame_field frame frame_err_code s) s)) (\<lambda>_.
     andthen (modify (print_lit (CHR 10 # ''  Is Present: ''))) (\<lambda>_.
     andthen (modify (err_flag frame 1 ''Y (protection violation)'' ''N (not present)'')) (\<lambda>_.
     andthen (modify (print_lit (CHR 10 # ''  Write Attempted: ''))) (\<lambda>_.
     andthen (modify (err_flag frame 2 ''Y'' ''N (read)'')) (\<lambda>_.
     andthen (modify (print_lit (CHR 10 # ''  By Privilege: ''))) (\<lambda>_.
     andthen (modify (err_flag frame 4 ''User'' ''Kernel'')) (\<lambda>_.
     andthen (print_faulting_code frame) (\<lambda>_.
     andthen (modify (print_lit (CHR 10 # ''Segmentation fault [PID: ''))) (\<lambda>_.
     andthen (modify (\<lambda>s. printint (process_id (mem s) (task_process (mem s) (current_task s))) s)) (\<lambda>_.
     andthen (modify (print_lit ('']'' @ [CHR 10]))) (\<lambda>_.
       interrupt_handlers_terminate_current_process))))))))))))))))))"

section \<open>The timer\<close>

definition timer_interrupt :: "(unit, 'a machine_scheme) run" where
  "timer_interrupt = andthen (modify (outb 0x20 0x20)) (\<lambda>_. task_next)"

section \<open>Dispatch\<close>

fun run_callback :: "callback \<Rightarrow> u32 \<Rightarrow> (unit, 'a machine_scheme) run" where
  "run_callback Int_zero frame = int_zero"
| "run_callback Invalid_opcode_fault frame = invalid_opcode_fault_handler"
| "run_callback Int_gp_fault frame = int_gp_fault frame"
| "run_callback Page_fault frame = page_fault_h frame"
| "run_callback Timer_interrupt frame = timer_interrupt"
| "run_callback Classic_keyboard frame = modify classic_keyboard_handle_interrupt"

text \<open>The test for an unhandled interrupt is the one of the code.\<close>

definition interrupt_handler :: "u32 \<Rightarrow> u32 \<Rightarrow> (unit, 'a machine_scheme) run" where
  "interrupt_handler interrupt frame =
     andthen (modify kernel_page) (\<lambda>_.
     andthen (gets (\<lambda>s. interrupt_callbacks s ! unat interrupt)) (\<lambda>callback.
     andthen (case callback of
                Some c \<Rightarrow> andthen (task_current_save_state frame) (\<lambda>_. run_callback c frame)
              | None \<Rightarrow>
                  if interrupt <s 0x20 \<and> 0x30 \<le>s interrupt
                  then andthen (modify terminal_clear) (\<lambda>_.
                       andthen (modify (print_lit ''Interrupt number: '')) (\<lambda>_.
                       andthen (modify (printint interrupt)) (\<lambda>_.
                       panic (CHR 10 # ''Unhandled interrupt triggered!'' @ CHR 9 # ''Halting CPU.'' @ [CHR 10]))))
                  else ret ()) (\<lambda>_.
     andthen (modify task_page) (\<lambda>_.
       if 0x20 \<le>s interrupt \<and> interrupt <s 0x30 then modify (outb 0x20 0x20) else ret ()))))"

end
