(* ===== verification/Kernel.thy ===== *)
theory Kernel
  imports Interrupts
begin

text \<open>
  \<^verbatim>\<open>kernel_main\<close> of \<^verbatim>\<open>src/kernel/kernel.c\<close>: the initialisation of every component in the order of the code
  and the start of the shell. The globals the linker places are given by their addresses; the assembly
  routines set the descriptor table register, the task register, the paging bit and the interrupt flag.
\<close>

record kernel = machine +
  gdt_kernel_at :: u32
  tss_at :: u32
  shell_path_at :: u32
  gdt_register :: "u32 \<times> u32"
  task_register :: u32
  paging_enabled :: bool
  interrupts_enabled :: bool

definition TOTAL_GDT_SEGMENTS :: u32 where [config_defs]: "TOTAL_GDT_SEGMENTS = 6"

text \<open>From the global descriptor table to the paged kernel.\<close>

definition kernel_segments :: "(unit, 'a kernel_scheme) run" where
  "kernel_segments =
     andthen (modify (\<lambda>s. s\<lparr>mem := memset (mem s) (gdt_kernel_at s) 0 48\<rparr>)) (\<lambda>_.
     andthen (from_outcome (\<lambda>s. unpack_structured_gdt (gdt_structured (tss_at s)) (gdt_kernel_at s) TOTAL_GDT_SEGMENTS s)) (\<lambda>_.
     andthen (modify (\<lambda>s. s\<lparr>gdt_register := (gdt_kernel_at s, 48)\<rparr>)) (\<lambda>_.
     andthen (modify (\<lambda>s. s\<lparr>mem := memset (mem s) (tss_at s) 0 sizeof_tss\<rparr>)) (\<lambda>_.
     andthen (modify (\<lambda>s. put32 (tss_at s + 4) 0x600000 s)) (\<lambda>_.
     andthen (modify (\<lambda>s. put32 (tss_at s + 8) KERNEL_DATA_SELECTOR s)) (\<lambda>_.
     modify (\<lambda>s. s\<lparr>task_register := 0x28\<rparr>)))))))"

definition kernel_paging :: "(unit, 'a kernel_scheme) run" where
  "kernel_paging =
     andthen (from_outcome (gen_paging_4gb
       (ucast (PAGING_MASKS_IS_WRITABLE OR PAGING_MASKS_IS_PRESENT OR PAGING_MASKS_ACCESS_ALL)))) (\<lambda>chunk.
     andthen (modify (\<lambda>s. s\<lparr>kernel_paging_chunk := chunk\<rparr>)) (\<lambda>_.
     andthen (modify (\<lambda>s. paging_switch (kernel_paging_chunk s) s)) (\<lambda>_.
     modify (\<lambda>s. s\<lparr>paging_enabled := True\<rparr>))))"

definition kernel_main :: "(unit, 'a kernel_scheme) run" where
  "kernel_main =
     andthen (modify (\<lambda>s. s\<lparr>interrupts_enabled := False\<rparr>)) (\<lambda>_.
     andthen (modify terminal_init) (\<lambda>_.
     andthen (from_outcome kheap_init) (\<lambda>_.
     andthen fs_init (\<lambda>_.
     andthen disk_search_and_init (\<lambda>_.
     andthen (modify idt_init) (\<lambda>_.
     andthen kernel_segments (\<lambda>_.
     andthen kernel_paging (\<lambda>_.
     andthen isr80h_register_commands (\<lambda>_.
     andthen keyboard_init (\<lambda>_.
     andthen (modify (print_lit (''Kernel Setup finished.'' @ [CHR 10]))) (\<lambda>_.
     andthen (modify terminal_clear) (\<lambda>_.
     andthen (gets shell_path_at) (\<lambda>path.
     andthen (process_load_switch path 0) (\<lambda>(res, process).
     andthen (if res \<noteq> NE then panic ''Failed to load shell.elf'' else ret ()) (\<lambda>_.
     andthen task_run_first_task (\<lambda>_.
     andthen (modify (\<lambda>s. s\<lparr>interrupts_enabled := True\<rparr>)) (\<lambda>_. never)))))))))))))))))"

end
