(* ===== verification/KeyboardRing.thy ===== *)
theory KeyboardRing
  imports Keyboard
begin

text \<open>
  The keyboard ring is a queue. The locale \<open>bounded_queue\<close> is the contract of a queue of non-null
  characters with a capacity; it is interpreted on \<^verbatim>\<open>keyboard_push\<close> and \<^verbatim>\<open>keyboard_pop\<close> for the ring of a
  process, and what is typed comes out in order by the lemma of the locale.
\<close>

section \<open>Queues\<close>

locale bounded_queue =
  fixes ok :: "'s \<Rightarrow> bool"
    and contents :: "'s \<Rightarrow> u8 list"
    and push :: "u8 \<Rightarrow> 's \<Rightarrow> 's"
    and pop :: "'s \<Rightarrow> u8 \<times> 's"
    and capacity :: nat
  assumes push_ok: "ok s \<Longrightarrow> c \<noteq> 0 \<Longrightarrow> length (contents s) < capacity \<Longrightarrow> ok (push c s)"
    and push_contents: "ok s \<Longrightarrow> c \<noteq> 0 \<Longrightarrow> length (contents s) < capacity \<Longrightarrow> contents (push c s) = contents s @ [c]"
    and pop_ok: "ok s \<Longrightarrow> ok (snd (pop s))"
    and pop_contents: "ok s \<Longrightarrow> contents s = c # cs \<Longrightarrow> fst (pop s) = c \<and> contents (snd (pop s)) = cs"
    and pop_empty: "ok s \<Longrightarrow> contents s = [] \<Longrightarrow> pop s = (0, s)"
begin

primrec pops :: "nat \<Rightarrow> 's \<Rightarrow> u8 list \<times> 's" where
  "pops 0 s = ([], s)"
| "pops (Suc n) s = (let (c, s1) = pop s; (cs, s2) = pops n s1 in (c # cs, s2))"

lemma pushes:
  "ok s \<Longrightarrow> 0 \<notin> set cs \<Longrightarrow> length (contents s) + length cs \<le> capacity \<Longrightarrow>
    ok (fold push cs s) \<and> contents (fold push cs s) = contents s @ cs"
  by (induction cs arbitrary: s) (auto simp: push_ok push_contents)

lemma pops_all: "ok s \<Longrightarrow> contents s = cs \<Longrightarrow>
    fst (pops (length cs) s) = cs \<and> ok (snd (pops (length cs) s)) \<and> contents (snd (pops (length cs) s)) = []"
proof (induction cs arbitrary: s)
  case (Cons c cs)
  note p = pop_contents [OF Cons.prems] and o = pop_ok [OF Cons.prems(1)]
  then show ?case using Cons.IH [OF o] by (simp add: case_prod_unfold Let_def)
qed simp

lemma fifo:
  assumes "ok s" "0 \<notin> set cs" "length (contents s) + length cs \<le> capacity"
  shows "fst (pops (length (contents s) + length cs) (fold push cs s)) = contents s @ cs"
    and "contents (snd (pops (length (contents s) + length cs) (fold push cs s))) = []"
  using pops_all [of "fold push cs s" "contents s @ cs"] pushes [OF assms] by simp_all

end

section \<open>The ring\<close>

text \<open>The byte the counter \<open>x\<close> refers to, and the characters waiting from \<^verbatim>\<open>head\<close> to \<^verbatim>\<open>tail\<close>.\<close>

definition ring_slot :: "u32 \<Rightarrow> u32 \<Rightarrow> u32" where
  "ring_slot p x = ring_at p + x mod KEYBOARD_BUFFER_SIZE"

definition ring_count :: "memory \<Rightarrow> u32 \<Rightarrow> nat" where
  "ring_count m p = unat (ring_tail m p - ring_head m p)"

definition ring_contents :: "u32 \<Rightarrow> 'a kbstate_scheme \<Rightarrow> u8 list" where
  "ring_contents p s = map (\<lambda>j. mem s (ring_slot p (ring_head (mem s) p + of_nat j))) [0..<ring_count (mem s) p]"

text \<open>At most 1024 characters wait; exactly the bytes they occupy are not zero. The process is the
  current one, of both the process table and the current task, and the ring does not overlap the
  task's reference to it.\<close>

definition ring_ok :: "u32 \<Rightarrow> 'a kbstate_scheme \<Rightarrow> bool" where
  "ring_ok p s \<longleftrightarrow> ring_count (mem s) p \<le> 1024
     \<and> (\<forall>j < 1024. mem s (ring_slot p (ring_head (mem s) p + of_nat j)) = 0 \<longleftrightarrow> ring_count (mem s) p \<le> j)
     \<and> p \<noteq> 0 \<and> current_process s = p \<and> current_task s \<noteq> 0 \<and> task_process (mem s) (current_task s) = p
     \<and> apart (current_task s + 52) 4 (ring_at p) 1032"

lemma slot_index:
  assumes "j \<le> 1024"
  shows "unat ((h + of_nat j) mod (0x400 :: u32)) = (unat h + j) mod 1024"
proof -
  have "unat (of_nat j :: u32) = j" using assms by (intro unat_of_nat32) simp
  then have "unat (h + of_nat j) = (unat h + j) mod 4294967296" by (simp add: unat_word_ariths)
  then show ?thesis by (simp add: unat_mod mod_mod_cancel)
qed

lemma mod_offset_inj:
  assumes "(a + j) mod n = (a + k) mod n" "j < n" "k < n"
  shows "j = (k :: nat)"
  using assms
proof (induction j k rule: linorder_wlog)
  case (le j k)
  then have "n dvd (a + k) - (a + j)" by (metis mod_eq_dvd_iff_nat add_le_cancel_left)
  then show ?case using le by (auto dest: dvd_imp_le)
qed simp

lemma ring_slot_inj:
  assumes "j < 1024" "k < 1024"
  shows "ring_slot p (h + of_nat j) = ring_slot p (h + of_nat k) \<longleftrightarrow> j = k"
proof
  assume "ring_slot p (h + of_nat j) = ring_slot p (h + of_nat k)"
  then have "unat ((h + of_nat j) mod (0x400 :: u32)) = unat ((h + of_nat k) mod 0x400)"
    by (simp add: ring_slot_def KEYBOARD_BUFFER_SIZE_def)
  then show "j = k" using assms mod_offset_inj [of "unat h" j 1024 k] by (simp add: slot_index less_imp_le)
qed simp

lemma ring_slot_wrap: "ring_slot p (h + 1024) = ring_slot p h"
proof -
  have "unat ((h + of_nat 1024) mod (0x400 :: u32)) = unat (h mod 0x400)"
    using slot_index [of 1024 h] by (simp add: unat_mod)
  then have "(h + 1024) mod (0x400 :: u32) = h mod 0x400" by (simp only: word_unat_eq_iff of_nat_numeral)
  then show ?thesis by (simp only: ring_slot_def KEYBOARD_BUFFER_SIZE_def)
qed

lemma ring_slot_offset: "\<exists>k < 1024. ring_slot p x = p + 8324 + of_nat k"
proof (intro exI conjI)
  show "unat (x mod 1024) < 1024" by (simp add: unat_mod)
  show "ring_slot p x = p + 8324 + of_nat (unat (x mod 1024))"
    by (simp only: ring_slot_def ring_at_def KEYBOARD_BUFFER_SIZE_def word_of_nat_unat_eq)
qed

text \<open>The counters lie behind the ring.\<close>

lemma slot_counter_apart:
  assumes "8 > d"
  shows "ring_slot p x \<noteq> p + 9348 + of_nat d"
proof
  obtain k where k: "k < 1024" "ring_slot p x = p + 8324 + of_nat k" using ring_slot_offset by blast
  assume "ring_slot p x = p + 9348 + of_nat d"
  then have "p + of_nat (8324 + k) = p + of_nat (9348 + d)" using k(2) by (simp add: add.assoc)
  then show False using k(1) assms by (subst (asm) add_of_nat_inj) auto
qed

lemma counters_put_slot:
  "ring_tail (m(ring_slot p x := c)) p = ring_tail m p" "ring_head (m(ring_slot p x := c)) p = ring_head m p"
proof -
  note ap = slot_counter_apart [of _ p x, symmetric]
  show "ring_tail (m(ring_slot p x := c)) p = ring_tail m p"
    unfolding ring_tail_def by (rule load32_cong) (use ap in auto)
  have "p + 9352 + of_nat i \<noteq> ring_slot p x" if "i < 4" for i
    using ap [of "4 + i"] that by (simp add: add.assoc)
  then show "ring_head (m(ring_slot p x := c)) p = ring_head m p"
    unfolding ring_head_def by (intro load32_cong) auto
qed

lemma counters_store:
  "ring_tail (store32 m (p + 9348) v) p = v" "ring_head (store32 m (p + 9348) v) p = ring_head m p"
  "ring_head (store32 m (p + 9352) v) p = v" "ring_tail (store32 m (p + 9352) v) p = ring_tail m p"
  by (simp_all add: ring_tail_def ring_head_def load32_store32_same) (simp_all add: load32_def store32_def)

lemma slot_store:
  "store32 m (p + 9348) v (ring_slot p x) = m (ring_slot p x)" "store32 m (p + 9352) v (ring_slot p x) = m (ring_slot p x)"
proof -
  have "ring_slot p x \<noteq> p + 9352 + of_nat i" if "i < 4" for i
    using slot_counter_apart [of "4 + i" p x] that by (simp add: add.assoc)
  then show "store32 m (p + 9352) v (ring_slot p x) = m (ring_slot p x)" by (intro store32_other) auto
  show "store32 m (p + 9348) v (ring_slot p x) = m (ring_slot p x)"
    by (intro store32_other) (use slot_counter_apart in auto)
qed

text \<open>The task's reference to the process survives the writes to the ring and its counters.\<close>

lemma task_process_ring:
  assumes "apart (t + 52) 4 (ring_at p) 1032" "\<And>a. \<not> in_region (ring_at p) 1032 a \<Longrightarrow> m' a = m a"
  shows "task_process m' t = task_process m t"
  unfolding task_process_def by (rule load32_cong) (use assms(2) apart_not_in [OF assms(1)] in auto)

lemma ring_frame:
  assumes "\<not> in_region (ring_at p) 1032 a"
  shows "a \<noteq> ring_slot p x" "store32 m (p + 9348) v a = m a" "store32 m (p + 9352) v a = m a"
proof -
  have out: "a \<noteq> p + 8324 + of_nat k" if "k < 1032" for k
    using assms that in_region_offset [of k 1032 "ring_at p"] by (auto simp: ring_at_def)
  show "a \<noteq> ring_slot p x"
  proof -
    obtain k where "k < 1024" "ring_slot p x = p + 8324 + of_nat k" using ring_slot_offset by blast
    then show ?thesis using out [of k] by simp
  qed
  have "a \<noteq> p + 9348 + of_nat i" if "i < 8" for i using out [of "1024 + i"] that by (simp add: add.assoc)
  note cnt = this
  then show "store32 m (p + 9348) v a = m a" by (intro store32_other) auto
  have "a \<noteq> p + 9352 + of_nat i" if "i < 4" for i using cnt [of "4 + i"] that by (simp add: add.assoc)
  then show "store32 m (p + 9352) v a = m a" by (intro store32_other) auto
qed

section \<open>Push and pop\<close>

lemma ring_count_eq: "ring_count m p = unat (ring_tail m p - ring_head m p)"
  by (simp add: ring_count_def)

lemma ring_tail_slot: "ring_count m p = n \<Longrightarrow> ring_tail m p = ring_head m p + of_nat n"
  by (auto simp: ring_count_def)

lemma keyboard_push_mem:
  assumes "ring_ok p s" "c \<noteq> 0"
  shows "keyboard_push c s = s\<lparr>mem := store32 ((mem s)(ring_slot p (ring_tail (mem s) p) := c)) (p + 9348) (ring_tail (mem s) p + 1)\<rparr>"
  using assms
  by (simp add: keyboard_push_def ring_ok_def get_current_process_def keyboard_get_tail_index_def ring_slot_def [symmetric]
      counters_put_slot put32_def Let_def)

lemma push_ring:
  assumes ok: "ring_ok p s" and c: "c \<noteq> 0" and room: "ring_count (mem s) p < 1024"
  shows "ring_ok p (keyboard_push c s)" "ring_contents p (keyboard_push c s) = ring_contents p s @ [c]"
proof -
  let ?n = "ring_count (mem s) p" and ?h = "ring_head (mem s) p" and ?t = "ring_tail (mem s) p"
  define m where "m = store32 ((mem s)(ring_slot p ?t := c)) (p + 9348) (?t + 1)"
  note tail = ring_tail_slot [OF refl, of "mem s" p]
  have new: "ring_head m p = ?h" "ring_tail m p = ?t + 1" by (simp_all add: m_def counters_store counters_put_slot)
  have "ring_count m p = unat (of_nat (Suc ?n) :: u32)"
    unfolding ring_count_def [of m] new by (simp add: tail algebra_simps)
  also have "\<dots> = Suc ?n" using room by (intro unat_of_nat32) simp
  finally have count: "ring_count m p = Suc ?n" .
  have slot: "m (ring_slot p (?h + of_nat j)) = (if j = ?n then c else mem s (ring_slot p (?h + of_nat j)))"
    if "j < 1024" for j
    using ring_slot_inj [OF that room, of p ?h] by (simp add: m_def slot_store tail)
  have "task_process m (current_task s) = task_process (mem s) (current_task s)"
    using ok by (intro task_process_ring [of _ p]) (auto simp: m_def ring_ok_def ring_frame)
  moreover note push = keyboard_push_mem [OF ok c, folded m_def]
  ultimately show "ring_ok p (keyboard_push c s)"
    using ok c room unfolding ring_ok_def push by (auto simp: new count slot)
  have "ring_contents p (keyboard_push c s) = map (\<lambda>j. m (ring_slot p (?h + of_nat j))) [0..<Suc ?n]"
    unfolding ring_contents_def push by (simp add: new count)
  also have "\<dots> = ring_contents p s @ [c]"
    using room by (auto simp: ring_contents_def slot)
  finally show "ring_contents p (keyboard_push c s) = ring_contents p s @ [c]" .
qed

lemma keyboard_pop_mem:
  assumes "ring_ok p s" "c = mem s (ring_slot p (ring_head (mem s) p))" "c \<noteq> 0"
  shows "keyboard_pop s = (c, s\<lparr>mem := store32 ((mem s)(ring_slot p (ring_head (mem s) p) := 0)) (p + 9352) (ring_head (mem s) p + 1)\<rparr>)"
  using assms
  by (simp add: keyboard_pop_def ring_ok_def ring_slot_def [symmetric] counters_put_slot put32_def Let_def)

lemma ring_contents_Nil: "ring_contents p s = [] \<longleftrightarrow> ring_count (mem s) p = 0"
  by (simp add: ring_contents_def)

lemma pop_ring_empty:
  assumes "ring_ok p s" "ring_contents p s = []"
  shows "keyboard_pop s = (0, s)"
proof -
  have "mem s (ring_slot p (ring_head (mem s) p + of_nat 0)) = 0"
    using assms unfolding ring_ok_def ring_contents_Nil by fastforce
  then show ?thesis using assms(1)
    by (simp add: keyboard_pop_def ring_ok_def ring_slot_def [symmetric] Let_def)
qed

lemma pop_ring:
  assumes ok: "ring_ok p s" and cs: "ring_contents p s = c # cs"
  shows "fst (keyboard_pop s) = c" "ring_ok p (snd (keyboard_pop s))" "ring_contents p (snd (keyboard_pop s)) = cs"
proof -
  let ?n = "ring_count (mem s) p" and ?h = "ring_head (mem s) p" and ?t = "ring_tail (mem s) p"
  define m where "m = store32 ((mem s)(ring_slot p ?h := 0)) (p + 9352) (?h + 1)"
  have len: "length (ring_contents p s) = ?n" by (simp add: ring_contents_def)
  then have n: "0 < ?n" "?n \<le> 1024" using cs ok by (auto simp: ring_ok_def)
  have at: "ring_contents p s ! j = mem s (ring_slot p (?h + of_nat j))" if "j < ?n" for j
    using that by (simp add: ring_contents_def)
  have c: "c = mem s (ring_slot p ?h)" using at [OF n(1)] cs by simp
  have "mem s (ring_slot p (?h + of_nat 0)) \<noteq> 0" using ok n(1) unfolding ring_ok_def by fastforce
  then have c0: "c \<noteq> 0" using c by simp
  note pop = keyboard_pop_mem [OF ok c c0, folded m_def]
  show "fst (keyboard_pop s) = c" using pop by simp
  have new: "ring_head m p = ?h + 1" "ring_tail m p = ?t" by (simp_all add: m_def counters_store counters_put_slot)
  have "ring_count m p = unat (?t - ?h - 1)" unfolding ring_count_def new by (simp add: algebra_simps)
  then have count: "ring_count m p = ?n - 1" using n(1) by (simp add: ring_count_def unat_minus_one unat_gt_0)
  have slot: "m (ring_slot p (?h + 1 + of_nat j)) = (if j = 1023 then 0 else mem s (ring_slot p (?h + of_nat (Suc j))))"
    if "j < 1024" for j
  proof (cases "j = 1023")
    case True
    then show ?thesis using ring_slot_wrap [of p ?h] by (simp add: m_def slot_store add.assoc)
  next
    case False
    then have "ring_slot p (?h + of_nat (Suc j)) \<noteq> ring_slot p (?h + of_nat 0)"
      using ring_slot_inj [of "Suc j" 0 p ?h] that by simp
    then show ?thesis using False by (simp add: m_def slot_store add.assoc)
  qed
  have "task_process m (current_task s) = task_process (mem s) (current_task s)"
    using ok by (intro task_process_ring [of _ p]) (auto simp: m_def ring_ok_def ring_frame)
  moreover have "m (ring_slot p (ring_head m p + of_nat j)) = 0 \<longleftrightarrow> ring_count m p \<le> j" if "j < 1024" for j
  proof (cases "j = 1023")
    case True
    then show ?thesis using n slot [OF that] unfolding new count by simp
  next
    case False
    then have less: "Suc j < 1024" using that by simp
    have "mem s (ring_slot p (?h + of_nat (Suc j))) = 0 \<longleftrightarrow> ?n \<le> Suc j"
      using ok less unfolding ring_ok_def by blast
    then show ?thesis using n False slot [OF that] unfolding new count by auto
  qed
  moreover have "ring_count m p \<le> 1024" using count n by simp
  ultimately show "ring_ok p (snd (keyboard_pop s))"
    using ok unfolding ring_ok_def pop by simp
  show "ring_contents p (snd (keyboard_pop s)) = cs"
  proof (rule nth_equalityI)
    show "length (ring_contents p (snd (keyboard_pop s))) = length cs"
      using len unfolding cs by (simp add: ring_contents_def pop count)
    fix j assume "j < length (ring_contents p (snd (keyboard_pop s)))"
    then have j: "j < ?n - 1" "j < 1023" using n by (auto simp: ring_contents_def pop count)
    then have "cs ! j = mem s (ring_slot p (?h + of_nat (Suc j)))" using at [of "Suc j"] cs by simp
    then show "ring_contents p (snd (keyboard_pop s)) ! j = cs ! j"
      using j slot [of j] by (simp add: ring_contents_def pop count new)
  qed
qed

interpretation ring: bounded_queue "ring_ok p" "ring_contents p" keyboard_push keyboard_pop 1024
  for p :: u32
proof unfold_locales
  fix s :: "'a kbstate_scheme" and c cs
  assume ok: "ring_ok p s"
  have len: "length (ring_contents p s) = ring_count (mem s) p" by (simp add: ring_contents_def)
  show "ring_ok p (keyboard_push c s)" "ring_contents p (keyboard_push c s) = ring_contents p s @ [c]"
    if "c \<noteq> 0" "length (ring_contents p s) < 1024"
    using push_ring [OF ok that(1)] that(2) unfolding len by blast+
  show "ring_ok p (snd (keyboard_pop s))"
    using pop_ring_empty [OF ok] pop_ring(2) [OF ok] ok by (cases "ring_contents p s") auto
  show "fst (keyboard_pop s) = c \<and> ring_contents p (snd (keyboard_pop s)) = cs" if "ring_contents p s = c # cs"
    using pop_ring(1,3) [OF ok that] by blast
  show "keyboard_pop s = (0, s)" if "ring_contents p s = []" by (rule pop_ring_empty [OF ok that])
qed

section \<open>Properties\<close>

text \<open>Popping \<open>n\<close> times.\<close>

primrec keyboard_pops :: "nat \<Rightarrow> 'a kbstate_scheme \<Rightarrow> u8 list \<times> 'a kbstate_scheme" where
  "keyboard_pops 0 s = ([], s)"
| "keyboard_pops (Suc n) s =
     (let (c, s1) = keyboard_pop s; (cs, s2) = keyboard_pops n s1 in (c # cs, s2))"

lemma keyboard_pops_eq: "keyboard_pops n s = ring.pops n s"
  by (induction n arbitrary: s) simp_all

text \<open>C17. The keyboard ring is a queue, while the process it belongs to is the current one and that of the current
  task: as long as no more than 1024 characters wait, pushing the
  characters \<open>cs\<close> with \<^verbatim>\<open>keyboard_push\<close> and then calling \<^verbatim>\<open>keyboard_pop\<close> once for each waiting character
  delivers what waited before followed by \<open>cs\<close>, in order and without loss, across any wrap-around of
  the ring and of the 32-bit counters; after that the ring is empty and the next \<^verbatim>\<open>keyboard_pop\<close>
  returns 0.\<close>

theorem keyboard_fifo:
  assumes "ring_ok p s" "0 \<notin> set cs" "length (ring_contents p s) + length cs \<le> 1024"
  shows "fst (keyboard_pops (length (ring_contents p s) + length cs) (fold keyboard_push cs s)) = ring_contents p s @ cs
    \<and> fst (keyboard_pop (snd (keyboard_pops (length (ring_contents p s) + length cs) (fold keyboard_push cs s)))) = 0"
proof -
  let ?s = "fold keyboard_push cs s"
  note all = ring.pops_all [of p ?s, OF _ refl] and pu = ring.pushes [OF assms]
  have "length (ring_contents p s) + length cs = length (ring_contents p ?s)" using pu by simp
  then show ?thesis
    unfolding keyboard_pops_eq using all pu by (simp add: ring.pop_empty [of p])
qed

text \<open>A machine whose process 0x20000 has an empty ring with both counters at 2^32 - 2, and whose
  task 0x30000 belongs to it.\<close>

definition typing_machine :: kbstate where
  "typing_machine = \<lparr>mem = store32 (store32 (store32 (\<lambda>_. 0) 0x22484 0xFFFFFFFE) 0x22488 0xFFFFFFFE) 0x30034 0x20000,
     terminal_x = 0, terminal_y = 0, terminal_fg_color = 0, terminal_bg_color = 0,
     kernel_heap = kernel_heap_layout, current_directory = 0, cr3 = 0, disk_at = 0, kstack = 0,
     ata_status = (\<lambda>_ _ _. 0), ata_data = (\<lambda>_ _. 0), fat16_fs_at = 0, filesystems = [], file_descriptors = [],
     kernel_paging_chunk = 0, data_segments = 0, current_task = 0x30000, task_tail = 0x30000, task_head = 0x30000,
     current_process = 0x20000, processes = [0x20000], idt_at = 0, idtr_at = 0, idt_register = (0, 0),
     interrupt_pointer_table = (\<lambda>_. 0), isr80h_wrapper = 0, interrupt_callbacks = [], port_writes = [],
     keyboard_list_head = 0, keyboard_list_tail = 0, classic_keyboard_at = 0, keyboard_port = (\<lambda>_. 0),
     keyboard_reads = 0, scan_set_behind = 0\<rparr>"

lemma typing_machine_ok: "ring_ok 0x20000 typing_machine" "ring_contents 0x20000 typing_machine = []"
proof -
  let ?m = "mem typing_machine"
  have f: "ring_tail ?m 0x20000 = 0xFFFFFFFE" "ring_head ?m 0x20000 = 0xFFFFFFFE" "task_process ?m 0x30000 = 0x20000"
    by (simp_all add: typing_machine_def ring_tail_def ring_head_def task_process_def load32_store32_same) code_simp+
  then have n: "ring_count ?m 0x20000 = 0" by (simp add: ring_count_def)
  have ap: "apart (0x30000 + 52) 4 (ring_at 0x20000) 1032"
    by (rule apart_sym [OF apart_interval]) (simp_all add: ring_at_def)
  have "?m (ring_slot 0x20000 x) = 0" for x
  proof -
    have mm: "?m = store32 (store32 (store32 (\<lambda>_. 0) (0x20000 + 9348) 0xFFFFFFFE) (0x20000 + 9352) 0xFFFFFFFE) (0x30000 + 52) 0x20000"
      by (simp add: typing_machine_def)
    obtain k where k: "k < 1024" "ring_slot 0x20000 x = ring_at 0x20000 + of_nat k"
      using ring_slot_offset [of "0x20000" x] by (auto simp: ring_at_def)
    then have "ring_slot 0x20000 x \<noteq> 0x30000 + 52 + of_nat i" if "i < 4" for i
      using ap [unfolded apart_def, rule_format, of i k] that k by simp
    then show ?thesis unfolding mm by (subst store32_other) (simp_all only: slot_store not_False_eq_True)
  qed
  then show "ring_ok 0x20000 typing_machine" "ring_contents 0x20000 typing_machine = []"
    using f n ap by (simp_all add: ring_ok_def ring_contents_def) (simp_all add: typing_machine_def)
qed

theorem keyboard_fifo_witness:
  "fst (keyboard_pops 3 (fold keyboard_push [0x6C, 0x73, 0x0D] typing_machine)) = [0x6C, 0x73, 0x0D]"
  using keyboard_fifo [OF typing_machine_ok(1), of "[0x6C, 0x73, 0x0D]"] by (simp add: typing_machine_ok(2) numeral_3_eq_3)

end
