(* ===== verification/TaskSpec.thy ===== *)
theory TaskSpec
  imports Task
begin

text \<open>
  The task list. \<open>tasks s xs\<close> says that the list of task.c holds exactly the tasks \<open>xs\<close>, in order,
  linked both ways. The lemmas give the list after \<^verbatim>\<open>task_new\<close> links a task in and after
  \<^verbatim>\<open>task_list_remove\<close>, the round-robin order of \<^verbatim>\<open>task_next\<close> and the saved context.
\<close>

section \<open>Fields of page-aligned tasks\<close>

lemma task_field_store:
  assumes "paging_is_aligned t" "paging_is_aligned u"
  shows "task_link (store32 m (t + 60) v) u = (if t = u then v else task_link m u)"
    and "task_prev (store32 m (t + 60) v) u = task_prev m u"
    and "task_prev (store32 m (t + 56) v) u = (if t = u then v else task_prev m u)"
    and "task_link (store32 m (t + 56) v) u = task_link m u"
  using load32_slot_store32 [OF assms, of 15 15] load32_slot_store32 [OF assms, of 15 14]
    load32_slot_store32 [OF assms, of 14 14] load32_slot_store32 [OF assms, of 14 15]
  by (simp_all add: task_link_def task_prev_def)

lemma task_directory_store:
  assumes "paging_is_aligned t" "paging_is_aligned u"
  shows "task_page_directory (store32 m (t + 60) v) u = task_page_directory m u"
    and "task_page_directory (store32 m (t + 56) v) u = task_page_directory m u"
  using load32_slot_store32 [OF assms, of 15 0] load32_slot_store32 [OF assms, of 14 0]
  by (simp_all add: task_page_directory_def)

section \<open>The list\<close>

text \<open>The links forward from \<open>p\<close>, and the links back, the first one to \<open>b\<close>.\<close>

fun chain :: "memory \<Rightarrow> u32 \<Rightarrow> u32 list \<Rightarrow> bool" where
  "chain m p [] \<longleftrightarrow> p = 0"
| "chain m p (x # xs) \<longleftrightarrow> p = x \<and> x \<noteq> 0 \<and> chain m (task_link m x) xs"

fun back_links :: "memory \<Rightarrow> u32 \<Rightarrow> u32 list \<Rightarrow> bool" where
  "back_links m b [] \<longleftrightarrow> True"
| "back_links m b (x # xs) \<longleftrightarrow> task_prev m x = b \<and> back_links m x xs"

definition tasks :: "'a tstate_scheme \<Rightarrow> u32 list \<Rightarrow> bool" where
  "tasks s xs \<longleftrightarrow> chain (mem s) (task_head s) xs \<and> back_links (mem s) 0 xs \<and> distinct xs
     \<and> (\<forall>x \<in> set xs. paging_is_aligned x) \<and> task_tail s = (if xs = [] then 0 else last xs)"

lemma chain_nonzero: "chain m p xs \<Longrightarrow> x \<in> set xs \<Longrightarrow> x \<noteq> 0"
  by (induction xs arbitrary: p) auto

lemma chain_cong: "(\<And>x. x \<in> set xs \<Longrightarrow> task_link m' x = task_link m x) \<Longrightarrow> chain m' p xs = chain m p xs"
  by (induction xs arbitrary: p) auto

lemma back_links_cong: "(\<And>x. x \<in> set xs \<Longrightarrow> task_prev m' x = task_prev m x) \<Longrightarrow> back_links m' b xs = back_links m b xs"
  by (induction xs arbitrary: b) auto

lemma chain_append: "chain m p (xs @ y # ys) \<Longrightarrow> task_link m y = (if ys = [] then 0 else hd ys)"
  by (induction xs arbitrary: p) (cases ys; auto)+

lemma back_links_append: "back_links m b (xs @ y # ys) \<Longrightarrow> task_prev m y = (if xs = [] then b else last xs)"
  by (induction xs arbitrary: b) auto

lemma chain_head: "chain m p xs \<Longrightarrow> p = (if xs = [] then 0 else hd xs)"
  by (cases xs) auto

text \<open>Relinking the last task of a prefix.\<close>

lemma chain_relink:
  assumes "chain m p (xs @ ys)" "xs \<noteq> []" "distinct xs" "\<forall>x \<in> set xs. paging_is_aligned x"
    "chain m q zs" "\<forall>z \<in> set zs. paging_is_aligned z" "last xs \<notin> set zs"
  shows "chain (store32 m (last xs + 60) q) p (xs @ zs)"
  using assms
proof (induction xs arbitrary: p)
  case (Cons x xs)
  show ?case
  proof (cases "xs = []")
    case True
    have "chain (store32 m (x + 60) q) q zs = chain m q zs"
      using Cons.prems True by (intro chain_cong) (auto simp: task_field_store)
    then show ?thesis using Cons.prems True by (simp add: task_field_store)
  next
    case False
    then have "x \<noteq> last xs" using Cons.prems(3) by auto
    then show ?thesis using Cons False by (simp add: task_field_store)
  qed
qed simp

section \<open>Linking a task in\<close>

lemma task_insert_tasks:
  assumes "tasks s xs" "t \<notin> set xs" "t \<noteq> 0" "paging_is_aligned t" "task_link (mem s) t = 0" "task_prev (mem s) t = 0"
  shows "tasks (task_insert t s) (xs @ [t])"
proof (cases "xs = []")
  case True
  then show ?thesis using assms by (simp add: tasks_def task_insert_def)
next
  case False
  let ?l = "last xs"
  have l: "?l \<in> set xs" "?l \<noteq> t" "paging_is_aligned ?l" using assms False by (auto simp: tasks_def)
  have head: "task_head s \<noteq> 0" using assms(1) False chain_head [of "mem s" "task_head s" xs] chain_nonzero [of "mem s" "task_head s" xs]
    by (auto simp: tasks_def)
  let ?m = "store32 (mem s) (?l + 60) t"
  have t: "chain (mem s) t [t]" using assms by simp
  have "chain ?m (task_head s) (xs @ [t])"
    using chain_relink [OF _ False _ _ t, of "task_head s" "[]"] assms l by (auto simp: tasks_def)
  moreover have "chain (store32 ?m (t + 56) ?l) (task_head s) (xs @ [t]) = chain ?m (task_head s) (xs @ [t])"
    using assms by (intro chain_cong) (auto simp: task_field_store tasks_def)
  moreover have "back_links (store32 ?m (t + 56) ?l) 0 (xs @ [t])"
  proof -
    have "back_links (store32 ?m (t + 56) ?l) 0 xs = back_links (mem s) 0 xs"
      using assms l by (intro back_links_cong) (auto simp: task_field_store tasks_def)
    moreover have "back_links m b (xs @ [t]) \<longleftrightarrow> back_links m b xs \<and> task_prev m t = (if xs = [] then b else ?l)" for m b
      by (induction xs arbitrary: b) auto
    ultimately show ?thesis using assms l False by (simp add: task_field_store tasks_def)
  qed
  ultimately show ?thesis
    using assms False head by (simp add: tasks_def task_insert_def put32_def Let_def)
qed

section \<open>Unlinking a task\<close>

definition current_listed :: "'a tstate_scheme \<Rightarrow> u32 list \<Rightarrow> bool" where
  "current_listed s xs \<longleftrightarrow> current_task s \<in> set xs \<or> current_task s = 0 \<and> xs = []"

lemma chain_cut:
  assumes "chain m p (xs @ t # ys)" "distinct (xs @ t # ys)" "\<forall>x \<in> set (xs @ t # ys). paging_is_aligned x"
  shows "chain (if xs = [] then m else store32 m (last xs + 60) (task_link m t))
    (if xs = [] then task_link m t else p) (xs @ ys)"
proof -
  have "chain m (task_link m t) ys"
    using assms(1) by (induction xs arbitrary: p) auto
  moreover have "last xs \<notin> set ys" if "xs \<noteq> []" using assms(2) last_in_set [OF that] by auto
  ultimately show ?thesis
    using chain_relink [OF assms(1), of "task_link m t" ys] assms by (cases "xs = []") auto
qed

text \<open>The function as one update of the state.\<close>

lemma task_list_remove_eq:
  fixes s :: "'a tstate_scheme" and t :: u32
  defines "s' \<equiv> task_list_remove t s"
  shows "mem s' = (if task_prev (mem s) t \<noteq> 0 then store32 (mem s) (task_prev (mem s) t + 60) (task_link (mem s) t) else mem s)"
    "task_head s' = (if t = task_head s then task_link (mem s') t else task_head s)"
    "task_tail s' = (if t = task_tail s then task_prev (mem s') t else task_tail s)"
    "current_task s' = (if t = current_task s then if task_link (mem s') t \<noteq> 0 then task_link (mem s') t else task_head s'
       else current_task s)"
proof -
  define s1 where "s1 = (if task_prev (mem s) t \<noteq> 0 then put32 (task_prev (mem s) t + 60) (task_link (mem s) t) s else s)"
  define s2 where "s2 = (if t = task_head s1 then s1\<lparr>task_head := task_link (mem s1) t\<rparr> else s1)"
  define s3 where "s3 = (if t = task_tail s2 then s2\<lparr>task_tail := task_prev (mem s2) t\<rparr> else s2)"
  have s': "s' = (if t = current_task s3 then s3\<lparr>current_task := task_get_next s3\<rparr> else s3)"
    unfolding s'_def task_list_remove_def s1_def s2_def s3_def Let_def ..
  have 1: "mem s1 = (if task_prev (mem s) t \<noteq> 0 then store32 (mem s) (task_prev (mem s) t + 60) (task_link (mem s) t) else mem s)"
    "task_head s1 = task_head s" "task_tail s1 = task_tail s" "current_task s1 = current_task s"
    by (simp_all add: s1_def put32_def)
  have 2: "mem s2 = mem s1" "task_head s2 = (if t = task_head s then task_link (mem s1) t else task_head s)"
    "task_tail s2 = task_tail s" "current_task s2 = current_task s"
    by (simp_all add: s2_def 1)
  have 3: "mem s3 = mem s1" "task_head s3 = task_head s2" "current_task s3 = current_task s"
    "task_tail s3 = (if t = task_tail s then task_prev (mem s1) t else task_tail s)"
    by (simp_all add: s3_def 2)
  have 4: "mem s' = mem s1" "task_head s' = task_head s3" "task_tail s' = task_tail s3"
    "current_task s' = (if t = current_task s then task_get_next s3 else current_task s)"
    by (simp_all add: s' 3)
  show "mem s' = (if task_prev (mem s) t \<noteq> 0 then store32 (mem s) (task_prev (mem s) t + 60) (task_link (mem s) t) else mem s)"
    using 4 1 by simp
  show "task_head s' = (if t = task_head s then task_link (mem s') t else task_head s)" using 4 3 2 by simp
  show "task_tail s' = (if t = task_tail s then task_prev (mem s') t else task_tail s)" using 4 3 by simp
  show "current_task s' = (if t = current_task s then if task_link (mem s') t \<noteq> 0 then task_link (mem s') t else task_head s'
       else current_task s)"
    unfolding 4 task_get_next_def 3 by simp
qed

lemma task_list_remove_chain:
  assumes ts: "tasks s (xs @ t # ys)"
  defines "s' \<equiv> task_list_remove t s"
  shows "chain (mem s') (task_head s') (xs @ ys)"
    and "task_tail s' = (if xs @ ys = [] then 0 else last (xs @ ys))"
    and "task_link (mem s') t = task_link (mem s) t"
    and "\<And>y. y \<in> set ys \<Longrightarrow> task_prev (mem s') y = task_prev (mem s) y"
    and "mem s' = (if xs = [] then mem s else store32 (mem s) (last xs + 60) (task_link (mem s) t))"
    and "task_head s' = (if xs = [] then task_link (mem s) t else task_head s)"
    and "current_task s' = (if current_task s \<noteq> t then current_task s
      else if task_link (mem s) t \<noteq> 0 then task_link (mem s) t else task_head s')"
proof -
  have c: "chain (mem s) (task_head s) (xs @ t # ys)" and d: "distinct (xs @ t # ys)"
    and al: "\<forall>x \<in> set (xs @ t # ys). paging_is_aligned x" and tail: "task_tail s = last (xs @ t # ys)"
    using ts by (auto simp: tasks_def)
  have prev: "task_prev (mem s) t = (if xs = [] then 0 else last xs)"
    using ts back_links_append [of "mem s" 0 xs t ys] by (auto simp: tasks_def)
  have nz: "x \<noteq> 0" if "x \<in> set (xs @ t # ys)" for x using chain_nonzero [OF c that] .
  have head: "task_head s = (if xs = [] then t else hd xs)" using chain_head [OF c] by (cases xs) auto
  let ?m = "if xs = [] then mem s else store32 (mem s) (last xs + 60) (task_link (mem s) t)"
  have link: "task_link ?m t = task_link (mem s) t" using al d by (auto simp: task_field_store)
  have prevs: "task_prev ?m y = task_prev (mem s) y" if "y \<in> set (t # ys)" for y
    using al that by (auto simp: task_field_store)
  have ht: "t = task_head s \<longleftrightarrow> xs = []" using head d by (cases xs) auto
  have tt: "t = task_tail s \<longleftrightarrow> ys = []" using tail d by (cases ys rule: rev_cases) auto
  have m: "(if task_prev (mem s) t \<noteq> 0 then store32 (mem s) (task_prev (mem s) t + 60) (task_link (mem s) t) else mem s) = ?m"
    using nz [of "last xs"] by (auto simp: prev)
  note eq = task_list_remove_eq [of t s, folded s'_def]
  have m': "mem s' = ?m" using eq(1) m by simp
  have h': "task_head s' = (if xs = [] then task_link (mem s) t else task_head s)"
    unfolding eq(2) ht m' link by simp
  have l': "task_tail s' = (if ys = [] then task_prev (mem s) t else task_tail s)"
    using prevs [of t] unfolding eq(3) tt m' by simp
  show "mem s' = ?m" "task_head s' = (if xs = [] then task_link (mem s) t else task_head s)" by (fact m' h')+
  show "chain (mem s') (task_head s') (xs @ ys)" unfolding m' h' by (rule chain_cut [OF c d al])
  show "task_tail s' = (if xs @ ys = [] then 0 else last (xs @ ys))" using l' prev tail by auto
  show "task_link (mem s') t = task_link (mem s) t" unfolding m' by (rule link)
  show "task_prev (mem s') y = task_prev (mem s) y" if "y \<in> set ys" for y using prevs [of y] that unfolding m' by simp
  show "current_task s' = (if current_task s \<noteq> t then current_task s
      else if task_link (mem s) t \<noteq> 0 then task_link (mem s) t else task_head s')"
    unfolding eq(4) m' link by auto
qed

section \<open>Round robin\<close>

lemma chain_next:
  assumes "chain m p xs" "distinct xs" "i < length xs"
  shows "task_link m (xs ! i) = (if Suc i < length xs then xs ! Suc i else 0)"
proof -
  have "xs = take i xs @ xs ! i # drop (Suc i) xs" using assms(3) by (simp add: id_take_nth_drop)
  then have "task_link m (xs ! i) = (if drop (Suc i) xs = [] then 0 else hd (drop (Suc i) xs))"
    using chain_append [of m p "take i xs" "xs ! i" "drop (Suc i) xs"] assms(1) by simp
  then show ?thesis by (simp add: hd_drop_conv_nth)
qed

lemma task_get_next_cyclic:
  assumes "chain (mem s) (task_head s) xs" "distinct xs" "i < length xs" "current_task s = xs ! i"
  shows "task_get_next s = xs ! (Suc i mod length xs)"
proof -
  have "task_head s = xs ! 0" using chain_head [OF assms(1)] assms(3) by (cases xs) auto
  moreover have "xs ! Suc i \<noteq> 0" if "Suc i < length xs" using chain_nonzero [OF assms(1)] that by simp
  ultimately show ?thesis
    using chain_next [OF assms(1-3)] assms(3,4) by (cases "Suc i < length xs") (auto simp: task_get_next_def dest: not_less_less_Suc_eq [THEN iffD1])
qed

lemma task_next_runs:
  assumes "task_get_next s \<noteq> 0"
  shows "task_next s = Some (Resumed (task_registers (task_get_next s)) (task_switch (task_get_next s) s))"
  using assms by (simp add: task_next_def run_simps)

text \<open>The state after \<open>k\<close> calls of \<^verbatim>\<open>task_next\<close>, one per timer tick.\<close>

fun ticks :: "nat \<Rightarrow> 'a tstate_scheme \<Rightarrow> 'a tstate_scheme option" where
  "ticks 0 s = Some s"
| "ticks (Suc k) s = (case task_next s of Some (Resumed r s') \<Rightarrow> ticks k s' | _ \<Rightarrow> None)"

lemma task_switch_list [simp]:
  "mem (task_switch t s) = mem s" "task_head (task_switch t s) = task_head s" "task_tail (task_switch t s) = task_tail s"
  "current_task (task_switch t s) = t" "cr3 (task_switch t s) = d_entry (mem s) (task_page_directory (mem s) t)"
  by (simp_all add: task_switch_def paging_switch_def Let_def)

lemma ticks_run:
  assumes "chain (mem s) (task_head s) xs" "distinct xs" "i < length xs" "current_task s = xs ! i"
  shows "\<exists>s'. ticks k s = Some s' \<and> current_task s' = xs ! ((i + k) mod length xs) \<and> mem s' = mem s
    \<and> (0 < k \<longrightarrow> cr3 s' = d_entry (mem s) (task_page_directory (mem s) (current_task s')))"
  using assms
proof (induction k arbitrary: i s)
  case (Suc k)
  let ?t = "xs ! (Suc i mod length xs)" and ?i = "Suc i mod length xs"
  have nxt: "task_get_next s = ?t" by (rule task_get_next_cyclic [OF Suc.prems])
  have i: "?i < length xs" using Suc.prems(3) by (intro mod_less_divisor) (cases xs; simp)
  then have "?t \<noteq> 0" using chain_nonzero [OF Suc.prems(1), of ?t] by simp
  then have step: "task_next s = Some (Resumed (task_registers ?t) (task_switch ?t s))" using task_next_runs nxt by metis
  have "\<exists>s'. ticks k (task_switch ?t s) = Some s' \<and> current_task s' = xs ! ((?i + k) mod length xs) \<and> mem s' = mem s
    \<and> (0 < k \<longrightarrow> cr3 s' = d_entry (mem s) (task_page_directory (mem s) (current_task s')))"
    using Suc.IH [of "task_switch ?t s" ?i] Suc.prems(1,2) i by simp
  then obtain s' where s': "ticks k (task_switch ?t s) = Some s'" "current_task s' = xs ! ((?i + k) mod length xs)"
    "mem s' = mem s" "0 < k \<longrightarrow> cr3 s' = d_entry (mem s) (task_page_directory (mem s) (current_task s'))" by blast
  have "(?i + k) mod length xs = (i + Suc k) mod length xs" by (simp add: mod_add_left_eq)
  moreover have "cr3 s' = d_entry (mem s) (task_page_directory (mem s) (current_task s'))"
    using s' i by (cases k) auto
  ultimately show ?case using s' step by (intro exI [of _ s']) simp
qed simp

section \<open>Saved registers\<close>

lemma store_field_other:
  assumes "i + 4 \<le> j \<or> j + 4 \<le> i" "i < 4294967292" "j < 4294967292"
  shows "load32 (store32 m (a + of_nat i) v) (a + of_nat j) = load32 m (a + of_nat j)"
proof (rule load32_cong)
  fix k :: nat assume "k < 4"
  then have "a + of_nat j + of_nat k \<noteq> a + of_nat i + of_nat l" if "l < 4" for l
    using assms that add_of_nat_inj [of "j + k" "i + l" a] by (auto simp: add.assoc)
  then show "store32 m (a + of_nat i) v (a + of_nat j + of_nat k) = m (a + of_nat j + of_nat k)"
    by (intro store32_other) auto
qed

lemma apart_store_field:
  assumes "apart a n b k" "i + 4 \<le> unat n" "j + 4 \<le> unat k"
  shows "load32 (store32 m (a + of_nat i) v) (b + of_nat j) = load32 m (b + of_nat j)"
proof (rule load32_cong)
  fix q :: nat assume "q < 4"
  then have "b + of_nat (j + q) \<noteq> a + of_nat (i + l)" if "l < 4" for l
    using assms that unfolding apart_def by (metis add_less_cancel_left less_le_trans)
  then show "store32 m (a + of_nat i) v (b + of_nat j + of_nat q) = m (b + of_nat j + of_nat q)"
    by (intro store32_other) (auto simp: add.assoc)
qed

text \<open>The pairs of a register and the field of the frame it is saved from.\<close>

definition saved_pairs :: "(nat \<times> nat) list" where
  "saved_pairs = [(28, 36), (32, 40), (36, 44), (40, 48), (44, 52), (24, 28), (8, 8), (12, 16), (20, 24), (0, 0), (16, 20), (4, 4)]"

lemma task_save_state_pairs:
  "task_save_state t frame s =
     fold (\<lambda>(r, f) s. put32 (t + 4 + of_nat r) (load32 (mem s) (frame + of_nat f)) s) saved_pairs s"
  by (simp add: task_save_state_def saved_pairs_def task_registers_def reg_defs frame_defs)

lemma save_pairs:
  assumes "apart (t + 4) 48 frame 56" "\<forall>(r, f) \<in> set ps. r \<le> 44 \<and> f \<le> 52" "distinct (map fst ps)" "\<forall>(r, f) \<in> set ps. 4 dvd r"
  shows "\<exists>m. fold (\<lambda>(r, f) s. put32 (t + 4 + of_nat r) (load32 (mem s) (frame + of_nat f)) s) ps s = s\<lparr>mem := m\<rparr>
    \<and> (\<forall>(r, f) \<in> set ps. load32 m (t + 4 + of_nat r) = load32 (mem s) (frame + of_nat f))
    \<and> (\<forall>f \<le> 52. load32 m (frame + of_nat f) = load32 (mem s) (frame + of_nat f))
    \<and> (\<forall>r. r \<le> 44 \<longrightarrow> 4 dvd r \<longrightarrow> r \<notin> fst ` set ps \<longrightarrow> load32 m (t + 4 + of_nat r) = load32 (mem s) (t + 4 + of_nat r))
    \<and> (\<forall>a. \<not> in_region (t + 4) 48 a \<longrightarrow> m a = mem s a)"
  using assms
proof (induction ps arbitrary: s)
  case Nil
  have "s = s\<lparr>mem := mem s\<rparr>" by simp
  then show ?case by (intro exI [of _ "mem s"]) simp
next
  case (Cons p ps)
  obtain r f where p: "p = (r, f)" by (cases p)
  let ?v = "load32 (mem s) (frame + of_nat f)"
  let ?m1 = "store32 (mem s) (t + 4 + of_nat r) ?v"
  have rf: "r \<le> 44" "f \<le> 52" "4 dvd r" using Cons.prems by (auto simp: p)
  have frame: "load32 ?m1 (frame + of_nat g) = load32 (mem s) (frame + of_nat g)" if "g \<le> 52" for g
    using apart_store_field [OF Cons.prems(1), of r g] rf that by simp
  have other: "load32 ?m1 (t + 4 + of_nat q) = load32 (mem s) (t + 4 + of_nat q)" if "q \<le> 44" "4 dvd q" "q \<noteq> r" for q
  proof (rule store_field_other)
    show "r + 4 \<le> q \<or> q + 4 \<le> r" using that rf by (auto simp: dvd_def)
  qed (use that rf in auto)
  have out: "?m1 a = mem s a" if "\<not> in_region (t + 4) 48 a" for a
  proof (rule store32_other)
    fix i :: nat assume "i < 4"
    then have "in_region (t + 4) 48 (t + 4 + of_nat (r + i))" using rf by (intro in_region_offset) simp
    then show "a \<noteq> t + 4 + of_nat r + of_nat i" using that by (auto simp: add.assoc)
  qed
  obtain m where m: "fold (\<lambda>(r, f) s. put32 (t + 4 + of_nat r) (load32 (mem s) (frame + of_nat f)) s) ps (s\<lparr>mem := ?m1\<rparr>) = s\<lparr>mem := m\<rparr>"
    "\<forall>(r, f) \<in> set ps. load32 m (t + 4 + of_nat r) = load32 ?m1 (frame + of_nat f)"
    "\<forall>f \<le> 52. load32 m (frame + of_nat f) = load32 ?m1 (frame + of_nat f)"
    "\<forall>r. r \<le> 44 \<longrightarrow> 4 dvd r \<longrightarrow> r \<notin> fst ` set ps \<longrightarrow> load32 m (t + 4 + of_nat r) = load32 ?m1 (t + 4 + of_nat r)"
    "\<forall>a. \<not> in_region (t + 4) 48 a \<longrightarrow> m a = ?m1 a"
    using Cons.IH [of "s\<lparr>mem := ?m1\<rparr>"] Cons.prems by auto
  have nin: "r \<notin> fst ` set ps" using Cons.prems(3) by (auto simp: p)
  show ?case
  proof (intro exI [of _ m] conjI allI impI)
    show "fold (\<lambda>(r, f) s. put32 (t + 4 + of_nat r) (load32 (mem s) (frame + of_nat f)) s) (p # ps) s = s\<lparr>mem := m\<rparr>"
      using m(1) by (simp add: p put32_def)
    have "load32 m (t + 4 + of_nat r) = ?v" using m(4) nin rf by (simp add: load32_store32_same)
    moreover have "load32 m (t + 4 + of_nat q) = load32 (mem s) (frame + of_nat g)" if "(q, g) \<in> set ps" for q g
    proof -
      have "g \<le> 52" using Cons.prems(2) that by (auto simp: p)
      then show ?thesis using bspec [OF m(2) that] frame by simp
    qed
    ultimately show "\<forall>(r, f) \<in> set (p # ps). load32 m (t + 4 + of_nat r) = load32 (mem s) (frame + of_nat f)"
      by (auto simp: p)
    show "load32 m (frame + of_nat g) = load32 (mem s) (frame + of_nat g)" if "g \<le> 52" for g using m(3) frame that by simp
    show "load32 m (t + 4 + of_nat q) = load32 (mem s) (t + 4 + of_nat q)"
      if "q \<le> 44" "4 dvd q" "q \<notin> fst ` set (p # ps)" for q using m(4) other that by (auto simp: p)
    show "m a = mem s a" if "\<not> in_region (t + 4) 48 a" for a using m(5) out that by simp
  qed
qed

section \<open>Properties\<close>

text \<open>C18. Round robin: whenever the task list is well linked and the current task is on it, every
  task of the list is resumed within as many timer ticks as there are tasks, with its own page
  directory loaded. No task is starved.\<close>

theorem task_round_robin:
  assumes "tasks s xs" "current_task s \<in> set xs" "t \<in> set xs"
  shows "\<exists>k s'. 1 \<le> k \<and> k \<le> length xs \<and> ticks k s = Some s' \<and> current_task s' = t
    \<and> cr3 s' = d_entry (mem s) (task_page_directory (mem s) t)"
proof -
  obtain i j where ij: "i < length xs" "current_task s = xs ! i" "j < length xs" "t = xs ! j"
    using assms(2,3) by (auto simp: in_set_conv_nth)
  define k where "k = (if i < j then j - i else length xs + j - i)"
  have k: "1 \<le> k" "k \<le> length xs" "(i + k) mod length xs = j"
    using ij by (auto simp: k_def mod_if)
  then show ?thesis
    using ticks_run [of s xs i k] assms(1) ij unfolding tasks_def by (metis less_le_trans zero_less_one)
qed

text \<open>Three linked tasks; the interrupt frame lies at 0x9000.\<close>

definition linked_pair :: "u32 \<Rightarrow> u32 \<Rightarrow> memory \<Rightarrow> memory" where
  "linked_pair t u m = store32 (store32 m (t + 60) u) (u + 56) t"

definition three_tasks :: tstate where
  "three_tasks = \<lparr>mem = linked_pair 0x11000 0x12000 (linked_pair 0x10000 0x11000 (\<lambda>a. if a < 0x9040 then ucast a else 0)),
     terminal_x = 0, terminal_y = 0, terminal_fg_color = 0, terminal_bg_color = 0,
     kernel_heap = kernel_heap_layout, current_directory = 0, cr3 = 0, disk_at = 0, kstack = 0,
     ata_status = (\<lambda>_ _ _. 0), ata_data = (\<lambda>_ _. 0), fat16_fs_at = 0, filesystems = [], file_descriptors = [],
     kernel_paging_chunk = 0, data_segments = 0, current_task = 0x11000, task_tail = 0x12000, task_head = 0x10000\<rparr>"

lemma linked_pair_fields:
  assumes "paging_is_aligned t" "paging_is_aligned u" "paging_is_aligned x"
  shows "task_link (linked_pair t u m) x = (if t = x then u else task_link m x)"
    and "task_prev (linked_pair t u m) x = (if u = x then t else task_prev m x)"
  by (simp_all add: linked_pair_def task_field_store assms)

lemma three_tasks_listed: "tasks three_tasks [0x10000, 0x11000, 0x12000]" "current_task three_tasks = 0x11000"
proof -
  have al: "paging_is_aligned 0x10000" "paging_is_aligned 0x11000" "paging_is_aligned 0x12000"
    by (simp_all add: paging_is_aligned_def paging_defs)
  have z: "task_link (\<lambda>a :: u32. if a < 0x9040 then ucast a else 0) x = 0"
    "task_prev (\<lambda>a :: u32. if a < 0x9040 then ucast a else 0) x = 0" if "x \<in> {0x10000, 0x11000, 0x12000}" for x
    using that by (auto simp: task_link_def task_prev_def load32_def)
  show "tasks three_tasks [0x10000, 0x11000, 0x12000]"
    unfolding tasks_def three_tasks_def by (simp add: al z linked_pair_fields)
  show "current_task three_tasks = 0x11000" by (simp add: three_tasks_def)
qed

theorem task_round_robin_witness:
  "\<exists>k s'. 1 \<le> k \<and> k \<le> 3 \<and> ticks k three_tasks = Some s' \<and> current_task s' = 0x10000"
  using task_round_robin [OF three_tasks_listed(1), of "0x10000"] three_tasks_listed(2) by auto

text \<open>C28. Unlinking a task: from a well-linked list \<^verbatim>\<open>task_list_remove\<close> leaves the list of the other tasks
  in order, with the right tail, and the removed task is not the current one unless the list became
  empty; when the last task of the list is removed the list stays well linked both ways.\<close>

theorem task_list_remove_correct:
  assumes "tasks s (xs @ t # ys)" "current_task s \<in> set (xs @ t # ys)"
  shows "chain (mem (task_list_remove t s)) (task_head (task_list_remove t s)) (xs @ ys)
    \<and> task_tail (task_list_remove t s) = (if xs @ ys = [] then 0 else last (xs @ ys))
    \<and> (if xs @ ys = [] then current_task (task_list_remove t s) = 0
       else current_task (task_list_remove t s) \<in> set (xs @ ys))
    \<and> (ys = [] \<longrightarrow> tasks (task_list_remove t s) xs)"
proof -
  note r = task_list_remove_chain [OF assms(1)]
  have c: "chain (mem s) (task_head s) (xs @ t # ys)" using assms(1) by (simp add: tasks_def)
  have link: "task_link (mem s) t = (if ys = [] then 0 else hd ys)" by (rule chain_append [OF c])
  have head: "task_head (task_list_remove t s) = (if xs @ ys = [] then 0 else hd (xs @ ys))" by (rule chain_head [OF r(1)])
  have nz: "\<forall>x \<in> set (xs @ ys). x \<noteq> 0" using chain_nonzero [OF r(1)] by blast
  have "if xs @ ys = [] then current_task (task_list_remove t s) = 0
       else current_task (task_list_remove t s) \<in> set (xs @ ys)"
    using assms(2) nz unfolding r(7) link head by (cases ys; cases xs) auto
  moreover have "tasks (task_list_remove t s) xs" if "ys = []"
  proof -
    have "back_links (mem (task_list_remove t s)) 0 xs = back_links (mem s) 0 xs"
      unfolding r(5) using assms(1) by (intro back_links_cong) (auto simp: tasks_def task_field_store)
    moreover have "back_links m b (xs @ zs) \<Longrightarrow> back_links m b xs" for m b zs by (induction xs arbitrary: b) auto
    ultimately show ?thesis using assms(1) r(1,2) that by (auto simp: tasks_def)
  qed
  ultimately show ?thesis using r(1,2) by blast
qed

theorem task_list_remove_correct_witness:
  "chain (mem (task_list_remove 0x11000 three_tasks)) (task_head (task_list_remove 0x11000 three_tasks)) [0x10000, 0x12000]
    \<and> current_task (task_list_remove 0x11000 three_tasks) \<in> {0x10000, 0x12000}"
  using task_list_remove_correct [of three_tasks "[0x10000]" "0x11000" "[0x12000]"] three_tasks_listed by simp

text \<open>The back link of the successor keeps pointing at the removed task. Removing the successor next
  writes into the released task and leaves the successor on the list.\<close>

lemma task_remove_stale:
  assumes "tasks s (xs @ [t, u])" "xs \<noteq> []"
  shows "chain (mem (task_list_remove u (task_list_remove t s)))
    (task_head (task_list_remove u (task_list_remove t s))) (xs @ [u])"
proof -
  let ?s = "task_list_remove t s"
  note r = task_list_remove_chain [of s xs t "[u]", OF assms(1)]
  have prev: "task_prev (mem ?s) u = t"
    using r(4) [of u] assms(1) back_links_append [of "mem s" 0 "xs @ [t]" u "[]"] by (auto simp: tasks_def)
  have al: "\<forall>x \<in> set (xs @ [t, u]). paging_is_aligned x" and d: "distinct (xs @ [t, u])" and "t \<noteq> 0"
    using assms(1) chain_nonzero [of "mem s" "task_head s" "xs @ [t, u]" t] by (auto simp: tasks_def)
  have "u \<noteq> task_head ?s" using chain_head [OF r(1)] assms(2) d by (cases xs) auto
  moreover have "chain (store32 (mem ?s) (t + 60) v) (task_head ?s) (xs @ [u])" for v
  proof -
    have "chain (store32 (mem ?s) (t + 60) v) (task_head ?s) (xs @ [u]) = chain (mem ?s) (task_head ?s) (xs @ [u])"
      using al d by (intro chain_cong) (auto simp: task_field_store)
    then show ?thesis using r(1) by simp
  qed
  ultimately show ?thesis
    using \<open>t \<noteq> 0\<close> prev unfolding task_list_remove_eq [of u ?s] by (simp only: simp_thms if_True if_False)
qed

text \<open>\<open>context_saved m' m frame t\<close>: each register of the task at \<open>t\<close> in \<open>m'\<close> has the value its field of the
  interrupt frame has in \<open>m\<close>.\<close>

definition context_saved :: "memory \<Rightarrow> memory \<Rightarrow> u32 \<Rightarrow> u32 \<Rightarrow> bool" where
  "context_saved m' m frame t \<longleftrightarrow>
     (\<forall>(reg, field) \<in> {(reg_edi, frame_edi), (reg_esi, frame_esi), (reg_ebp, frame_ebp), (reg_ebx, frame_ebx),
          (reg_edx, frame_edx), (reg_ecx, frame_ecx), (reg_eax, frame_eax), (reg_eip, frame_eip), (reg_cs, frame_cs),
          (reg_eflags, frame_eflags), (reg_esp, frame_esp), (reg_ss, frame_ss)}.
        load32 m' (task_registers t + reg) = load32 m (frame + field))"

lemma task_current_save_state_run:
  assumes "current_task s \<noteq> 0" "apart (task_registers (current_task s)) 48 frame 56"
  obtains m where "task_current_save_state frame s = Some (Ret () (s\<lparr>mem := m\<rparr>))"
    "context_saved m (mem s) frame (current_task s)"
    "\<forall>a. \<not> in_region (task_registers (current_task s)) 48 a \<longrightarrow> m a = mem s a"
proof -
  obtain m where m: "task_save_state (current_task s) frame s = s\<lparr>mem := m\<rparr>"
    "\<forall>(r, f) \<in> set saved_pairs. load32 m (current_task s + 4 + of_nat r) = load32 (mem s) (frame + of_nat f)"
    "\<forall>a. \<not> in_region (current_task s + 4) 48 a \<longrightarrow> m a = mem s a"
    using save_pairs [OF assms(2) [unfolded task_registers_def], of saved_pairs s]
    unfolding task_save_state_pairs by (auto simp: saved_pairs_def)
  show thesis
  proof (rule that [of m])
    show "task_current_save_state frame s = Some (Ret () (s\<lparr>mem := m\<rparr>))"
      using assms(1) m(1) by (simp add: task_current_save_state_def run_simps)
    show "context_saved m (mem s) frame (current_task s)"
      using m(2) by (simp add: context_saved_def saved_pairs_def task_registers_def reg_defs frame_defs)
  qed (use m(3) in \<open>simp add: task_registers_def\<close>)
qed

text \<open>The register area of a task holds no link and no directory of a task.\<close>

lemma task_field_outside:
  assumes "paging_is_aligned t" "paging_is_aligned u" "j = 0 \<or> 13 \<le> unat j" "unat j < 1024" "k < 4"
  shows "\<not> in_region (task_registers t) 48 (u + 4 * j + of_nat k)"
proof -
  obtain a where a: "a < 1048576" "unat t = 4096 * a" using assms(1) by (rule aligned_page)
  obtain b where b: "unat u = 4096 * b" using assms(2) by (rule aligned_page)
  note ab = a(2) b
  have t4: "unat (t + 4) = unat t + 4" "unat t + 4096 \<le> 4294967296"
    using slot_byte(1) [OF assms(1), of 1 0] a by simp_all
  have u: "unat (u + 4 * j + of_nat k) = unat u + 4 * unat j + k"
    using slot_byte(1) [OF assms(2,4,5)] .
  have "\<not> (unat t + 4 \<le> unat u + 4 * unat j + k \<and> unat u + 4 * unat j + k < unat t + 52)"
  proof
    assume h: "unat t + 4 \<le> unat u + 4 * unat j + k \<and> unat u + 4 * unat j + k < unat t + 52"
    then have "4096 * b \<le> 4096 * a + 51" "4096 * a < 4096 * b + 4096" using assms(4,5) ab by linarith+
    then have "a = b" by linarith
    then show False using h assms(3,5) ab by auto
  qed
  moreover have "in_region (t + 4) 48 (u + 4 * j + of_nat k) \<longleftrightarrow>
      unat t + 4 \<le> unat u + 4 * unat j + k \<and> unat u + 4 * unat j + k < unat t + 52"
  proof -
    have n: "unat (48 :: u32) = 48" by simp
    then have "unat (t + 4) + unat (48 :: u32) \<le> 4294967296" using t4 by linarith
    from in_region_interval [OF this, of "u + 4 * j + of_nat k"] show ?thesis unfolding u t4(1) n by linarith
  qed
  ultimately show ?thesis by (simp add: task_registers_def)
qed

lemma task_fields_outside:
  assumes "\<forall>a. \<not> in_region (task_registers t) 48 a \<longrightarrow> m a = m0 a" "paging_is_aligned t" "paging_is_aligned u"
  shows "task_link m u = task_link m0 u" "task_prev m u = task_prev m0 u" "task_page_directory m u = task_page_directory m0 u"
proof -
  have "load32 m (u + 4 * j) = load32 m0 (u + 4 * j)" if "j = 0 \<or> 13 \<le> unat j" "unat j < 1024" for j
    using task_field_outside [OF assms(2,3) that] assms(1) by (intro load32_cong) auto
  from this [of 15] this [of 14] this [of 0]
  show "task_link m u = task_link m0 u" "task_prev m u = task_prev m0 u" "task_page_directory m u = task_page_directory m0 u"
    by (simp_all add: task_link_def task_prev_def task_page_directory_def)
qed

text \<open>C29. \<^verbatim>\<open>task_current_save_state\<close> saves the interrupted context exactly: when the interrupt frame does not
  overlap the register area of the current task, each of the twelve saved registers afterwards holds
  the value the frame has for it, and no byte outside the register area changes. Without a current
  task the machine stops with the panic message.\<close>

theorem task_current_save_state_correct:
  shows "(current_task s = 0 \<longrightarrow>
      task_current_save_state frame s = Some (Halted (kernel_panic (''No task to save!'' @ [CHR 10]) s)))
    \<and> (current_task s \<noteq> 0 \<longrightarrow> apart (task_registers (current_task s)) 48 frame 56 \<longrightarrow>
      (\<exists>m. task_current_save_state frame s = Some (Ret () (s\<lparr>mem := m\<rparr>))
        \<and> context_saved m (mem s) frame (current_task s)
        \<and> (\<forall>a. \<not> in_region (task_registers (current_task s)) 48 a \<longrightarrow> m a = mem s a)))"
proof (intro conjI impI)
  show "task_current_save_state frame s = Some (Halted (kernel_panic (''No task to save!'' @ [CHR 10]) s))"
    if "current_task s = 0" using that by (simp add: task_current_save_state_def run_simps)
  assume "current_task s \<noteq> 0" "apart (task_registers (current_task s)) 48 frame 56"
  from task_current_save_state_run [OF this] obtain m where
    "task_current_save_state frame s = Some (Ret () (s\<lparr>mem := m\<rparr>))" "context_saved m (mem s) frame (current_task s)"
    "\<forall>a. \<not> in_region (task_registers (current_task s)) 48 a \<longrightarrow> m a = mem s a" .
  then show "\<exists>m. task_current_save_state frame s = Some (Ret () (s\<lparr>mem := m\<rparr>))
        \<and> context_saved m (mem s) frame (current_task s)
        \<and> (\<forall>a. \<not> in_region (task_registers (current_task s)) 48 a \<longrightarrow> m a = mem s a)"
    by (intro exI [of _ m] conjI)
qed

theorem task_current_save_state_correct_witness:
  "\<exists>m. task_current_save_state 0x9000 three_tasks = Some (Ret () (three_tasks\<lparr>mem := m\<rparr>))
    \<and> context_saved m (mem three_tasks) 0x9000 0x11000"
proof -
  have "apart (task_registers 0x11000) 48 0x9000 56"
    by (rule apart_sym [OF apart_interval]) (simp_all add: task_registers_def)
  then show ?thesis
    using task_current_save_state_correct [of three_tasks "0x9000"] three_tasks_listed(2) by auto
qed

end
