(* ===== verification/SchedulerSpec.thy ===== *)
theory SchedulerSpec
  imports Interrupts TaskSpec
begin

text \<open>
  Preemption: what a timer interrupt does, from the entry \<^verbatim>\<open>interrupt_handler\<close> through the saving of the
  context to the resumption of the next task.
\<close>

lemma kernel_page_state:
  "mem (kernel_page s) = mem s" "current_task (kernel_page s) = current_task s" "task_head (kernel_page s) = task_head s"
  "task_tail (kernel_page s) = task_tail s"
  by (simp_all add: kernel_page_def kernel_registers_def paging_switch_def Let_def)

lemma kernel_page_istate:
  "interrupt_callbacks (kernel_page s) = interrupt_callbacks s" "port_writes (kernel_page s) = port_writes s"
  by (simp_all add: kernel_page_def kernel_registers_def paging_switch_def Let_def)

lemma task_switch_ports: "port_writes (task_switch t s) = port_writes s"
  by (simp add: task_switch_def paging_switch_def Let_def)

lemma tasks_save:
  assumes "tasks s xs" "t \<in> set xs" "\<forall>a. \<not> in_region (task_registers t) 48 a \<longrightarrow> m a = mem s a"
    "mem s' = m" "task_head s' = task_head s" "task_tail s' = task_tail s"
  shows "tasks s' xs" "\<forall>u \<in> set xs. task_link m u = task_link (mem s) u"
    "\<forall>u \<in> set xs. task_page_directory m u = task_page_directory (mem s) u"
proof -
  have al: "\<forall>u \<in> set xs. paging_is_aligned u" using assms(1) by (simp add: tasks_def)
  then have f: "task_link m u = task_link (mem s) u \<and> task_prev m u = task_prev (mem s) u
      \<and> task_page_directory m u = task_page_directory (mem s) u" if "u \<in> set xs" for u
    using task_fields_outside [OF assms(3)] assms(2) that by blast
  then show "\<forall>u \<in> set xs. task_link m u = task_link (mem s) u"
    "\<forall>u \<in> set xs. task_page_directory m u = task_page_directory (mem s) u" by blast+
  have "chain m (task_head s) xs = chain (mem s) (task_head s) xs" "back_links m 0 xs = back_links (mem s) 0 xs"
    using f by (intro chain_cong back_links_cong; blast)+
  then show "tasks s' xs" using assms(1,4-6) by (simp add: tasks_def)
qed

text \<open>C6. Preemption: when the timer interrupts a task of a well-linked list, the handler never returns to the
  interrupted code. It saves the twelve registers of the interrupted task from the interrupt frame,
  acknowledges the interrupt once, loads the page directory of the next task of the ring and leaves
  through the register area of that task; the list is unchanged and well linked, and no other byte of
  memory changes.\<close>

theorem timer_preempts:
  assumes "tasks s xs" "current_task s \<in> set xs"
    "interrupt_callbacks s ! 0x20 = Some Timer_interrupt"
    "apart (task_registers (current_task s)) 48 frame 56"
  shows "\<exists>s'. interrupt_handler 0x20 frame s = Some (Resumed (task_registers (task_get_next s)) s')
    \<and> current_task s' = task_get_next s \<and> task_get_next s \<in> set xs
    \<and> context_saved (mem s') (mem s) frame (current_task s)
    \<and> (\<forall>a. \<not> in_region (task_registers (current_task s)) 48 a \<longrightarrow> mem s' a = mem s a)
    \<and> tasks s' xs \<and> port_writes s' = port_writes s @ [(0x20, 0x20)]
    \<and> cr3 s' = d_entry (mem s') (task_page_directory (mem s) (task_get_next s))"
proof -
  let ?k = "kernel_page s" and ?t = "current_task s"
  have c: "chain (mem s) (task_head s) xs" and d: "distinct xs" using assms(1) by (auto simp: tasks_def)
  have t: "?t \<noteq> 0" using chain_nonzero [OF c assms(2)] .
  have "current_task ?k \<noteq> 0" "apart (task_registers (current_task ?k)) 48 frame 56"
    using t assms(4) by (simp_all add: kernel_page_state)
  from task_current_save_state_run [OF this] obtain m where m:
    "task_current_save_state frame ?k = Some (Ret () (?k\<lparr>mem := m\<rparr>))"
    "context_saved m (mem s) frame ?t" "\<forall>a. \<not> in_region (task_registers ?t) 48 a \<longrightarrow> m a = mem s a"
    unfolding kernel_page_state .
  define k1 where "k1 = ?k\<lparr>mem := m, port_writes := port_writes s @ [(0x20, 0x20)]\<rparr>"
  have k1: "mem k1 = m" "current_task k1 = ?t" "task_head k1 = task_head s" "task_tail k1 = task_tail s"
    "port_writes k1 = port_writes s @ [(0x20, 0x20)]"
    by (simp_all add: k1_def kernel_page_state)
  note saved = tasks_save [OF assms(1,2) m(3) k1(1,3,4)]
  have nxt: "task_get_next k1 = task_get_next s"
    using saved(2) assms(2) by (simp add: task_get_next_def k1)
  obtain i where i: "i < length xs" "?t = xs ! i" using assms(2) by (auto simp: in_set_conv_nth)
  have n: "task_get_next s \<in> set xs"
    using task_get_next_cyclic [OF c d i] i(1) by (metis mod_less_divisor nth_mem less_nat_zero_code neq0_conv)
  then have "task_get_next k1 \<noteq> 0" using chain_nonzero [OF c] nxt by simp
  then have run: "task_next k1 = Some (Resumed (task_registers (task_get_next s)) (task_switch (task_get_next s) k1))"
    using task_next_runs [of k1] nxt by simp
  have "outb 0x20 0x20 (?k\<lparr>mem := m\<rparr>) = k1" by (simp add: outb_def k1_def kernel_page_istate)
  then have "timer_interrupt (?k\<lparr>mem := m\<rparr>) = task_next k1" by (simp add: timer_interrupt_def run_simps)
  then have "interrupt_handler 0x20 frame s
      = Some (Resumed (task_registers (task_get_next s)) (task_switch (task_get_next s) k1))"
    using m(1) run assms(3) by (simp add: interrupt_handler_def run_simps kernel_page_istate)
  moreover have "tasks (task_switch (task_get_next s) k1) xs" using saved(1) by (simp add: tasks_def)
  ultimately show ?thesis
    using m(2,3) n saved(3) k1 task_switch_ports [of "task_get_next s" k1]
    by (intro exI [of _ "task_switch (task_get_next s) k1"]) simp
qed

text \<open>The three linked tasks in a machine with the timer registered.\<close>

definition ticking :: machine where
  "ticking = sstate.extend (kbstate.extend (istate.extend (pstate.extend (tstate.extend three_tasks
     (pstate.fields 0 [])) (istate.fields 0 0 (0, 0) (\<lambda>_. 0) 0 (replicate 0x20 None @ [Some Timer_interrupt]) []))
     (kbstate.fields 0 0 0 (\<lambda>_. 0) 0 0)) (sstate.fields [])) (machine.fields 0)"

theorem timer_preempts_witness:
  "\<exists>s'. interrupt_handler 0x20 0x9000 ticking = Some (Resumed (task_registers 0x12000) s')
    \<and> context_saved (mem s') (mem ticking) 0x9000 0x11000"
proof -
  note ext = ticking_def tstate.extend_def pstate.extend_def istate.extend_def kbstate.extend_def sstate.extend_def
    pstate.fields_def istate.fields_def kbstate.fields_def sstate.fields_def machine.fields_def
  have f: "mem ticking = mem three_tasks" "current_task ticking = 0x11000" "task_head ticking = task_head three_tasks"
    "task_tail ticking = task_tail three_tasks" "interrupt_callbacks ticking ! 0x20 = Some Timer_interrupt"
    by (simp_all add: ext three_tasks_listed(2) nth_append)
  then have l: "tasks ticking [0x10000, 0x11000, 0x12000]" using three_tasks_listed(1) by (simp add: tasks_def)
  have "task_link (mem ticking) 0x11000 = 0x12000" using l by (simp add: tasks_def)
  then have "task_get_next ticking = 0x12000" by (simp add: task_get_next_def f)
  moreover have "apart (task_registers (current_task ticking)) 48 0x9000 56"
    unfolding f by (rule apart_sym [OF apart_interval]) (simp_all add: task_registers_def)
  ultimately show ?thesis using timer_preempts [OF l _ f(5)] f(2) by auto
qed

end
