(* ===== verification/SyscallSpec.thy ===== *)
theory SyscallSpec
  imports Kernel KeyboardRing
begin

text \<open>
  The table of system calls: what \<^verbatim>\<open>isr80h_register_commands\<close> leaves in it and how
  \<^verbatim>\<open>isr80h_handle_command\<close> dispatches a command number that comes from a task.
\<close>

section \<open>Registration\<close>

text \<open>The commands in the order of their numbers.\<close>

definition registered :: "command list" where
  "registered = [Cmd_exit, Cmd_print, Cmd_print_ext, Cmd_get_key, Cmd_putchar, Cmd_malloc, Cmd_free,
     Cmd_process_load_start, Cmd_invoke_sys_command, Cmd_get_process_arguments]"

definition command_table :: "command option list" where
  "command_table = map Some registered @ replicate 1014 None"

lemma command_number_iff: "command_id <s 0 \<or> MAX_SYSCALL_HANDLE_COMMANDS \<le> command_id \<longleftrightarrow> 1024 \<le> unat command_id"
proof -
  have "command_id <s 0 \<longleftrightarrow> 2147483648 \<le> unat command_id"
    using sint_nonneg_iff [of command_id] by (simp add: word_sless_alt not_le [symmetric])
  then show ?thesis by (auto simp: config_defs word_le_nat_alt)
qed

lemma isr80h_register_command_eq:
  "isr80h_register_command command_id handler s =
    (if 1024 \<le> unat command_id then Some (Halted (kernel_panic (''Syscall handler exceeds bounds!'' @ [CHR 10]) s))
     else if isr80h_commands s ! unat command_id \<noteq> None then Some (Halted (kernel_panic (''Syscall already registered.'' @ [CHR 10]) s))
     else Some (Ret () (s\<lparr>isr80h_commands := (isr80h_commands s)[unat command_id := Some handler]\<rparr>)))"
  by (simp add: isr80h_register_command_def command_number_iff if_run run_simps)

text \<open>Registering a list of commands under consecutive numbers.\<close>

lemma register_commands_consecutive:
  assumes "ids = map of_nat [n..<n + length cs]" "n + length cs \<le> 1024" "isr80h_commands s = pre @ replicate (1024 - n) None" "length pre = n"
  shows "register_commands (zip ids cs) s =
    Some (Ret () (s\<lparr>isr80h_commands := pre @ map Some cs @ replicate (1024 - n - length cs) None\<rparr>))"
  using assms
proof (induction cs arbitrary: ids n pre s)
  case Nil
  then show ?case by (simp add: run_simps)
next
  case (Cons c cs)
  let ?s = "s\<lparr>isr80h_commands := (pre @ [Some c]) @ replicate (1024 - Suc n) None\<rparr>"
  have ids: "ids = of_nat n # map of_nat [Suc n..<Suc n + length cs]"
    using Cons.prems(1) upt_conv_Cons [of n "n + length (c # cs)"] by (simp del: upt_Suc)
  have n: "unat (of_nat n :: u32) = n" "n < 1024" using Cons.prems(2) by (simp_all add: unat_of_nat32)
  have r: "replicate (1024 - n) None = None # replicate (1024 - Suc n) (None :: command option)"
    using n(2) by (metis Suc_diff_Suc replicate_Suc)
  have "isr80h_register_command (of_nat n) c s = Some (Ret () ?s)"
    using Cons.prems(3,4) n unfolding r by (simp add: isr80h_register_command_eq nth_append list_update_append)
  moreover have "register_commands (zip (map of_nat [Suc n..<Suc n + length cs]) cs) ?s =
      Some (Ret () (?s\<lparr>isr80h_commands := (pre @ [Some c]) @ map Some cs @ replicate (1024 - Suc n - length cs) None\<rparr>))"
    using Cons.prems(2,4) by (intro Cons.IH) simp_all
  ultimately show ?case unfolding ids by (simp add: run_simps)
qed

lemma syscall_ids_zip: "syscall_ids = zip (map of_nat [0..<10]) registered"
  by (simp add: syscall_ids_def registered_def upt_rec)

lemma isr80h_register_commands_table:
  assumes "isr80h_commands s = replicate 1024 None"
  shows "isr80h_register_commands s = Some (Ret () (s\<lparr>isr80h_commands := command_table\<rparr>))"
proof -
  have "length registered = 10" by (simp add: registered_def)
  then show ?thesis
    using register_commands_consecutive [of "map of_nat [0..<10]" 0 registered s "[]"] assms
    unfolding isr80h_register_commands_def syscall_ids_zip by (simp add: command_table_def)
qed

lemma command_table_nth: "i < 1024 \<Longrightarrow> command_table ! i = (if i < 10 then Some (registered ! i) else None)"
proof -
  have len: "length registered = 10" by (simp add: registered_def)
  assume "i < 1024"
  then show ?thesis by (simp add: command_table_def nth_append len)
qed

section \<open>Dispatch\<close>

lemma isr80h_handle_command_eq:
  assumes "isr80h_commands s = command_table"
  shows "isr80h_handle_command command s =
    (if unat command < 10 then run_command (registered ! unat command) s else Some (Ret 0 s))"
  unfolding isr80h_handle_command_def command_number_iff
  by (simp add: if_run run_simps assms command_table_nth)

text \<open>C15. System-call dispatch: registration fills the empty table with the ten commands and nothing else of the
  state, the panics cannot happen then. With that table every command number a task can put in its
  register is safe: the numbers 0 to 9 run their handler, every other 32-bit value returns 0 and
  changes nothing. A second registration of a number in use halts the machine with the message of
  the code, as does a number outside the table.\<close>

theorem isr80h_dispatch:
  assumes "isr80h_commands s = replicate 1024 None"
  shows "isr80h_register_commands s = Some (Ret () (s\<lparr>isr80h_commands := command_table\<rparr>))
    \<and> (isr80h_commands t = command_table \<longrightarrow>
        isr80h_handle_command command t =
          (if unat command < 10 then run_command (registered ! unat command) t else Some (Ret 0 t))
        \<and> (unat command < 10 \<longrightarrow> isr80h_register_command command handler t =
              Some (Halted (kernel_panic (''Syscall already registered.'' @ [CHR 10]) t)))
        \<and> (1024 \<le> unat command \<longrightarrow> isr80h_register_command command handler t =
              Some (Halted (kernel_panic (''Syscall handler exceeds bounds!'' @ [CHR 10]) t))))"
  using assms
  by (simp add: isr80h_register_commands_table isr80h_handle_command_eq isr80h_register_command_eq command_table_nth)

text \<open>The state of the typing example with an empty table of system calls.\<close>

definition booting :: sstate where
  "booting = kbstate.extend typing_machine (sstate.fields (replicate 1024 None))"

theorem isr80h_dispatch_witness:
  "isr80h_register_commands booting = Some (Ret () (booting\<lparr>isr80h_commands := command_table\<rparr>))
    \<and> isr80h_handle_command 0x400 (booting\<lparr>isr80h_commands := command_table\<rparr>)
        = Some (Ret 0 (booting\<lparr>isr80h_commands := command_table\<rparr>))"
proof -
  have "isr80h_commands booting = replicate 1024 None"
    by (simp add: booting_def kbstate.extend_def sstate.fields_def)
  from isr80h_dispatch [OF this, of "booting\<lparr>isr80h_commands := command_table\<rparr>" "0x400"] show ?thesis by simp
qed

end
