(* ===== verification/IdtSpec.thy ===== *)
theory IdtSpec
  imports KeyboardRing
begin

text \<open>
  The interrupt descriptor table after \<^verbatim>\<open>idt_init\<close>: the gates as the processor reads them, the
  privilege each one demands and the callbacks.
\<close>

section \<open>One gate\<close>

text \<open>The privilege level a task needs to raise the interrupt with an \<^verbatim>\<open>int\<close> instruction.\<close>

definition gate_privilege :: "memory \<Rightarrow> u32 \<Rightarrow> u8" where
  "gate_privilege m d = drop_bit 5 (m (d + 5)) AND 3"

lemma address_halves:
  "push_bit 16 (ucast (ucast (drop_bit 16 a) :: u16)) OR ucast (ucast (a AND 0xFFFF) :: u16) = (a :: u32)"
proof -
  have "a AND 0xFFFF = take_bit 16 a" by (simp add: take_bit_eq_mask mask_eq_exp_minus_1)
  moreover have "push_bit 16 (ucast (ucast (drop_bit 16 a) :: u16)) OR ucast (ucast (take_bit 16 a) :: u16) = a"
    by (rule bit_eqI) (auto simp: bit_simps)
  ultimately show ?thesis by (simp only:)
qed

lemma selector_halves: "word_cat (ucast (drop_bit 8 x) :: u8) (ucast x :: u8) = (x :: u16)"
  by (rule bit_eqI) (auto simp: bit_simps)

lemma idt_set_gate:
  assumes "n < 256"
  obtains m where "idt_set n addr sel ty s = s\<lparr>mem := m\<rparr>"
    "gate_at m (idt_at s + 8 * of_nat n) = (addr, sel, ty)"
    "\<And>k. k < 2048 \<Longrightarrow> k div 8 \<noteq> n \<Longrightarrow> m (idt_at s + of_nat k) = mem s (idt_at s + of_nat k)"
    "\<And>a. \<not> in_region (idt_at s) 2048 a \<Longrightarrow> m a = mem s a"
proof -
  define d where "d = idt_at s + 8 * of_nat n"
  define m where "m = mem (idt_set n addr sel ty s)"
  have eq: "idt_set n addr sel ty s = s\<lparr>mem := m\<rparr>" by (simp add: m_def idt_set_def Let_def)
  have upd: "m = (mem s)(d := ucast (ucast (addr AND 0xFFFF) :: u16), d + 1 := ucast (drop_bit 8 (ucast (addr AND 0xFFFF) :: u16)),
      d + 2 := ucast sel, d + 3 := ucast (drop_bit 8 sel), d + 4 := 0, d + 5 := ty,
      d + 6 := ucast (ucast (drop_bit 16 addr) :: u16), d + 7 := ucast (drop_bit 8 (ucast (drop_bit 16 addr) :: u16)))"
    by (simp add: m_def idt_set_def Let_def store16_def IDT_ENTRY_MASK_LOW_OFFSET_def d_def add.assoc)
  have gate: "gate_at m d = (addr, sel, ty)"
    unfolding gate_at_def load16_def upd by (simp add: address_halves selector_halves add.assoc)
  have off: "m (idt_at s + of_nat k) = mem s (idt_at s + of_nat k)" if "k < 4294967296" "k div 8 \<noteq> n" for k
  proof -
    have "idt_at s + of_nat k \<noteq> d + of_nat j" if "j < 8" for j
    proof -
      have d: "d + of_nat j = idt_at s + of_nat (8 * n + j)" by (simp add: d_def add.assoc)
      have "8 * n + j \<noteq> k" "8 * n + j < 4294967296" using \<open>k div 8 \<noteq> n\<close> that assms by auto
      then show ?thesis unfolding d using add_of_nat_inj [of k "8 * n + j" "idt_at s"] \<open>k < 4294967296\<close> by metis
    qed
    from this [of 0] this [of 1] this [of 2] this [of 3] this [of 4] this [of 5] this [of 6] this [of 7]
    show ?thesis by (simp add: upd)
  qed
  show thesis
  proof (rule that [OF eq gate [unfolded d_def]])
    fix a assume a: "\<not> in_region (idt_at s) 2048 a"
    have "2048 \<le> unat (a - idt_at s)" using a by (simp add: in_region_def word_less_nat_alt)
    then have "unat (a - idt_at s) div 8 \<noteq> n" using assms by linarith
    then show "m a = mem s a" using off [of "unat (a - idt_at s)"] by simp
  qed (use off in auto)
qed

lemma gate_at_cong:
  assumes "\<And>k. k < 8 \<Longrightarrow> m' (d + of_nat k) = m (d + of_nat k)"
  shows "gate_at m' d = gate_at m d"
  using assms [of 0] assms [of 1] assms [of 2] assms [of 3] assms [of 5] assms [of 6] assms [of 7]
  by (simp add: gate_at_def load16_def add.assoc)

section \<open>The whole table\<close>

lemma idt_gates_fold:
  fixes s :: "'a istate_scheme"
  assumes "n \<le> 256"
  shows "\<exists>m. fold (\<lambda>i s. idt_set i (interrupt_pointer_table s i) sel ty s) [0..<n] s = s\<lparr>mem := m\<rparr>
    \<and> (\<forall>i < n. gate_at m (idt_at s + 8 * of_nat i) = (interrupt_pointer_table s i, sel, ty))
    \<and> (\<forall>a. \<not> in_region (idt_at s) 2048 a \<longrightarrow> m a = mem s a)"
  using assms
proof (induction n)
  case 0
  then show ?case by (intro exI [of _ "mem s"]) simp
next
  case (Suc n)
  then obtain m where m: "fold (\<lambda>i s. idt_set i (interrupt_pointer_table s i) sel ty s) [0..<n] s = s\<lparr>mem := m\<rparr>"
    "\<forall>i < n. gate_at m (idt_at s + 8 * of_nat i) = (interrupt_pointer_table s i, sel, ty)"
    "\<forall>a. \<not> in_region (idt_at s) 2048 a \<longrightarrow> m a = mem s a" by auto
  obtain m' where m': "idt_set n (interrupt_pointer_table s n) sel ty (s\<lparr>mem := m\<rparr>) = s\<lparr>mem := m'\<rparr>"
    "gate_at m' (idt_at s + 8 * of_nat n) = (interrupt_pointer_table s n, sel, ty)"
    "\<And>k. k < 2048 \<Longrightarrow> k div 8 \<noteq> n \<Longrightarrow> m' (idt_at s + of_nat k) = m (idt_at s + of_nat k)"
    "\<And>a. \<not> in_region (idt_at s) 2048 a \<Longrightarrow> m' a = m a"
    using idt_set_gate [where n = n and addr = "interrupt_pointer_table s n" and sel = sel and ty = ty and s = "s\<lparr>mem := m\<rparr>"] Suc.prems by auto
  have "gate_at m' (idt_at s + 8 * of_nat i) = gate_at m (idt_at s + 8 * of_nat i)" if "i < n" for i
  proof (rule gate_at_cong)
    fix k :: nat assume k: "k < 8"
    then have "8 * i + k < 2048" "(8 * i + k) div 8 \<noteq> n" using that Suc.prems by auto
    from m'(3) [OF this] show "m' (idt_at s + 8 * of_nat i + of_nat k) = m (idt_at s + 8 * of_nat i + of_nat k)"
      by (simp add: add.assoc)
  qed
  then show ?case using m m' by (intro exI [of _ m']) (auto simp: less_Suc_eq)
qed

lemma gate_kept:
  assumes "\<And>k. k < 2048 \<Longrightarrow> k div 8 \<noteq> n \<Longrightarrow> m' (p + of_nat k) = m (p + of_nat k)" "i < 256" "i \<noteq> n"
  shows "gate_at m' (p + 8 * of_nat i) = gate_at m (p + 8 * of_nat i)"
proof (rule gate_at_cong)
  fix k :: nat assume k: "k < 8"
  then have "8 * i + k < 2048" "(8 * i + k) div 8 \<noteq> n" using assms(2,3) by auto
  from assms(1) [OF this] show "m' (p + 8 * of_nat i + of_nat k) = m (p + 8 * of_nat i + of_nat k)"
    by (simp add: add.assoc)
qed

section \<open>Initialisation\<close>

lemma register_callback_eq:
  assumes "unat n < 256"
  shows "register_callback n c s = s\<lparr>interrupt_callbacks := (interrupt_callbacks s)[unat n := Some c]\<rparr>"
proof -
  have n: "sint n = int (unat n)" using assms by (simp add: sint_small)
  have "\<not> n <s 0" unfolding word_sless_alt n by simp
  moreover have "sint (0x100 :: u32) = 256" by simp
  then have "\<not> IDT_MAX_ENTRIES \<le>s n" using assms unfolding word_sle_eq n IDT_MAX_ENTRIES_def by linarith
  ultimately show ?thesis by (simp add: register_callback_def idt_register_interrupt_callback_def)
qed

lemma idt_load_size:
  "load16 (store32 (store16 m p v) (p + 2) w) p = v"
  by (simp add: load16_def store16_def store32_def selector_halves add.assoc)

text \<open>C16. The interrupt table: \<^verbatim>\<open>idt_init\<close> loads the table register with the address and limit of the table
  and leaves in each of the 256 gates, read as the processor reads them, the kernel code segment and
  the address of the assembly stub of that interrupt, except for gate 0x80, which holds the system-call
  entry. Only gate 0x80 can be raised by a task; every other gate demands kernel privilege. The five
  callbacks are registered under their numbers and no other callback changes, and memory outside the
  table and its register image is unchanged.\<close>

theorem idt_init_correct:
  shows "idt_register (idt_init s) = (2047, idt_at s)
    \<and> (\<forall>n < 256. gate_at (mem (idt_init s)) (idt_at s + 8 * of_nat n)
        = (if n = 0x80 then (isr80h_wrapper s, 0x08, INTERRUPT_GATE_USER_SPACE)
           else (interrupt_pointer_table s n, 0x08, INTERRUPT_GATE_KERNEL_SPACE)))
    \<and> (\<forall>n < 256. gate_privilege (mem (idt_init s)) (idt_at s + 8 * of_nat n) = (if n = 0x80 then 3 else 0))
    \<and> interrupt_callbacks (idt_init s) = (interrupt_callbacks s)[0 := Some Int_zero, 6 := Some Invalid_opcode_fault,
        13 := Some Int_gp_fault, 14 := Some Page_fault, 0x20 := Some Timer_interrupt]
    \<and> (\<forall>a. \<not> in_region (idt_at s) 2048 a \<longrightarrow> \<not> in_region (idtr_at s) 6 a \<longrightarrow> mem (idt_init s) a = mem s a)"
proof -
  let ?p = "idt_at s" and ?r = "idtr_at s" and ?k = "\<lambda>i. (interrupt_pointer_table s i, ucast KERNEL_CODE_SELECTOR :: u16, INTERRUPT_GATE_KERNEL_SPACE)"
  define m0 where "m0 = store32 (store16 (memset (mem s) ?p 0 2048) ?r (2048 - 1)) (?r + 2) ?p"
  define s0 where "s0 = s\<lparr>mem := m0, idt_register := (2047, ?p)\<rparr>"
  obtain m1 where m1: "fold (\<lambda>i s. idt_set i (interrupt_pointer_table s i) (ucast KERNEL_CODE_SELECTOR) INTERRUPT_GATE_KERNEL_SPACE s)
      [0..<256] s0 = s0\<lparr>mem := m1\<rparr>"
    "\<forall>i < 256. gate_at m1 (?p + 8 * of_nat i) = ?k i" "\<forall>a. \<not> in_region ?p 2048 a \<longrightarrow> m1 a = m0 a"
    using idt_gates_fold [of 256 "ucast KERNEL_CODE_SELECTOR" INTERRUPT_GATE_KERNEL_SPACE s0] by (auto simp: s0_def)
  obtain m2 where m2: "idt_set 0x80 (isr80h_wrapper s) (ucast KERNEL_CODE_SELECTOR) INTERRUPT_GATE_USER_SPACE (s0\<lparr>mem := m1\<rparr>) = s0\<lparr>mem := m2\<rparr>"
    "gate_at m2 (?p + 8 * of_nat 0x80) = (isr80h_wrapper s, ucast KERNEL_CODE_SELECTOR, INTERRUPT_GATE_USER_SPACE)"
    "\<And>k. k < 2048 \<Longrightarrow> k div 8 \<noteq> 0x80 \<Longrightarrow> m2 (?p + of_nat k) = m1 (?p + of_nat k)"
    "\<And>a. \<not> in_region ?p 2048 a \<Longrightarrow> m2 a = m1 a"
    using idt_set_gate [where n = "0x80" and addr = "isr80h_wrapper s" and sel = "ucast KERNEL_CODE_SELECTOR"
        and ty = INTERRUPT_GATE_USER_SPACE and s = "s0\<lparr>mem := m1\<rparr>"]
    by (auto simp: s0_def)
  have cb: "idt_init s = s0\<lparr>mem := m2, interrupt_callbacks := (interrupt_callbacks s)[0 := Some Int_zero,
      6 := Some Invalid_opcode_fault, 13 := Some Int_gp_fault, 14 := Some Page_fault, 0x20 := Some Timer_interrupt]\<rparr>"
  proof -
    have load: "idt_load ?r (s\<lparr>mem := m0\<rparr>) = s0" by (simp add: idt_load_def s0_def m0_def idt_load_size mem_simps)
    have n: "unat IDT_MAX_ENTRIES = 256" "isr80h_wrapper (s0\<lparr>mem := m1\<rparr>) = isr80h_wrapper s" by (simp_all add: config_defs s0_def)
    have "idt_init s = register_callback 0x20 Timer_interrupt (register_callback 14 Page_fault (register_callback 13 Int_gp_fault
        (register_callback 6 Invalid_opcode_fault (register_callback 0 Int_zero (s0\<lparr>mem := m2\<rparr>)))))"
      unfolding idt_init_def Let_def using load m1(1) m2(1) n by (simp add: m0_def)
    then show ?thesis by (simp add: register_callback_eq s0_def)
  qed
  have g: "gate_at m2 (?p + 8 * of_nat n) = (if n = 0x80 then (isr80h_wrapper s, 0x08, INTERRUPT_GATE_USER_SPACE)
      else (interrupt_pointer_table s n, 0x08, INTERRUPT_GATE_KERNEL_SPACE))" if "n < 256" for n
    using m2(2) gate_kept [of "0x80" m2 ?p m1 n] m2(3) that m1(2) that by (auto simp: config_defs)
  have "gate_privilege m2 (?p + 8 * of_nat n) = (if n = 0x80 then 3 else 0)" if "n < 256" for n
  proof -
    have "m2 (?p + 8 * of_nat n + 5) = (if n = 0x80 then INTERRUPT_GATE_USER_SPACE else INTERRUPT_GATE_KERNEL_SPACE)"
      using g [OF that] by (simp add: gate_at_def split: if_splits)
    then show ?thesis by (simp add: gate_privilege_def INTERRUPT_GATE_USER_SPACE_def INTERRUPT_GATE_KERNEL_SPACE_def)
  qed
  moreover have "m2 a = mem s a" if "\<not> in_region ?p 2048 a" "\<not> in_region ?r 6 a" for a
  proof -
    have "a \<noteq> ?r + of_nat k" if "k < 6" for k
      using that \<open>\<not> in_region ?r 6 a\<close> in_region_offset [of k 6 ?r] by auto
    from this [of 0] this [of 1] this [of 2] this [of 3] this [of 4] this [of 5]
    have "m0 a = mem s a" using that(1) by (simp add: m0_def store32_def store16_def memset_apply add.assoc)
    then show ?thesis using that(1) m2(4) m1(3) by simp
  qed
  ultimately show ?thesis using g by (simp add: cb s0_def)
qed

theorem idt_init_correct_witness:
  "gate_at (mem (idt_init typing_machine)) (idt_at typing_machine + 8 * of_nat 0x80)
      = (isr80h_wrapper typing_machine, 0x08, INTERRUPT_GATE_USER_SPACE)
    \<and> gate_privilege (mem (idt_init typing_machine)) (idt_at typing_machine + 8 * of_nat 0x0E) = 0"
proof -
  have n: "(0x80 :: nat) < 256" "(0x0E :: nat) < 256" "(0x0E :: nat) \<noteq> 0x80" by simp_all
  have "\<forall>n < 256. gate_at (mem (idt_init typing_machine)) (idt_at typing_machine + 8 * of_nat n)
        = (if n = 0x80 then (isr80h_wrapper typing_machine, 0x08, INTERRUPT_GATE_USER_SPACE)
           else (interrupt_pointer_table typing_machine n, 0x08, INTERRUPT_GATE_KERNEL_SPACE))"
    "\<forall>n < 256. gate_privilege (mem (idt_init typing_machine)) (idt_at typing_machine + 8 * of_nat n) = (if n = 0x80 then 3 else 0)"
    using idt_init_correct [of typing_machine] by blast+
  from this(1) [THEN spec, THEN mp, OF n(1)] this(2) [THEN spec, THEN mp, OF n(2)] show ?thesis
    using n(3) by (simp only: if_True if_False simp_thms)
qed

end
