(* ===== verification/FatSpec.thy ===== *)
theory FatSpec
  imports File
begin

text \<open>
  Reading files of a FAT16 volume. The drive holds an image, the volume is the private data of the disk.
  A record inside the first cluster of a file is delivered as the image has it; at the second cluster and
  beyond the routine that follows the allocation table refuses every entry.
\<close>

section \<open>The open file and its place on the disk\<close>

text \<open>The private data of the disk, the size of a cluster in bytes and the position of a byte of a cluster.\<close>

definition volume :: "'a dstate_scheme \<Rightarrow> u32" where
  "volume s = load32 (mem s) (disk_at s + 16)"

definition cluster_size :: "'a dstate_scheme \<Rightarrow> u32" where
  "cluster_size s = ucast (mem s (volume s + 13)) * load32 (mem s) (disk_at s + 4)"

definition cluster_position :: "'a dstate_scheme \<Rightarrow> u32 \<Rightarrow> u32 \<Rightarrow> u32" where
  "cluster_position s cluster offset =
     (load32 (mem s) (volume s + 76) + (cluster - 2) * ucast (mem s (volume s + 13))) * load32 (mem s) (disk_at s + 4) + offset"

text \<open>The descriptor \<open>fd\<close> is open on the FAT16 disk; its file begins at \<open>cluster\<close> and stands at \<open>offset\<close>.\<close>

definition open_file :: "'a fstate_scheme \<Rightarrow> u32 \<Rightarrow> u32 \<Rightarrow> u32 \<Rightarrow> bool" where
  "open_file s fd cluster offset \<longleftrightarrow>
     (let m = mem s; desc = file_descriptors s ! unat (fd - 1); file = fd_private m desc; item = load32 m (load32 m file)
      in 1 \<le> unat fd \<and> unat fd \<le> 512 \<and> desc \<noteq> 0 \<and> fd_fs m desc = fat16_fs_at s \<and> fd_disk m desc = disk_at s
         \<and> cluster = ucast (load16 m (item + 20)) OR ucast (load16 m (item + 26)) \<and> offset = load32 m (file + 4))"

lemma cluster_bytes_run: "cluster_bytes (disk_at s) s = Some (Ret (cluster_size s) s)"
  by (simp add: cluster_bytes_def run_simps cluster_size_def volume_def fat_fields)

lemma fread_run:
  fixes s :: "'a fstate_scheme"
  assumes "open_file s fd cluster offset" "n \<noteq> 0"
  shows "fread ptr n 1 fd s =
    andthen (fat16_read_internal (disk_at s) cluster offset n ptr) (\<lambda>res. if IS_ERR res then ret res else ret 1) s"
proof -
  have fd: "1 \<le> unat fd" "unat fd \<le> 512" using assms(1) by (simp_all add: open_file_def Let_def)
  have "sint fd = uint fd" using fd by (simp add: sint_small)
  moreover have "1 \<le> uint fd" using fd(1) unfolding uint_nat by linarith
  ultimately have "\<not> fd <s 1" by (simp add: word_sless_alt)
  moreover have "\<not> of_nat MAX_FILE_DESCRIPTORS_ACTIVE < fd"
    using fd by (simp add: MAX_FILE_DESCRIPTORS_ACTIVE_def word_less_nat_alt)
  ultimately have get: "file_get_fd fd s = file_descriptors s ! unat (fd - 1)" by (simp add: file_get_fd_def)
  have last: "fat16_read_blocks disk item n 1 1 o' p = (ret 1 :: (u32, 'a fstate_scheme) run)" for disk item o' p
    by (rule ext) (simp add: fat16_read_blocks.simps)
  have blocks: "fat16_read_blocks disk item n 1 0 off ptr s =
      andthen (fat16_get_first_cluster item) (\<lambda>cluster. andthen (fat16_read_internal disk cluster off n ptr)
        (\<lambda>res. if IS_ERR res then ret res else ret 1)) s" for disk item off
    by (subst fat16_read_blocks.simps) (simp add: last cong: if_cong)
  from assms show ?thesis
    using \<open>\<not> fd <s 1\<close>
    by (simp add: fread_def if_run get run_simps through_def fat16_read_def blocks fat16_get_first_cluster_def
      open_file_def Let_def fd_fs_def fd_disk_def fd_private_def)
qed

section \<open>Inside the first cluster\<close>

lemma stream_read_at:
  assumes "drive_holds s img" "stream_disk (mem s) st = disk_at s" "unat pos + unat n < 4294967296" "unat n < 2147483648"
    "apart out n (sector_buf s) 512" "apart out n st 8" "apart (sector_buf s) 512 st 8"
  obtains m where "diskstreamer_read st out n (put32 st pos s) = Some (Ret 0 (s\<lparr>mem := m\<rparr>))"
    "bytes m out (unat n) = map (\<lambda>i. img (unat pos + i)) [0..<unat n]"
    "\<forall>a. \<not> in_region out n a \<longrightarrow> \<not> in_region (sector_buf s) 512 a \<longrightarrow> \<not> in_region st 4 a \<longrightarrow> m a = mem s a"
proof -
  let ?s = "put32 st pos s"
  have f: "stream_pos (mem ?s) st = pos" "stream_disk (mem ?s) st = disk_at ?s" "drive_holds ?s img" "kstack ?s = kstack s"
    using assms(1,2) by (simp_all add: put32_def stream_fields_store drive_holds_def)
  obtain m where m: "diskstreamer_loop st out n 0 ?s = Some (Ret 0 (?s\<lparr>mem := m\<rparr>))"
    "bytes m out (unat n) = map (\<lambda>i. img (unat pos + i)) [0..<unat n]"
    "\<forall>a. \<not> in_region out n a \<longrightarrow> \<not> in_region (kstack s) 512 a \<longrightarrow> \<not> in_region st 4 a \<longrightarrow> m a = mem ?s a"
    using diskstreamer_run [OF f(3,2,1) assms(3,4)] assms(5-7) unfolding sector_buf_def f(4) by blast
  show thesis
  proof (rule that [of m])
    show "diskstreamer_read st out n ?s = Some (Ret 0 (s\<lparr>mem := m\<rparr>))"
      using m(1) by (simp add: diskstreamer_read_def put32_def)
  qed (use m(2,3) in_region_4 [of st _ "mem s" pos] in \<open>auto simp: sector_buf_def put32_def\<close>)
qed

lemma fat16_read_internal_within:
  fixes s :: "'a fstate_scheme" and cluster offset :: u32
  defines "st \<equiv> load32 (mem s) (volume s + 80)" and "pos \<equiv> cluster_position s cluster offset"
  assumes "drive_holds s img" "stream_disk (mem s) st = disk_at s"
    "0 < n" "unat offset + unat n \<le> unat (cluster_size s)" "unat cluster < 2147483648"
    "unat pos + unat n < 4294967296" "unat n < 2147483648"
    "apart out n (sector_buf s) 512" "apart out n st 8" "apart (sector_buf s) 512 st 8"
  obtains m where "fat16_read_internal (disk_at s) cluster offset n out s = Some (Ret 0 (s\<lparr>mem := m\<rparr>))"
    "bytes m out (unat n) = map (\<lambda>i. img (unat pos + i)) [0..<unat n]"
    "\<forall>a. \<not> in_region out n a \<longrightarrow> \<not> in_region (sector_buf s) 512 a \<longrightarrow> \<not> in_region st 4 a \<longrightarrow> m a = mem s a"
proof -
  let ?c = "cluster_size s"
  have n: "0 < unat n" using assms(5) by (simp add: unat_gt_0)
  have c: "?c \<noteq> 0" "offset < ?c" "\<not> ?c < n" using assms(6) n by (auto simp: word_less_nat_alt unat_eq_zero)
  have div: "offset div ?c = 0" "offset mod ?c = offset"
    using c(2) by (simp_all add: word_unat_eq_iff unat_div unat_mod word_less_nat_alt)
  have "0 \<le> sint cluster" using assms(7) by (simp add: sint_nonneg_iff)
  then have sc: "\<not> cluster <s 0" by (simp add: word_sless_alt)
  have follow: "fat16_follow_clusters disk cluster 0 0 = ret cluster" for disk
    by (rule ext) (simp add: fat16_follow_clusters.simps)
  have get: "fat16_get_cluster_for_offset (disk_at s) cluster offset s = Some (Ret cluster s)"
    unfolding fat16_get_cluster_for_offset_def andthen_ret [OF cluster_bytes_run]
    by (simp add: udiv_def c(1) div run_simps follow)
  obtain m where m: "diskstreamer_read st out n (put32 st pos s) = Some (Ret 0 (s\<lparr>mem := m\<rparr>))"
    "bytes m out (unat n) = map (\<lambda>i. img (unat pos + i)) [0..<unat n]"
    "\<forall>a. \<not> in_region out n a \<longrightarrow> \<not> in_region (sector_buf s) 512 a \<longrightarrow> \<not> in_region st 4 a \<longrightarrow> m a = mem s a"
    using stream_read_at [OF assms(3,4,8-12)] by blast
  have loop0: "fat16_read_loop disk p sz stream cl off 0 o' r = ret r" for disk p sz stream cl off o' r
    by (rule ext) (simp add: fat16_read_loop.simps)
  have sector: "fat16_cluster_to_sector (volume s) cluster s
      = Some (Ret (load32 (mem s) (volume s + 76) + (cluster - 2) * ucast (mem s (volume s + 13))) s)"
    by (simp add: fat16_cluster_to_sector_def run_simps fat_fields add.assoc)
  have "fat16_read_loop (disk_at s) (volume s) ?c st cluster offset n out 0 s = Some (Ret 0 (s\<lparr>mem := m\<rparr>))"
    by (subst fat16_read_loop.simps)
      (use assms(5) c in \<open>simp add: get sc umod_def div run_simps sector
        diskstreamer_seek_def Let_def status_defs loop0 if_run m(1) flip: cluster_position_def pos_def\<close>)
  then have "fat16_read_internal (disk_at s) cluster offset n out s = Some (Ret 0 (s\<lparr>mem := m\<rparr>))"
    by (simp add: fat16_read_internal_def fat16_read_internal_from_stream_def run_simps andthen_ret [OF cluster_bytes_run]
      fat_fields st_def flip: volume_def)
  then show thesis using that m(2,3) by blast
qed

section \<open>Beyond the first cluster\<close>

lemma local_arrays_apart: "apart (fat_entry_buf s) 2 (sector_buf s) 512"
  unfolding apart_def fat_entry_buf_def sector_buf_def
proof (intro allI impI)
  fix i j assume "i < unat (2 :: u32)" "j < unat (512 :: u32)"
  then have "544 + i < 4294967296" "j < 4294967296" "544 + i \<noteq> j" by simp_all
  then have "kstack s + of_nat (544 + i) \<noteq> kstack s + of_nat j" by (metis add_of_nat_inj)
  then show "kstack s + 544 + of_nat i \<noteq> kstack s + of_nat j" by (simp add: add.assoc)
qed

text \<open>The position at which the code looks for the entry of a cluster.\<close>

definition fat_entry_position :: "'a dstate_scheme \<Rightarrow> u32 \<Rightarrow> u32" where
  "fat_entry_position s cluster =
     ucast (load16 (mem s) (volume s + 14)) * load32 (mem s) (disk_at s + 4) * (cluster * 2)"

lemma fat16_get_fat_entry_run:
  fixes s :: "'a fstate_scheme" and cluster :: u32
  defines "st \<equiv> load32 (mem s) (volume s + 84)" and "pos \<equiv> fat_entry_position s cluster"
  assumes "drive_holds s img" "st \<noteq> 0" "stream_disk (mem s) st = disk_at s" "unat pos + 2 < 4294967296"
    "apart (sector_buf s) 512 st 8" "apart (fat_entry_buf s) 2 st 8"
  obtains m where "fat16_get_fat_entry (disk_at s) cluster s = Some (Ret (ucast (load16 m (fat_entry_buf s))) (s\<lparr>mem := m\<rparr>))"
    "\<forall>a. \<not> in_region (fat_entry_buf s) 2 a \<longrightarrow> \<not> in_region (sector_buf s) 512 a \<longrightarrow> \<not> in_region st 4 a \<longrightarrow> m a = mem s a"
proof -
  let ?b = "fat_entry_buf s"
  define m0 where "m0 = store16 (store32 (mem s) st pos) ?b 0"
  let ?s = "s\<lparr>mem := m0\<rparr>"
  have f: "stream_pos (mem ?s) st = pos" "stream_disk (mem ?s) st = disk_at ?s" "drive_holds ?s img"
    "apart ?b 2 (kstack ?s) 512" "apart (kstack ?s) 512 st 8" "unat pos + unat (2 :: u32) < 4294967296"
    using assms(3,5-7) local_arrays_apart [of s] stream_fields_put_bytes [of _ 2 ?b st "store32 (mem s) st pos", OF _ assms(8)]
    by (simp_all add: m0_def store16_put_bytes stream_fields_store drive_holds_def sector_buf_def)
  obtain m where m: "diskstreamer_loop st ?b 2 0 ?s = Some (Ret 0 (?s\<lparr>mem := m\<rparr>))"
    "\<forall>a. \<not> in_region ?b 2 a \<longrightarrow> \<not> in_region (kstack ?s) 512 a \<longrightarrow> \<not> in_region st 4 a \<longrightarrow> m a = mem ?s a"
    using diskstreamer_run [OF f(3,2,1,6) _ f(4) assms(8) f(5)] by auto
  have run: "diskstreamer_read st ?b 2 ?s = Some (Ret 0 (s\<lparr>mem := m\<rparr>))" using m(1) by (simp add: diskstreamer_read_def)
  show thesis
  proof (rule that [of m])
    have seek: "diskstreamer_seek st pos s = (0, put32 st pos s)" by (simp add: diskstreamer_seek_def)
    have p: "ucast (load16 (mem s) (volume s + 14)) * load32 (mem s) (disk_at s + 4) * (cluster * FAT16_FAT_ENTRY_SIZE) = pos"
      by (simp add: pos_def fat_entry_position_def fat_defs)
    have b: "fat_entry_buf (put32 st pos s) = ?b" "(put32 st pos s)\<lparr>mem := store16 (mem (put32 st pos s)) ?b 0\<rparr> = ?s"
      by (simp_all add: fat_entry_buf_def put32_def m0_def)
    show "fat16_get_fat_entry (disk_at s) cluster s = Some (Ret (ucast (load16 m ?b)) (s\<lparr>mem := m\<rparr>))"
      unfolding fat16_get_fat_entry_def fat16_get_first_fat_sector_def fat_fields
      using assms(4) run
      by (simp add: run_simps if_run Let_def p seek b flip: volume_def st_def)
    have "m0 a = mem s a" if "\<not> in_region ?b 2 a" "\<not> in_region st 4 a" for a
      using put_bytes_frame [of _ 2 ?b a] in_region_4 [of st a] that unfolding m0_def store16_put_bytes by simp
    then show "\<forall>a. \<not> in_region ?b 2 a \<longrightarrow> \<not> in_region (sector_buf s) 512 a \<longrightarrow> \<not> in_region st 4 a \<longrightarrow> m a = mem s a"
      using m(2) by (simp add: sector_buf_def)
  qed
qed

text \<open>No entry of the table passes the tests.\<close>

lemma fat16_follow_refuses:
  assumes "fat16_get_fat_entry disk cluster s = Some (Ret entry s')" "i < n"
  shows "fat16_follow_clusters disk cluster i n s = Some (Ret (- EIO) s')"
proof -
  have "0xFF0 \<le>s entry \<or> entry \<le>s 0xFF6" unfolding word_sle_eq by (cases "sint entry \<le> 0xFF6") simp_all
  then show ?thesis
    using assms by (subst fat16_follow_clusters.simps) (simp add: run_simps if_run)
qed

text \<open>C14. Reading inside the first cluster: \<^verbatim>\<open>fread\<close> of one record of \<open>n\<close> bytes from an open file whose position and
  end of record lie in the first cluster returns 1 and puts at the destination exactly the bytes the
  image has at that place of the cluster, whatever sectors they cross. No byte changes outside the
  destination, the local sector buffer and the position field of the stream.\<close>

theorem fread_correct:
  assumes "drive_holds s img" "open_file s fd cluster offset"
    "0 < n" "unat offset + unat n \<le> unat (cluster_size s)" "unat n < 2147483648"
    "unat (cluster_position s cluster offset) + unat n < 4294967296"
    "st = load32 (mem s) (volume s + 80)" "stream_disk (mem s) st = disk_at s"
    "apart ptr n (sector_buf s) 512" "apart ptr n st 8" "apart (sector_buf s) 512 st 8"
  shows "\<exists>m. fread ptr n 1 fd s = Some (Ret 1 (s\<lparr>mem := m\<rparr>))
    \<and> bytes m ptr (unat n) = map (\<lambda>i. img (unat (cluster_position s cluster offset) + i)) [0..<unat n]
    \<and> (\<forall>a. \<not> in_region ptr n a \<longrightarrow> \<not> in_region (sector_buf s) 512 a \<longrightarrow> \<not> in_region st 4 a \<longrightarrow> m a = mem s a)"
proof -
  have "cluster = ucast (load16 (mem s) (load32 (mem s) (load32 (mem s) (fd_private (mem s) (file_descriptors s ! unat (fd - 1)))) + 20))
      OR ucast (load16 (mem s) (load32 (mem s) (load32 (mem s) (fd_private (mem s) (file_descriptors s ! unat (fd - 1)))) + 26))"
    using assms(2) by (simp add: open_file_def Let_def)
  also have "ucast (x :: u16) OR ucast (y :: u16) = (ucast (x OR y) :: u32)" for x y
    by (rule bit_eqI) (auto simp: bit_simps)
  finally obtain w :: u16 where w: "cluster = ucast w" by blast
  have "unat cluster < 2147483648"
    unfolding w using unsigned_less [where w = w and ?'a = nat] by (simp add: unsigned_ucast_eq take_bit_nat_eq_self)
  with assms obtain m where m: "fat16_read_internal (disk_at s) cluster offset n ptr s = Some (Ret 0 (s\<lparr>mem := m\<rparr>))"
    "bytes m ptr (unat n) = map (\<lambda>i. img (unat (cluster_position s cluster offset) + i)) [0..<unat n]"
    "\<forall>a. \<not> in_region ptr n a \<longrightarrow> \<not> in_region (sector_buf s) 512 a \<longrightarrow> \<not> in_region st 4 a \<longrightarrow> m a = mem s a"
    using fat16_read_internal_within [where s = s and img = img and cluster = cluster and offset = offset and n = n and out = ptr] by blast
  have "n \<noteq> 0" using assms(3) by auto
  moreover have "\<not> IS_ERR 0" by (simp add: IS_ERR_def)
  ultimately have "fread ptr n 1 fd s = Some (Ret 1 (s\<lparr>mem := m\<rparr>))"
    using fread_run [OF assms(2)] m(1) by (simp add: run_simps)
  then show ?thesis using m(2,3) by blast
qed

text \<open>C24. Reading beyond the first cluster: \<^verbatim>\<open>fread\<close> of a record that begins at or after the end of the
  first cluster of the file always returns -EIO, whatever the allocation table of the image says, and
  leaves the destination alone: the tests on a table entry refuse every value. Only the local
  buffers and the position field of the table stream change.\<close>

theorem fread_beyond_first_cluster:
  assumes "drive_holds s img" "open_file s fd cluster offset"
    "0 < n" "cluster_size s \<noteq> 0" "cluster_size s \<le> offset"
    "unat (fat_entry_position s cluster) + 2 < 4294967296"
    "st = load32 (mem s) (volume s + 84)" "st \<noteq> 0" "stream_disk (mem s) st = disk_at s"
    "apart (sector_buf s) 512 st 8" "apart (fat_entry_buf s) 2 st 8"
  shows "\<exists>m. fread ptr n 1 fd s = Some (Ret (- EIO) (s\<lparr>mem := m\<rparr>))
    \<and> (\<forall>a. \<not> in_region (fat_entry_buf s) 2 a \<longrightarrow> \<not> in_region (sector_buf s) 512 a \<longrightarrow> \<not> in_region st 4 a \<longrightarrow> m a = mem s a)"
proof -
  let ?c = "cluster_size s"
  obtain m where m: "fat16_get_fat_entry (disk_at s) cluster s = Some (Ret (ucast (load16 m (fat_entry_buf s))) (s\<lparr>mem := m\<rparr>))"
    "\<forall>a. \<not> in_region (fat_entry_buf s) 2 a \<longrightarrow> \<not> in_region (sector_buf s) 512 a \<longrightarrow> \<not> in_region st 4 a \<longrightarrow> m a = mem s a"
    using fat16_get_fat_entry_run [of s img cluster] assms by blast
  have "0 < unat ?c" "unat ?c \<le> unat offset" using assms(4,5) by (simp_all add: unat_gt_0 word_le_nat_alt)
  then have "0 < unat offset div unat ?c" by (simp add: div_greater_zero_iff)
  then have "0 < offset div ?c" by (simp add: word_less_nat_alt unat_div)
  from fat16_follow_refuses [OF m(1) this]
  have get: "fat16_get_cluster_for_offset (disk_at s) cluster offset s = Some (Ret (- EIO) (s\<lparr>mem := m\<rparr>))"
    unfolding fat16_get_cluster_for_offset_def andthen_ret [OF cluster_bytes_run] using assms(4) by (simp add: udiv_def run_simps)
  have neg: "- EIO <s 0" by (simp add: status_defs word_sless_alt)
  have "fat16_read_loop (disk_at s) (volume s) ?c stream cluster offset n ptr 0 s = Some (Ret (- EIO) (s\<lparr>mem := m\<rparr>))" for stream
    by (subst fat16_read_loop.simps) (use assms(3) in \<open>simp add: run_simps get neg if_run\<close>)
  then have "fat16_read_internal (disk_at s) cluster offset n ptr s = Some (Ret (- EIO) (s\<lparr>mem := m\<rparr>))"
    by (simp add: fat16_read_internal_def fat16_read_internal_from_stream_def run_simps andthen_ret [OF cluster_bytes_run]
      fat_fields flip: volume_def)
  moreover have "n \<noteq> 0" using assms(3) by auto
  ultimately have "fread ptr n 1 fd s = Some (Ret (- EIO) (s\<lparr>mem := m\<rparr>))"
    using fread_run [OF assms(2)] neg by (simp add: run_simps IS_ERR_def)
  then show ?thesis using m(2) by blast
qed

section \<open>A small volume\<close>

text \<open>Disk structure at 0x9000 with 512-byte sectors, private data at 0xA000 with four sectors per cluster
  and data from sector 40, streams at 0x2000 and 0x2010, a file at cluster 3 open as descriptor 1.\<close>

definition volume_words :: "u32 \<Rightarrow> (u32 \<times> u32) list" where
  "volume_words offset = [(0x9004, 512), (0x9010, 0xA000), (0xA00C, 0x10400), (0xA04C, 40), (0xA050, 0x2000), (0xA054, 0x2010),
     (0x2004, 0x9000), (0x2014, 0x9000), (0xB004, 0xC000), (0xB008, 0xB100), (0xB00C, 0x9000),
     (0xB100, 0xB200), (0xB104, offset), (0xB200, 0xB300), (0xB318, 0x30000)]"

definition reading_machine :: "u32 \<Rightarrow> fstate" where
  "reading_machine offset = \<lparr>mem = fold (\<lambda>(a, v) m. store32 m a v) (volume_words offset) (\<lambda>_. 0),
     terminal_x = 0, terminal_y = 0, terminal_fg_color = 0, terminal_bg_color = 0,
     kernel_heap = kernel_heap_layout, current_directory = 0, cr3 = 0, disk_at = 0x9000, kstack = 0x4000,
     ata_status = (\<lambda>_ _ _. 0x58),
     ata_data = (\<lambda>r j. word_cat (sample_disk_image (512 * lba_of r + 2 * j + 1)) (sample_disk_image (512 * lba_of r + 2 * j))),
     fat16_fs_at = 0xC000, filesystems = [0xC000], file_descriptors = [0xB000]\<rparr>"

lemma reading_machine_holds: "drive_holds (reading_machine offset) sample_disk_image"
  unfolding drive_holds_def reading_machine_def by (auto simp: lba_of_command)

lemma reading_machine_word:
  assumes "(a, v) \<in> set (volume_words offset)"
  shows "load32 (mem (reading_machine offset)) a = v"
  using assms by (auto simp: reading_machine_def volume_words_def load32_store32_same load32_store32_other aligned4_def)

lemma load32_parts:
  "m (a + 1) = ucast (drop_bit 8 (load32 m a))" "load16 m (a + 2) = ucast (drop_bit 16 (load32 m a))"
  "load16 m a = ucast (load32 m a)"
  by (rule bit_word_eqI; auto simp: load32_def load16_def bit_simps add.assoc)+

lemma reading_machine_fields:
  "disk_at (reading_machine offset) = 0x9000" "volume (reading_machine offset) = 0xA000"
  "load32 (mem (reading_machine offset)) 0x9004 = 512" "mem (reading_machine offset) 0xA00D = 4"
  "load16 (mem (reading_machine offset)) 0xA00E = 1" "kstack (reading_machine offset) = 0x4000"
  "cluster_size (reading_machine offset) = 2048" "sector_buf (reading_machine offset) = 0x4000"
  "fat_entry_buf (reading_machine offset) = 0x4220"
proof -
  let ?s = "reading_machine offset"
  note w = reading_machine_word [of _ _ offset]
  show d: "disk_at ?s = 0x9000" by (simp add: reading_machine_def)
  show v: "volume ?s = 0xA000" using w [of "0x9010" "0xA000"] by (simp add: volume_def d volume_words_def)
  show z: "load32 (mem ?s) 0x9004 = 512" by (rule w) (simp add: volume_words_def)
  have h: "load32 (mem ?s) 0xA00C = 0x10400" by (rule w) (simp add: volume_words_def)
  show b: "mem ?s 0xA00D = 4" using load32_parts(1) [of "mem ?s" "0xA00C"] h by simp
  show "load16 (mem ?s) 0xA00E = 1" using load32_parts(2) [of "mem ?s" "0xA00C"] h by simp
  show k: "kstack ?s = 0x4000" by (simp add: reading_machine_def)
  show "cluster_size ?s = 2048" by (simp add: cluster_size_def v d z b)
  show "sector_buf ?s = 0x4000" "fat_entry_buf ?s = 0x4220" by (simp_all add: sector_buf_def fat_entry_buf_def k)
qed

lemma reading_machine_open: "open_file (reading_machine offset) 1 3 offset"
proof -
  let ?s = "reading_machine offset"
  note w = reading_machine_word [of _ _ offset]
  have m: "load32 (mem ?s) 0xB004 = 0xC000" "load32 (mem ?s) 0xB008 = 0xB100" "load32 (mem ?s) 0xB00C = 0x9000"
    "load32 (mem ?s) 0xB100 = 0xB200" "load32 (mem ?s) 0xB104 = offset" "load32 (mem ?s) 0xB200 = 0xB300"
    "load32 (mem ?s) 0xB318 = 0x30000"
    by (rule w, simp add: volume_words_def)+
  have lo: "load16 (mem ?s) 0xB31A = 3" using load32_parts(2) [of "mem ?s" "0xB318"] m(7) by simp
  have "load16 (mem ?s) 0xB314 = 0"
    by (simp add: reading_machine_def volume_words_def load16_def store32_def)
  then show ?thesis
    using m lo by (simp add: open_file_def Let_def fd_fs_def fd_disk_def fd_private_def reading_machine_fields) (simp add: reading_machine_def)
qed

theorem fread_correct_witness:
  "\<exists>m. fread 0x6000 1000 1 1 (reading_machine 100) = Some (Ret 1 ((reading_machine 100)\<lparr>mem := m\<rparr>))
    \<and> bytes m 0x6000 1000 = map (\<lambda>i. sample_disk_image (22628 + i)) [0..<1000]"
proof -
  let ?s = "reading_machine 100"
  note f = reading_machine_fields [of 100]
  note w = reading_machine_word [of _ _ 100]
  have st: "(0x2000 :: u32) = load32 (mem ?s) (volume ?s + 80)" "load32 (mem ?s) 0xA04C = 40" "stream_disk (mem ?s) 0x2000 = disk_at ?s"
    using w [of "0xA050" "0x2000"] w [of "0xA04C" 40] w [of "0x2004" "0x9000"]
    by (simp_all add: f stream_disk_def volume_words_def)
  have pos: "cluster_position ?s 3 100 = 22628" by (simp add: cluster_position_def f st(2))
  have ap: "apart 0x6000 1000 (sector_buf ?s) 512" "apart 0x6000 1000 0x2000 8" "apart (sector_buf ?s) 512 0x2000 8"
    unfolding f by (rule apart_interval apart_sym [OF apart_interval]; simp)+
  have n: "unat (1000 :: u32) = 1000" "unat (22628 :: u32) = 22628" by simp_all
  have "unat (100 :: u32) + unat (1000 :: u32) \<le> unat (cluster_size ?s)" "(0 :: u32) < 1000" "unat (1000 :: u32) < 2147483648"
    "unat (cluster_position ?s 3 100) + unat (1000 :: u32) < 4294967296" by (simp_all add: f pos)
  from fread_correct [OF reading_machine_holds reading_machine_open this(2,1,3,4) st(1,3) ap] show ?thesis
    unfolding pos n by blast
qed

theorem fread_beyond_first_cluster_witness:
  "\<exists>m. fread 0x6000 1000 1 1 (reading_machine 2048) = Some (Ret (- EIO) ((reading_machine 2048)\<lparr>mem := m\<rparr>))"
proof -
  let ?s = "reading_machine 2048"
  note f = reading_machine_fields [of 2048]
  note w = reading_machine_word [of _ _ 2048]
  have st: "(0x2010 :: u32) = load32 (mem ?s) (volume ?s + 84)" "stream_disk (mem ?s) 0x2010 = disk_at ?s"
    using w [of "0xA054" "0x2010"] w [of "0x2014" "0x9000"] by (simp_all add: f stream_disk_def volume_words_def)
  have ap: "apart (sector_buf ?s) 512 0x2010 8" "apart (fat_entry_buf ?s) 2 0x2010 8"
    unfolding f by (rule apart_sym [OF apart_interval]; simp)+
  have "(0 :: u32) < 1000" "cluster_size ?s \<noteq> 0" "cluster_size ?s \<le> 2048" "unat (fat_entry_position ?s 3) + 2 < 4294967296"
    "(0x2010 :: u32) \<noteq> 0" by (simp_all add: f fat_entry_position_def)
  from fread_beyond_first_cluster [OF reading_machine_holds reading_machine_open this(1-4) st(1) this(5) st(2) ap]
  show ?thesis by blast
qed

end
