(* ===== verification/FatNames.thy ===== *)
theory FatNames
  imports File
begin

text \<open>
  The name of a directory item: \<^verbatim>\<open>fat16_get_full_relative_filename\<close> joins the base name and the extension
  of the record. Both are read up to the first zero byte or space, not up to the width of their field.
\<close>

text \<open>\<open>name_field m a cs\<close>: from \<open>a\<close> on the characters \<open>cs\<close> and then a zero byte or a space.\<close>

definition name_field :: "memory \<Rightarrow> u32 \<Rightarrow> u8 list \<Rightarrow> bool" where
  "name_field m a cs \<longleftrightarrow> bytes m a (length cs) = cs \<and> (\<forall>c \<in> set cs. c \<noteq> 0 \<and> c \<noteq> 0x20)
     \<and> (m (a + of_nat (length cs)) = 0 \<or> m (a + of_nat (length cs)) = 0x20)"

lemma name_field_Cons: "name_field m a (c # cs) \<longleftrightarrow> m a = c \<and> c \<noteq> 0 \<and> c \<noteq> 0x20 \<and> name_field m (a + 1) cs"
  by (auto simp: name_field_def bytes_Suc add.assoc)

lemma name_field_cong:
  assumes "\<And>i. i \<le> length cs \<Longrightarrow> m' (a + of_nat i) = m (a + of_nat i)"
  shows "name_field m' a cs = name_field m a cs"
proof -
  have "bytes m' a (length cs) = bytes m a (length cs)" by (rule bytes_cong) (simp add: assms)
  then show ?thesis by (simp add: name_field_def assms)
qed

lemma fat16_to_string_loop_run:
  assumes "name_field m src cs" "length cs < 4294967295"
    "\<And>i j. i \<le> length cs \<Longrightarrow> j < length cs \<Longrightarrow> src + of_nat i \<noteq> out + of_nat j"
  shows "fat16_to_string_loop out src m = Some (out + of_nat (length cs), src + of_nat (length cs), put_bytes m out cs)"
  using assms
proof (induction cs arbitrary: out src m)
  case Nil
  then show ?case by (subst fat16_to_string_loop.simps) (auto simp: name_field_def)
next
  case (Cons c cs)
  let ?m = "m(out := c)"
  have c: "m src = c" "c \<noteq> 0" "c \<noteq> 0x20" "name_field m (src + 1) cs" using Cons.prems(1) by (simp_all add: name_field_Cons)
  have "src + 1 + of_nat i \<noteq> out" if "i \<le> length cs" for i
    using Cons.prems(3) [of "Suc i" 0] that by (simp add: add.assoc)
  then have nf: "name_field ?m (src + 1) cs" using c(4) name_field_cong [of cs ?m "src + 1" m] by simp
  have "src + 1 + of_nat i \<noteq> out + 1 + of_nat j" if "i \<le> length cs" "j < length cs" for i j
    using Cons.prems(3) [of "Suc i" "Suc j"] that by (simp add: add.assoc)
  then have "fat16_to_string_loop (out + 1) (src + 1) ?m =
      Some (out + 1 + of_nat (length cs), src + 1 + of_nat (length cs), put_bytes ?m (out + 1) cs)"
    using Cons.prems(2) by (intro Cons.IH [OF nf]) simp_all
  then show ?case
    using c Cons.prems(2) put_bytes_Cons [of cs m out c] by (subst fat16_to_string_loop.simps) (simp add: add.assoc)
qed

text \<open>Into a zeroed region the final zero changes nothing.\<close>

lemma fat16_to_string_run:
  assumes "name_field m src cs" "length cs < 4294967295" "m (out + of_nat (length cs)) = 0"
    "\<And>i j. i \<le> length cs \<Longrightarrow> j \<le> length cs \<Longrightarrow> src + of_nat i \<noteq> out + of_nat j"
  shows "fat16_to_string out src m = Some (out + of_nat (length cs), put_bytes m out cs)"
proof -
  have "put_bytes m out cs (out + of_nat (length cs)) = 0"
    using assms(2,3) by (subst put_bytes_outside) (simp_all add: unat_of_nat32)
  then have "(put_bytes m out cs)(out + of_nat (length cs) := 0) = put_bytes m out cs" by (metis fun_upd_triv)
  then show ?thesis
    using fat16_to_string_loop_run [OF assms(1,2)] assms(4) by (simp add: fat16_to_string_def)
qed

definition full_name :: "u8 list \<Rightarrow> u8 list \<Rightarrow> u8 list" where
  "full_name stem ext = (if ext = [] then stem else stem @ 0x2E # ext)"

lemma full_name_run:
  assumes "name_field m item stem" "name_field m (item + 8) ext" "length stem < 32" "length ext < 24"
    "length stem + length ext + 1 < unat n" "apart out n item 32"
  shows "fat16_get_full_relative_filename item out n m = Some (put_bytes (memset m out 0 n) out (full_name stem ext))"
proof -
  let ?z = "memset m out 0 n" and ?b = "length stem" and ?e = "length ext"
  have n32: "unat (32 :: u32) = 32" by simp
  have sep: "item + of_nat i \<noteq> out + of_nat j" if "i < 32" "j < unat n" for i j
    using assms(6) that unfolding apart_def n32 by metis
  have zero: "?z (out + of_nat j) = 0" if "j < unat n" for j
    using that by (simp add: memset_apply in_region_offset)
  have keep: "put_bytes ?z out cs (item + of_nat i) = m (item + of_nat i)" if "length cs \<le> unat n" "i < 32" for cs i
  proof -
    have "\<not> in_region out n (item + of_nat i)" using sep that(2) unfolding in_region_iff by blast
    moreover from this have "length cs \<le> unat (item + of_nat i - out)" using that(1) by (simp add: in_region_def word_less_nat_alt)
    ultimately show ?thesis by (simp add: put_bytes_outside memset_apply)
  qed
  have name: "name_field (put_bytes ?z out cs) item stem" if "length cs \<le> unat n" for cs
    using assms(1,3) keep [OF that] by (subst name_field_cong) auto
  have extension: "name_field (put_bytes ?z out cs) (item + 8) ext" if "length cs \<le> unat n" for cs
  proof -
    have "put_bytes ?z out cs (item + 8 + of_nat i) = m (item + 8 + of_nat i)" if "i \<le> ?e" for i
      using keep [OF \<open>length cs \<le> unat n\<close>, of "8 + i"] that assms(4) by (simp add: add.assoc)
    then show ?thesis using assms(2) by (subst name_field_cong) auto
  qed
  have first: "fat16_to_string out item ?z = Some (out + of_nat ?b, put_bytes ?z out stem)"
    using name [of "[]"] assms(3,5) zero [of ?b] sep by (intro fat16_to_string_run) auto
  have head: "put_bytes ?z out stem (item + 8) = m (item + 8)"
    using keep [of stem 8] assms(3,5) by simp
  show ?thesis
  proof (cases ext)
    case Nil
    then have "m (item + 8) = 0 \<or> m (item + 8) = 0x20" using assms(2) by (simp add: name_field_def)
    then show ?thesis using Nil head by (auto simp: fat16_get_full_relative_filename_def first full_name_def)
  next
    case (Cons c cs)
    let ?m2 = "(put_bytes ?z out stem)(out + of_nat ?b := 0x2E)"
    have c: "m (item + 8) \<noteq> 0" "m (item + 8) \<noteq> 0x20" using assms(2) Cons by (auto simp: name_field_Cons)
    have m2: "?m2 = put_bytes ?z out (stem @ [0x2E])"
      using put_bytes_append [of stem "[0x2E]" ?z out] put_bytes_Cons [of "[]" "put_bytes ?z out stem" "out + of_nat ?b" "0x2E"]
        assms(3) by simp
    have "?m2 (out + of_nat ?b + 1 + of_nat ?e) = 0"
    proof -
      have a: "out + of_nat ?b + 1 + of_nat ?e = out + of_nat (?b + 1 + ?e)" by simp
      have "?b + 1 + ?e < unat n" "?b + 1 + ?e < 4294967296" using assms(3-5) by simp_all
      then have "put_bytes ?z out (stem @ [0x2E]) (out + of_nat (?b + 1 + ?e)) = ?z (out + of_nat (?b + 1 + ?e))"
        by (intro put_bytes_outside) (simp only: add_diff_cancel_left' unat_of_nat32 length_append, simp)
      then show ?thesis unfolding m2 a using zero [of "?b + 1 + ?e"] assms(5) by simp
    qed
    moreover have "item + 8 + of_nat i \<noteq> out + of_nat ?b + 1 + of_nat j" if "i \<le> ?e" "j \<le> ?e" for i j
      using sep [of "8 + i" "?b + 1 + j"] that assms(4,5) by (simp add: add.assoc)
    moreover have "name_field ?m2 (item + 8) ext" unfolding m2 using extension assms(5) by simp
    ultimately have "fat16_to_string (out + of_nat ?b + 1) (item + 8) ?m2 =
        Some (out + of_nat ?b + 1 + of_nat ?e, put_bytes ?m2 (out + of_nat ?b + 1) ext)"
      using assms(4) by (intro fat16_to_string_run) auto
    moreover have "put_bytes ?m2 (out + of_nat ?b + 1) ext = put_bytes ?z out (full_name stem ext)"
      using put_bytes_append [of "stem @ [0x2E]" ext ?z out] assms(3,4) Cons unfolding m2 by (simp add: full_name_def ac_simps)
    ultimately show ?thesis using c head by (simp add: fat16_get_full_relative_filename_def first)
  qed
qed

text \<open>C30. The name of a directory item: when from the start of the record \<open>stem\<close> runs up to the first zero or
  space and from the extension field \<open>ext\<close> does, \<^verbatim>\<open>fat16_get_full_relative_filename\<close> leaves in the
  buffer the zero-terminated string of \<open>stem\<close>, and of a dot and \<open>ext\<close> if \<open>ext\<close> is not empty, clears the
  rest of the buffer and changes nothing else. (A base name of eight characters has no space behind
  it: its \<open>stem\<close> runs on through the extension field.)\<close>

theorem fat16_filename_correct:
  assumes "name_field m item stem" "name_field m (item + 8) ext" "length stem < 32" "length ext < 24"
    "length stem + length ext + 1 < unat n" "apart out n item 32"
  shows "\<exists>m'. fat16_get_full_relative_filename item out n m = Some m'
    \<and> cstr m' out (full_name stem ext)
    \<and> (\<forall>i. length (full_name stem ext) \<le> i \<longrightarrow> i < unat n \<longrightarrow> m' (out + of_nat i) = 0)
    \<and> (\<forall>a. \<not> in_region out n a \<longrightarrow> m' a = m a)"
proof -
  let ?f = "full_name stem ext" and ?z = "memset m out 0 n"
  have len: "length ?f < unat n" using assms(5) by (simp add: full_name_def)
  have len32: "length ?f \<le> 4294967296" using len unat_u32_less [of n] by linarith
  have rest: "put_bytes ?z out ?f (out + of_nat i) = 0" if "length ?f \<le> i" "i < unat n" for i
  proof -
    have "unat (of_nat i :: u32) = i" using that by (intro unat_of_nat32) (use unat_u32_less [of n] in linarith)
    then show ?thesis using that by (simp add: put_bytes_outside memset_apply in_region_offset)
  qed
  have "0 \<notin> set ?f" using assms(1,2) by (auto simp: full_name_def name_field_def)
  moreover have "put_bytes ?z out ?f (out + of_nat (length ?f)) = 0" using rest len by simp
  moreover have "bytes (put_bytes ?z out ?f) out (length ?f) = ?f"
    using len32 by (intro nth_equalityI) auto
  ultimately have "cstr (put_bytes ?z out ?f) out ?f" by (simp add: cstr_iff)
  moreover have "put_bytes ?z out ?f a = m a" if "\<not> in_region out n a" for a
  proof -
    have "length ?f \<le> unat (a - out)" using that len by (simp add: in_region_def word_less_nat_alt)
    then show ?thesis using that by (simp add: put_bytes_outside memset_apply)
  qed
  ultimately show ?thesis using full_name_run [OF assms] rest by blast
qed

text \<open>The record of SHELL.ELF, padded with spaces, with the archive attribute, at 0x5000.\<close>

definition shell_item :: memory where
  "shell_item = put_bytes (\<lambda>_. 0) 0x5000 (map of_char ''SHELL   ELF '')"

theorem fat16_filename_correct_witness:
  "\<exists>m'. fat16_get_full_relative_filename 0x5000 0x6000 108 shell_item = Some m'
    \<and> cstr m' 0x6000 (map of_char ''SHELL.ELF'')"
proof -
  let ?b = "map of_char ''SHELL'' :: u8 list" and ?e = "map of_char ''ELF'' :: u8 list"
  have "name_field shell_item 0x5000 ?b" "name_field shell_item (0x5000 + 8) ?e"
    by (simp_all add: name_field_def shell_item_def put_bytes_def Let_def bytes_def upt_rec)
  moreover have "apart 0x6000 108 0x5000 32" by (rule apart_sym [OF apart_interval]) simp_all
  ultimately show ?thesis
    using fat16_filename_correct [of shell_item "0x5000" ?b ?e 108 "0x6000"] by (auto simp: full_name_def)
qed

end
