(* ===== verification/AddressSpace.thy ===== *)
theory AddressSpace
  imports Process
begin

text \<open>
  The address space \<^verbatim>\<open>process_map_memory\<close> builds: a map from pages to page-table entries, changed by one
  interval after the other. Memory outside the page tables is not written.
\<close>

section \<open>Intervals of pages\<close>

text \<open>The pages from \<open>v\<close> on get the frames from \<open>p\<close> up to \<open>e\<close>, with the flags.\<close>

fun map_interval :: "u32 \<times> u32 \<times> u32 \<times> u32 \<Rightarrow> (u32 \<Rightarrow> u32) \<Rightarrow> u32 \<Rightarrow> u32" where
  "map_interval (v, p, e, flags) f w = (if w - v < e - p then (p + (w - v)) OR flags else f w)"

text \<open>A byte in none of the tables of the directory of \<open>chunk\<close>.\<close>

definition off_tables :: "memory \<Rightarrow> u32 \<Rightarrow> u32 \<Rightarrow> bool" where
  "off_tables m chunk a \<longleftrightarrow> (\<forall>i. unat i < 1024 \<longrightarrow> table_of m (d_entry m chunk) i \<noteq> page_base a)"

text \<open>\<open>m'\<close> differs from \<open>m\<close> in the tables of \<open>chunk\<close> only, and has the same tables.\<close>

definition tables_written :: "u32 \<Rightarrow> memory \<Rightarrow> memory \<Rightarrow> bool" where
  "tables_written chunk m m' \<longleftrightarrow> wf_chunk m' chunk \<and> d_entry m' chunk = d_entry m chunk
     \<and> (\<forall>i. unat i < 1024 \<longrightarrow> table_of m' (d_entry m chunk) i = table_of m (d_entry m chunk) i)
     \<and> (\<forall>a. off_tables m chunk a \<longrightarrow> m' a = m a)"

lemma tables_written_refl: "wf_chunk m chunk \<Longrightarrow> tables_written chunk m m"
  by (simp add: tables_written_def)

lemma tables_written_off: "tables_written chunk m m' \<Longrightarrow> off_tables m' chunk a = off_tables m chunk a"
  by (simp add: tables_written_def off_tables_def)

lemma tables_written_trans: "tables_written chunk m m1 \<Longrightarrow> tables_written chunk m1 m2 \<Longrightarrow> tables_written chunk m m2"
  using tables_written_off [of chunk m m1] by (auto simp: tables_written_def)

lemma tables_written_load32:
  assumes "tables_written chunk m m'" "\<forall>k < 4. off_tables m chunk (a + of_nat k)"
  shows "load32 m' a = load32 m a"
  using assms by (intro load32_cong) (auto simp: tables_written_def)

lemma paging_map_written:
  assumes "wf_chunk m chunk" "paging_is_aligned v" "paging_is_aligned p" "paging_map chunk v p flags m = (r, m')"
  shows "tables_written chunk m m'"
proof -
  let ?d = "d_entry m chunk"
  have m': "m' = store32 m (table_of m ?d (pdx v) + 4 * ptx v) (p OR flags)"
    using assms(2-4) by (simp add: paging_map_def paging_set_aligned paging_is_aligned_def)
  have wf: "wf_dir m ?d" using assms(1) by (simp add: wf_chunk_def)
  have "m' a = m a" if "off_tables m chunk a" for a
    unfolding m' using that by (intro store32_slot_frame) (simp_all, metis off_tables_def pdx_bound)
  moreover have "table_of m' ?d i = table_of m ?d i" if "unat i < 1024" for i
    unfolding m' using wf_dir_set(2) [OF wf pdx_bound ptx_bound that] .
  ultimately show ?thesis
    using wf_chunk_store [OF assms(1) pdx_bound ptx_bound] by (simp add: tables_written_def m')
qed

lemma paging_map_range_loop_written:
  assumes "wf_chunk m chunk" "paging_is_aligned v" "paging_is_aligned p"
    "paging_map_range_loop chunk v p count flags i res m = (r, m')"
  shows "tables_written chunk m m'"
  using assms
proof (induction chunk v p count flags i res m rule: paging_map_range_loop.induct)
  case (1 chunk v p count flags i res m)
  show ?case
  proof (cases "i < count")
    case True
    obtain r1 m1 where m1: "paging_map chunk v p flags m = (r1, m1)" by fastforce
    note w1 = paging_map_written [OF "1.prems"(1-3) m1]
    show ?thesis
    proof (cases "r1 <s 0")
      case True
      then show ?thesis using "1.prems"(4) m1 w1 \<open>i < count\<close> by (simp add: paging_map_range_loop.simps)
    next
      case False
      then have "paging_map_range_loop chunk (v + PAGING_PAGE_SIZE) (p + PAGING_PAGE_SIZE) count flags (i + 1) r1 m1 = (r, m')"
        using "1.prems"(4) m1 \<open>i < count\<close> by (subst (asm) paging_map_range_loop.simps) simp
      then have "tables_written chunk m1 m'"
        using "1.IH" [OF True m1 [symmetric]] m1 False aligned_next [OF "1.prems"(2)] aligned_next [OF "1.prems"(3)] w1
        by (auto simp: tables_written_def)
      then show ?thesis by (rule tables_written_trans [OF w1])
    qed
  next
    case False
    then show ?thesis using "1.prems" by (simp add: paging_map_range_loop.simps tables_written_refl)
  qed
qed

lemma paging_map_to_entries:
  assumes "wf_chunk m chunk" "paging_is_aligned v" "paging_is_aligned p" "paging_is_aligned e" "p \<le> e"
  obtains m' where "paging_map_to chunk v p e flags m = (0, m')" "tables_written chunk m m'"
    "\<And>w. paging_is_aligned w \<Longrightarrow> paging_get (d_entry m chunk) w m' =
       map_interval (v, p, e, flags) (\<lambda>w. paging_get (d_entry m chunk) w m) w"
proof -
  have al: "paging_is_aligned (e - p)" using assms by (intro aligned_diff)
  obtain k where k: "k < 1048576" "unat (e - p) = 4096 * k" using al by (rule aligned_page)
  then have n: "unat ((e - p) div 4096) = k" by (simp add: unat_div_distrib)
  obtain m' where m': "paging_map_range chunk v p ((e - p) div 4096) flags m = (0, m')"
    "\<forall>w. paging_is_aligned w \<longrightarrow> paging_get (d_entry m chunk) w m' =
         (if unat (w - v) < 4096 * k then (p + (w - v)) OR flags else paging_get (d_entry m chunk) w m)"
    using paging_map_range_ok [OF assms(1-3), of "(e - p) div 4096" flags] k n by auto
  show thesis
  proof (rule that [of m'])
    show "paging_map_to chunk v p e flags m = (0, m')"
      using assms(2-5) m'(1) by (simp add: paging_map_to_def paging_is_aligned_def paging_defs leD)
    show "tables_written chunk m m'"
      using paging_map_range_loop_written [OF assms(1-3)] m'(1) by (simp add: paging_map_range_def)
  qed (use m'(2) k in \<open>simp add: word_less_nat_alt\<close>)
qed

lemma paging_align_address_ok:
  assumes "unat a + 4095 < 4294967296"
  shows "paging_is_aligned (paging_align_address a)" "a \<le> paging_align_address a"
proof -
  have "unat (paging_align_address a) = 4096 * ((unat a + 4095) div 4096)"
  proof (cases "a mod 4096 = 0")
    case True
    then have "unat a mod 4096 = 0" by (metis unat_mod_distrib unat_numeral_4096 unat_0)
    then obtain k where "unat a = 4096 * k" by (metis mod_0_imp_dvd dvdE)
    then show ?thesis using True by (simp add: paging_align_address_def paging_defs)
  next
    case False
    have r: "unat (a mod 4096) = unat a mod 4096" by (simp add: unat_mod_distrib)
    then have nz: "unat a mod 4096 \<noteq> 0" using False by (metis unat_eq_zero)
    have "unat (4096 - a mod 4096) = 4096 - unat a mod 4096"
      using r by (subst unat_sub) (simp_all add: word_le_nat_alt less_imp_le)
    then have "unat (a + (4096 - a mod 4096)) = unat a + (4096 - unat a mod 4096)"
      using assms nz by (subst unat_add_lem [THEN iffD1]) auto
    then show ?thesis using False round_up_to [OF nz] by (simp add: paging_align_address_def paging_defs)
  qed
  note eq = this
  show "paging_is_aligned (paging_align_address a)" by (rule aligned_pageI) (rule eq)
  show "a \<le> paging_align_address a" unfolding word_le_nat_alt eq by linarith
qed

section \<open>What the loader reads while it maps\<close>

definition clear_of_tables :: "memory \<Rightarrow> u32 \<Rightarrow> u32 \<Rightarrow> u32 \<Rightarrow> bool" where
  "clear_of_tables m chunk a n \<longleftrightarrow> (\<forall>i < unat n. off_tables m chunk (a + of_nat i))"

lemma clear_word:
  assumes "tables_written chunk m m'" "clear_of_tables m chunk a n" "k + 4 \<le> unat n"
  shows "load32 m' (a + of_nat k) = load32 m (a + of_nat k)"
proof (rule tables_written_load32 [OF assms(1)], intro allI impI)
  fix j :: nat assume "j < 4"
  then have "k + j < unat n" using assms(3) by simp
  then have "off_tables m chunk (a + of_nat (k + j))" using assms(2) unfolding clear_of_tables_def by blast
  then show "off_tables m chunk (a + of_nat k + of_nat j)" by (simp add: add.assoc)
qed

lemma clear_byte:
  assumes "tables_written chunk m m'" "clear_of_tables m chunk a n" "k < unat n"
  shows "m' (a + of_nat k) = m (a + of_nat k)"
  using assms by (simp add: tables_written_def clear_of_tables_def)

text \<open>The process, its task and, for an ELF program, the file structure, the header and the program headers.\<close>

definition process_clear :: "memory \<Rightarrow> u32 \<Rightarrow> bool" where
  "process_clear m process \<longleftrightarrow> (let chunk = process_page_directory m process in
     clear_of_tables m chunk process 9364 \<and> clear_of_tables m chunk (process_task m process) 64)"

definition elf_clear :: "memory \<Rightarrow> u32 \<Rightarrow> bool" where
  "elf_clear m process \<longleftrightarrow> (let chunk = process_page_directory m process; elf_file = process_ptr m process;
       header = elf_header m elf_file in
     clear_of_tables m chunk elf_file 132 \<and> clear_of_tables m chunk header 52
     \<and> clear_of_tables m chunk (elf_pheader m header) (32 * ucast (e_phnum m header)))"

lemma process_kept:
  assumes "tables_written (process_page_directory m process) m m'" "process_clear m process"
  shows "process_page_directory m' process = process_page_directory m process" "process_ptr m' process = process_ptr m process"
    "process_stack m' process = process_stack m process" "process_size m' process = process_size m process"
    "process_filetype m' process = process_filetype m process" "process_task m' process = process_task m process"
proof -
  have c: "clear_of_tables m (process_page_directory m process) process 9364"
    "clear_of_tables m (process_page_directory m process) (process_task m process) 64"
    using assms(2) by (simp_all add: process_clear_def Let_def)
  note w = clear_word [OF assms(1) c(1)]
  show t: "process_task m' process = process_task m process" using w [of 112] by (simp add: process_task_def)
  show "process_page_directory m' process = process_page_directory m process"
    using clear_word [OF assms(1) c(2), of 0] by (simp add: process_page_directory_def task_page_directory_def t)
  show "process_ptr m' process = process_ptr m process" using w [of 8312] by (simp add: process_ptr_def)
  show "process_stack m' process = process_stack m process" using w [of 8316] by (simp add: process_stack_def)
  show "process_size m' process = process_size m process" using w [of 8320] by (simp add: process_size_def)
  show "process_filetype m' process = process_filetype m process"
    using clear_byte [OF assms(1) c(1), of 8308] by (simp add: process_filetype_def)
qed

text \<open>One loadable segment as the interval the loader maps for it.\<close>

definition segment :: "memory \<Rightarrow> u32 \<Rightarrow> u32 \<Rightarrow> u32 \<times> u32 \<times> u32 \<times> u32" where
  "segment m elf_file phdr =
     (page_base (p_vaddr m phdr), page_base (elf_memory m elf_file + p_offset m phdr),
      paging_align_address (elf_memory m elf_file + p_offset m phdr + p_memsz m phdr),
      if p_flags m phdr AND PF_W \<noteq> 0 then 7 else 5)"

lemma phnum_bytes: "unat (32 * ucast (n :: u16) :: u32) = 32 * unat n"
proof -
  have "unat (ucast n :: u32) = unat n" using unat_u16_less [of n] by (simp add: unsigned_ucast_eq take_bit_nat_eq_self)
  moreover have "unat (32 :: u32) * unat n < 4294967296" using unat_u16_less [of n] by simp
  ultimately show ?thesis by (simp add: unat_mult_lem [THEN iffD1])
qed

lemma elf_kept:
  fixes m :: memory and process :: u32
  defines "elf_file \<equiv> process_ptr m process"
  defines "header \<equiv> elf_header m elf_file"
  assumes "tables_written (process_page_directory m process) m m'" "elf_clear m process"
  shows "elf_header m' elf_file = header" "e_phnum m' header = e_phnum m header" "elf_pheader m' header = elf_pheader m header"
    "elf_memory m' elf_file = elf_memory m elf_file"
    "i < unat (e_phnum m header) \<Longrightarrow> segment m' elf_file (elf_pheader m header + 32 * of_nat i)
      = segment m elf_file (elf_pheader m header + 32 * of_nat i)"
proof -
  let ?c = "process_page_directory m process" and ?n = "e_phnum m header"
  have c: "clear_of_tables m ?c elf_file 132" "clear_of_tables m ?c header 52"
    "clear_of_tables m ?c (elf_pheader m header) (32 * ucast ?n)"
    using assms(4) by (simp_all add: elf_clear_def Let_def elf_file_def header_def)
  show mem: "elf_memory m' elf_file = elf_memory m elf_file"
    using clear_word [OF assms(3) c(1), of 112] by (simp add: elf_memory_def)
  then show "elf_header m' elf_file = header" by (simp add: elf_header_def header_def)
  have "m' (header + 44) = m (header + 44)" "m' (header + 45) = m (header + 45)"
    using clear_byte [OF assms(3) c(2), of 44] clear_byte [OF assms(3) c(2), of 45] by simp_all
  moreover have "header + 44 + 1 = header + 45" by simp
  ultimately show "e_phnum m' header = ?n" by (simp only: e_phnum_def load16_def)
  show "elf_pheader m' header = elf_pheader m header"
    using clear_word [OF assms(3) c(2), of 28] by (simp add: elf_pheader_def elf_has_program_header_def e_phoff_def)
  assume i: "i < unat ?n"
  let ?p = "elf_pheader m header + 32 * of_nat i"
  have "load32 m' (?p + of_nat k) = load32 m (?p + of_nat k)" if "k + 4 \<le> 32" for k
  proof -
    have "32 * i + k + 4 \<le> unat (32 * ucast ?n :: u32)" unfolding phnum_bytes using i that by linarith
    from clear_word [OF assms(3) c(3) this] show ?thesis by (simp add: add.assoc)
  qed
  from this [of 4] this [of 8] this [of 20] this [of 24]
  show "segment m' elf_file ?p = segment m elf_file ?p"
    by (simp add: segment_def mem p_vaddr_def p_offset_def p_memsz_def p_flags_def)
qed

section \<open>The segments of an ELF program\<close>

lemma fold_map_interval_cong: "f w = g w \<Longrightarrow> fold map_interval ss f w = fold map_interval ss g w"
proof (induction ss arbitrary: f g)
  case (Cons s ss)
  obtain v p e fl where "s = (v, p, e, fl)" by (cases s)
  then have "map_interval s f w = map_interval s g w" using Cons.prems by simp
  then show ?case unfolding fold.simps comp_apply by (rule Cons.IH)
qed simp

text \<open>The intervals of the program headers from index \<open>i\<close> on; their ends do not wrap around.\<close>

definition segments_from :: "memory \<Rightarrow> u32 \<Rightarrow> nat \<Rightarrow> (u32 \<times> u32 \<times> u32 \<times> u32) list" where
  "segments_from m process i =
     (let elf_file = process_ptr m process; header = elf_header m elf_file
      in map (\<lambda>i. segment m elf_file (elf_pheader m header + 32 * of_nat i)) [i..<unat (e_phnum m header)])"

definition segments_fit :: "memory \<Rightarrow> u32 \<Rightarrow> bool" where
  "segments_fit m process \<longleftrightarrow> (let elf_file = process_ptr m process; header = elf_header m elf_file in
     \<forall>i < unat (e_phnum m header). let phdr = elf_pheader m header + 32 * of_nat i in
       unat (elf_memory m elf_file + p_offset m phdr) + unat (p_memsz m phdr) + 4095 < 4294967296)"

lemma segment_valid:
  assumes "unat (elf_memory m elf_file + p_offset m phdr) + unat (p_memsz m phdr) + 4095 < 4294967296"
    "segment m elf_file phdr = (v, p, e, flags)"
  shows "paging_is_aligned v" "paging_is_aligned p" "paging_is_aligned e" "p \<le> e"
proof -
  let ?a = "elf_memory m elf_file + p_offset m phdr"
  have sum: "unat (?a + p_memsz m phdr) = unat ?a + unat (p_memsz m phdr)"
    using assms(1) by (subst unat_add_lem [THEN iffD1]) simp_all
  have eq: "v = page_base (p_vaddr m phdr)" "p = page_base ?a" "e = paging_align_address (?a + p_memsz m phdr)"
    using assms(2) by (simp_all add: segment_def)
  note al = paging_align_address_ok [of "?a + p_memsz m phdr", folded eq(3)]
  show "paging_is_aligned v" "paging_is_aligned p" by (simp_all add: eq)
  show "paging_is_aligned e" using al(1) assms(1) sum by simp
  have "page_base ?a \<le> ?a" unfolding word_le_nat_alt unat_page_base by (rule times_div_less_eq_dividend)
  moreover have "?a \<le> ?a + p_memsz m phdr" unfolding word_le_nat_alt sum by simp
  ultimately show "p \<le> e" using al(2) assms(1) sum unfolding eq(2) by simp
qed

lemma process_map_elf_loop_ok:
  fixes m :: memory and process :: u32
  defines "chunk \<equiv> process_page_directory m process" and "elf_file \<equiv> process_ptr m process"
  defines "header \<equiv> elf_header m elf_file"
  assumes "wf_chunk m chunk" "process_clear m process" "elf_clear m process" "segments_fit m process"
    "tables_written chunk m m1"
  shows "\<exists>m'. process_map_elf_loop process elf_file header (elf_pheader m header) i res m1
      = (if i < unat (e_phnum m header) then 0 else res, m')
    \<and> tables_written chunk m m'
    \<and> (\<forall>w. paging_is_aligned w \<longrightarrow> paging_get (d_entry m chunk) w m' =
        fold map_interval (segments_from m process i) (\<lambda>w. paging_get (d_entry m chunk) w m1) w)"
  using assms(8)
proof (induction "unat (e_phnum m header) - i" arbitrary: i res m1)
  let ?n = "unat (e_phnum m header)" and ?d = "d_entry m chunk"
  case 0
  have "\<not> i < ?n" "segments_from m process i = []"
    using "0.hyps" by (simp_all add: segments_from_def Let_def elf_file_def header_def)
  moreover have "e_phnum m1 header = e_phnum m header"
    using elf_kept(2) [where process = process and m = m and m' = m1] 0 assms(6) unfolding chunk_def elf_file_def header_def by blast
  ultimately show ?case using 0 by (intro exI [of _ m1]) (simp add: process_map_elf_loop.simps)
next
  let ?n = "unat (e_phnum m header)" and ?d = "d_entry m chunk"
  case (Suc k)
  have i: "i < ?n" using Suc.hyps(2) by simp
  have w1: "tables_written (process_page_directory m process) m m1" using Suc.prems by (simp add: chunk_def)
  note pk = process_kept [OF w1 assms(5), folded chunk_def elf_file_def]
  note ek = elf_kept [OF w1 assms(6), folded elf_file_def, folded header_def]
  define phdr where "phdr = elf_pheader m header + 32 * of_nat i"
  obtain v p e flags where seg: "segment m elf_file phdr = (v, p, e, flags)" by (cases "segment m elf_file phdr")
  have seg1: "segment m1 elf_file phdr = (v, p, e, flags)" using ek(5) [OF i] seg by (simp add: phdr_def)
  have "unat (elf_memory m elf_file + p_offset m phdr) + unat (p_memsz m phdr) + 4095 < 4294967296"
    using assms(7) i by (simp add: segments_fit_def Let_def elf_file_def header_def phdr_def)
  note valid = segment_valid [OF this seg]
  have wf1: "wf_chunk m1 chunk" "d_entry m1 chunk = ?d" using Suc.prems by (simp_all add: tables_written_def)
  obtain m2 where m2: "paging_map_to chunk v p e flags m1 = (0, m2)" "tables_written chunk m1 m2"
    "\<And>w. paging_is_aligned w \<Longrightarrow> paging_get ?d w m2 = map_interval (v, p, e, flags) (\<lambda>w. paging_get ?d w m1) w"
    using paging_map_to_entries [OF wf1(1) valid, of flags] unfolding wf1(2) by blast
  have w2: "tables_written chunk m m2" by (rule tables_written_trans [OF Suc.prems m2(2)])
  have k: "k = ?n - (i + 1)" using Suc.hyps(2) by simp
  obtain m' where m': "process_map_elf_loop process elf_file header (elf_pheader m header) (i + 1) 0 m2
      = (if i + 1 < ?n then 0 else 0, m')" "tables_written chunk m m'"
    "\<And>w. paging_is_aligned w \<Longrightarrow> paging_get ?d w m' =
        fold map_interval (segments_from m process (i + 1)) (\<lambda>w. paging_get ?d w m2) w"
    using Suc.hyps(1) [OF k w2, of 0] by blast
  have segs: "segments_from m process i = (v, p, e, flags) # segments_from m process (i + 1)"
    using i seg by (simp add: segments_from_def Let_def elf_file_def header_def phdr_def upt_conv_Cons)
  have "process_map_elf_loop process elf_file header (elf_pheader m header) i res m1 = (0, m')"
  proof -
    have "paging_map_to (process_page_directory m1 process) (paging_align_to_lower_page_addr (p_vaddr m1 phdr))
        (paging_align_to_lower_page_addr (elf_phdr_compute_physical_address m1 elf_file phdr))
        (paging_align_address (elf_phdr_compute_physical_address m1 elf_file phdr + p_memsz m1 phdr))
        (if p_flags m1 phdr AND PF_W \<noteq> 0 then (PAGING_MASKS_IS_PRESENT OR PAGING_MASKS_ACCESS_ALL) OR PAGING_MASKS_IS_WRITABLE
         else PAGING_MASKS_IS_PRESENT OR PAGING_MASKS_ACCESS_ALL) m1 = (0, m2)"
      using m2(1) seg1 unfolding pk(1) lower_page_addr elf_phdr_compute_physical_address_def segment_def
      by (simp add: paging_defs split: if_splits)
    then show ?thesis
      using i m'(1) ek(2) by (subst process_map_elf_loop.simps) (simp add: Let_def phdr_def split del: if_split)
  qed
  moreover have "paging_get ?d w m' = fold map_interval (segments_from m process i) (\<lambda>w. paging_get ?d w m1) w"
    if "paging_is_aligned w" for w
    unfolding m'(3) [OF that] segs fold.simps comp_apply by (rule fold_map_interval_cong) (rule m2(3) [OF that])
  ultimately show ?case using i m'(2) by auto
qed

section \<open>The whole address space\<close>

text \<open>The intervals of the program and then of the stack.\<close>

definition program_intervals :: "memory \<Rightarrow> u32 \<Rightarrow> (u32 \<times> u32 \<times> u32 \<times> u32) list" where
  "program_intervals m process =
     (if process_filetype m process = PROCESS_FORMAT_ELF then segments_from m process 0
      else [(0x400000, process_ptr m process, paging_align_address (process_ptr m process + process_size m process), 7)])"

definition stack_interval :: "memory \<Rightarrow> u32 \<Rightarrow> u32 \<times> u32 \<times> u32 \<times> u32" where
  "stack_interval m process = (0x3FB000, process_stack m process, process_stack m process + 0x4000, 7)"

text \<open>A process whose program and stack are in memory, as \<^verbatim>\<open>process_load_for_slot\<close> has it before the mapping.\<close>

definition process_loaded :: "memory \<Rightarrow> u32 \<Rightarrow> bool" where
  "process_loaded m process \<longleftrightarrow> wf_chunk m (process_page_directory m process) \<and> process_clear m process
     \<and> paging_is_aligned (process_stack m process) \<and> unat (process_stack m process) + 0x4000 < 4294967296
     \<and> (if process_filetype m process = PROCESS_FORMAT_ELF then elf_clear m process \<and> segments_fit m process
        else process_filetype m process = PROCESS_FORMAT_FBIN \<and> paging_is_aligned (process_ptr m process)
          \<and> unat (process_ptr m process) + unat (process_size m process) + 4095 < 4294967296)"

lemma process_map_program:
  fixes m :: memory and process :: u32
  defines "chunk \<equiv> process_page_directory m process"
  assumes "process_loaded m process"
  obtains m' where "(if process_filetype m process = PROCESS_FORMAT_ELF then process_map_elf process m
      else process_map_binary process m) = (0, m')" "tables_written chunk m m'"
    "\<And>w. paging_is_aligned w \<Longrightarrow> paging_get (d_entry m chunk) w m' =
        fold map_interval (program_intervals m process) (\<lambda>w. paging_get (d_entry m chunk) w m) w"
proof (cases "process_filetype m process = PROCESS_FORMAT_ELF")
  case True
  then have l: "wf_chunk m chunk" "process_clear m process" "elf_clear m process" "segments_fit m process"
    using assms(2) by (simp_all add: process_loaded_def chunk_def)
  note run = process_map_elf_loop_ok [OF l(1) [unfolded chunk_def] l(2-4) tables_written_refl [OF l(1) [unfolded chunk_def]],
    of 0 0, folded chunk_def]
  then obtain m' where "process_map_elf_loop process (process_ptr m process) (elf_header m (process_ptr m process))
      (elf_pheader m (elf_header m (process_ptr m process))) 0 0 m = (0, m')" "tables_written chunk m m'"
    "\<forall>w. paging_is_aligned w \<longrightarrow> paging_get (d_entry m chunk) w m' =
        fold map_interval (segments_from m process 0) (\<lambda>w. paging_get (d_entry m chunk) w m) w"
    by (metis (no_types, lifting))
  then show thesis using True that [of m'] by (simp add: process_map_elf_def Let_def program_intervals_def)
next
  case False
  let ?p = "process_ptr m process" and ?z = "process_size m process"
  have l: "wf_chunk m chunk" "paging_is_aligned ?p" "unat ?p + unat ?z + 4095 < 4294967296"
    using assms(2) False by (simp_all add: process_loaded_def chunk_def)
  have sum: "unat (?p + ?z) = unat ?p + unat ?z" using l(3) by (subst unat_add_lem [THEN iffD1]) simp_all
  then have e: "paging_is_aligned (paging_align_address (?p + ?z))" "?p + ?z \<le> paging_align_address (?p + ?z)"
    using paging_align_address_ok [of "?p + ?z"] l(3) by simp_all
  moreover have "?p \<le> ?p + ?z" unfolding word_le_nat_alt sum by simp
  ultimately have le: "?p \<le> paging_align_address (?p + ?z)" by simp
  have v: "paging_is_aligned 0x400000" by (simp add: paging_is_aligned_unat)
  obtain m' where m': "paging_map_to chunk 0x400000 ?p (paging_align_address (?p + ?z)) 7 m = (0, m')" "tables_written chunk m m'"
    "\<And>w. paging_is_aligned w \<Longrightarrow> paging_get (d_entry m chunk) w m' =
       map_interval (0x400000, ?p, paging_align_address (?p + ?z), 7) (\<lambda>w. paging_get (d_entry m chunk) w m) w"
    using paging_map_to_entries [OF l(1) v l(2) e(1) le] by blast
  have "process_map_binary process m = (0, m')"
    using m'(1) by (simp add: process_map_binary_def user_flags_def config_defs paging_defs chunk_def)
  then show thesis using False that [of m'] m'(2,3) by (simp add: program_intervals_def)
qed

text \<open>C5. The address space of a process: for a loaded process, ELF or flat binary, \<^verbatim>\<open>process_map_memory\<close> succeeds and its
  page directory becomes the old one changed by the intervals of the program, one per loadable
  header with the write permission of that header, and last by the sixteen kilobytes of stack below
  0x3FF000, user accessible and writable. Nothing outside the page tables of the process is written.\<close>

theorem process_map_memory_correct:
  assumes "process_loaded m process" "chunk = process_page_directory m process"
  shows "\<exists>m'. process_map_memory process m = (0, m')
    \<and> (\<forall>w. paging_is_aligned w \<longrightarrow> paging_get (d_entry m chunk) w m' =
        fold map_interval (program_intervals m process @ [stack_interval m process]) (\<lambda>w. paging_get (d_entry m chunk) w m) w)
    \<and> wf_chunk m' chunk \<and> (\<forall>a. off_tables m chunk a \<longrightarrow> m' a = m a)"
proof -
  let ?stack = "process_stack m process" and ?d = "d_entry m chunk"
  obtain m1 where m1: "(if process_filetype m process = PROCESS_FORMAT_ELF then process_map_elf process m
      else process_map_binary process m) = (0, m1)" "tables_written chunk m m1"
    "\<And>w. paging_is_aligned w \<Longrightarrow> paging_get ?d w m1 =
        fold map_interval (program_intervals m process) (\<lambda>w. paging_get ?d w m) w"
    using process_map_program [OF assms(1)] unfolding assms(2) by blast
  have kept: "process_page_directory m1 process = chunk" "process_stack m1 process = ?stack"
    using process_kept [of m process m1] m1(2) assms by (simp_all add: process_loaded_def)
  have wf: "wf_chunk m1 chunk" "d_entry m1 chunk = ?d" using m1(2) by (simp_all add: tables_written_def)
  have st: "paging_is_aligned ?stack" "unat ?stack + 0x4000 < 4294967296" using assms(1) by (simp_all add: process_loaded_def)
  have sum: "unat (?stack + 0x4000) = unat ?stack + 0x4000" using st(2) by (subst unat_add_lem [THEN iffD1]) simp_all
  obtain k where "unat ?stack = 4096 * k" using st(1) by (rule aligned_page)
  then have "unat (?stack + 0x4000) = 4096 * (k + 4)" unfolding sum by simp
  then have al: "paging_is_aligned (?stack + 0x4000)" by (rule aligned_pageI)
  then have align: "paging_align_address (?stack + 0x4000) = ?stack + 0x4000"
    by (simp add: paging_align_address_def paging_is_aligned_def)
  have "?stack \<le> ?stack + 0x4000" unfolding word_le_nat_alt sum by simp
  moreover have "paging_is_aligned 0x3FB000" by (simp add: paging_is_aligned_unat)
  ultimately obtain m2 where m2: "paging_map_to chunk 0x3FB000 ?stack (?stack + 0x4000) 7 m1 = (0, m2)" "tables_written chunk m1 m2"
    "\<And>w. paging_is_aligned w \<Longrightarrow> paging_get ?d w m2 = map_interval (0x3FB000, ?stack, ?stack + 0x4000, 7) (\<lambda>w. paging_get ?d w m1) w"
    using paging_map_to_entries [OF wf(1) _ st(1) al] unfolding wf(2) by blast
  have program: "(if process_filetype m process = PROCESS_FORMAT_ELF then process_map_elf process m
      else if process_filetype m process = PROCESS_FORMAT_FBIN then process_map_binary process m else (- EINVFORMAT, m)) = (0, m1)"
    using m1(1) assms(1) unfolding process_loaded_def by (metis (no_types))
  have "process_map_memory process m = (0, m2)"
    unfolding process_map_memory_def program using m2(1)
    by (simp add: kept align user_flags_def config_defs paging_defs)
  moreover have "paging_get ?d w m2 = fold map_interval (program_intervals m process @ [stack_interval m process]) (\<lambda>w. paging_get ?d w m) w"
    if "paging_is_aligned w" for w
    using m2(3) [OF that] m1(3) [OF that] by (simp add: stack_interval_def)
  ultimately show ?thesis
    using tables_written_trans [OF m1(2) m2(2)] by (intro exI [of _ m2]) (simp add: tables_written_def)
qed

text \<open>A flat binary of 100 bytes at 0x9000 with its stack at 0xA000; process and task below the heap.\<close>

definition small_process :: "u32 \<Rightarrow> memory \<Rightarrow> memory" where
  "small_process chunk m = store32 (store32 (store32 (store32 (store32 (m(0x4074 := 1))
     0x2070 0x5000) 0x4078 0x9000) 0x407C 0xA000) 0x4080 100) 0x5000 chunk"

lemma small_process_fields:
  "process_task (small_process chunk m) 0x2000 = 0x5000" "process_page_directory (small_process chunk m) 0x2000 = chunk"
  "process_ptr (small_process chunk m) 0x2000 = 0x9000" "process_stack (small_process chunk m) 0x2000 = 0xA000"
  "process_size (small_process chunk m) 0x2000 = 100" "process_filetype (small_process chunk m) 0x2000 = PROCESS_FORMAT_FBIN"
  by (simp_all add: small_process_def process_page_directory_def process_task_def task_page_directory_def process_ptr_def
    process_stack_def process_size_def process_filetype_def mem_simps aligned4_def PROCESS_FORMAT_FBIN_def)

lemma small_process_high: "16777216 \<le> unat a \<Longrightarrow> small_process chunk m a = m a"
proof -
  assume a: "16777216 \<le> unat a"
  have "store32 m' c v a = m' a" if "unat c + 4 \<le> 16777216" for m' c v
  proof (rule store32_other)
    fix i :: nat assume "i < 4"
    then have "unat (c + of_nat i) = unat c + i" using that by (simp add: unat_word_ariths unat_of_nat32)
    then show "a \<noteq> c + of_nat i" using a that \<open>i < 4\<close> by auto
  qed
  then show "small_process chunk m a = m a" using a by (auto simp: small_process_def)
qed

lemma high_tables:
  assumes "wf_chunk m0 chunk" "16777216 \<le> unat chunk" "16777216 \<le> unat (d_entry m0 chunk)"
    and tab: "\<And>i. unat i < 1024 \<Longrightarrow> 16777216 \<le> unat (table_of m0 (d_entry m0 chunk) i)"
    and same: "\<And>a. 16777216 \<le> unat a \<Longrightarrow> m a = m0 a"
  shows "wf_chunk m chunk" "d_entry m chunk = d_entry m0 chunk" "\<And>a. unat a < 16777216 \<Longrightarrow> off_tables m chunk a"
    "\<And>w. paging_is_aligned w \<Longrightarrow> paging_get (d_entry m0 chunk) w m = paging_get (d_entry m0 chunk) w m0"
proof -
  let ?d = "d_entry m0 chunk"
  have al: "aligned4 chunk" "paging_is_aligned ?d" using assms(1) by (simp_all add: wf_chunk_def wf_dir_def)
  have "m (chunk + of_nat k) = m0 (chunk + of_nat k)" if "k < 4" for k
    using assms(2) aligned4_plus [OF al(1) that] by (intro same) simp
  then show d: "d_entry m chunk = ?d" unfolding d_entry_def by (rule load32_cong)
  have page: "m a = m0 a" if "page_base a = p" "16777216 \<le> unat p" for a p
  proof -
    have "unat p \<le> unat a" using unat_page_base [of a] that(1) by (metis times_div_less_eq_dividend)
    then show ?thesis using that(2) by (intro same) linarith
  qed
  have entry: "load32 m (?d + 4 * i) = load32 m0 (?d + 4 * i)" if "unat i < 1024" for i
    using load32_slot_cong [OF al(2) that, of m m0] page assms(3) by blast
  have tables: "table_of m ?d i = table_of m0 ?d i" if "unat i < 1024" for i
    using entry [OF that] by (simp add: table_of_def)
  have wf: "wf_dir m ?d" using assms(1) entry tables by (auto simp: wf_chunk_def wf_dir_def)
  then show "wf_chunk m chunk" using assms(1) tables by (simp add: wf_chunk_def d)
  show "off_tables m chunk a" if "unat a < 16777216" for a
    unfolding off_tables_def d
  proof (intro allI impI notI)
    fix i assume "unat i < 1024" and eq: "table_of m ?d i = page_base a"
    then have "16777216 \<le> unat (page_base a)" using tab tables by metis
    then show False using that unat_page_base [of a] by (metis times_div_less_eq_dividend leD le_trans)
  qed
  show "paging_get ?d w m = paging_get ?d w m0" if w: "paging_is_aligned w" for w
  proof -
    have wf0: "wf_dir m0 ?d" using assms(1) by (simp add: wf_chunk_def)
    have "load32 m (table_of m0 ?d (pdx w) + 4 * ptx w) = load32 m0 (table_of m0 ?d (pdx w) + 4 * ptx w)"
      by (rule load32_slot_cong [OF table_of_aligned ptx_bound]) (rule page, assumption, rule tab [OF pdx_bound])
    then show ?thesis unfolding wf_dir_get [OF wf w] wf_dir_get [OF wf0 w] tables [OF pdx_bound] .
  qed
qed

lemma heap_directory_high:
  assumes "kheap_live s = chunk_regions (mem s) chunk"
  shows "16777216 \<le> unat chunk" "16777216 \<le> unat (d_entry (mem s) chunk)"
    "unat i < 1024 \<Longrightarrow> 16777216 \<le> unat (table_of (mem s) (d_entry (mem s) chunk) i)"
proof -
  have low: "16777216 \<le> q" if "(q, k) \<in> chunk_regions (mem s) chunk" for q k
    using that unfolding assms [symmetric] kheap_live_def by auto
  show "16777216 \<le> unat chunk" "16777216 \<le> unat (d_entry (mem s) chunk)" by (rule low [of _ 4096], simp add: chunk_regions_def)+
  assume "unat i < 1024"
  then show "16777216 \<le> unat (table_of (mem s) (d_entry (mem s) chunk) i)"
    by (intro low [of _ 4096]) (force simp: chunk_regions_def)
qed

theorem process_map_memory_correct_witness:
  "\<exists>chunk m m'. process_map_memory 0x2000 m = (0, m')
    \<and> paging_get (d_entry m chunk) 0x400000 m' = 0x9007 \<and> paging_get (d_entry m chunk) 0x3FE000 m' = 0xD007
    \<and> paging_get (d_entry m chunk) 0x401000 m' = 0x401007"
proof -
  obtain chunk and s :: vstate where s: "wf_chunk (mem s) chunk" "kheap_live s = chunk_regions (mem s) chunk"
    "\<And>v. paging_is_aligned v \<Longrightarrow> paging_get (d_entry (mem s) chunk) v (mem s) = v OR 7"
    using fresh_vm_directory by metis
  let ?m = "small_process chunk (mem s)"
  have high: "wf_chunk ?m chunk" "d_entry ?m chunk = d_entry (mem s) chunk" "\<And>a. unat a < 16777216 \<Longrightarrow> off_tables ?m chunk a"
    "\<And>w. paging_is_aligned w \<Longrightarrow> paging_get (d_entry (mem s) chunk) w ?m = paging_get (d_entry (mem s) chunk) w (mem s)"
    using high_tables [OF s(1) heap_directory_high [OF s(2)], of ?m] small_process_high [of _ chunk "mem s"] by blast+
  note f = small_process_fields [of chunk "mem s"]
  have "clear_of_tables ?m chunk p n" if "unat p + unat n < 16777216" for p n
    unfolding clear_of_tables_def
  proof (intro allI impI high(3))
    fix i assume "i < unat n"
    then show "unat (p + of_nat i) < 16777216"
      using that by (subst unat_add_lem [THEN iffD1]) (simp_all add: unat_of_nat32)
  qed
  then have "process_loaded ?m 0x2000"
    using high(1) by (simp add: process_loaded_def f process_clear_def paging_is_aligned_unat PROCESS_FORMAT_ELF_def PROCESS_FORMAT_FBIN_def)
  from process_map_memory_correct [OF this f(2) [symmetric]] obtain m' where m': "process_map_memory 0x2000 ?m = (0, m')"
    "\<forall>w. paging_is_aligned w \<longrightarrow> paging_get (d_entry ?m chunk) w m' = fold map_interval
      (program_intervals ?m 0x2000 @ [stack_interval ?m 0x2000]) (\<lambda>w. paging_get (d_entry ?m chunk) w ?m) w"
    by blast
  have w: "paging_is_aligned 0x400000" "paging_is_aligned 0x3FE000" "paging_is_aligned 0x401000"
    by (simp_all add: paging_is_aligned_unat)
  have old: "paging_get (d_entry ?m chunk) 0x401000 ?m = 0x401007"
    using high(2) high(4) [OF w(3)] s(3) [OF w(3)] by simp
  have "program_intervals ?m 0x2000 @ [stack_interval ?m 0x2000] = [(0x400000, 0x9000, 0xA000, 7), (0x3FB000, 0xA000, 0xE000, 7)]"
    by (simp add: program_intervals_def stack_interval_def f PROCESS_FORMAT_ELF_def PROCESS_FORMAT_FBIN_def
      paging_align_address_def paging_defs)
  then have "paging_get (d_entry ?m chunk) 0x400000 m' = 0x9007" "paging_get (d_entry ?m chunk) 0x3FE000 m' = 0xD007"
    "paging_get (d_entry ?m chunk) 0x401000 m' = 0x401007"
    using m'(2) [rule_format, OF w(1)] m'(2) [rule_format, OF w(2)] m'(2) [rule_format, OF w(3)] old by simp_all
  then show ?thesis using m'(1) by blast
qed

end
