(* ===== verification/HeapRuns.thy ===== *)
theory HeapRuns
  imports HeapObjects
begin

text \<open>
  The life of the kernel heap: every sequence of requests, releases and writes from the start of the kernel,
  as an inductive relation between the grants that are outstanding (the address \<^verbatim>\<open>kmalloc\<close> returned and
  the bytes the owner left there) and the state. Its invariant is the global safety of \<^verbatim>\<open>heap.c\<close>: no byte
  is granted twice, every owner reads what it wrote, and every block is accounted for.
\<close>

section \<open>Accounting\<close>

lemma live_runs_finite: "finite (live_runs t)"
proof (rule finite_subset)
  show "live_runs t \<subseteq> {..length t} \<times> {..length t}" by (auto simp: live_runs_def run_at_def)
qed simp

lemma live_run_entries: "(b, n) \<in> live_runs t \<Longrightarrow> b \<le> i \<Longrightarrow> i < b + n \<Longrightarrow> i < length t \<and> t ! i \<noteq> 0 \<and> \<not> blk_free (t ! i)"
proof -
  assume r: "(b, n) \<in> live_runs t" "b \<le> i" "i < b + n"
  then have "i < length t" "t ! i = run_byte n (i - b)"
    using run_at_nth [of t b n i] by (auto simp: live_runs_def run_at_def)
  then show ?thesis using run_byte_neq_0 run_byte_not_free by simp
qed

text \<open>The entries that are not free are those of the live runs, each in one of them.\<close>

lemma taken_entries:
  assumes "table_inv t"
  shows "{i. i < length t \<and> \<not> blk_free (t ! i)} = (\<Union>(b, n) \<in> live_runs t. {b..<b + n})"
proof (intro set_eqI iffI)
  fix i assume "i \<in> {i. i < length t \<and> \<not> blk_free (t ! i)}"
  then have "i < length t" "t ! i \<noteq> 0" by auto
  then obtain b n where "b \<le> i" "i < b + n" "run_at t b n" using assms unfolding table_inv_def by blast
  then show "i \<in> (\<Union>(b, n) \<in> live_runs t. {b..<b + n})" by (auto simp: live_runs_def)
qed (use live_run_entries in auto)

lemma live_blocks_sum:
  assumes "table_inv t"
  shows "card {i. i < length t \<and> blk_free (t ! i)} + (\<Sum>(b, n) \<in> live_runs t. n) = length t"
proof -
  have "card (\<Union>r \<in> live_runs t. {fst r..<fst r + snd r}) = (\<Sum>r \<in> live_runs t. card {fst r..<fst r + snd r})"
  proof (rule card_UN_disjoint [OF live_runs_finite], simp, intro ballI impI)
    fix r q assume "r \<in> live_runs t" "q \<in> live_runs t" "r \<noteq> q"
    then show "{fst r..<fst r + snd r} \<inter> {fst q..<fst q + snd q} = {}"
      using live_runs_disjoint [of "fst r" "snd r" t "fst q" "snd q"] by fastforce
  qed
  then have "card {i. i < length t \<and> \<not> blk_free (t ! i)} = (\<Sum>(b, n) \<in> live_runs t. n)"
    unfolding taken_entries [OF assms] by (simp add: case_prod_unfold)
  moreover have "{..<length t} = {i. i < length t \<and> blk_free (t ! i)} \<union> {i. i < length t \<and> \<not> blk_free (t ! i)}" by auto
  then have "card {..<length t} = card {i. i < length t \<and> blk_free (t ! i)} + card {i. i < length t \<and> \<not> blk_free (t ! i)}"
    using card_Un_disjoint [of "{i. i < length t \<and> blk_free (t ! i)}" "{i. i < length t \<and> \<not> blk_free (t ! i)}"] by auto
  ultimately show ?thesis by simp
qed

lemma kheap_accounting:
  assumes "kheap_ok s"
  shows "4096 * free_blocks s + (\<Sum>(p, k) \<in> kheap_live s. k) = 104857600"
proof -
  let ?t = "table_bytes kernel_heap_layout (mem s)"
  have inj: "inj_on (\<lambda>(b, n). (16777216 + 4096 * b, 4096 * n)) (live_runs ?t)" by (auto intro!: inj_onI)
  have "(\<Sum>(p, k) \<in> kheap_live s. k) = 4096 * (\<Sum>(b, n) \<in> live_runs ?t. n)"
    unfolding kheap_live_def sum.reindex [OF inj] by (simp add: case_prod_unfold sum_distrib_left)
  moreover have "free_blocks s + (\<Sum>(b, n) \<in> live_runs ?t. n) = 25600"
    using live_blocks_sum [of ?t] assms by (simp add: kheap_ok_def free_blocks_def)
  ultimately show ?thesis by linarith
qed

section \<open>Histories\<close>

text \<open>What has happened to the heap since \<^verbatim>\<open>kheap_init\<close>, with the grants outstanding: a request that fits,
  plain or cleared, adds a grant at the address it returns; \<^verbatim>\<open>kfree\<close> of a grant's address ends it; the owner
  writes a byte of its grant; and the rest of the kernel does anything that leaves the block table and the
  granted bytes alone.\<close>

inductive heap_history :: "(u32 \<times> u8 list) list \<Rightarrow> 'a kstate_scheme \<Rightarrow> bool" where
  start: "cursor_ok s0 \<Longrightarrow> unat (terminal_y s0) \<le> 70000 \<Longrightarrow> kheap_init s0 = Ret () s \<Longrightarrow> heap_history [] s"
| request: "heap_history gs s \<Longrightarrow> kheap_room sz s \<Longrightarrow> kmalloc sz s = (p, s') \<Longrightarrow>
    heap_history ((p, bytes (mem s) p (unat sz)) # gs) s'"
| request_zero: "heap_history gs s \<Longrightarrow> kheap_room sz s \<Longrightarrow> kzalloc sz s = (p, s') \<Longrightarrow>
    heap_history ((p, replicate (unat sz) 0) # gs) s'"
| release: "heap_history (fs @ (p, bs) # gs) s \<Longrightarrow> heap_history (fs @ gs) (kfree p s)"
| owner_write: "heap_history (fs @ (p, bs) # gs) s \<Longrightarrow> i < length bs \<Longrightarrow>
    heap_history (fs @ (p, bs[i := v]) # gs) (s\<lparr>mem := (mem s)(p + of_nat i := v)\<rparr>)"
| elsewhere: "heap_history gs s \<Longrightarrow> kernel_heap s' = kernel_heap s \<Longrightarrow>
    \<forall>a. kheap_reserved a \<longrightarrow> mem s' a = mem s a \<Longrightarrow>
    \<forall>p bs. (p, bs) \<in> set gs \<longrightarrow> bytes (mem s') p (length bs) = bytes (mem s) p (length bs) \<Longrightarrow>
    heap_history gs s'"

text \<open>The region behind a grant: its bytes rounded up to whole blocks.\<close>

definition grant_region :: "u32 \<times> u8 list \<Rightarrow> nat \<times> nat" where
  "grant_region g = (unat (fst g), 4096 * ((length (snd g) + 4095) div 4096))"

definition heap_grants_ok :: "(u32 \<times> u8 list) list \<Rightarrow> 'a kstate_scheme \<Rightarrow> bool" where
  "heap_grants_ok gs s \<longleftrightarrow> kheap_ok s \<and> kheap_live s = grant_region ` set gs \<and> distinct (map fst gs)
     \<and> (\<forall>g \<in> set gs. bytes (mem s) (fst g) (length (snd g)) = snd g)"

lemma grant_byte:
  assumes "heap_grants_ok gs s" "g \<in> set gs" "i < length (snd g)"
  shows "grant_region g \<in> kheap_live s" "unat (fst g + of_nat i) = unat (fst g) + i"
    "i < snd (grant_region g)"
proof -
  show live: "grant_region g \<in> kheap_live s" using assms(1,2) by (simp add: heap_grants_ok_def)
  show i: "i < snd (grant_region g)" using assms(3) unfolding grant_region_def snd_conv by linarith
  have "unat (fst g) + snd (grant_region g) \<le> 121634816"
    using kheap_live_bounds [of "unat (fst g)" "snd (grant_region g)" s] live by (simp add: grant_region_def)
  then show "unat (fst g + of_nat i) = unat (fst g) + i"
    using i by (simp add: unat_word_ariths unat_of_nat32)
qed

text \<open>Two grants that share a byte have the same address.\<close>

lemma heap_grants_apart:
  assumes "heap_grants_ok gs s" "g \<in> set gs" "i < length (snd g)" "h \<in> set gs" "j < length (snd h)"
    "fst g + of_nat i = fst h + of_nat j"
  shows "fst g = fst h"
proof -
  note g = grant_byte [OF assms(1,2,3)] and h = grant_byte [OF assms(1,4,5)]
  have r: "grant_region g = (unat (fst g), snd (grant_region g))" for g by (simp add: grant_region_def)
  have same: "unat (fst g) + i = unat (fst h) + j" using g(2) h(2) assms(6) by simp
  have "(unat (fst g), snd (grant_region g)) = (unat (fst h), snd (grant_region h))"
    using kheap_live_disjoint [of "unat (fst g)" "snd (grant_region g)" s "unat (fst h)" "snd (grant_region h)" "unat (fst g) + i"]
      g(1,3) h(1,3) same unfolding r [symmetric] by simp
  then show ?thesis by (simp add: word_unat_eq_iff)
qed

text \<open>What keeps the bytes of live regions keeps the bytes of the grants.\<close>

lemma grants_kept:
  assumes "heap_grants_ok gs s" "g \<in> set gs"
    "\<And>q k a. (q, k) \<in> kheap_live s \<Longrightarrow> q \<le> unat a \<Longrightarrow> unat a < q + k \<Longrightarrow> q = unat (fst g) \<Longrightarrow> mem s' a = mem s a"
  shows "bytes (mem s') (fst g) (length (snd g)) = snd g"
proof -
  have "mem s' (fst g + of_nat i) = mem s (fst g + of_nat i)" if "i < length (snd g)" for i
  proof (rule assms(3))
    note g = grant_byte [OF assms(1,2) that]
    show "(unat (fst g), snd (grant_region g)) \<in> kheap_live s" using g(1) by (simp add: grant_region_def)
    show "unat (fst g) \<le> unat (fst g + of_nat i)" "unat (fst g + of_nat i) < unat (fst g) + snd (grant_region g)"
      using g(2,3) by simp_all
  qed simp
  then have "bytes (mem s') (fst g) (length (snd g)) = bytes (mem s) (fst g) (length (snd g))" by (rule bytes_cong)
  then show ?thesis using assms(1,2) by (simp add: heap_grants_ok_def)
qed

lemma kmalloc_grant:
  assumes "kheap_ok s" "kheap_room sz s" "length bs = unat sz"
  shows "kheap_live (snd (kmalloc sz s)) = insert (grant_region (fst (kmalloc sz s), bs)) (kheap_live s)"
    "(unat (fst (kmalloc sz s)), k) \<notin> kheap_live s"
proof -
  from kmalloc_table [OF assms(1,2)] obtain b where
    b: "table_fits (table_bytes kernel_heap_layout (mem s)) (blocks_needed sz) b"
      "0 < blocks_needed sz" "unat sz \<le> 4096 * blocks_needed sz"
      "unat (fst (kmalloc sz s)) = 16777216 + 4096 * b"
      "table_bytes kernel_heap_layout (mem (snd (kmalloc sz s))) = take_run (table_bytes kernel_heap_layout (mem s)) b (blocks_needed sz)"
    by blast
  show "kheap_live (snd (kmalloc sz s)) = insert (grant_region (fst (kmalloc sz s), bs)) (kheap_live s)"
    using kheap_live_take [OF b(1,2,5)] b(4) assms(3)
    by (simp add: kheap_live_def grant_region_def blocks_needed_def)
  show "(unat (fst (kmalloc sz s)), k) \<notin> kheap_live s"
    using fits_run_not_live [OF b(1,2)] b(4) by (auto simp: kheap_live_iff)
qed

lemma grants_request:
  assumes "heap_grants_ok gs s" "kheap_room sz s" "length bs = unat sz"
    "kheap_ok s'" "kheap_live s' = kheap_live (snd (kmalloc sz s))"
    "\<And>q k a. (q, k) \<in> kheap_live s \<Longrightarrow> q \<le> unat a \<Longrightarrow> unat a < q + k \<Longrightarrow> mem s' a = mem s a"
    "bytes (mem s') (fst (kmalloc sz s)) (unat sz) = bs"
  shows "heap_grants_ok ((fst (kmalloc sz s), bs) # gs) s'"
proof -
  have ok: "kheap_ok s" and live: "kheap_live s = grant_region ` set gs" using assms(1) by (simp_all add: heap_grants_ok_def)
  note new = kmalloc_grant [OF ok assms(2,3)]
  have "fst (kmalloc sz s) \<noteq> fst g" if "g \<in> set gs" for g
    using new(2) [of "snd (grant_region g)"] that unfolding live by (auto simp: grant_region_def)
  moreover have "bytes (mem s') (fst g) (length (snd g)) = snd g" if "g \<in> set gs" for g
    by (rule grants_kept [OF assms(1) that]) (rule assms(6))
  ultimately show ?thesis
    using assms(1,3,4,5,7) new(1) by (auto simp: heap_grants_ok_def)
qed

lemma grants_release:
  assumes "heap_grants_ok (fs @ (p, bs) # gs) s"
  shows "heap_grants_ok (fs @ gs) (kfree p s)"
proof -
  let ?gs = "fs @ (p, bs) # gs"
  have ok: "kheap_ok s" and live: "kheap_live s = grant_region ` set ?gs" and d: "distinct (map fst ?gs)"
    using assms by (simp_all add: heap_grants_ok_def)
  have p: "(unat p, snd (grant_region (p, bs))) \<in> kheap_live s" unfolding live by (simp add: grant_region_def)
  have other: "g \<in> set ?gs \<and> unat (fst g) \<noteq> unat p" if "g \<in> set (fs @ gs)" for g
    using d that by (auto simp: word_unat_eq_iff [symmetric] dest: imageI [of _ _ fst])
  have "kheap_live (kfree p s) = grant_region ` set (fs @ gs)"
    unfolding kh.release_live [OF ok p] live
    using other by (auto simp: grant_region_def)
  moreover have "bytes (mem (kfree p s)) (fst g) (length (snd g)) = snd g" if "g \<in> set (fs @ gs)" for g
    using other [OF that] kh.live_kept(2) [OF ok _ _ _ p] by (intro grants_kept [OF assms]) auto
  ultimately show ?thesis using d kh.release_ok [OF ok p] by (simp add: heap_grants_ok_def)
qed

lemma grants_write:
  assumes "heap_grants_ok (fs @ (p, bs) # gs) s" "i < length bs"
  shows "heap_grants_ok (fs @ (p, bs[i := v]) # gs) (s\<lparr>mem := (mem s)(p + of_nat i := v)\<rparr>)"
proof -
  let ?gs = "fs @ (p, bs) # gs" and ?s = "s\<lparr>mem := (mem s)(p + of_nat i := v)\<rparr>"
  have d: "distinct (map fst ?gs)" and own: "(p, bs) \<in> set ?gs" using assms(1) by (simp_all add: heap_grants_ok_def)
  note at = grant_byte [OF assms(1) own, simplified, OF assms(2)]
  have "\<not> kheap_reserved (p + of_nat i)"
    using kheap_live_public [of "unat p" "snd (grant_region (p, bs))" s] at by (simp add: grant_region_def)
  then have same: "kheap_ok ?s = kheap_ok s" "kheap_live ?s = kheap_live s"
    by (intro kheap_mem_cong; auto)+
  have "bytes (mem ?s) (fst g) (length (snd g)) = snd g" if g: "g \<in> set fs \<union> set gs" for g
  proof -
    have "g \<in> set ?gs" "fst g \<noteq> p" using g d by (auto dest: imageI [of _ _ fst])
    then have "p + of_nat i \<noteq> fst g + of_nat j" if "j < length (snd g)" for j
      using heap_grants_apart [OF assms(1) own _ \<open>g \<in> set ?gs\<close> that, of i] assms(2) by auto
    then have "bytes (mem ?s) (fst g) (length (snd g)) = bytes (mem s) (fst g) (length (snd g))"
      by (intro bytes_cong) (simp, metis)
    then show ?thesis using assms(1) \<open>g \<in> set ?gs\<close> by (auto simp: heap_grants_ok_def)
  qed
  moreover have "bytes (mem ?s) p (length bs) = bs[i := v]"
  proof (rule nth_equalityI)
    fix j assume "j < length (bytes (mem ?s) p (length bs))"
    then have j: "j < length bs" by simp
    have "bytes (mem s) p (length bs) ! j = bs ! j" using assms(1) by (simp add: heap_grants_ok_def)
    moreover have "p + of_nat j = p + of_nat i \<longleftrightarrow> j = i"
      using grant_byte(2) [OF assms(1) own, simplified, OF j] at(2) by (auto simp: word_unat_eq_iff)
    ultimately show "bytes (mem ?s) p (length bs) ! j = bs[i := v] ! j"
      using j by (cases "j = i") auto
  qed simp
  ultimately show ?thesis
    using assms(1) same by (auto simp: heap_grants_ok_def grant_region_def)
qed

lemma heap_history_ok: "heap_history gs s \<Longrightarrow> heap_grants_ok gs s"
proof (induction rule: heap_history.induct)
  case (start s0 s)
  then show ?case using kheap_init_establishes [of s0] by (auto simp: heap_grants_ok_def)
next
  case (request gs s sz p s')
  then have ok: "kheap_ok s" and s': "p = fst (kmalloc sz s)" "s' = snd (kmalloc sz s)" by (simp_all add: heap_grants_ok_def)
  have "bytes (mem s') p (unat sz) = bytes (mem s) p (unat sz)"
  proof (rule bytes_cong)
    fix i assume i: "i < unat sz"
    obtain n where n: "unat sz \<le> n" "(unat p, n) \<in> kheap_live s'" using kmalloc_live [OF ok request.hyps(2)] s' by auto
    have "unat (p + of_nat i) = unat p + i"
      using kheap_live_bounds [OF n(2)] n(1) i by (simp add: unat_word_ariths unat_of_nat32)
    then have "\<not> kheap_reserved (p + of_nat i)" using kheap_live_public [OF n(2)] n(1) i by simp
    then show "mem s' (p + of_nat i) = mem s (p + of_nat i)"
      unfolding s' by (rule kmalloc_frame [OF ok request.hyps(2)])
  qed
  then show ?case
    using request.hyps(2) kh.alloc_ok [OF ok] kh.live_kept(1) [OF ok] unfolding s'
    by (intro grants_request [OF request.IH]) auto
next
  case (request_zero gs s sz p s')
  then have ok: "kheap_ok s" and p: "p = fst (kmalloc sz s)" and s': "s' = snd (kzalloc sz s)"
    using khz.zalloc_ptr [of s sz] by (auto simp: heap_grants_ok_def)
  have "bytes (mem s') (fst (kmalloc sz s)) (unat sz) = replicate (unat sz) 0"
    using khz.zalloc_zero [OF ok request_zero.hyps(2)] khz.zalloc_ptr [OF ok request_zero.hyps(2)]
    unfolding s' by (intro nth_equalityI) simp_all
  then show ?case
    using request_zero.hyps(2) khz.zalloc_ok [OF ok] khz.zalloc_live [OF ok] khz.zalloc_live_kept [OF ok] unfolding p s'
    by (intro grants_request [OF request_zero.IH]) auto
next
  case (release fs p bs gs s)
  then show ?case by (intro grants_release)
next
  case (owner_write fs p bs gs s i v)
  then show ?case by (intro grants_write)
next
  case (elsewhere gs s s')
  have "kheap_ok s' = kheap_ok s" "kheap_live s' = kheap_live s"
    using elsewhere.hyps(2,3) by (intro kheap_mem_cong; blast)+
  then show ?case using elsewhere.IH elsewhere.hyps(4) by (auto simp: heap_grants_ok_def)
qed

lemma sum_grants:
  assumes "heap_grants_ok gs s"
  shows "(\<Sum>(p, k) \<in> kheap_live s. k) = (\<Sum>g \<leftarrow> gs. snd (grant_region g))"
proof -
  have d: "distinct (map fst gs)" and live: "kheap_live s = grant_region ` set gs" using assms by (simp_all add: heap_grants_ok_def)
  have "inj_on grant_region (set gs)"
  proof (rule inj_onI)
    fix g h assume gh: "g \<in> set gs" "h \<in> set gs" "grant_region g = grant_region h"
    then have "fst g = fst h" by (simp add: grant_region_def word_unat_eq_iff)
    then show "g = h" using d gh(1,2) by (metis eq_key_imp_eq_value prod.collapse)
  qed
  then have "(\<Sum>(p, k) \<in> kheap_live s. k) = (\<Sum>g \<in> set gs. snd (grant_region g))"
    unfolding live by (simp add: sum.reindex case_prod_unfold)
  also have "\<dots> = (\<Sum>g \<leftarrow> gs. snd (grant_region g))"
    using sum.distinct_set_conv_list [of gs] d by (simp add: distinct_map)
  finally show ?thesis .
qed

section \<open>Property\<close>

text \<open>C4. The kernel heap is safe for its whole life. After any sequence of requests that fit, releases of
  outstanding grants, writes of owners to their grants and kernel steps that touch neither the block table nor
  a granted byte, from \<^verbatim>\<open>kheap_init\<close> on: every address \<^verbatim>\<open>kmalloc\<close> or \<^verbatim>\<open>kzalloc\<close> returned and nobody released
  begins a block, with all the bytes asked for inside the heap; no two grants share a byte; each holds exactly
  what its owner last wrote (zeros at first when it was asked for cleared); the block table is well-formed and
  its live regions are those of the grants; and free blocks and grants, each rounded up to whole blocks, add up
  to the 100 MiB of the heap, so that no block is ever lost. Requests that do not fit are not among the steps:
  see \<open>kmalloc_exhausted\<close>.\<close>

theorem heap_always_safe:
  assumes "heap_history gs s"
  shows "(\<forall>(p, bs) \<in> set gs. unat p mod 4096 = 0 \<and> 16777216 \<le> unat p \<and> unat p + length bs \<le> 121634816
        \<and> bytes (mem s) p (length bs) = bs)
    \<and> (\<forall>m n i j. m < length gs \<and> n < length gs \<and> m \<noteq> n \<and> i < length (snd (gs ! m)) \<and> j < length (snd (gs ! n))
        \<longrightarrow> fst (gs ! m) + of_nat i \<noteq> fst (gs ! n) + of_nat j)
    \<and> kheap_ok s
    \<and> kheap_live s = (\<lambda>(p, bs). (unat p, 4096 * ((length bs + 4095) div 4096))) ` set gs
    \<and> 4096 * free_blocks s + (\<Sum>(p, bs) \<leftarrow> gs. 4096 * ((length bs + 4095) div 4096)) = 104857600"
proof (intro conjI allI impI)
  note inv = heap_history_ok [OF assms]
  then show ok: "kheap_ok s" by (simp add: heap_grants_ok_def)
  have r: "grant_region = (\<lambda>(p, bs). (unat p, 4096 * ((length bs + 4095) div 4096)))"
    by (auto simp: grant_region_def fun_eq_iff)
  from inv show "kheap_live s = (\<lambda>(p, bs). (unat p, 4096 * ((length bs + 4095) div 4096))) ` set gs"
    unfolding heap_grants_ok_def r by blast
  show "4096 * free_blocks s + (\<Sum>(p, bs) \<leftarrow> gs. 4096 * ((length bs + 4095) div 4096)) = 104857600"
    using kheap_accounting [OF ok] unfolding sum_grants [OF inv] r by (simp add: case_prod_unfold)
  show "\<forall>(p, bs) \<in> set gs. unat p mod 4096 = 0 \<and> 16777216 \<le> unat p \<and> unat p + length bs \<le> 121634816
      \<and> bytes (mem s) p (length bs) = bs"
  proof (intro ballI, split prod.split, intro allI impI)
    fix g p bs assume g: "g \<in> set gs" "g = (p, bs)"
    have live: "(unat p, 4096 * ((length bs + 4095) div 4096)) \<in> kheap_live s"
      using inv g by (force simp: heap_grants_ok_def grant_region_def)
    moreover have "length bs \<le> 4096 * ((length bs + 4095) div 4096)" by linarith
    moreover have "unat p mod 4096 = 0" using live by (auto simp: kheap_live_iff mod_add_eq [symmetric])
    ultimately show "unat p mod 4096 = 0 \<and> 16777216 \<le> unat p \<and> unat p + length bs \<le> 121634816 \<and> bytes (mem s) p (length bs) = bs"
      using kheap_live_bounds [OF live] inv g by (auto simp: heap_grants_ok_def)
  qed
  show "fst (gs ! m) + of_nat i \<noteq> fst (gs ! n) + of_nat j"
    if "m < length gs \<and> n < length gs \<and> m \<noteq> n \<and> i < length (snd (gs ! m)) \<and> j < length (snd (gs ! n))" for m n i j
  proof
    assume "fst (gs ! m) + of_nat i = fst (gs ! n) + of_nat j"
    then have "fst (gs ! m) = fst (gs ! n)" using that by (intro heap_grants_apart [OF inv]) auto
    moreover have "distinct (map fst gs)" using inv by (simp add: heap_grants_ok_def)
    ultimately show False using that nth_eq_iff_index_eq [of "map fst gs" m n] by auto
  qed
qed

text \<open>Two cleared grants of one byte each, the second written to.\<close>

theorem heap_always_safe_witness:
  "\<exists>(s :: kstate) p q. heap_history [(q, [7]), (p, [0])] s \<and> mem s q = 7 \<and> mem s p = 0 \<and> p \<noteq> q
    \<and> free_blocks s = 25598"
proof -
  have f: "cursor_ok fresh_kernel" "unat (terminal_y fresh_kernel) \<le> 70000" by (simp_all add: cursor_ok_def fresh_kernel_def)
  obtain s :: kstate where s: "kheap_init fresh_kernel = Ret () s" "kheap_ok s" "kheap_live s = {}"
    using kheap_init_establishes [OF f] by blast
  have one: "(0 :: u32) < 1" "unat (1 :: u32) \<le> 4096" by simp_all
  have free: "free_blocks s = 25600" using kheap_accounting [OF s(2)] s(3) by simp
  obtain p t where t: "kzalloc 1 s = (p, t)" by (cases "kzalloc 1 s")
  have room: "kheap_room 1 s" using free by (intro free_block_room [OF _ one]) simp
  have h1: "heap_history [(p, [0])] t"
    using heap_history.request_zero [OF heap_history.start [OF f s(1)] room t] by simp
  have "Suc (free_blocks t) = free_blocks s" by (rule kzalloc_page [OF s(2) _ one]) (use free t in auto)
  then have "kheap_room 1 t" using free by (intro free_block_room [OF _ one]) simp
  moreover obtain q u where u: "kzalloc 1 t = (q, u)" by (cases "kzalloc 1 t")
  ultimately have "heap_history [(q, [0]), (p, [0])] u"
    using heap_history.request_zero [OF h1, of 1 q u] by simp
  from heap_history.owner_write [of "[]" q "[0]" "[(p, [0])]" u 0 7] this
  have h: "heap_history [(q, [7]), (p, [0])] (u\<lparr>mem := (mem u)(q := 7)\<rparr>)" by simp
  note safe = heap_always_safe [OF h]
  have "p \<noteq> q" using safe by (auto dest: spec [of _ 0] spec [of _ 1] simp: nth_Cons')
  then show ?thesis using h safe by (intro exI [of _ "u\<lparr>mem := (mem u)(q := 7)\<rparr>"] exI [of _ p] exI [of _ q]) (simp add: bytes_Suc)
qed

end
