(* ===== verification/TaskMemory.thy ===== *)
theory TaskMemory
  imports AddressSpace SchedulerSpec HeapRuns
begin

text \<open>
  How the kernel reads the memory of a task: the walk of the page tables, a string copied through them
  (\<^verbatim>\<open>copy_string_from_task\<close>), and \<^verbatim>\<open>isr_sys_print\<close> from the task's pointer to the screen.
\<close>

section \<open>The walk of the page tables\<close>

lemma mmu_eq:
  "mmu dir m a = (let e = paging_get dir (page_base a) m
     in if e AND 1 = 0 then None else Some (page_base e + a mod 4096))"
  by (simp add: mmu_def lower_page_addr page_base_sub paging_defs page_base_def [symmetric] Let_def)

text \<open>The pages a directory and its tables lie in.\<close>

definition off_directory :: "memory \<Rightarrow> u32 \<Rightarrow> u32 \<Rightarrow> bool" where
  "off_directory m dir a \<longleftrightarrow> page_base a \<noteq> dir \<and> (\<forall>i. unat i < 1024 \<longrightarrow> table_of m dir i \<noteq> page_base a)"

lemma paging_get_cong:
  assumes "wf_dir m dir" "\<And>a. \<not> off_directory m dir a \<Longrightarrow> m' a = m a" "paging_is_aligned w"
  shows "paging_get dir w m' = paging_get dir w m"
proof -
  have al: "paging_is_aligned dir" using assms(1) by (simp add: wf_dir_def)
  have d: "load32 m' (dir + 4 * pdx w) = load32 m (dir + 4 * pdx w)"
    using assms(2) by (intro load32_slot_cong [OF al pdx_bound]) (simp add: off_directory_def)
  then have t: "table_of m' dir (pdx w) = table_of m dir (pdx w)" by (simp add: table_of_def)
  have "load32 m' (table_of m dir (pdx w) + 4 * ptx w) = load32 m (table_of m dir (pdx w) + 4 * ptx w)"
  proof (rule load32_slot_cong)
    fix a assume "page_base a = table_of m dir (pdx w)"
    then have "\<not> off_directory m dir a" unfolding off_directory_def using pdx_bound by metis
    then show "m' a = m a" by (rule assms(2))
  qed simp_all
  then show ?thesis using assms(3) d t by (simp add: paging_get_aligned)
qed

lemma mmu_cong:
  assumes "wf_dir m dir" "\<And>a. \<not> off_directory m dir a \<Longrightarrow> m' a = m a"
  shows "mmu dir m' a = mmu dir m a"
  using paging_get_cong [OF assms] by (simp add: mmu_eq)

section \<open>A string through the page tables\<close>

text \<open>What a task's memory holds at \<open>v\<close>: the characters up to the terminator, at most \<open>n\<close>; no value when a page
  of it is not present. \<open>tr\<close> is the translation.\<close>

fun user_text :: "(u32 \<Rightarrow> u32 option) \<Rightarrow> memory \<Rightarrow> u32 \<Rightarrow> nat \<Rightarrow> u8 list option" where
  "user_text tr m v 0 = Some []"
| "user_text tr m v (Suc n) =
     (case tr v of
        None \<Rightarrow> None
      | Some q \<Rightarrow> if m q = 0 then Some [] else map_option ((#) (m q)) (user_text tr m (v + 1) n))"

lemma user_text_cong:
  assumes "\<And>i. i < n \<Longrightarrow> tr' (v + of_nat i) = tr (v + of_nat i)"
    "\<And>i q. i < n \<Longrightarrow> tr (v + of_nat i) = Some q \<Longrightarrow> m' q = m q"
  shows "user_text tr' m' v n = user_text tr m v n"
  using assms
proof (induction n arbitrary: v)
  case (Suc n)
  have "user_text tr' m' (v + 1) n = user_text tr m (v + 1) n"
  proof (rule Suc.IH)
    fix i assume "i < n"
    then show "tr' (v + 1 + of_nat i) = tr (v + 1 + of_nat i)"
      "\<And>q. tr (v + 1 + of_nat i) = Some q \<Longrightarrow> m' q = m q"
      using Suc.prems(1) [of "Suc i"] Suc.prems(2) [of "Suc i"] by (simp_all add: add.assoc)
  qed
  then show ?case using Suc.prems(1) [of 0] Suc.prems(2) [of 0] by (auto split: option.split)
qed simp

lemma user_text_string: "user_text tr m v n = Some cs \<Longrightarrow> 0 \<notin> set cs \<and> length cs \<le> n"
proof (induction n arbitrary: v cs)
  case (Suc n)
  then show ?case by (auto split: option.splits if_splits)
qed simp

text \<open>\<^verbatim>\<open>strncpy\<close> into a page that is mapped to itself, while the tables lie elsewhere: \<open>tr\<close> is the translation, which the
  writes do not change.\<close>

lemma put_cstr_page:
  assumes "\<And>i. i \<le> length cs \<Longrightarrow> page_base (p + of_nat i) = t" "page_base a \<noteq> t" "length cs < 4294967296"
  shows "put_cstr m p cs a = m a"
proof -
  have "unat (a - p) \<le> length cs \<Longrightarrow> a = p + of_nat (unat (a - p))" by simp
  then show ?thesis using assms(1) [of "unat (a - p)"] assms(2) by (auto simp: put_cstr_def Let_def)
qed

lemma mmu_strncpy_loop_run:
  assumes tr: "\<And>m' x. (\<And>a. page_base a \<noteq> t \<Longrightarrow> m' a = m0 a) \<Longrightarrow> mmu dir m' x = tr x"
    and "\<And>x. page_base x = t \<Longrightarrow> tr x = Some x"
    and "0 < n" "\<And>i. i < unat n \<Longrightarrow> page_base (dst + of_nat i) = t"
    and "\<And>i q. i < unat n - 1 \<Longrightarrow> tr (src + of_nat i) = Some q \<Longrightarrow> page_base q \<noteq> t"
    and "\<And>a. page_base a \<noteq> t \<Longrightarrow> m a = m0 a"
  shows "mmu_strncpy_loop dir m dst src n = map_option (put_cstr m dst) (user_text tr m src (unat n - 1))"
  using assms(3-6)
proof (induction "unat n" arbitrary: m dst src n)
  case (Suc k)
  note n = word_Suc_pred [OF Suc.prems(1)]
  have k: "k = unat (n - 1)" using Suc.hyps(2) n by simp
  have nz: "n \<noteq> 0" using Suc.prems(1) by (simp add: word_gt_0)
  have mmu: "mmu dir m x = tr x" for x by (rule tr) (rule Suc.prems(4))
  have dst: "page_base dst = t" using Suc.prems(2) [of 0] Suc.hyps(2) by simp
  have w: "mmu_write8 dir dst v m = Some (m(dst := v))" for v by (simp add: mmu_write8_def mmu assms(2) dst)
  show ?case
  proof (cases "n - 1 = 0")
    case True
    then have "k = 0" using k by simp
    then show ?thesis using True Suc.hyps(2) [symmetric] by (subst mmu_strncpy_loop.simps) (simp add: w put_cstr_Nil)
  next
    case False
    then obtain j where j: "k = Suc j" "unat (n - 1) = Suc j" using k by (metis not0_implies_Suc unat_eq_zero)
    have un: "unat n - 1 = Suc j" using Suc.hyps(2) j(1) by simp
    show ?thesis
    proof (cases "tr src")
      case None
      then show ?thesis using False nz un by (subst mmu_strncpy_loop.simps) (simp add: mmu_read8_def mmu)
    next
      case (Some q)
      show ?thesis
      proof (cases "m q = 0")
        case True
        then show ?thesis using False nz un Some
          by (subst mmu_strncpy_loop.simps) (simp add: mmu_read8_def mmu w put_cstr_Nil)
      next
        case nonzero: False
        let ?m = "m(dst := m q)"
        have later: "\<And>i. i < unat (n - 1) \<Longrightarrow> page_base (dst + 1 + of_nat i) = t"
          "\<And>i r. i < unat (n - 1) - 1 \<Longrightarrow> tr (src + 1 + of_nat i) = Some r \<Longrightarrow> page_base r \<noteq> t"
          using Suc.prems(2) [of "Suc i" for i] Suc.prems(3) [of "Suc i" for i] n by (simp_all add: add.assoc less_diff_conv)
        have kept: "page_base a \<noteq> t \<Longrightarrow> ?m a = m0 a" for a using Suc.prems(4) dst by auto
        have "0 < n - 1" using False by (simp add: word_gt_0)
        have "mmu_strncpy_loop dir ?m (dst + 1) (src + 1) (n - 1) = map_option (put_cstr ?m (dst + 1)) (user_text tr ?m (src + 1) (unat (n - 1) - 1))"
          by (rule Suc.hyps(1) [OF k \<open>0 < n - 1\<close>]) (fact later kept)+
        also have "unat (n - 1) - 1 = j" using j(2) by simp
        also have "user_text tr ?m (src + 1) j = user_text tr m (src + 1) j"
        proof (rule user_text_cong)
          fix i r assume "i < j" "tr (src + 1 + of_nat i) = Some r"
          then have "page_base r \<noteq> t" using later(2) [of i r] j(2) by simp
          then show "?m r = m r" using dst by auto
        qed simp
        finally have ih: "mmu_strncpy_loop dir ?m (dst + 1) (src + 1) (n - 1)
          = map_option (put_cstr ?m (dst + 1)) (user_text tr m (src + 1) j)" .
        have "put_cstr ?m (dst + 1) cs = put_cstr m dst (m q # cs)" if "user_text tr m (src + 1) j = Some cs" for cs
          using user_text_string [OF that] j(2) unat_u32_less [of "n - 1"] by (intro put_cstr_Cons) linarith
        then show ?thesis using False nz un Some nonzero ih
          by (subst mmu_strncpy_loop.simps) (auto simp: mmu_read8_def mmu w option.map_comp comp_def intro!: option.map_cong)
      qed
    qed
  qed
qed (metis less_irrefl unat_gt_0)

section \<open>Putting a page-table entry back\<close>

lemma load32_bytes:
  "ucast (load32 m p) = m p" "ucast (drop_bit 8 (load32 m p)) = m (p + 1)"
  "ucast (drop_bit 16 (load32 m p)) = m (p + 2)" "ucast (drop_bit 24 (load32 m p)) = m (p + 3)"
  by (rule bit_word_eqI; auto simp: load32_def bit_simps)+

lemma store32_restore:
  assumes "k < 4"
  shows "store32 m p (load32 m' p) (p + of_nat k) = m' (p + of_nat k)"
proof -
  have "k = 0 \<or> k = 1 \<or> k = 2 \<or> k = 3" using assms by auto
  then show ?thesis by (auto simp: store32_def load32_bytes)
qed

lemma mmu_mapped:
  assumes "paging_is_aligned t" "paging_get dir t m = t OR 7" "page_base x = t"
  shows "mmu dir m x = Some x"
proof -
  have "(t OR 7) AND 1 = (1 :: u32)" by (simp add: bit.conj_disj_distrib2)
  moreover have "page_base (t OR 7) = t" using page_base_frame_or [OF assms(1), of 7] by simp
  ultimately show ?thesis using assms(2) page_split [of x] assms(3) by (simp add: mmu_eq)
qed

text \<open>The page \<open>t\<close> is mapped to itself for a while: between the two changes of its entry any memory of that page
  may be written, and afterwards everything else is as before.\<close>

lemma borrow_page:
  assumes "wf_chunk m c" "paging_is_aligned t" "off_directory m (d_entry m c) t"
  defines "m2 \<equiv> snd (paging_map c t t 7 m)"
  shows "d_entry m2 c = d_entry m c" "wf_dir m2 (d_entry m c)"
    and "mmu (d_entry m c) m2 x = (if page_base x = t then Some x else mmu (d_entry m c) m x)"
    and "\<And>a. off_tables m c a \<Longrightarrow> m2 a = m a"
    and "\<And>a. page_base a = t \<Longrightarrow> m2 a = m a \<and> off_directory m2 (d_entry m c) a"
    and "(\<And>a. page_base a \<noteq> t \<Longrightarrow> m3 a = m2 a) \<Longrightarrow>
      \<exists>m4. paging_set (d_entry m c) t (paging_get (d_entry m c) t m) m3 = (0, m4)
        \<and> (\<forall>a. m4 a = (if page_base a = t then m3 a else m a))"
proof -
  let ?dir = "d_entry m c"
  let ?slot = "table_of m ?dir (pdx t) + 4 * ptx t"
  have map: "paging_map c t t 7 m = (0, m2)"
    using paging_map_ok [OF assms(1,2,2), of 7] by (metis m2_def snd_conv)
  note w = paging_map_written [OF assms(1,2,2) map]
  have wf: "wf_dir m ?dir" using assms(1) by (simp add: wf_chunk_def)
  show d2: "d_entry m2 c = ?dir" and wf2: "wf_dir m2 ?dir" and off: "\<And>a. off_tables m c a \<Longrightarrow> m2 a = m a"
    using w by (auto simp: tables_written_def wf_chunk_def)
  have tables: "unat i < 1024 \<Longrightarrow> table_of m2 ?dir i = table_of m ?dir i" for i using w by (simp add: tables_written_def)
  have tpage: "page_base t = t" using assms(2) by (rule page_base_of_aligned)
  show page: "m2 a = m a \<and> off_directory m2 ?dir a" if "page_base a = t" for a
    using assms(3) tables off [of a] that unfolding off_directory_def off_tables_def tpage by auto
  have get: "paging_get ?dir w m2 = (if w = t then t OR 7 else paging_get ?dir w m)" if "paging_is_aligned w" for w
    using paging_map_ok [OF assms(1,2,2), of 7] map that by (metis snd_conv)
  show "mmu ?dir m2 x = (if page_base x = t then Some x else mmu ?dir m x)"
  proof (cases "page_base x = t")
    case True
    then show ?thesis using mmu_mapped [OF assms(2) _ True] get [OF assms(2)] by simp
  qed (simp add: mmu_eq get)
  assume m3: "\<And>a. page_base a \<noteq> t \<Longrightarrow> m3 a = m2 a"
  have m2: "m2 = store32 m ?slot (t OR 7)"
    using assms(2) map by (simp add: paging_map_def paging_set_aligned paging_is_aligned_def)
  have kept3: "m3 a = m2 a" if "\<not> off_directory m2 ?dir a" for a using page that by (intro m3) blast
  have "load32 m3 (?dir + 4 * pdx t) = load32 m2 (?dir + 4 * pdx t)"
    using kept3 by (intro load32_slot_cong) (use wf2 in \<open>auto simp: wf_dir_def off_directory_def\<close>)
  then have "table_of m3 ?dir (pdx t) = table_of m ?dir (pdx t)" using tables [of "pdx t"] by (simp add: table_of_def)
  then have set: "paging_set ?dir t (paging_get ?dir t m) m3 = (0, store32 m3 ?slot (load32 m ?slot))"
    using paging_set_aligned [OF assms(2)] wf_dir_get [OF wf assms(2)] by simp
  have "store32 m3 ?slot (load32 m ?slot) a = (if page_base a = t then m3 a else m a)" for a
  proof (cases "\<exists>k < 4. a = ?slot + of_nat k")
    case True
    then obtain k where k: "k < 4" "a = ?slot + of_nat k" by blast
    then have "page_base a = table_of m ?dir (pdx t)" using slot_byte(2) [of "table_of m ?dir (pdx t)" "ptx t" k] by simp
    then have "page_base a \<noteq> t" using assms(3) tpage pdx_bound unfolding off_directory_def by metis
    then show ?thesis using store32_restore [OF k(1)] unfolding k(2) by simp
  next
    case False
    then have other: "store32 m' ?slot v a = m' a" for m' v by (intro store32_other) blast
    show ?thesis using m3 [of a] by (simp add: other m2)
  qed
  with set show "\<exists>m4. paging_set ?dir t (paging_get ?dir t m) m3 = (0, m4) \<and> (\<forall>a. m4 a = (if page_base a = t then m3 a else m a))"
    by blast
qed

section \<open>\<^verbatim>\<open>copy_string_from_task\<close>\<close>

text \<open>A word the kernel reads while it edits the tables of \<open>c\<close>, and the structures of a task: its page directory
  with all tables lives on the heap, the task and the kernel's own directory are elsewhere.\<close>

definition kept_word :: "'a tstate_scheme \<Rightarrow> u32 \<Rightarrow> u32 \<Rightarrow> bool" where
  "kept_word s c a \<longleftrightarrow> (\<forall>k < 4. held s (a + of_nat k) \<and> off_tables (mem s) c (a + of_nat k))"

definition task_space :: "'a tstate_scheme \<Rightarrow> u32 \<Rightarrow> bool" where
  "task_space s task \<longleftrightarrow> (let c = task_page_directory (mem s) task in
     wf_chunk (mem s) c \<and> chunk_regions (mem s) c \<subseteq> kheap_live s
     \<and> kept_word s c task \<and> kept_word s c (kernel_paging_chunk s))"

text \<open>The \<open>n\<close> bytes at \<open>v\<close> in the task's memory do not run into pages the heap may hand out, and are no page tables
  of the task.\<close>

definition task_reach :: "'a tstate_scheme \<Rightarrow> u32 \<Rightarrow> u32 \<Rightarrow> nat \<Rightarrow> bool" where
  "task_reach s task v n \<longleftrightarrow> (let c = task_page_directory (mem s) task in
     \<forall>i < n. held s (v + of_nat i)
       \<and> (\<forall>q. mmu (d_entry (mem s) c) (mem s) (v + of_nat i) = Some q \<longrightarrow> held s q \<and> off_tables (mem s) c q))"

lemma chunk_region_page:
  assumes "page_base a = c \<or> \<not> off_directory m (d_entry m c) a"
  shows "(unat (page_base a), 4096) \<in> chunk_regions m c"
proof (cases "page_base a = c \<or> page_base a = d_entry m c")
  case False
  then obtain i where i: "unat i < 1024" "table_of m (d_entry m c) i = page_base a"
    using assms unfolding off_directory_def by blast
  then have "i = of_nat (unat i)" by simp
  then show ?thesis using i unfolding chunk_regions_def by (metis (no_types, lifting) UnI2 image_eqI lessThan_iff)
qed (auto simp: chunk_regions_def)

lemma chunk_region_held:
  assumes "kheap_ok s" "wf_chunk (mem s) c" "chunk_regions (mem s) c \<subseteq> kheap_live s"
  shows "page_base c = c"
    and "page_base a = page_base c \<or> \<not> off_directory (mem s) (d_entry (mem s) c) a \<Longrightarrow> (unat (page_base a), 4096) \<in> kheap_live s"
    and "page_base a = page_base c \<or> \<not> off_directory (mem s) (d_entry (mem s) c) a \<Longrightarrow> held s a"
proof -
  have "(unat c, 4096) \<in> kheap_live s" using assms(3) by (auto simp: chunk_regions_def)
  then obtain b where "unat c = 16777216 + 4096 * b" by (auto simp: kheap_live_iff)
  then show c: "page_base c = c" using block_aligned page_base_of_aligned by blast
  assume a: "page_base a = page_base c \<or> \<not> off_directory (mem s) (d_entry (mem s) c) a"
  then show live: "(unat (page_base a), 4096) \<in> kheap_live s" using chunk_region_page assms(3) c by auto
  show "held s a" by (rule live_page_held [OF assms(1) live]) simp_all
qed

lemma chunk_kept:
  assumes "wf_chunk m c" "\<And>a. page_base a = page_base c \<or> \<not> off_directory m (d_entry m c) a \<Longrightarrow> m' a = m a"
  shows "d_entry m' c = d_entry m c" "wf_chunk m' c"
    "\<And>i. unat i < 1024 \<Longrightarrow> table_of m' (d_entry m c) i = table_of m (d_entry m c) i"
    "chunk_regions m' c = chunk_regions m c"
proof -
  have c: "aligned4 c" and dir: "paging_is_aligned (d_entry m c)" using assms(1) by (simp_all add: wf_chunk_def wf_dir_def)
  have "m' (c + of_nat k) = m (c + of_nat k)" if "k < 4" for k
    using page_base_word [OF c that] by (intro assms(2)) simp
  then show d: "d_entry m' c = d_entry m c" unfolding d_entry_def by (rule load32_cong)
  have entry: "load32 m' (d_entry m c + 4 * i) = load32 m (d_entry m c + 4 * i)" if "unat i < 1024" for i
    using assms(2) by (intro load32_slot_cong [OF dir that]) (simp add: off_directory_def)
  then show tab: "table_of m' (d_entry m c) i = table_of m (d_entry m c) i" if "unat i < 1024" for i
    using that by (simp add: table_of_def)
  show "wf_chunk m' c" using assms(1) tab entry by (simp add: wf_chunk_def wf_dir_def d)
  have "table_of m' (d_entry m c) (of_nat i) = table_of m (d_entry m c) (of_nat i)" if "i \<in> {..<1024}" for i
    using that by (intro tab) (simp add: unat_of_nat32)
  then show "chunk_regions m' c = chunk_regions m c"
    unfolding chunk_regions_def d by (intro arg_cong2 [where f = "(\<union>)"] image_cong) simp_all
qed

lemma kzalloc_state: "snd (kzalloc sz s) = s\<lparr>mem := mem (snd (kzalloc sz s))\<rparr>"
  by (simp add: kzalloc_def kmalloc_def case_prod_unfold Let_def)

lemma kernel_page_mem:
  "mem (kernel_page s) = mem s" "kernel_heap (kernel_page s) = kernel_heap s"
  by (simp_all add: kernel_page_def kernel_registers_def paging_switch_def Let_def)

lemma kernel_page_eq:
  "kernel_page s = s\<lparr>data_segments := KERNEL_DATA_SELECTOR, cr3 := d_entry (mem s) (kernel_paging_chunk s),
     current_directory := d_entry (mem s) (kernel_paging_chunk s)\<rparr>"
  by (simp add: kernel_page_def kernel_registers_def paging_switch_def Let_def)

lemma kernel_page_set_mem:
  "load32 m (kernel_paging_chunk s) = load32 (mem s) (kernel_paging_chunk s) \<Longrightarrow>
     kernel_page (s\<lparr>mem := m\<rparr>) = (kernel_page s)\<lparr>mem := m\<rparr>"
  by (simp add: kernel_page_eq d_entry_def)

text \<open>The part behind the allocation of the buffer \<open>t\<close>: the string reaches the destination, and apart from the page of
  the buffer and the destination no byte changes.\<close>

lemma copy_string_through_run:
  assumes wf: "wf_chunk (mem s) c" and c: "c = task_page_directory (mem s) task"
    and t: "paging_is_aligned t" "off_directory (mem s) (d_entry (mem s) c) t" "page_base c \<noteq> t"
    and words: "\<And>a k. a = task \<or> a = kernel_paging_chunk s \<Longrightarrow> k < 4 \<Longrightarrow>
        page_base (a + of_nat k) \<noteq> t \<and> off_tables (mem s) c (a + of_nat k)"
    and n: "0 < n" "unat n < 4096"
    and reach: "\<And>i. i < unat n - 1 \<Longrightarrow> page_base (v + of_nat i) \<noteq> t"
      "\<And>i q. i < unat n - 1 \<Longrightarrow> mmu (d_entry (mem s) c) (mem s) (v + of_nat i) = Some q \<Longrightarrow>
         page_base q \<noteq> t \<and> off_tables (mem s) c q"
    and dst: "\<And>i. i < unat n \<Longrightarrow> page_base (physical + of_nat i) \<noteq> t"
  shows "copy_string_through task v physical n t s =
    (case user_text (mmu (d_entry (mem s) c) (mem s)) (mem s) v (unat n - 1) of
       None \<Rightarrow> None
     | Some cs \<Rightarrow> Some (Ret 0 ((kernel_page s)\<lparr>mem := put_cstr (\<lambda>a. if page_base a = t then put_cstr (mem s) t cs a else mem s a)
                                  physical cs\<rparr>)))"
proof -
  let ?m = "mem s" and ?dir = "d_entry (mem s) c"
  let ?m2 = "snd (paging_map c t t 7 ?m)"
  note b = borrow_page [OF wf t(1,2)]
  have flags: "PAGING_MASKS_IS_WRITABLE OR PAGING_MASKS_IS_PRESENT OR PAGING_MASKS_ACCESS_ALL = (7 :: u32)"
    by (simp add: paging_defs)
  have word: "load32 m' a = load32 ?m a" if "a = task \<or> a = kernel_paging_chunk s" "\<And>x. page_base x \<noteq> t \<Longrightarrow> m' x = ?m2 x" for a m'
    using words [OF that(1)] b(4) that(2) by (intro load32_cong) simp
  have c2: "task_page_directory ?m2 task = c" using word [of task ?m2] c by (simp add: task_page_directory_def)
  have in_t: "page_base (t + of_nat i) = t" if "i < unat n" for i using page_byte [OF t(1)] that n(2) by simp
  have t2: "unat t + unat n \<le> 4294967296" using page_region [OF t(1), of t] aligned_page [OF t(1)] n(2) by force
  let ?tr = "mmu ?dir ?m2"
  have same: "user_text ?tr ?m2 v (unat n - 1) = user_text (mmu ?dir ?m) ?m v (unat n - 1)"
    using reach by (intro user_text_cong) (simp_all add: b(3,4))
  have "mmu_strncpy_loop ?dir ?m2 t v n = map_option (put_cstr ?m2 t) (user_text ?tr ?m2 v (unat n - 1))"
  proof (rule mmu_strncpy_loop_run [where t = t and ?m0.0 = ?m2])
    fix m' x assume m': "\<And>a. page_base a \<noteq> t \<Longrightarrow> m' a = ?m2 a"
    show "mmu ?dir m' x = ?tr x" using m' b(5) by (intro mmu_cong [OF b(2)]) blast
  next
    fix i q assume "i < unat n - 1" "?tr (v + of_nat i) = Some q"
    then show "page_base q \<noteq> t" using reach [of i] b(3) [of "v + of_nat i"] by simp
  qed (use n(1) in_t b(3) in simp_all)
  then have strncpy1: "mmu_strncpy ?dir ?m2 t v n = map_option (put_cstr ?m2 t) (user_text (mmu ?dir ?m) ?m v (unat n - 1))"
    using n(1) same by (simp add: mmu_strncpy_def word_gt_0)
  show ?thesis
  proof (cases "user_text (mmu ?dir ?m) ?m v (unat n - 1)")
    case None
    then show ?thesis using strncpy1
      by (simp add: copy_string_through_def run_simps changes_def flags c [symmetric] paging_switch_def Let_def c2 b(1))
  next
    case (Some cs)
    let ?m3 = "put_cstr ?m2 t cs" and ?m4 = "\<lambda>a. if page_base a = t then put_cstr ?m t cs a else ?m a"
    have cs: "0 \<notin> set cs" "length cs < unat n" "length cs < 4294967296"
      using user_text_string [OF Some] n by (auto simp: word_less_nat_alt)
    have off_t: "page_base a \<noteq> t \<Longrightarrow> ?m3 a = ?m2 a" for a using in_t cs by (intro put_cstr_page) auto
    obtain m4 where m4: "paging_set ?dir t (paging_get ?dir t ?m) ?m3 = (0, m4)"
      "\<And>a. m4 a = (if page_base a = t then ?m3 a else ?m a)"
      using b(6) [of ?m3] off_t by blast
    have "put_cstr ?m2 t cs a = put_cstr ?m t cs a" if "page_base a = t" for a
      using b(5) [OF that] by (simp add: put_cstr_def Let_def)
    then have m4_eq: "m4 = ?m4" using m4(2) by auto
    have "cstr m4 t cs = cstr ?m3 t cs" using in_t cs m4(2) by (intro cstr_cong) simp
    then have "str_upto m4 t (unat n - 1) = cs" using cstr_put_cstr [OF cs(1,3)] str_upto_cstr cs(2) by simp
    moreover have "physical + of_nat i \<noteq> t + of_nat j" if "i < unat n" "j < unat n" for i j
      using dst [OF that(1)] in_t [OF that(2)] by auto
    ultimately have strncpy2: "strncpy m4 physical t n = put_cstr m4 physical cs"
      using strncpy_loop_eq [OF n(1), of physical t m4] n(1) by (simp add: strncpy_def word_gt_0)
    have k3: "d_entry ?m3 (kernel_paging_chunk s) = d_entry ?m (kernel_paging_chunk s)"
      using word [of "kernel_paging_chunk s" ?m3] off_t by (simp add: d_entry_def)
    show ?thesis using strncpy1 Some m4(1)
      by (simp add: copy_string_through_def run_simps changes_def flags c [symmetric] paging_switch_def Let_def c2 b(1)
          kernel_page_eq k3 strncpy2 m4_eq [symmetric])
  qed
qed

text \<open>The whole routine on a task whose memory is mapped as \<open>task_space\<close> says.\<close>

lemma copy_string_from_task_run:
  fixes s :: "'a tstate_scheme"
  assumes ok: "kheap_ok s" "0 < free_blocks s" and space: "task_space s task"
    and n: "0 < n" "unat n < 4096" and reach: "task_reach s task v (unat n - 1)"
    and dst: "\<forall>i < unat n. held s (physical + of_nat i)"
  defines "u \<equiv> user_text (mmu (d_entry (mem s) (task_page_directory (mem s) task)) (mem s)) (mem s) v (unat n - 1)"
  shows "case u of None \<Rightarrow> copy_string_from_task task v physical n s = None
    | Some cs \<Rightarrow> \<exists>m. copy_string_from_task task v physical n s = Some (Ret 0 ((kernel_page s)\<lparr>mem := m\<rparr>))
        \<and> kheap_ok (s\<lparr>mem := m\<rparr>) \<and> kheap_live (s\<lparr>mem := m\<rparr>) = kheap_live s \<and> free_blocks (s\<lparr>mem := m\<rparr>) = free_blocks s
        \<and> (\<forall>a. held s a \<longrightarrow> m a = put_cstr (mem s) physical cs a)"
proof -
  let ?c = "task_page_directory (mem s) task" and ?t = "fst (kzalloc n s)" and ?s = "snd (kzalloc n s)"
  let ?dir = "d_entry (mem s) ?c"
  have n': "unat n \<le> 4096" using n(2) by simp
  have g: "grows s ?s [?t]" by (rule grows_kzalloc [OF ok n(1) n'])
  have t: "paging_is_aligned ?t" "?t \<noteq> 0" "kheap_ok ?s" "kheap_live ?s = insert (unat ?t, 4096) (kheap_live s)"
    "(unat ?t, 4096) \<notin> kheap_live s" and free: "Suc (free_blocks ?s) = free_blocks s"
    using g by (auto simp: grows_def)
  have wf: "wf_chunk (mem s) ?c" and own: "chunk_regions (mem s) ?c \<subseteq> kheap_live s"
    and words: "kept_word s ?c task" "kept_word s ?c (kernel_paging_chunk s)"
    using space by (simp_all add: task_space_def Let_def)
  have same: "mem ?s a = mem s a" "page_base a \<noteq> ?t" if "held s a" for a
    using grows_held [OF g that] grows_new [OF g that] by simp_all
  note region = chunk_region_held [OF ok(1) wf own]
  note kept = chunk_kept [OF wf, of "mem ?s", OF same(1) [OF region(3)]]
  have off: "off_tables (mem ?s) ?c a = off_tables (mem s) ?c a" for a using kept by (simp add: off_tables_def)
  have dir: "off_directory (mem ?s) ?dir ?t"
  proof -
    have "off_directory (mem s) ?dir ?t" using same(2) [OF region(3), of ?t] page_base_of_aligned [OF t(1)] by blast
    then show ?thesis using kept by (simp add: off_directory_def)
  qed
  have wfd: "wf_dir (mem s) ?dir" using wf by (simp add: wf_chunk_def)
  have mmu: "mmu ?dir (mem ?s) x = mmu ?dir (mem s) x" for x
    using same(1) region(3) by (intro mmu_cong [OF wfd]) blast
  have word: "load32 (mem ?s) a = load32 (mem s) a" if "kept_word s ?c a" for a
    using that same(1) by (intro load32_cong) (simp add: kept_word_def)
  have c: "?c = task_page_directory (mem ?s) task" using word [OF words(1)] by (simp add: task_page_directory_def)
  have reach': "page_base (v + of_nat i) \<noteq> ?t" "mmu ?dir (mem s) (v + of_nat i) = Some q \<Longrightarrow> held s q \<and> off_tables (mem s) ?c q"
    if "i < unat n - 1" for i q using reach that same(2) by (auto simp: task_reach_def Let_def)
  have "copy_string_through task v physical n ?t ?s =
    (case user_text (mmu (d_entry (mem ?s) ?c) (mem ?s)) (mem ?s) v (unat n - 1) of
       None \<Rightarrow> None
     | Some cs \<Rightarrow> Some (Ret 0 ((kernel_page ?s)\<lparr>mem := put_cstr (\<lambda>a. if page_base a = ?t then put_cstr (mem ?s) ?t cs a else mem ?s a)
                                  physical cs\<rparr>)))"
  proof (rule copy_string_through_run [OF kept(2) c t(1) _ _ _ n])
    show "off_directory (mem ?s) (d_entry (mem ?s) ?c) ?t" using dir kept(1) by simp
    show "page_base ?c \<noteq> ?t" using same(2) [OF region(3) [OF disjI1 [OF refl]]] .
    fix a k assume "a = task \<or> a = kernel_paging_chunk ?s" "k < (4 :: nat)"
    then show "page_base (a + of_nat k) \<noteq> ?t \<and> off_tables (mem ?s) ?c (a + of_nat k)"
      using words same(2) unfolding kept_word_def off by (subst (asm) kzalloc_state) auto
  qed (use reach' same(2) dst in \<open>simp_all add: kept(1) mmu off\<close>)
  also have "user_text (mmu (d_entry (mem ?s) ?c) (mem ?s)) (mem ?s) v (unat n - 1) = u"
    unfolding u_def using reach' same(1) by (intro user_text_cong) (simp_all add: kept(1) mmu)
  finally have through: "copy_string_through task v physical n ?t ?s =
    (case u of None \<Rightarrow> None
     | Some cs \<Rightarrow> Some (Ret 0 ((kernel_page ?s)\<lparr>mem := put_cstr (\<lambda>a. if page_base a = ?t then put_cstr (mem ?s) ?t cs a else mem ?s a)
                                  physical cs\<rparr>)))" .
  have page: "\<not> PAGING_PAGE_SIZE \<le> n" using n(2) by (simp add: paging_defs word_le_nat_alt)
  show ?thesis
  proof (cases u)
    case None
    then show ?thesis using through t(2) page by (simp add: copy_string_from_task_def run_simps)
  next
    case (Some cs)
    let ?m4 = "\<lambda>a. if page_base a = ?t then put_cstr (mem ?s) ?t cs a else mem ?s a"
    let ?m5 = "put_cstr ?m4 physical cs"
    let ?s5 = "(kernel_page ?s)\<lparr>mem := ?m5\<rparr>" and ?k = "kernel_paging_chunk s"
    have len: "length cs < unat n" using user_text_string Some n(1) unfolding u_def by (force simp: word_less_nat_alt)
    have in_dst: "a = physical + of_nat (unat (a - physical)) \<and> unat (a - physical) < unat n" if "?m5 a \<noteq> ?m4 a" for a
      using that len by (auto simp: put_cstr_def Let_def split: if_splits)
    have res: "mem ?s5 a = mem ?s a" if r: "kheap_reserved a" for a
    proof -
      have "?m5 a = ?m4 a"
      proof (rule ccontr)
        assume "?m5 a \<noteq> ?m4 a"
        from in_dst [OF this] dst have "held s (physical + of_nat (unat (a - physical)))" by blast
        with in_dst [OF \<open>?m5 a \<noteq> ?m4 a\<close>] have "held s a" by simp
        then show False using held_public r by blast
      qed
      moreover have "page_base a \<noteq> ?t" using t live_page_public [of ?s ?t a] r by simp
      ultimately show ?thesis by simp
    qed
    have heap: "kernel_heap ?s5 = kernel_heap ?s" by (simp add: kernel_page_mem)
    note s5 = kheap_mem_cong [OF heap res]
    have live: "(unat ?t, 4096) \<in> kheap_live ?s5" using t(4) s5 by simp
    have ok5: "kheap_ok ?s5" using t(3) s5 by simp
    define m where "m = mem (kfree ?t ?s5)"
    have "kernel_page ?s = (kernel_page s)\<lparr>mem := mem ?s\<rparr>"
      using kernel_page_set_mem [OF word [OF words(2)]] unfolding kzalloc_state [symmetric] .
    then have fin: "kfree ?t ?s5 = (kernel_page s)\<lparr>mem := m\<rparr>" by (simp add: m_def kfree_def)
    have run: "copy_string_from_task task v physical n s = Some (Ret 0 ((kernel_page s)\<lparr>mem := m\<rparr>))"
      using through t(2) page Some by (simp add: copy_string_from_task_def run_simps fin)
    have "kernel_heap (s\<lparr>mem := m\<rparr>) = kernel_heap (kfree ?t ?s5)" unfolding fin by (simp add: kernel_page_mem)
    then have eq: "kheap_ok (s\<lparr>mem := m\<rparr>) = kheap_ok (kfree ?t ?s5)" "kheap_live (s\<lparr>mem := m\<rparr>) = kheap_live (kfree ?t ?s5)"
      "free_blocks (s\<lparr>mem := m\<rparr>) = free_blocks (kfree ?t ?s5)"
      by (rule kheap_mem_cong; simp add: m_def)+
    have "kheap_live (kfree ?t ?s5) = kheap_live s" using kh.release_live [OF ok5 live] s5(2) t(4,5) by auto
    moreover have "free_blocks (kfree ?t ?s5) = free_blocks s" using free_blocks_kfree [OF ok5 live] s5(3) free by simp
    moreover have "m a = put_cstr (mem s) physical cs a" if h: "held s a" for a
      using kh.release_frame [OF ok5 live held_public [OF h]] same [OF h] by (simp add: m_def put_cstr_def Let_def)
    ultimately have "kheap_ok (s\<lparr>mem := m\<rparr>) \<and> kheap_live (s\<lparr>mem := m\<rparr>) = kheap_live s
        \<and> free_blocks (s\<lparr>mem := m\<rparr>) = free_blocks s \<and> (\<forall>a. held s a \<longrightarrow> m a = put_cstr (mem s) physical cs a)"
      using eq kh.release_ok [OF ok5 live] by simp
    with run show ?thesis unfolding Some option.case by blast
  qed
qed

section \<open>\<^verbatim>\<open>isr_sys_print\<close>\<close>

text \<open>A string above the rows its own output can reach is shown character by character.\<close>

lemma terminal_write_cstr:
  assumes "cstr (mem s) (p + ctr) cs" "unat (terminal_y s) + 2 * length cs \<le> rows" "260 \<le> rows" "rows \<le> 100000"
    "\<And>i. i \<le> length cs \<Longrightarrow> \<not> screen_rows rows (p + ctr + of_nat i)"
  shows "terminal_write_loop p ctr s = Some (terminal_write_bytes cs s)"
  using assms
proof (induction cs arbitrary: ctr s)
  case Nil
  then show ?case by (simp add: terminal_write_loop.simps [of p ctr s] terminal_write_bytes_def)
next
  case (Cons c cs)
  let ?s = "terminal_puts c s"
  have y: "unat (terminal_y s) + 2 \<le> rows" using Cons.prems(2) by simp
  have shift: "p + (ctr + 1) + of_nat i = p + ctr + of_nat (Suc i)" for i by simp
  have range: "\<not> screen_rows rows (p + (ctr + 1) + of_nat i)" if "i \<le> length cs" for i
    unfolding shift using that by (intro Cons.prems(5)) simp
  have "cstr (mem ?s) (p + (ctr + 1)) cs = cstr (mem s) (p + (ctr + 1)) cs"
    using terminal_puts_rows [OF y Cons.prems(3,4) range] by (intro cstr_cong)
  then have "cstr (mem ?s) (p + (ctr + 1)) cs" using Cons.prems(1) by (simp add: add.assoc)
  moreover have "unat (terminal_y ?s) + 2 * length cs \<le> rows"
    using terminal_puts_row [of c s] Cons.prems(2) by simp
  ultimately have "terminal_write_loop p (ctr + 1) ?s = Some (terminal_write_bytes cs ?s)"
    using Cons.prems(3,4) range by (intro Cons.IH)
  then show ?case using Cons.prems(1)
    by (subst terminal_write_loop.simps) (simp add: terminal_write_bytes_def)
qed

lemma print_cstr:
  assumes "cstr (mem s) p cs" "unat (terminal_y s) + 2 * length cs \<le> rows" "260 \<le> rows" "rows \<le> 100000"
    "\<And>i. i \<le> length cs \<Longrightarrow> \<not> screen_rows rows (p + of_nat i)"
  shows "print p s = Some (terminal_write_bytes cs (s\<lparr>terminal_fg_color := TEXT_MODE_COLORS_WHITE, terminal_bg_color := TEXT_MODE_COLORS_BLACK\<rparr>))"
  unfolding print_def terminal_write_def
  by (rule terminal_write_cstr [where rows = rows]) (use assms in simp_all)

text \<open>A word on the task's stack; the kernel's own pages are loaded again afterwards.\<close>

lemma task_get_stack_item_run:
  "task_get_stack_item task idx s =
     (case mmu_read32 (d_entry (mem s) (task_page_directory (mem s) task)) (mem s)
             (load32 (mem s) (task_registers task + reg_esp) + 4 * idx) of
        None \<Rightarrow> None | Some v \<Rightarrow> Some (Ret v (kernel_page s)))"
  by (simp add: task_get_stack_item_def run_simps perhaps_def task_page_task_def user_registers_def paging_switch_def Let_def
      kernel_page_eq split: option.split)

section \<open>A machine for the examples\<close>

lemma user_text_cstr:
  "(\<And>x. tr x = Some x) \<Longrightarrow> cstr m v cs \<Longrightarrow> user_text tr m v n = Some (take n cs)"
proof (induction n arbitrary: v cs)
  case (Suc n)
  then show ?case by (cases cs) auto
qed simp

lemma mmu_read32_identity: "(\<And>x. mmu dir m x = Some x) \<Longrightarrow> mmu_read32 dir m a = Some (load32 m a)"
  by (simp add: mmu_read32_def mmu_read8_def load32_def)

lemma low_held: "0xE200 \<le> unat a \<Longrightarrow> unat a < 16777216 \<Longrightarrow> held s a"
  by (simp add: held_def kheap_reserved_iff)

lemma low_area: "0xE200 \<le> unat a \<Longrightarrow> unat a + n \<le> 16777216 \<Longrightarrow> \<forall>i < n. held s (a + of_nat i)"
proof (intro allI impI low_held)
  fix i assume a: "0xE200 \<le> unat a" "unat a + n \<le> 16777216" "i < n"
  then have "unat (a + of_nat i) = unat a + i" by (simp add: unat_word_ariths unat_of_nat32)
  then show "0xE200 \<le> unat (a + of_nat i)" "unat (a + of_nat i) < 16777216" using a by simp_all
qed

lemma low_reach:
  assumes "task_page_directory (mem s) task = chunk" "\<And>x. mmu (d_entry (mem s) chunk) (mem s) x = Some x"
    "\<And>a. unat a < 16777216 \<Longrightarrow> off_tables (mem s) chunk a" "0xE200 \<le> unat v" "unat v + n \<le> 16777216"
  shows "task_reach s task v n"
proof -
  have "held s (v + of_nat i) \<and> off_tables (mem s) chunk (v + of_nat i)" if "i < n" for i
  proof -
    have "unat (v + of_nat i) = unat v + i" using that assms(5) by (simp add: unat_word_ariths unat_of_nat32)
    then have "unat (v + of_nat i) < 16777216" using that assms(5) by simp
    then show ?thesis using low_area [OF assms(4,5)] assms(3) that by blast
  qed
  then show ?thesis using assms(1,2) by (simp add: task_reach_def Let_def)
qed

text \<open>A directory that maps every page to itself, made on a fresh heap; the current task at 0x20000, its stack at
  0x50000 with the pointer 0x60000 to the string Hi, the print buffer on the kernel stack, 4 KiB below its top at 0x600000.\<close>

definition printing_memory :: "u32 \<Rightarrow> memory \<Rightarrow> memory" where
  "printing_memory chunk m = store32 (store32 (store32 (m(0x60000 := 0x48, 0x60001 := 0x69, 0x60002 := 0))
     0x20000 chunk) 0x2002C 0x50000) 0x50000 0x60000"

definition printing_machine :: "u32 \<Rightarrow> memory \<Rightarrow> machine" where
  "printing_machine chunk m = ticking\<lparr>mem := printing_memory chunk m, kernel_heap := kernel_heap_layout, current_task := 0x20000,
     kernel_paging_chunk := 0x30000, kstack := 0x5FEC00, terminal_x := 0, terminal_y := 0\<rparr>"

lemma chunk_regions_sum: "(\<Sum>(p, k) \<in> chunk_regions m c. k) \<le> 4096 * 1026"
proof -
  have "(\<Sum>(p, k) \<in> chunk_regions m c. k) = (\<Sum>r \<in> chunk_regions m c. 4096)"
    by (rule sum.cong) (auto simp: chunk_regions_def)
  also have "\<dots> = 4096 * card (chunk_regions m c)" by simp
  also have "card (chunk_regions m c) \<le> 2 + 1024"
    unfolding chunk_regions_def
    by (rule order_trans [OF card_Un_le], rule add_mono)
      (auto intro: order_trans [OF card_image_le] card_insert_le_m1)
  finally show ?thesis by simp
qed

lemma printing_machine_ready:
  obtains chunk and s :: machine where
    "kheap_ok s" "0 < free_blocks s" "task_page_directory (mem s) 0x20000 = chunk" "task_space s 0x20000"
    "load32 (mem s) (task_registers 0x20000 + reg_esp) = 0x50000" "load32 (mem s) 0x50000 = 0x60000"
    "cstr (mem s) 0x60000 [0x48, 0x69]" "\<And>x. mmu (d_entry (mem s) chunk) (mem s) x = Some x"
    "\<And>a. unat a < 16777216 \<Longrightarrow> off_tables (mem s) chunk a"
    "current_task s = 0x20000" "print_buf s = 0x5FF000" "terminal_x s = 0" "terminal_y s = 0"
proof -
  obtain chunk and s0 :: vstate where s0: "kheap_ok s0" "wf_chunk (mem s0) chunk" "kheap_live s0 = chunk_regions (mem s0) chunk"
    "\<And>v. paging_is_aligned v \<Longrightarrow> paging_get (d_entry (mem s0) chunk) v (mem s0) = v OR 7"
    using fresh_vm_directory by metis
  let ?s = "printing_machine chunk (mem s0)"
  let ?m = "mem ?s"
  have m: "?m = printing_memory chunk (mem s0)" by (simp add: printing_machine_def)
  have kept: "?m a = mem s0 a" if "unat a < 0x20000 \<or> 16777216 \<le> unat a" for a
  proof -
    have "store32 m' c v a = m' a" if "0x20000 \<le> unat c" "unat c + 4 \<le> 16777216" for m' c v
    proof (rule store32_other)
      fix i :: nat assume "i < 4"
      then have "unat (c + of_nat i) = unat c + i" using that by (simp add: unat_word_ariths unat_of_nat32)
      then show "a \<noteq> c + of_nat i" using \<open>unat a < 0x20000 \<or> 16777216 \<le> unat a\<close> that \<open>i < 4\<close> by auto
    qed
    then show ?thesis using that unfolding m by (auto simp: printing_memory_def)
  qed
  have heap: "kernel_heap ?s = kernel_heap s0" using s0(1) by (simp add: printing_machine_def kheap_ok_def)
  have res: "?m a = mem s0 a" if "kheap_reserved a" for a using that by (intro kept) (simp add: kheap_reserved_iff)
  have cong: "kheap_ok ?s = kheap_ok s0" "kheap_live ?s = kheap_live s0" "free_blocks ?s = free_blocks s0"
    by (rule kheap_mem_cong [OF heap res]; assumption)+
  have high: "wf_chunk ?m chunk" "d_entry ?m chunk = d_entry (mem s0) chunk" "\<And>a. unat a < 16777216 \<Longrightarrow> off_tables ?m chunk a"
    "\<And>w. paging_is_aligned w \<Longrightarrow> paging_get (d_entry (mem s0) chunk) w ?m = paging_get (d_entry (mem s0) chunk) w (mem s0)"
    using high_tables [OF s0(2) heap_directory_high [OF s0(3)], of ?m] kept by blast+
  have tables: "chunk_regions ?m chunk = chunk_regions (mem s0) chunk"
  proof -
    have same: "?m a = mem s0 a" if "page_base a = page_base chunk \<or> \<not> off_directory (mem s0) (d_entry (mem s0) chunk) a" for a
    proof -
      have "16777216 \<le> unat (page_base a)"
        using chunk_region_held(2) [OF s0(1,2) _ that] s0(3) kheap_live_bounds by blast
      then show ?thesis using unat_page_base [of a] by (intro kept) (metis le_trans times_div_less_eq_dividend)
    qed
    then show ?thesis by (rule chunk_kept(4) [OF s0(2)])
  qed
  have "0 < free_blocks s0"
    using kheap_accounting [OF s0(1)] chunk_regions_sum [of "mem s0" chunk] unfolding s0(3) by linarith
  then have free: "0 < free_blocks ?s" by (simp only: cong)
  have fields: "task_page_directory ?m 0x20000 = chunk" "load32 ?m (task_registers 0x20000 + reg_esp) = 0x50000"
    "load32 ?m 0x50000 = 0x60000" "kernel_paging_chunk ?s = 0x30000"
    unfolding m by (simp_all add: printing_memory_def task_page_directory_def task_registers_def reg_esp_def mem_simps aligned4_def
        printing_machine_def)
  have str: "cstr ?m 0x60000 [0x48, 0x69]" unfolding m by (simp add: printing_memory_def store32_def)
  have mmu: "mmu (d_entry ?m chunk) ?m x = Some x" for x
  proof (rule mmu_mapped [of "page_base x"])
    show "paging_get (d_entry ?m chunk) (page_base x) ?m = page_base x OR 7"
      unfolding high(2) high(4) [OF page_base_aligned] by (rule s0(4)) simp
  qed simp_all
  have kept_words: "kept_word ?s chunk 0x20000" "kept_word ?s chunk 0x30000"
    unfolding kept_word_def by (intro allI impI conjI low_held high(3); simp add: unat_word_ariths unat_of_nat32)+
  have "task_space ?s 0x20000"
    using high(1) tables cong(2) s0(3) kept_words by (simp add: task_space_def fields Let_def)
  moreover have "kheap_ok ?s" using cong(1) s0(1) by (simp only:)
  moreover have "current_task ?s = 0x20000" "print_buf ?s = 0x5FF000" "terminal_x ?s = 0" "terminal_y ?s = 0"
    by (simp_all add: printing_machine_def print_buf_def)
  ultimately show thesis using free fields(1-3) str mmu high(3) by (intro that [of ?s chunk])
qed

text \<open>The same for the strings themselves.\<close>

lemma copy_string_from_task_ok:
  assumes "kheap_ok s" "0 < free_blocks s" "task_space s task" "0 < n" "unat n < 4096"
    "task_reach s task v (unat n - 1)" "\<forall>i < unat n. held s (physical + of_nat i)"
    "dir = d_entry (mem s) (task_page_directory (mem s) task)"
  shows "(user_text (mmu dir (mem s)) (mem s) v (unat n - 1) = None \<longrightarrow> copy_string_from_task task v physical n s = None)
    \<and> (\<forall>cs. user_text (mmu dir (mem s)) (mem s) v (unat n - 1) = Some cs \<longrightarrow>
        (\<exists>m. copy_string_from_task task v physical n s = Some (Ret 0 ((kernel_page s)\<lparr>mem := m\<rparr>))
          \<and> cstr m physical cs \<and> (\<forall>a. held s a \<and> \<not> in_region physical n a \<longrightarrow> m a = mem s a)
          \<and> kheap_ok (s\<lparr>mem := m\<rparr>) \<and> kheap_live (s\<lparr>mem := m\<rparr>) = kheap_live s
          \<and> free_blocks (s\<lparr>mem := m\<rparr>) = free_blocks s))"
proof (cases "user_text (mmu dir (mem s)) (mem s) v (unat n - 1)")
  case None
  then show ?thesis using copy_string_from_task_run [OF assms(1-7)] assms(8) by simp
next
  case (Some cs)
  obtain m where m: "copy_string_from_task task v physical n s = Some (Ret 0 ((kernel_page s)\<lparr>mem := m\<rparr>))"
    "kheap_ok (s\<lparr>mem := m\<rparr>)" "kheap_live (s\<lparr>mem := m\<rparr>) = kheap_live s" "free_blocks (s\<lparr>mem := m\<rparr>) = free_blocks s"
    "\<forall>a. held s a \<longrightarrow> m a = put_cstr (mem s) physical cs a"
    using copy_string_from_task_run [OF assms(1-7)] Some assms(8) by auto
  have cs: "0 \<notin> set cs" "length cs < unat n"
    using user_text_string [OF Some] assms(4) by (auto simp: word_less_nat_alt)
  have "cstr m physical cs = cstr (put_cstr (mem s) physical cs) physical cs"
    using m(5) assms(7) cs(2) by (intro cstr_cong) simp
  then have "cstr m physical cs" using cstr_put_cstr cs assms(5) by simp
  moreover have "m a = mem s a" if "held s a" "\<not> in_region physical n a" for a
    using m(5) that cs(2) by (simp add: put_cstr_def Let_def in_region_def word_less_nat_alt)
  ultimately show ?thesis using m(1-4) Some by auto
qed

section \<open>Properties\<close>

text \<open>C19. A string is copied out of a task through its page tables: \<^verbatim>\<open>copy_string_from_task\<close> with a size between 1
  and 4095 leaves at the destination the zero-terminated string the task sees at its virtual address, cut
  to the size; the kernel's pages are loaded again, the borrowed page-table entry and the heap are as
  before, and nothing else anyone relies on changes. When a page of the string is not present the
  kernel faults. This holds under four conditions. At least one heap block is free, for the page the string
  passes through. The task's directory and its page tables are well-formed live pages, and neither the task's
  pointer to them nor the kernel's lies in them or in a free block (\<open>task_space\<close>). Neither the string's virtual
  addresses nor the bytes behind them lie in a free heap block or in the block table, and those bytes are not
  in the task's directory or page tables (\<open>task_reach\<close>): otherwise the page borrowed for the copy could be the
  string's own. And the destination lies outside the free blocks and the block table.\<close>

theorem copy_string_from_task_correct:
  assumes "kheap_ok s" "0 < free_blocks s" "task_space s task" "0 < n" "unat n < 4096"
    "task_reach s task v (unat n - 1)" "\<forall>i < unat n. held s (physical + of_nat i)"
    "dir = d_entry (mem s) (task_page_directory (mem s) task)"
  shows "(user_text (mmu dir (mem s)) (mem s) v (unat n - 1) = None \<longrightarrow> copy_string_from_task task v physical n s = None)
    \<and> (\<forall>cs. user_text (mmu dir (mem s)) (mem s) v (unat n - 1) = Some cs \<longrightarrow>
        (\<exists>m. copy_string_from_task task v physical n s = Some (Ret 0 ((kernel_page s)\<lparr>mem := m\<rparr>))
          \<and> cstr m physical cs \<and> (\<forall>a. held s a \<and> \<not> in_region physical n a \<longrightarrow> m a = mem s a)
          \<and> kheap_ok (s\<lparr>mem := m\<rparr>) \<and> kheap_live (s\<lparr>mem := m\<rparr>) = kheap_live s
          \<and> free_blocks (s\<lparr>mem := m\<rparr>) = free_blocks s))"
  using assms by (rule copy_string_from_task_ok)

theorem copy_string_from_task_correct_witness:
  "\<exists>(s :: machine) m. copy_string_from_task 0x20000 0x60000 0x70000 2 s = Some (Ret 0 ((kernel_page s)\<lparr>mem := m\<rparr>)) \<and> cstr m 0x70000 [0x48]"
proof -
  obtain chunk and s :: machine where s: "kheap_ok s" "0 < free_blocks s" "task_page_directory (mem s) 0x20000 = chunk" "task_space s 0x20000"
    "cstr (mem s) 0x60000 [0x48, 0x69]" "\<And>x. mmu (d_entry (mem s) chunk) (mem s) x = Some x"
    "\<And>a. unat a < 16777216 \<Longrightarrow> off_tables (mem s) chunk a"
    by (rule printing_machine_ready) blast
  have n: "(0 :: u32) < 2" "unat (2 :: u32) < 4096" "unat (2 :: u32) = 2" by simp_all
  have "task_reach s 0x20000 0x60000 (unat (2 :: u32) - 1)"
    by (rule low_reach [OF s(3,6,7)]) (simp_all add: n)
  moreover have "\<forall>i < unat (2 :: u32). held s (0x70000 + of_nat i)" unfolding n by (rule low_area) simp_all
  moreover have "user_text (mmu (d_entry (mem s) chunk) (mem s)) (mem s) 0x60000 (unat (2 :: u32) - 1) = Some [0x48]"
    using user_text_cstr [OF s(6,5), of 1] by (simp add: n)
  ultimately obtain m where "copy_string_from_task 0x20000 0x60000 0x70000 2 s = Some (Ret 0 ((kernel_page s)\<lparr>mem := m\<rparr>))"
    "cstr m 0x70000 [0x48]"
    using copy_string_from_task_correct [OF s(1,2,4) n(1,2), of "0x60000" "0x70000"] s(3) by auto
  then show ?thesis by blast
qed

text \<open>C2. The print system call, from the task's pointer to the screen: \<^verbatim>\<open>isr_sys_print\<close> takes the pointer from the
  task's stack and shows the string the task sees there, at most 1023 characters, white on black from
  the cursor on. It returns 0 with the kernel's pages loaded; the heap is as before and only the print
  buffer and the screen change. The conditions on the task and its string are those of
  \<open>copy_string_from_task_correct\<close>: one free heap block, \<open>task_space\<close> and \<open>task_reach\<close>. The buffer, a local
  array on the kernel stack below 0x600000, lies outside the free heap blocks and the block table, and not in
  the rows of the text buffer the output can reach, two for each of 1023 characters from the cursor's row on:
  for a stack at 0x600000 that is any row below 31000.\<close>

theorem isr_sys_print_correct:
  assumes "kheap_ok s" "0 < free_blocks s" "task = current_task s" "task_space s task"
    "dir = d_entry (mem s) (task_page_directory (mem s) task)"
    "mmu_read32 dir (mem s) (load32 (mem s) (task_registers task + reg_esp)) = Some v"
    "task_reach s task v 1023" "user_text (mmu dir (mem s)) (mem s) v 1023 = Some cs"
    "rows = unat (terminal_y s) + 2046" "rows \<le> 80000"
    "\<forall>i < 1024. held s (print_buf s + of_nat i) \<and> \<not> screen_rows rows (print_buf s + of_nat i)"
  shows "\<exists>m. isr_sys_print s = Some (Ret 0 (terminal_write_bytes cs ((kernel_page s)\<lparr>mem := m,
        terminal_fg_color := TEXT_MODE_COLORS_WHITE, terminal_bg_color := TEXT_MODE_COLORS_BLACK\<rparr>)))
    \<and> (\<forall>a. held s a \<and> \<not> in_region (print_buf s) 1024 a \<longrightarrow> m a = mem s a)
    \<and> kheap_ok (s\<lparr>mem := m\<rparr>) \<and> kheap_live (s\<lparr>mem := m\<rparr>) = kheap_live s"
proof -
  let ?k = "kernel_page s"
  have k: "mem ?k = mem s" "current_task ?k = task" "print_buf ?k = print_buf s" "kernel_page ?k = ?k"
    "kernel_paging_chunk ?k = kernel_paging_chunk s" "kernel_heap ?k = kernel_heap s" "terminal_x ?k = terminal_x s" "terminal_y ?k = terminal_y s"
    using assms(3) by (simp_all add: kernel_page_eq print_buf_def)
  have h: "kheap_ok ?k = kheap_ok s" "kheap_live ?k = kheap_live s" "free_blocks ?k = free_blocks s"
    by (rule kheap_mem_cong; simp add: k)+
  have held: "held ?k a = held s a" for a by (simp add: held_def h)
  have sp: "task_space ?k task = task_space s task" "task_reach ?k task v 1023 = task_reach s task v 1023"
    by (simp_all add: task_space_def task_reach_def kept_word_def held h k)
  have item: "task_get_stack_item task 0 s = Some (Ret v ?k)" using assms(5,6) by (simp add: task_get_stack_item_run)
  have n: "0 < (1024 :: u32)" "unat (1024 :: u32) < 4096" "unat (1024 :: u32) - 1 = 1023" by simp_all
  obtain m where m: "copy_string_from_task task v (print_buf s) 1024 ?k = Some (Ret 0 (?k\<lparr>mem := m\<rparr>))"
    "cstr m (print_buf s) cs" "\<forall>a. held s a \<and> \<not> in_region (print_buf s) 1024 a \<longrightarrow> m a = mem s a"
    "kheap_ok (?k\<lparr>mem := m\<rparr>)" "kheap_live (?k\<lparr>mem := m\<rparr>) = kheap_live s"
    using copy_string_from_task_ok [of ?k task 1024 v "print_buf s", OF _ _ _ n(1,2) _ _ refl] assms(1,2,4,5,7,8,11)
    unfolding h held sp n(3) k by auto
  have cs: "length cs \<le> 1023" using user_text_string [OF assms(8)] by simp
  have eq: "kheap_ok (s\<lparr>mem := m\<rparr>) = kheap_ok (?k\<lparr>mem := m\<rparr>)" "kheap_live (s\<lparr>mem := m\<rparr>) = kheap_live (?k\<lparr>mem := m\<rparr>)"
    by (rule kheap_mem_cong; simp add: k)+
  have "print (print_buf s) (?k\<lparr>mem := m\<rparr>) = Some (terminal_write_bytes cs (?k\<lparr>mem := m,
        terminal_fg_color := TEXT_MODE_COLORS_WHITE, terminal_bg_color := TEXT_MODE_COLORS_BLACK\<rparr>))"
    using print_cstr [of "?k\<lparr>mem := m\<rparr>" "print_buf s" cs rows] m(2) assms(9-11) cs by (simp add: k)
  then have "isr_sys_print s = Some (Ret 0 (terminal_write_bytes cs (?k\<lparr>mem := m,
        terminal_fg_color := TEXT_MODE_COLORS_WHITE, terminal_bg_color := TEXT_MODE_COLORS_BLACK\<rparr>)))"
    using item m(1) assms(3) by (simp add: isr_sys_print_def run_simps changes_def k)
  then show ?thesis using m(3-5) eq by (intro exI [of _ m]) simp
qed

theorem isr_sys_print_correct_witness:
  "\<exists>(s :: machine) m. isr_sys_print s = Some (Ret 0 (terminal_write_bytes [0x48, 0x69] ((kernel_page s)\<lparr>mem := m,
        terminal_fg_color := TEXT_MODE_COLORS_WHITE, terminal_bg_color := TEXT_MODE_COLORS_BLACK\<rparr>)))"
proof -
  obtain chunk and s :: machine where s: "kheap_ok s" "0 < free_blocks s" "task_page_directory (mem s) 0x20000 = chunk" "task_space s 0x20000"
    "load32 (mem s) (task_registers 0x20000 + reg_esp) = 0x50000" "load32 (mem s) 0x50000 = 0x60000"
    "cstr (mem s) 0x60000 [0x48, 0x69]" "\<And>x. mmu (d_entry (mem s) chunk) (mem s) x = Some x"
    "\<And>a. unat a < 16777216 \<Longrightarrow> off_tables (mem s) chunk a"
    "current_task s = 0x20000" "print_buf s = 0x5FF000" "terminal_x s = 0" "terminal_y s = 0"
    by (rule printing_machine_ready) blast
  let ?dir = "d_entry (mem s) (task_page_directory (mem s) (current_task s))"
  have word: "mmu_read32 ?dir (mem s) (load32 (mem s) (task_registers (current_task s) + reg_esp)) = Some 0x60000"
    using mmu_read32_identity [OF s(8)] s(3,5,6,10) by simp
  have reach: "task_reach s (current_task s) 0x60000 1023"
    unfolding s(10) by (rule low_reach [OF s(3,8,9)]) simp_all
  have shown: "user_text (mmu ?dir (mem s)) (mem s) 0x60000 1023 = Some [0x48, 0x69]"
    using user_text_cstr [OF s(8,7), of 1023] s(3,10) by simp
  have rows: "unat (terminal_y s) + 2046 = 2046" using s(13) by simp
  have "\<not> screen_rows (unat (terminal_y s) + 2046) (print_buf s + of_nat i)" if "i < 1024" for i
  proof -
    have "unat (0x5FF000 + of_nat i :: u32) = 0x5FF000 + i" using that by (simp add: unat_word_ariths unat_of_nat32)
    then show ?thesis using that by (simp add: screen_rows_def s(11) rows)
  qed
  moreover have "\<forall>i < 1024. held s (print_buf s + of_nat i)" unfolding s(11) by (rule low_area) simp_all
  ultimately have buf: "\<forall>i < 1024. held s (print_buf s + of_nat i)
      \<and> \<not> screen_rows (unat (terminal_y s) + 2046) (print_buf s + of_nat i)" by blast
  have space: "task_space s (current_task s)" using s(4,10) by simp
  from isr_sys_print_correct [OF s(1,2) refl space refl word reach shown refl _ buf] show ?thesis using rows by auto
qed

end
