(* ===== verification/ProcessMemory.thy ===== *)
theory ProcessMemory
  imports TaskMemory
begin

text \<open>
  The memory a process requests: \<^verbatim>\<open>process_malloc\<close>, \<^verbatim>\<open>process_free\<close> and \<^verbatim>\<open>process_terminal_allocations\<close>. The table of
  1024 allocations is a list; \<open>process_ok\<close> says that every entry is a live region of the kernel heap of its
  own, apart from the process, its task and its page tables.
\<close>

section \<open>The table of allocations\<close>

definition allocations :: "memory \<Rightarrow> u32 \<Rightarrow> (u32 \<times> u32) list" where
  "allocations m p = map (\<lambda>i. (allocation_ptr m p i, allocation_size m p i)) [0..<1024]"

lemma length_allocations [simp]: "length (allocations m p) = 1024"
  by (simp add: allocations_def)

lemma nth_allocations: "i < 1024 \<Longrightarrow> allocations m p ! i = (allocation_ptr m p i, allocation_size m p i)"
  by (simp add: allocations_def)

text \<open>\<open>own\<close> holds the regions of the process: the process itself, its task and one region for each entry
  of the table, all different.\<close>

definition slot_ok :: "(nat \<times> nat) set \<Rightarrow> u32 \<Rightarrow> u32 \<Rightarrow> u32 \<times> u32 \<Rightarrow> bool" where
  "slot_ok own p t a \<longleftrightarrow> (if fst a = 0 then snd a = 0
     else (\<exists>k \<ge> unat (snd a). (unat (fst a), k) \<in> own) \<and> fst a \<noteq> p \<and> fst a \<noteq> t)"

definition owner_ok :: "(nat \<times> nat) set \<Rightarrow> u32 \<Rightarrow> u32 \<Rightarrow> (u32 \<times> u32) list \<Rightarrow> bool" where
  "owner_ok own p t as \<longleftrightarrow> (\<exists>k \<ge> 9364. (unat p, k) \<in> own) \<and> (\<exists>k \<ge> 64. (unat t, k) \<in> own) \<and> p \<noteq> t
     \<and> (\<forall>i < length as. slot_ok own p t (as ! i))
     \<and> (\<forall>i < length as. \<forall>j < length as. i \<noteq> j \<longrightarrow> fst (as ! i) \<noteq> 0 \<longrightarrow> fst (as ! i) \<noteq> fst (as ! j))"

definition process_ok :: "'a pstate_scheme \<Rightarrow> u32 \<Rightarrow> bool" where
  "process_ok s p \<longleftrightarrow> (let m = mem s; c = process_page_directory m p in
     kheap_ok s \<and> wf_chunk m c \<and> chunk_regions m c \<subseteq> kheap_live s
     \<and> owner_ok (kheap_live s - chunk_regions m c) p (process_task m p) (allocations m p))"

lemma slot_ok_simps:
  "slot_ok own p t (0, 0)"
  "slot_ok own p t a \<Longrightarrow> slot_ok (insert r own) p t a"
  "slot_ok own p t a \<Longrightarrow> fst a \<noteq> q \<Longrightarrow> slot_ok (own - {(unat q, n)}) p t a"
  by (auto simp: slot_ok_def word_unat_eq_iff split: if_splits)

lemma owner_alloc:
  assumes "owner_ok own p t as" "\<And>k. (unat q, k) \<notin> own" "unat z \<le> n" "q \<noteq> 0" "fst (as ! i) = 0"
  shows "owner_ok (insert (unat q, n) own) p t (as[i := (q, z)])"
proof -
  note o = assms(1) [unfolded owner_ok_def]
  have q: "q \<noteq> p" "q \<noteq> t" using o assms(2) by auto
  then have new: "slot_ok (insert (unat q, n) own) p t (q, z)" using assms(3,4) by (auto simp: slot_ok_def)
  have old: "fst (as ! j) \<noteq> q" if "j < length as" for j
    using o that assms(2,4) unfolding slot_ok_def by metis
  show ?thesis unfolding owner_ok_def length_list_update
  proof (intro conjI allI impI)
    show "\<exists>k \<ge> 9364. (unat p, k) \<in> insert (unat q, n) own" "\<exists>k \<ge> 64. (unat t, k) \<in> insert (unat q, n) own" "p \<noteq> t"
      using o by auto
    fix j assume j: "j < length as"
    show "slot_ok (insert (unat q, n) own) p t (as[i := (q, z)] ! j)"
      using o j new slot_ok_simps(2) by (cases "j = i") simp_all
    fix l assume "l < length as" "j \<noteq> l" "fst (as[i := (q, z)] ! j) \<noteq> 0"
    then show "fst (as[i := (q, z)] ! j) \<noteq> fst (as[i := (q, z)] ! l)"
      using j o old [of j] old [of l] by (cases "j = i"; cases "l = i") simp_all
  qed
qed

lemma owner_release:
  assumes "owner_ok own p t as" "i < length as" "fst (as ! i) \<noteq> 0"
  shows "owner_ok (own - {(unat (fst (as ! i)), n)}) p t (as[i := (0, 0)])"
proof -
  note o = assms(1) [unfolded owner_ok_def]
  have q: "fst (as ! i) \<noteq> p" "fst (as ! i) \<noteq> t" using o assms(2,3) unfolding slot_ok_def by metis+
  show ?thesis unfolding owner_ok_def length_list_update
  proof (intro conjI allI impI)
    show "\<exists>k \<ge> 9364. (unat p, k) \<in> own - {(unat (fst (as ! i)), n)}"
      "\<exists>k \<ge> 64. (unat t, k) \<in> own - {(unat (fst (as ! i)), n)}" "p \<noteq> t"
      using o q [THEN not_sym] unfolding word_unat_eq_iff by blast+
    fix j assume j: "j < length as"
    show "slot_ok (own - {(unat (fst (as ! i)), n)}) p t (as[i := (0, 0)] ! j)"
    proof (cases "j = i")
      case False
      then have "fst (as ! j) \<noteq> fst (as ! i)" using o j assms(2,3) by metis
      then show ?thesis using False o j by (simp add: slot_ok_simps(3))
    qed (use j in \<open>simp add: slot_ok_simps(1)\<close>)
    fix l assume "l < length as" "j \<noteq> l" "fst (as[i := (0, 0)] ! j) \<noteq> 0"
    then show "fst (as[i := (0, 0)] ! j) \<noteq> fst (as[i := (0, 0)] ! l)"
      using j o assms(3) by (cases "j = i"; cases "l = i") simp_all
  qed
qed

section \<open>Regions\<close>

lemma live_base: "(unat p, k) \<in> kheap_live s \<Longrightarrow> paging_is_aligned p \<and> p \<noteq> 0"
  using block_aligned [of p] by (auto simp: kheap_live_iff)

lemma live_same_base:
  assumes "kheap_ok s" "(unat p, k) \<in> kheap_live s" "(unat p, n) \<in> kheap_live s"
  shows "k = n"
  using kh.live_disjoint [OF assms, of "unat p"] kh.live_bounds [OF assms(1,2)] kh.live_bounds [OF assms(1,3)] by simp

text \<open>A byte of a live region that is not one of the directory's lies outside the directory.\<close>

lemma region_off_chunk:
  assumes "kheap_ok s" "wf_chunk (mem s) c" "chunk_regions (mem s) c \<subseteq> kheap_live s"
    "(q, k) \<in> kheap_live s - chunk_regions (mem s) c" "q \<le> unat a" "unat a < q + k"
  shows "off_tables (mem s) c a" "off_directory (mem s) (d_entry (mem s) c) a" "page_base a \<noteq> page_base c"
proof -
  have region: "(unat (page_base a), 4096) \<in> chunk_regions (mem s) c \<Longrightarrow> False"
    using kh.live_disjoint [OF assms(1), of q k "unat (page_base a)" 4096 "unat a"] assms(3-6) page_region [of "page_base a" a]
    by auto
  then show d: "off_directory (mem s) (d_entry (mem s) c) a" "page_base a \<noteq> page_base c"
    using chunk_region_page [of a c "mem s"] chunk_region_held(1) [OF assms(1-3)] by auto
  then show "off_tables (mem s) c a" by (simp add: off_tables_def off_directory_def)
qed

section \<open>Writing an entry of the table\<close>

definition set_allocation :: "u32 \<Rightarrow> nat \<Rightarrow> u32 \<Rightarrow> u32 \<Rightarrow> memory \<Rightarrow> memory" where
  "set_allocation p i q z m = store32 (store32 m (allocation_at p i) q) (allocation_at p i + 4) z"

lemma process_word:
  assumes "aligned4 p" "unat p + 9364 \<le> 4294967296" "a + 4 \<le> 9364" "b + 4 \<le> 9364" "a mod 4 = 0" "b mod 4 = 0"
  shows "load32 (store32 m (p + of_nat a) v) (p + of_nat b) = (if a = b then v else load32 m (p + of_nat b))"
proof -
  have u: "unat (p + of_nat x) = unat p + x" if "x < 9364" for x
    using that assms(2) by (simp add: unat_word_ariths unat_of_nat32)
  have "aligned4 (p + of_nat a)" "aligned4 (p + of_nat b)"
    using u [of a] u [of b] assms by (simp_all add: aligned4_def mod_add_eq [symmetric])
  moreover have "p + of_nat a = p + of_nat b \<longleftrightarrow> a = b" using u [of a] u [of b] assms(3,4) by (auto simp: word_unat_eq_iff)
  ultimately show ?thesis using load32_store32_other load32_store32_same by metis
qed

lemma allocation_at_offset: "allocation_at p i = p + of_nat (116 + 8 * i)" "allocation_at p i + 4 = p + of_nat (120 + 8 * i)"
  by (simp_all add: allocation_at_def)

lemma set_allocation_table:
  assumes "aligned4 p" "unat p + 9364 \<le> 4294967296" "i < 1024"
  shows "allocations (set_allocation p i q z m) p = (allocations m p)[i := (q, z)]"
    and "process_task (set_allocation p i q z m) p = process_task m p"
    and "\<not> in_region (p + 116) 8192 a \<Longrightarrow> set_allocation p i q z m a = m a"
proof -
  note w = process_word [OF assms(1,2)]
  have ar: "(116 + 8 * x) mod 4 = 0" "(120 + 8 * x) mod 4 = 0" "116 + 8 * x \<noteq> 120 + 8 * y" "120 + 8 * x \<noteq> 116 + 8 * y"
    "120 + 8 * x \<noteq> 112" for x y :: nat by presburger+
  have f: "allocation_ptr (set_allocation p i q z m) p j = (if i = j then q else allocation_ptr m p j)"
    "allocation_size (set_allocation p i q z m) p j = (if i = j then z else allocation_size m p j)" if "j < 1024" for j
    using that assms(3) w [of "116 + 8 * i" "116 + 8 * j"] w [of "120 + 8 * i" "116 + 8 * j"]
      w [of "116 + 8 * i" "120 + 8 * j"] w [of "120 + 8 * i" "120 + 8 * j"]
    unfolding set_allocation_def allocation_ptr_def allocation_size_def allocation_at_offset(2)
    unfolding allocation_at_offset(1) by (simp_all add: ar)
  show "allocations (set_allocation p i q z m) p = (allocations m p)[i := (q, z)]"
    by (rule nth_equalityI) (auto simp: nth_allocations f nth_list_update)
  show "process_task (set_allocation p i q z m) p = process_task m p"
    using assms(3) w [of "116 + 8 * i" 112] w [of "120 + 8 * i" 112]
    unfolding set_allocation_def process_task_def allocation_at_offset(2) unfolding allocation_at_offset(1) by (simp add: ar)
  assume a: "\<not> in_region (p + 116) 8192 a"
  have "store32 m' (p + of_nat b) v a = m' a" if "116 \<le> b" "b + 4 \<le> 8308" for m' b v
  proof (rule store32_other)
    fix k :: nat assume "k < 4"
    then have "in_region (p + 116) 8192 (p + 116 + of_nat (b - 116 + k))" using that by (intro in_region_offset) simp
    moreover have "(of_nat b :: u32) = 116 + of_nat (b - 116)" using that(1) by (metis of_nat_add of_nat_numeral le_add_diff_inverse)
    ultimately show "a \<noteq> p + of_nat b + of_nat k" using a by (auto simp: add.assoc)
  qed
  then show "set_allocation p i q z m a = m a" using assms(3) unfolding set_allocation_def allocation_at_offset(2)
    unfolding allocation_at_offset(1) by (simp del: of_nat_add)
qed

lemma table_in_process: "unat p + 9364 \<le> 4294967296 \<Longrightarrow> in_region (p + 116) 8192 a \<Longrightarrow> in_region p 9364 a"
proof -
  assume p: "unat p + 9364 \<le> 4294967296" and a: "in_region (p + 116) 8192 a"
  have "unat (p + 116) = unat p + 116" using p by (simp add: unat_word_ariths)
  then show ?thesis using a p in_region_interval [of "p + 116" 8192 a] in_region_interval [of p 9364 a] by simp
qed

text \<open>The fields of a process whose bytes are as before.\<close>

lemma process_fields_cong:
  assumes "unat p + 9364 \<le> 4294967296" "\<And>a. in_region p 9364 a \<Longrightarrow> m' a = m a"
  shows "allocations m' p = allocations m p" "process_task m' p = process_task m p"
proof -
  have w: "load32 m' (p + of_nat b) = load32 m (p + of_nat b)" if "b + 4 \<le> 9364" for b
  proof (rule load32_cong)
    fix k :: nat assume "k < 4"
    then have "in_region p 9364 (p + of_nat (b + k))" using that by (intro in_region_offset) simp
    then show "m' (p + of_nat b + of_nat k) = m (p + of_nat b + of_nat k)" using assms(2) by (simp add: add.assoc)
  qed
  show "allocations m' p = allocations m p"
    unfolding allocations_def allocation_ptr_def allocation_size_def allocation_at_offset(2)
    unfolding allocation_at_offset(1) by (intro map_cong refl) (simp add: w del: of_nat_add)
  show "process_task m' p = process_task m p" using w [of 112] by (simp add: process_task_def)
qed

section \<open>What the invariant gives\<close>

lemma process_okD:
  assumes "process_ok s p"
  defines "c \<equiv> process_page_directory (mem s) p"
  shows "kheap_ok s" "wf_chunk (mem s) c" "chunk_regions (mem s) c \<subseteq> kheap_live s" "paging_is_aligned p" "aligned4 p"
    "unat p + 9364 \<le> 4294967296" "p \<noteq> process_task (mem s) p"
    "\<exists>k \<ge> 9364. (unat p, k) \<in> kheap_live s - chunk_regions (mem s) c"
    "\<exists>k \<ge> 64. (unat (process_task (mem s) p), k) \<in> kheap_live s - chunk_regions (mem s) c"
proof -
  show ok: "kheap_ok s" "wf_chunk (mem s) c" "chunk_regions (mem s) c \<subseteq> kheap_live s" "p \<noteq> process_task (mem s) p"
    and k: "\<exists>k \<ge> 9364. (unat p, k) \<in> kheap_live s - chunk_regions (mem s) c"
    "\<exists>k \<ge> 64. (unat (process_task (mem s) p), k) \<in> kheap_live s - chunk_regions (mem s) c"
    using assms by (simp_all add: process_ok_def owner_ok_def Let_def)
  then obtain k where "9364 \<le> k" "(unat p, k) \<in> kheap_live s" by blast
  then show "unat p + 9364 \<le> 4294967296" "paging_is_aligned p" using kh.live_bounds [OF ok(1)] live_base by fastforce+
  then show "aligned4 p" using slot_aligned4 [of p 0] by simp
qed

lemma process_okI:
  assumes "kheap_ok s" "wf_chunk (mem s) c" "process_page_directory (mem s) p = c" "chunk_regions (mem s) c = R" "R \<subseteq> kheap_live s"
    "owner_ok (kheap_live s - R) p (process_task (mem s) p) (allocations (mem s) p)"
  shows "process_ok s p"
  using assms by (simp add: process_ok_def Let_def)

lemma process_owner:
  "process_ok s p \<Longrightarrow> owner_ok (kheap_live s - chunk_regions (mem s) (process_page_directory (mem s) p)) p
     (process_task (mem s) p) (allocations (mem s) p)"
  by (simp add: process_ok_def Let_def)

section \<open>Changes that keep the process\<close>

lemma process_directory_cong:
  assumes "process_task m' p = process_task m p" "\<And>k. k < 4 \<Longrightarrow> m' (process_task m p + of_nat k) = m (process_task m p + of_nat k)"
  shows "process_page_directory m' p = process_page_directory m p"
  using load32_cong [of m' "process_task m p" m, OF assms(2)] assms(1) by (simp add: process_page_directory_def task_page_directory_def)

text \<open>The bytes of the process and of its task lie in regions of its own.\<close>

lemma process_bytes:
  assumes "process_ok s p"
  shows "in_region p 9364 a \<Longrightarrow> \<exists>k. (unat p, k) \<in> kheap_live s - chunk_regions (mem s) (process_page_directory (mem s) p)
      \<and> unat p \<le> unat a \<and> unat a < unat p + k"
    and "i < 64 \<Longrightarrow> \<exists>k. (unat (process_task (mem s) p), k) \<in> kheap_live s - chunk_regions (mem s) (process_page_directory (mem s) p)
      \<and> unat (process_task (mem s) p) \<le> unat (process_task (mem s) p + of_nat i)
      \<and> unat (process_task (mem s) p + of_nat i) < unat (process_task (mem s) p) + k"
proof -
  note ok = process_okD [OF assms]
  assume "in_region p 9364 a"
  then have "unat p \<le> unat a" "unat a < unat p + 9364" using in_region_interval [of p 9364 a] ok(6) by simp_all
  then show "\<exists>k. (unat p, k) \<in> kheap_live s - chunk_regions (mem s) (process_page_directory (mem s) p)
      \<and> unat p \<le> unat a \<and> unat a < unat p + k" using ok(8) by (meson add_left_mono less_le_trans)
next
  note ok = process_okD [OF assms]
  let ?t = "process_task (mem s) p"
  assume i: "i < 64"
  obtain k where k: "64 \<le> k" "(unat ?t, k) \<in> kheap_live s - chunk_regions (mem s) (process_page_directory (mem s) p)"
    using ok(9) by blast
  then have "unat ?t + 64 \<le> 4294967296" using kh.live_bounds [OF ok(1), of "unat ?t" k] by simp
  then have "unat (?t + of_nat i) = unat ?t + i" using i by (simp add: unat_word_ariths unat_of_nat32)
  then show "\<exists>k. (unat ?t, k) \<in> kheap_live s - chunk_regions (mem s) (process_page_directory (mem s) p)
      \<and> unat ?t \<le> unat (?t + of_nat i) \<and> unat (?t + of_nat i) < unat ?t + k" using k i by (intro exI [of _ k]) simp
qed

text \<open>A memory that keeps the bytes of the regions of the process.\<close>

lemma process_fields_kept:
  assumes "process_ok s p" "\<And>q k a. (q, k) \<in> kheap_live s - chunk_regions (mem s) (process_page_directory (mem s) p) \<Longrightarrow>
      q \<le> unat a \<Longrightarrow> unat a < q + k \<Longrightarrow> m' a = mem s a"
  shows "allocations m' p = allocations (mem s) p" "process_task m' p = process_task (mem s) p"
    "process_page_directory m' p = process_page_directory (mem s) p"
proof -
  have "m' a = mem s a" if "in_region p 9364 a" for a using process_bytes(1) [OF assms(1) that] assms(2) by blast
  note f = process_fields_cong [OF process_okD(6) [OF assms(1)], of m' "mem s", OF this]
  show "allocations m' p = allocations (mem s) p" by (rule f(1))
  show t: "process_task m' p = process_task (mem s) p" by (rule f(2))
  show "process_page_directory m' p = process_page_directory (mem s) p"
  proof (rule process_directory_cong [OF t])
    fix k :: nat assume "k < 4"
    then show "m' (process_task (mem s) p + of_nat k) = mem s (process_task (mem s) p + of_nat k)"
      using process_bytes(2) [OF assms(1), of k] assms(2) by auto
  qed
qed

lemma process_live_kept:
  assumes "process_ok s p" "\<And>q k a. (q, k) \<in> kheap_live s \<Longrightarrow> q \<le> unat a \<Longrightarrow> unat a < q + k \<Longrightarrow> m' a = mem s a"
  defines "c \<equiv> process_page_directory (mem s) p"
  shows "allocations m' p = allocations (mem s) p" "process_task m' p = process_task (mem s) p" "process_page_directory m' p = c"
    "wf_chunk m' c" "d_entry m' c = d_entry (mem s) c" "chunk_regions m' c = chunk_regions (mem s) c"
    "paging_is_aligned w \<Longrightarrow> paging_get (d_entry (mem s) c) w m' = paging_get (d_entry (mem s) c) w (mem s)"
    "off_tables m' c x = off_tables (mem s) c x"
proof -
  note ok = process_okD [OF assms(1), folded c_def]
  show "allocations m' p = allocations (mem s) p" "process_task m' p = process_task (mem s) p" "process_page_directory m' p = c"
    unfolding c_def by (rule process_fields_kept [OF assms(1)]; use assms(2) in blast)+
  have page: "m' a = mem s a" if "page_base a = page_base c \<or> \<not> off_directory (mem s) (d_entry (mem s) c) a" for a
    using assms(2) [OF chunk_region_held(2) [OF ok(1-3) that]] page_region [of "page_base a" a] by auto
  note k = chunk_kept [OF ok(2), of m', OF page]
  show "wf_chunk m' c" "d_entry m' c = d_entry (mem s) c" "chunk_regions m' c = chunk_regions (mem s) c"
    by (rule k; assumption)+
  show "off_tables m' c x = off_tables (mem s) c x" using k(1,3) page by (simp add: off_tables_def)
  have "wf_dir (mem s) (d_entry (mem s) c)" using ok(2) by (simp add: wf_chunk_def)
  then show "paging_is_aligned w \<Longrightarrow> paging_get (d_entry (mem s) c) w m' = paging_get (d_entry (mem s) c) w (mem s)"
    using page by (intro paging_get_cong) blast+
qed

section \<open>The three changes\<close>

text \<open>Entries of the page tables, an entry of the table of allocations, and the regions of the heap.\<close>

lemma owner_mono:
  assumes "owner_ok own p t as" "own \<subseteq> own'"
  shows "owner_ok own' p t as"
proof -
  note o = assms(1) [unfolded owner_ok_def]
  have "slot_ok own p t a \<Longrightarrow> slot_ok own' p t a" for a
    using assms(2) unfolding slot_ok_def by (cases "fst a = 0") auto
  then show ?thesis using o assms(2) unfolding owner_ok_def by blast
qed

lemma process_map_step:
  assumes "process_ok s p" "tables_written (process_page_directory (mem s) p) (mem s) m'"
  defines "c \<equiv> process_page_directory (mem s) p" and "s' \<equiv> s\<lparr>mem := m'\<rparr>"
  shows "process_ok s' p" "kheap_live s' = kheap_live s" "allocations m' p = allocations (mem s) p"
    "process_page_directory m' p = c" "process_task m' p = process_task (mem s) p" "d_entry m' c = d_entry (mem s) c"
    "chunk_regions m' c = chunk_regions (mem s) c"
    "\<And>a. off_tables (mem s) c a \<Longrightarrow> m' a = mem s a"
proof -
  note ok = process_okD [OF assms(1), folded c_def] and w = assms(2) [folded c_def, unfolded tables_written_def]
  show off: "m' a = mem s a" if "off_tables (mem s) c a" for a using w that by blast
  have reserved: "m' a = mem s a" if "kheap_reserved a" for a
  proof (rule off, unfold off_tables_def, intro allI impI notI)
    fix i assume i: "unat i < 1024" "table_of (mem s) (d_entry (mem s) c) i = page_base a"
    then have "page_base a = page_base c \<or> \<not> off_directory (mem s) (d_entry (mem s) c) a" by (auto simp: off_directory_def)
    then show False using chunk_region_held(2) [OF ok(1-3)] live_page_public [OF ok(1) _ _ that] by force
  qed
  note h = kheap_mem_cong [of s' s, unfolded s'_def, simplified, OF reserved]
  show live: "kheap_live s' = kheap_live s" using h(2) by (simp add: s'_def)
  note f = process_fields_kept [OF assms(1), of m', folded c_def]
  have kept: "m' a = mem s a" if "(q, k) \<in> kheap_live s - chunk_regions (mem s) c" "q \<le> unat a" "unat a < q + k" for q k a
    by (rule off [OF region_off_chunk(1) [OF ok(1-3) that]])
  show al: "allocations m' p = allocations (mem s) p" and pd: "process_page_directory m' p = c"
    and pt: "process_task m' p = process_task (mem s) p"
    by (rule f; use kept in blast)+
  show d: "d_entry m' c = d_entry (mem s) c" using w by simp
  have "table_of m' (d_entry (mem s) c) (of_nat i) = table_of (mem s) (d_entry (mem s) c) (of_nat i)" if "i \<in> {..<1024}" for i
    using w that by (simp add: unat_of_nat32)
  then show R: "chunk_regions m' c = chunk_regions (mem s) c"
    unfolding chunk_regions_def d by (intro arg_cong2 [where f = "(\<union>)"] image_cong) simp_all
  show "process_ok s' p"
    by (rule process_okI [where c = c and R = "chunk_regions (mem s) c"])
      (use h(1) ok w live al pd pt R process_owner [OF assms(1)] in \<open>simp_all add: s'_def c_def\<close>)
qed

lemma process_entry_step:
  assumes "process_ok s p" "i < 1024"
    "owner_ok (kheap_live s - chunk_regions (mem s) (process_page_directory (mem s) p)) p (process_task (mem s) p)
       ((allocations (mem s) p)[i := (q, z)])"
  defines "c \<equiv> process_page_directory (mem s) p" and "s' \<equiv> s\<lparr>mem := set_allocation p i q z (mem s)\<rparr>"
  shows "process_ok s' p" "kheap_live s' = kheap_live s" "allocations (mem s') p = (allocations (mem s) p)[i := (q, z)]"
    "process_page_directory (mem s') p = c" "process_task (mem s') p = process_task (mem s) p"
    "d_entry (mem s') c = d_entry (mem s) c" "chunk_regions (mem s') c = chunk_regions (mem s) c"
    "paging_is_aligned w \<Longrightarrow> paging_get (d_entry (mem s) c) w (mem s') = paging_get (d_entry (mem s) c) w (mem s)"
    "\<not> in_region (p + 116) 8192 a \<Longrightarrow> mem s' a = mem s a"
    "off_tables (mem s') c x = off_tables (mem s) c x"
proof -
  note ok = process_okD [OF assms(1), folded c_def]
  note set = set_allocation_table [OF ok(5,6) assms(2), where q = q and z = z and m = "mem s"]
  note b = process_bytes(1) [OF assms(1), folded c_def] 
  show "mem s' a = mem s a" if "\<not> in_region (p + 116) 8192 a" for a using set(3) [OF that] by (simp add: s'_def)
  then have frame: "mem s' a = mem s a" if "\<not> in_region p 9364 a" for a using that table_in_process [OF ok(6)] by blast
  show al: "allocations (mem s') p = (allocations (mem s) p)[i := (q, z)]" and pt: "process_task (mem s') p = process_task (mem s) p"
    using set(1,2) by (simp_all add: s'_def)
  have "kheap_reserved a \<Longrightarrow> mem s' a = mem s a" for a using frame b kh.live_public [OF ok(1)] by blast
  note h = kheap_mem_cong [of s' s, OF _ this]
  show live: "kheap_live s' = kheap_live s" using h(2) by (simp add: s'_def)
  have page: "mem s' a = mem s a" if "page_base a = page_base c \<or> \<not> off_directory (mem s) (d_entry (mem s) c) a" for a
    using b region_off_chunk(2,3) [OF ok(1-3)] that frame by blast
  note k = chunk_kept [OF ok(2), where m' = "mem s'", OF page]
  show d: "d_entry (mem s') c = d_entry (mem s) c" and R: "chunk_regions (mem s') c = chunk_regions (mem s) c"
    by (rule k; assumption)+
  show "off_tables (mem s') c x = off_tables (mem s) c x" using k(1,3) page by (simp add: off_tables_def)
  have "wf_dir (mem s) (d_entry (mem s) c)" using ok(2) by (simp add: wf_chunk_def)
  then show "paging_is_aligned w \<Longrightarrow> paging_get (d_entry (mem s) c) w (mem s') = paging_get (d_entry (mem s) c) w (mem s)"
    using page by (intro paging_get_cong) blast+
  show pd: "process_page_directory (mem s') p = c" unfolding c_def
  proof (rule process_directory_cong [OF pt])
    fix k :: nat assume "k < 4"
    then obtain n where n: "(unat (process_task (mem s) p), n) \<in> kheap_live s" "unat (process_task (mem s) p) \<le> unat (process_task (mem s) p + of_nat k)"
      "unat (process_task (mem s) p + of_nat k) < unat (process_task (mem s) p) + n"
      using process_bytes(2) [OF assms(1), of k] by auto
    have "\<not> in_region p 9364 (process_task (mem s) p + of_nat k)"
    proof
      assume "in_region p 9364 (process_task (mem s) p + of_nat k)"
      from b [OF this] obtain n' where "(unat p, n') \<in> kheap_live s" "unat p \<le> unat (process_task (mem s) p + of_nat k)"
        "unat (process_task (mem s) p + of_nat k) < unat p + n'" by blast
      with kh.live_disjoint [OF ok(1) n(1) this(1) n(2,3)] ok(7) show False by (simp add: word_unat_eq_iff)
    qed
    then show "mem s' (process_task (mem s) p + of_nat k) = mem s (process_task (mem s) p + of_nat k)" by (rule frame)
  qed
  show "process_ok s' p"
    by (rule process_okI [where c = c and R = "chunk_regions (mem s) c"])
      (use h(1) ok k(2) page live al pd pt R assms(3) in \<open>simp_all add: s'_def c_def\<close>)
qed

text \<open>Any other change of memory inside the regions of the process: the fields before the end of the table and the
  directory of the task keep their bytes.\<close>

lemma process_ok_change:
  assumes "process_ok s p"
    and own: "\<And>a. m' a \<noteq> mem s a \<Longrightarrow> \<exists>q l. (q, l) \<in> kheap_live s - chunk_regions (mem s) (process_page_directory (mem s) p) \<and> q \<le> unat a \<and> unat a < q + l"
    and p_bytes: "\<And>i. i < 8308 \<Longrightarrow> m' (p + of_nat i) = mem s (p + of_nat i)"
    and t_bytes: "\<And>i. i < 4 \<Longrightarrow> m' (process_task (mem s) p + of_nat i) = mem s (process_task (mem s) p + of_nat i)"
  defines "c \<equiv> process_page_directory (mem s) p" and "s' \<equiv> s\<lparr>mem := m'\<rparr>"
  shows "process_ok s' p" "kheap_live s' = kheap_live s" "allocations m' p = allocations (mem s) p"
    "process_page_directory m' p = c" "process_task m' p = process_task (mem s) p" "chunk_regions m' c = chunk_regions (mem s) c"
    "d_entry m' c = d_entry (mem s) c"
    "paging_is_aligned w \<Longrightarrow> paging_get (d_entry (mem s) c) w m' = paging_get (d_entry (mem s) c) w (mem s)"
proof -
  note ok = process_okD [OF assms(1), folded c_def]
  have word: "load32 m' (p + of_nat b) = load32 (mem s) (p + of_nat b)" if "b + 4 \<le> 8308" for b
    using p_bytes [of "b + j" for j] that by (intro load32_cong) (simp add: add.assoc)
  show pt: "process_task m' p = process_task (mem s) p" using word [of 112] by (simp add: process_task_def)
  show al: "allocations m' p = allocations (mem s) p"
    unfolding allocations_def allocation_ptr_def allocation_size_def allocation_at_offset(2)
    unfolding allocation_at_offset(1) by (intro map_cong refl) (simp add: word del: of_nat_add)
  show pd: "process_page_directory m' p = c"
    unfolding c_def by (rule process_directory_cong [OF pt t_bytes])
  have page: "m' a = mem s a" if "page_base a = page_base c \<or> \<not> off_directory (mem s) (d_entry (mem s) c) a" for a
    using own [of a, folded c_def] region_off_chunk(2,3) [OF ok(1-3)] that by blast
  have kept: "wf_chunk m' c" "chunk_regions m' c = chunk_regions (mem s) c" "d_entry m' c = d_entry (mem s) c" by (rule chunk_kept [OF ok(2) page]; assumption)+
  show "chunk_regions m' c = chunk_regions (mem s) c" "d_entry m' c = d_entry (mem s) c" by (rule kept)+
  have "wf_dir (mem s) (d_entry (mem s) c)" using ok(2) by (simp add: wf_chunk_def)
  then show "paging_is_aligned w \<Longrightarrow> paging_get (d_entry (mem s) c) w m' = paging_get (d_entry (mem s) c) w (mem s)"
    using page by (intro paging_get_cong) blast+
  have heap: "kernel_heap s' = kernel_heap s" by (simp add: s'_def)
  have "mem s' a = mem s a" if "kheap_reserved a" for a
    using own [of a] kh.live_public [OF ok(1)] that unfolding s'_def by auto
  note h = kheap_mem_cong [OF heap this]
  show "kheap_live s' = kheap_live s" by (rule h(2); assumption)
  show "process_ok s' p"
    by (rule process_okI [where c = c and R = "chunk_regions (mem s) c"])
      (use h ok kept al pd pt process_owner [OF assms(1)] in \<open>simp_all add: s'_def c_def\<close>)
qed

section \<open>The search of the table\<close>

lemma find_first: "i < n \<Longrightarrow> P i \<Longrightarrow> (\<And>j. j < i \<Longrightarrow> \<not> P j) \<Longrightarrow> List.find P [0..<n] = Some i"
  by (auto simp: find_Some_iff intro!: exI [of _ i])

lemma find_allocation:
  assumes "i < 1024" "fst (allocations m p ! i) = q" "\<And>j. j < i \<Longrightarrow> fst (allocations m p ! j) \<noteq> q"
  shows "List.find (\<lambda>i. allocation_ptr m p i = q) [0..<1024] = Some i"
proof (rule find_first [OF assms(1)])
  show "allocation_ptr m p i = q" using assms(1,2) by (simp add: nth_allocations)
  show "allocation_ptr m p j \<noteq> q" if "j < i" for j using assms(1) assms(3) [OF that] that by (simp add: nth_allocations)
qed

lemma free_slot:
  assumes "i < 1024" "fst (allocations m p ! i) = 0" "\<And>j. j < i \<Longrightarrow> fst (allocations m p ! j) \<noteq> 0"
  shows "process_find_free_allocation_slot p m = of_nat i" "\<not> (of_nat i :: u32) <s 0" "unat (of_nat i :: u32) = i"
proof -
  show "process_find_free_allocation_slot p m = of_nat i"
    using find_allocation [OF assms] by (simp add: process_find_free_allocation_slot_def MAX_ALLOCATIONS_ALLOWED_PER_PROCESS_def)
  show u: "unat (of_nat i :: u32) = i" using assms(1) by (simp add: unat_of_nat32)
  then show "\<not> (of_nat i :: u32) <s 0" using assms(1) by (simp add: sint_less_iff_small)
qed

section \<open>A request\<close>

lemma zalloc_held:
  assumes "kheap_ok s" "kheap_room sz s" "held s a"
  shows "mem (snd (kzalloc sz s)) a = mem s a"
proof -
  let ?p = "unat (fst (kmalloc sz s))"
  obtain n where n: "unat sz \<le> n" "(?p, n) \<notin> kheap_live s" "kheap_live (snd (kmalloc sz s)) = insert (?p, n) (kheap_live s)"
    using kh.alloc_live [OF assms(1,2)] by blast
  have "\<not> (?p \<le> unat a \<and> unat a < ?p + unat sz)"
  proof
    assume a: "?p \<le> unat a \<and> unat a < ?p + unat sz"
    then have "16777216 \<le> unat a" "unat a < 121634816"
      using kheap_live_bounds [of ?p n "snd (kmalloc sz s)"] n(1,3) by auto
    then obtain q k where "(q, k) \<in> kheap_live s" "q \<le> unat a" "unat a < q + k" using assms(3) by (auto simp: held_def)
    then show False using kh.alloc_fresh [OF assms(1,2)] a by blast
  qed
  then show ?thesis using khz.zalloc_peek [OF assms(1,2) held_public [OF assms(3)]] by (simp only: if_False)
qed

lemma live_held: "kheap_ok s \<Longrightarrow> (q, k) \<in> kheap_live s \<Longrightarrow> q \<le> unat a \<Longrightarrow> unat a < q + k \<Longrightarrow> held s a"
  unfolding held_def using kh.live_public [of s q k a] by blast

lemma process_zalloc_step:
  assumes "process_ok s p" "kheap_room sz s"
  defines "c \<equiv> process_page_directory (mem s) p" and "q \<equiv> fst (kzalloc sz s)" and "s' \<equiv> snd (kzalloc sz s)"
  obtains n where "unat sz \<le> n" "kheap_live s' = insert (unat q, n) (kheap_live s)" "\<And>k. (unat q, k) \<notin> kheap_live s" "q \<noteq> 0"
    "process_ok s' p" "allocations (mem s') p = allocations (mem s) p" "process_task (mem s') p = process_task (mem s) p"
    "process_page_directory (mem s') p = c" "d_entry (mem s') c = d_entry (mem s) c" "chunk_regions (mem s') c = chunk_regions (mem s) c"
    "\<And>w. paging_is_aligned w \<Longrightarrow> paging_get (d_entry (mem s) c) w (mem s') = paging_get (d_entry (mem s) c) w (mem s)"
    "\<And>a. held s a \<Longrightarrow> mem s' a = mem s a" "\<And>i. i < unat sz \<Longrightarrow> mem s' (q + of_nat i) = 0" "paging_is_aligned q"
    "\<And>a. off_tables (mem s') c a = off_tables (mem s) c a"
proof -
  note ok = process_okD [OF assms(1), folded c_def]
  have q: "q = fst (kmalloc sz s)" unfolding q_def by (rule khz.zalloc_ptr [OF ok(1) assms(2)])
  have ok': "kheap_ok s'" unfolding s'_def by (rule khz.zalloc_ok [OF ok(1) assms(2)])
  have held: "mem s' a = mem s a" if "held s a" for a unfolding s'_def by (rule zalloc_held [OF ok(1) assms(2) that])
  obtain n where n: "unat sz \<le> n" "(unat q, n) \<notin> kheap_live s" "kheap_live s' = insert (unat q, n) (kheap_live s)"
    using kh.alloc_live [OF ok(1) assms(2)] khz.zalloc_live [OF ok(1) assms(2)] unfolding q s'_def by auto
  have fresh: "(unat q, k) \<notin> kheap_live s" for k
  proof
    assume "(unat q, k) \<in> kheap_live s"
    with n live_same_base [OF ok', of q k n] show False by auto
  qed
  note kept = process_live_kept [OF assms(1), of "mem s'", folded c_def, OF held [OF live_held [OF ok(1)]]]
  have live_q: "(unat q, n) \<in> kheap_live s'" using n(3) by simp
  have "(unat q, n) \<notin> chunk_regions (mem s) c" using n(2) ok(3) by blast
  then have own: "owner_ok (kheap_live s' - chunk_regions (mem s) c) p (process_task (mem s) p) (allocations (mem s) p)"
    using process_owner [OF assms(1), folded c_def] n(3) by (auto intro: owner_mono)
  have pok: "process_ok s' p"
  proof (rule process_okI [OF ok', where c = c and R = "chunk_regions (mem s) c"])
    show "wf_chunk (mem s') c" "process_page_directory (mem s') p = c" "chunk_regions (mem s') c = chunk_regions (mem s) c"
      by (rule kept; assumption)+
    have "allocations (mem s') p = allocations (mem s) p" "process_task (mem s') p = process_task (mem s) p"
      by (rule kept; assumption)+
    then show "owner_ok (kheap_live s' - chunk_regions (mem s) c) p (process_task (mem s') p) (allocations (mem s') p)"
      using own by simp
  qed (use ok(3) n(3) in auto)
  show thesis
  proof (rule that [OF n(1,3) fresh _ pok _ _ _ _ _ _ held])
    show "q \<noteq> 0" unfolding q by (rule kh.alloc_not_null [OF ok(1) assms(2)])
    show "allocations (mem s') p = allocations (mem s) p" "process_task (mem s') p = process_task (mem s) p"
      "process_page_directory (mem s') p = c" "d_entry (mem s') c = d_entry (mem s) c" "chunk_regions (mem s') c = chunk_regions (mem s) c"
      "\<And>w. paging_is_aligned w \<Longrightarrow> paging_get (d_entry (mem s) c) w (mem s') = paging_get (d_entry (mem s) c) w (mem s)"
      "\<And>a. off_tables (mem s') c a = off_tables (mem s) c a"
      by (rule kept; assumption)+
    show "\<And>i. i < unat sz \<Longrightarrow> mem s' (q + of_nat i) = 0" unfolding q_def s'_def by (rule khz.zalloc_zero [OF ok(1) assms(2)])
    show "paging_is_aligned q" using live_base [OF live_q] by simp
  qed
qed

text \<open>The pages of a region of the process get new flags.\<close>

lemma process_map_region:
  assumes "process_ok s p" "(unat q, n) \<in> kheap_live s" "unat z \<le> n"
  defines "c \<equiv> process_page_directory (mem s) p"
  obtains m' where "paging_map_to c q q (paging_align_address (q + z)) flags (mem s) = (0, m')" "tables_written c (mem s) m'"
    "\<And>w. paging_is_aligned w \<Longrightarrow> paging_get (d_entry (mem s) c) w m' =
       map_interval (q, q, paging_align_address (q + z), flags) (\<lambda>w. paging_get (d_entry (mem s) c) w (mem s)) w"
proof -
  have b: "unat q + n \<le> 121634816" using kheap_live_bounds [OF assms(2)] by simp
  then have e: "unat (q + z) = unat q + unat z" using assms(3) by (simp add: unat_word_ariths)
  then have "unat (q + z) + 4095 < 4294967296" using b assms(3) by simp
  note al = paging_align_address_ok [OF this]
  have "q \<le> paging_align_address (q + z)" using al(2) e by (simp add: word_le_nat_alt)
  from paging_map_to_entries [OF process_okD(2) [OF assms(1), folded c_def] _ _ al(1) this, of q flags]
  show thesis using live_base [OF assms(2)] that by blast
qed

lemma own_byte_off:
  assumes "process_ok s p" "(unat q, n) \<in> kheap_live s - chunk_regions (mem s) (process_page_directory (mem s) p)" "q \<noteq> p" "k < n"
  shows "off_tables (mem s) (process_page_directory (mem s) p) (q + of_nat k)" "\<not> in_region (p + 116) 8192 (q + of_nat k)"
proof -
  note ok = process_okD [OF assms(1)]
  have u: "unat (q + of_nat k) = unat q + k"
    using kheap_live_bounds [of "unat q" n s] assms(2,4) by (simp add: unat_word_ariths unat_of_nat32)
  show "off_tables (mem s) (process_page_directory (mem s) p) (q + of_nat k)"
    by (rule region_off_chunk(1) [OF ok(1-3) assms(2)]) (use u assms(4) in simp_all)
  show "\<not> in_region (p + 116) 8192 (q + of_nat k)"
  proof
    assume "in_region (p + 116) 8192 (q + of_nat k)"
    from process_bytes(1) [OF assms(1) table_in_process [OF ok(6) this]] obtain n' where
      "(unat p, n') \<in> kheap_live s" "unat p \<le> unat (q + of_nat k)" "unat (q + of_nat k) < unat p + n'" by blast
    with kh.live_disjoint [OF ok(1) _ this(1), of "unat q" n "unat (q + of_nat k)"] u assms(2-4)
    show False by (simp add: word_unat_eq_iff)
  qed
qed

text \<open>What \<^verbatim>\<open>process_malloc\<close> does, step by step.\<close>

lemma process_malloc_run:
  assumes "process_ok s p" "kheap_room sz s" "i < 1024" "fst (allocations (mem s) p ! i) = 0"
    "\<And>j. j < i \<Longrightarrow> fst (allocations (mem s) p ! j) \<noteq> 0"
  defines "c \<equiv> process_page_directory (mem s) p" and "q \<equiv> fst (process_malloc p sz s)" and "s' \<equiv> snd (process_malloc p sz s)"
  obtains n where "unat sz \<le> n" "kheap_live s' = insert (unat q, n) (kheap_live s)" "\<And>k. (unat q, k) \<notin> kheap_live s" "q \<noteq> 0"
    "process_ok s' p" "allocations (mem s') p = (allocations (mem s) p)[i := (q, sz)]"
    "\<And>k. k < unat sz \<Longrightarrow> mem s' (q + of_nat k) = 0"
    "process_page_directory (mem s') p = c" "d_entry (mem s') c = d_entry (mem s) c" "chunk_regions (mem s') c = chunk_regions (mem s) c"
    "\<And>w. paging_is_aligned w \<Longrightarrow> paging_get (d_entry (mem s') c) w (mem s') =
         map_interval (q, q, paging_align_address (q + sz), 7) (\<lambda>w. paging_get (d_entry (mem s) c) w (mem s)) w"
    "\<And>a. held s a \<Longrightarrow> off_tables (mem s) c a \<Longrightarrow> \<not> in_region (p + 116) 8192 a \<Longrightarrow> mem s' a = mem s a"
    "kheap_live s' = kheap_live (snd (kzalloc sz s))"
proof -
  let ?q = "fst (kzalloc sz s)" and ?s1 = "snd (kzalloc sz s)" and ?d = "d_entry (mem s) c"
  note slot = free_slot [OF assms(3,4) assms(5)]
  obtain n where n: "unat sz \<le> n" "kheap_live ?s1 = insert (unat ?q, n) (kheap_live s)" "\<And>k. (unat ?q, k) \<notin> kheap_live s" "?q \<noteq> 0"
    and s1: "process_ok ?s1 p" "allocations (mem ?s1) p = allocations (mem s) p" "process_task (mem ?s1) p = process_task (mem s) p"
    "process_page_directory (mem ?s1) p = c" "d_entry (mem ?s1) c = ?d" "chunk_regions (mem ?s1) c = chunk_regions (mem s) c"
    "\<And>w. paging_is_aligned w \<Longrightarrow> paging_get ?d w (mem ?s1) = paging_get ?d w (mem s)"
    "\<And>a. held s a \<Longrightarrow> mem ?s1 a = mem s a" "\<And>i. i < unat sz \<Longrightarrow> mem ?s1 (?q + of_nat i) = 0" "paging_is_aligned ?q"
    "\<And>a. off_tables (mem ?s1) c a = off_tables (mem s) c a"
    using process_zalloc_step [OF assms(1,2), folded c_def] by blast
  obtain m2 where m2: "paging_map_to c ?q ?q (paging_align_address (?q + sz)) 7 (mem ?s1) = (0, m2)" "tables_written c (mem ?s1) m2"
    "\<And>w. paging_is_aligned w \<Longrightarrow> paging_get ?d w m2 = map_interval (?q, ?q, paging_align_address (?q + sz), 7) (\<lambda>w. paging_get ?d w (mem ?s1)) w"
    using process_map_region [OF s1(1) _ n(1), of ?q 7] n(2) unfolding s1(4,5) by blast
  let ?s2 = "?s1\<lparr>mem := m2\<rparr>" and ?s3 = "?s1\<lparr>mem := set_allocation p i ?q sz m2\<rparr>"
  note st = process_map_step [OF s1(1), unfolded s1(4), OF m2(2)]
  have fresh: "(unat ?q, n) \<notin> chunk_regions (mem s) c"
    using process_okD(3) [OF assms(1), folded c_def] n(3) by blast
  then have "kheap_live ?s2 - chunk_regions (mem s) c = insert (unat ?q, n) (kheap_live s - chunk_regions (mem s) c)"
    using st(2) n(2) by auto
  then have own: "owner_ok (kheap_live ?s2 - chunk_regions (mem ?s2) (process_page_directory (mem ?s2) p)) p (process_task (mem ?s2) p)
      ((allocations (mem ?s2) p)[i := (?q, sz)])"
    using owner_alloc [OF process_owner [OF assms(1), folded c_def] _ n(1,4) assms(4)] n(3)
    by (simp add: st(3,4,5,7) s1(2,3,6))
  note en = process_entry_step [OF st(1) assms(3) own, simplified, unfolded st(4)]
  have run: "process_malloc p sz s = (?q, ?s3)"
    unfolding process_malloc_def slot
    by (simp add: slot Let_def case_prod_unfold n(4) s1(4) user_flags_def paging_defs m2(1) put32_def set_allocation_def)
  have kept: "mem ?s3 a = mem ?s1 a" if "off_tables (mem s) c a" "\<not> in_region (p + 116) 8192 a" for a
    using en(9) [OF that(2)] st(8) [of a] that(1) by (simp add: s1(11))
  have "?q \<noteq> p" using process_okD(8) [OF assms(1)] n(3) by auto
  then have zero: "mem ?s3 (?q + of_nat k) = 0" if "k < unat sz" for k
    using own_byte_off [OF s1(1), of ?q n k] n(1,2) fresh kept [of "?q + of_nat k"] s1(9) [OF that] that by (simp add: s1(4,6,11))
  have "paging_get (d_entry (mem ?s3) c) w (mem ?s3) =
       map_interval (?q, ?q, paging_align_address (?q + sz), 7) (\<lambda>w. paging_get ?d w (mem s)) w" if "paging_is_aligned w" for w
    using en(6,8) that m2(3) [OF that] s1(7) [OF that] st(6) s1(5) by simp
  then show thesis
    using that [of n] n en(1-4,6,7) st(2,3,6,7) s1(2,5,6,8) zero kept unfolding q_def s'_def run fst_conv snd_conv by simp
qed

section \<open>A release\<close>

lemma process_slot:
  assumes "process_ok s p" "i < 1024" "allocations (mem s) p ! i = (q, z)" "q \<noteq> 0"
  defines "own \<equiv> kheap_live s - chunk_regions (mem s) (process_page_directory (mem s) p)"
  shows "\<exists>n \<ge> unat z. (unat q, n) \<in> own" "q \<noteq> p"
    "\<And>j. j < 1024 \<Longrightarrow> j \<noteq> i \<Longrightarrow> fst (allocations (mem s) p ! j) \<noteq> q"
    "owner_ok (own - {(unat q, n)}) p (process_task (mem s) p) ((allocations (mem s) p)[i := (0, 0)])"
proof -
  note own = process_owner [OF assms(1), folded own_def]
  note o = own [unfolded owner_ok_def]
  have i: "i < length (allocations (mem s) p)" using assms(2) by simp
  have "slot_ok own p (process_task (mem s) p) (q, z)" using o i assms(3) by metis
  then show "\<exists>n \<ge> unat z. (unat q, n) \<in> own" "q \<noteq> p" using assms(4) by (simp_all add: slot_ok_def)
  show "fst (allocations (mem s) p ! j) \<noteq> q" if "j < 1024" "j \<noteq> i" for j
    using o i that assms(3,4) by (metis fst_conv length_allocations)
  show "owner_ok (own - {(unat q, n)}) p (process_task (mem s) p) ((allocations (mem s) p)[i := (0, 0)])"
    using owner_release [OF own i] assms(3,4) by simp
qed

lemma process_release_step:
  assumes "process_ok s p" "(unat q, n) \<in> kheap_live s - chunk_regions (mem s) (process_page_directory (mem s) p)"
    "owner_ok (kheap_live s - chunk_regions (mem s) (process_page_directory (mem s) p) - {(unat q, n)}) p (process_task (mem s) p)
       (allocations (mem s) p)"
  defines "c \<equiv> process_page_directory (mem s) p" and "s' \<equiv> kfree q s"
  shows "process_ok s' p" "kheap_live s' = kheap_live s - {(unat q, n)}" "allocations (mem s') p = allocations (mem s) p"
    "process_page_directory (mem s') p = c" "d_entry (mem s') c = d_entry (mem s) c"
    "paging_is_aligned w \<Longrightarrow> paging_get (d_entry (mem s) c) w (mem s') = paging_get (d_entry (mem s) c) w (mem s)"
    "\<not> kheap_reserved a \<Longrightarrow> mem s' a = mem s a"
    "off_tables (mem s') c x = off_tables (mem s) c x" "chunk_regions (mem s') c = chunk_regions (mem s) c"
proof -
  note ok = process_okD [OF assms(1), folded c_def]
  have live_q: "(unat q, n) \<in> kheap_live s" "(unat q, n) \<notin> chunk_regions (mem s) c" using assms(2) by (simp_all add: c_def)
  note r = kh.release_ok [OF ok(1) live_q(1), folded s'_def] kh.release_live [OF ok(1) live_q(1), folded s'_def]
    kh.release_frame [OF ok(1) live_q(1), folded s'_def]
  show "kheap_live s' = kheap_live s - {(unat q, n)}" "\<not> kheap_reserved a \<Longrightarrow> mem s' a = mem s a" by (rule r; assumption?)+
  note kept = process_live_kept [OF assms(1), of "mem s'", folded c_def, OF r(3) [OF kh.live_public [OF ok(1)]]]
  show al: "allocations (mem s') p = allocations (mem s) p" and pd: "process_page_directory (mem s') p = c"
    and d: "d_entry (mem s') c = d_entry (mem s) c"
    and "paging_is_aligned w \<Longrightarrow> paging_get (d_entry (mem s) c) w (mem s') = paging_get (d_entry (mem s) c) w (mem s)"
    and "off_tables (mem s') c x = off_tables (mem s) c x" "chunk_regions (mem s') c = chunk_regions (mem s) c"
    by (rule kept; assumption)+
  have pt: "process_task (mem s') p = process_task (mem s) p" by (rule kept; assumption)
  have own: "kheap_live s' - chunk_regions (mem s) c = kheap_live s - chunk_regions (mem s) c - {(unat q, n)}" using r(2) by auto
  show "process_ok s' p"
  proof (rule process_okI [OF r(1), where c = c and R = "chunk_regions (mem s) c"])
    show "wf_chunk (mem s') c" "chunk_regions (mem s') c = chunk_regions (mem s) c" by (rule kept; assumption)+
    show "owner_ok (kheap_live s' - chunk_regions (mem s) c) p (process_task (mem s') p) (allocations (mem s') p)"
      using assms(3) unfolding own al pt unfolding c_def .
  qed (use pd r(2) ok(3) live_q(2) in auto)
qed

text \<open>What \<^verbatim>\<open>process_free\<close> does with a pointer the process owns, step by step.\<close>

lemma process_free_run:
  assumes "process_ok s p" "i < 1024" "allocations (mem s) p ! i = (q, z)" "q \<noteq> 0"
  defines "c \<equiv> process_page_directory (mem s) p" and "s' \<equiv> process_free p q s"
  obtains n where "unat z \<le> n" "(unat q, n) \<in> kheap_live s" "kheap_live s' = kheap_live s - {(unat q, n)}"
    "process_ok s' p" "allocations (mem s') p = (allocations (mem s) p)[i := (0, 0)]"
    "process_page_directory (mem s') p = c" "d_entry (mem s') c = d_entry (mem s) c"
    "\<And>w. paging_is_aligned w \<Longrightarrow> paging_get (d_entry (mem s') c) w (mem s') =
         map_interval (q, q, paging_align_address (q + z), 0) (\<lambda>w. paging_get (d_entry (mem s) c) w (mem s)) w"
    "\<And>a. off_tables (mem s') c a = off_tables (mem s) c a" "chunk_regions (mem s') c = chunk_regions (mem s) c"
    "\<And>a. held s a \<Longrightarrow> off_tables (mem s) c a \<Longrightarrow> \<not> in_region (p + 116) 8192 a \<Longrightarrow> mem s' a = mem s a"
proof -
  let ?d = "d_entry (mem s) c" and ?own = "kheap_live s - chunk_regions (mem s) c"
  note slot = process_slot [OF assms(1-4), folded c_def]
  obtain n where n: "unat z \<le> n" "(unat q, n) \<in> ?own" using slot(1) by blast
  obtain m1 where m1: "paging_map_to c q q (paging_align_address (q + z)) 0 (mem s) = (0, m1)" "tables_written c (mem s) m1"
    "\<And>w. paging_is_aligned w \<Longrightarrow> paging_get ?d w m1 = map_interval (q, q, paging_align_address (q + z), 0) (\<lambda>w. paging_get ?d w (mem s)) w"
    using process_map_region [OF assms(1) _ n(1), of q 0, folded c_def] n(2) by blast
  let ?s1 = "s\<lparr>mem := m1\<rparr>" and ?s2 = "s\<lparr>mem := set_allocation p i 0 0 m1\<rparr>"
  note st = process_map_step [OF assms(1), folded c_def, OF m1(2)]
  have own1: "owner_ok (kheap_live ?s1 - chunk_regions (mem ?s1) (process_page_directory (mem ?s1) p)) p (process_task (mem ?s1) p)
      ((allocations (mem ?s1) p)[i := (0, 0)])"
    using owner_mono [OF slot(4) [of n] Diff_subset] by (simp add: st(2-5,7))
  note en = process_entry_step [OF st(1) assms(2) own1, simplified, unfolded st(4)]
  have own2: "owner_ok (kheap_live ?s2 - chunk_regions (mem ?s2) (process_page_directory (mem ?s2) p) - {(unat q, n)}) p
      (process_task (mem ?s2) p) (allocations (mem ?s2) p)"
    using slot(4) [of n] en(2-5,7) by (simp add: st(2,3,5,7))
  have "(unat q, n) \<in> kheap_live ?s2 - chunk_regions (mem ?s2) (process_page_directory (mem ?s2) p)"
    using n(2) en(2,4,7) by (simp add: st(2,7))
  note re = process_release_step [OF en(1) this own2]
  have "fst (allocations (mem s) p ! j) \<noteq> q" if "j < i" for j using slot(3) [of j] that assms(2) by simp
  then have "List.find (\<lambda>i. allocation_ptr (mem s) p i = q) [0..<1024] = Some i"
    using assms(2,3) by (intro find_allocation) simp_all
  moreover have "allocation_ptr (mem s) p i = q" "allocation_size (mem s) p i = z"
    using assms(2,3) by (simp_all add: nth_allocations)
  ultimately have run: "process_free p q s = kfree q ?s2"
    unfolding process_free_def
    by (simp add: MAX_ALLOCATIONS_ALLOWED_PER_PROCESS_def c_def [symmetric] m1(1) put32_def set_allocation_def)
  have kept: "mem (kfree q ?s2) a = mem s a" if "held s a" "off_tables (mem s) c a" "\<not> in_region (p + 116) 8192 a" for a
    using re(7) [OF held_public [OF that(1)]] en(9) [OF that(3)] st(8) [OF that(2)] by simp
  have "paging_get (d_entry (mem (kfree q ?s2)) c) w (mem (kfree q ?s2)) =
       map_interval (q, q, paging_align_address (q + z), 0) (\<lambda>w. paging_get ?d w (mem s)) w" if "paging_is_aligned w" for w
    using re(5,6) en(4,6,8) that m1(3) [OF that] st(6) by simp
  then show thesis
    using that [of n] n re(1-5,8,9) en(2-4,6,7,10) st(2,3,6,7) tables_written_off [OF m1(2)] kept unfolding s'_def run by simp
qed

text \<open>A pointer the process does not own, and the null pointer.\<close>

lemma kfree_null: "kheap_ok s \<Longrightarrow> kfree 0 s = s"
  by (simp add: kheap_ok_def kfree_def heap_free_def heap_mark_blocks_as_free_def heap_address_to_block_def config_defs
      heap_free_loop.simps [of _ _ "0xFF000"])

lemma store32_same: "load32 m a = v \<Longrightarrow> store32 m a v = m"
proof
  fix b assume v: "load32 m a = v"
  show "store32 m a v b = m b"
  proof (cases "\<exists>k < 4. b = a + of_nat k")
    case True
    then show ?thesis using store32_restore [of _ m a m] v by auto
  qed (auto intro: store32_other)
qed

lemma map_nothing: "paging_map_to c 0 0 (paging_align_address 0) flags m = (0, m)"
  by (simp add: paging_map_to_def paging_align_address_def paging_map_range_def paging_defs paging_map_range_loop.simps)

lemma process_free_nothing:
  assumes "process_ok s p" "q = 0 \<or> q \<notin> fst ` set (allocations (mem s) p)"
  shows "process_free p q s = s"
proof (cases "List.find (\<lambda>i. allocation_ptr (mem s) p i = q) [0..<1024]")
  case None
  then show ?thesis by (simp add: process_free_def MAX_ALLOCATIONS_ALLOWED_PER_PROCESS_def)
next
  case (Some i)
  then have i: "i < 1024" "allocation_ptr (mem s) p i = q" by (auto simp: find_Some_iff)
  then have "q \<in> fst ` set (allocations (mem s) p)"
    using nth_mem [of i "allocations (mem s) p"] by (force simp: nth_allocations)
  then have q: "q = 0" using assms(2) by blast
  have "slot_ok (kheap_live s - chunk_regions (mem s) (process_page_directory (mem s) p)) p (process_task (mem s) p) (allocations (mem s) p ! i)"
    using process_owner [OF assms(1)] i(1) by (simp add: owner_ok_def)
  then have z: "allocation_size (mem s) p i = 0" using i q by (simp add: slot_ok_def nth_allocations)
  have "set_allocation p i 0 0 (mem s) = mem s"
    using i(2) z q unfolding set_allocation_def allocation_ptr_def allocation_size_def by (simp add: store32_same)
  then show ?thesis using Some q i(2) z kfree_null [OF process_okD(1) [OF assms(1)]] map_nothing
    by (simp add: process_free_def MAX_ALLOCATIONS_ALLOWED_PER_PROCESS_def put32_def set_allocation_def)
qed

section \<open>The end of a process\<close>

text \<open>After the first \<open>k\<close> entries: they are cleared and their regions released.\<close>

definition recorded :: "(u32 \<times> u32) list \<Rightarrow> nat \<Rightarrow> nat \<Rightarrow> bool" where
  "recorded as k q \<longleftrightarrow> (\<exists>i < k. fst (as ! i) \<noteq> 0 \<and> unat (fst (as ! i)) = q)"

lemma terminal_loop:
  assumes "process_ok s p" "k \<le> 1024"
  defines "c \<equiv> process_page_directory (mem s) p" and "as \<equiv> allocations (mem s) p"
    and "s' \<equiv> fold (\<lambda>i s. if allocation_ptr (mem s) p i \<noteq> 0 then process_free p (allocation_ptr (mem s) p i) s else s) [0..<k] s"
  shows "process_ok s' p \<and> allocations (mem s') p = replicate k (0, 0) @ drop k as
    \<and> kheap_live s' = {r \<in> kheap_live s. \<not> recorded as k (fst r)}
    \<and> process_page_directory (mem s') p = c \<and> chunk_regions (mem s') c = chunk_regions (mem s) c \<and> (\<forall>a. off_tables (mem s') c a = off_tables (mem s) c a)
    \<and> (\<forall>a. held s' a \<and> off_tables (mem s) c a \<and> \<not> in_region (p + 116) 8192 a \<longrightarrow> mem s' a = mem s a)"
  using assms(2) unfolding s'_def
proof (induction k)
  case 0
  then show ?case using assms(1) by (simp add: c_def as_def recorded_def)
next
  case (Suc k)
  define f where "f = (\<lambda>i s :: 'a pstate_scheme. if allocation_ptr (mem s) p i \<noteq> 0 then process_free p (allocation_ptr (mem s) p i) s else s)"
  define t where "t = fold f [0..<k] s"
  have k: "k < 1024" using Suc.prems by simp
  have ih: "process_ok t p" "allocations (mem t) p = replicate k (0, 0) @ drop k as"
    "kheap_live t = {r \<in> kheap_live s. \<not> recorded as k (fst r)}" "process_page_directory (mem t) p = c" "chunk_regions (mem t) c = chunk_regions (mem s) c"
    "\<And>a. off_tables (mem t) c a = off_tables (mem s) c a"
    "\<And>a. held t a \<Longrightarrow> off_tables (mem s) c a \<Longrightarrow> \<not> in_region (p + 116) 8192 a \<Longrightarrow> mem t a = mem s a"
    using Suc.IH k unfolding t_def f_def by simp_all
  have entry: "allocations (mem t) p ! k = as ! k" using ih(2) k by (simp add: nth_append as_def)
  have step: "fold f [0..<Suc k] s = f k t" by (simp add: t_def)
  have drop: "drop k as = as ! k # drop (Suc k) as" using k by (intro Cons_nth_drop_Suc [symmetric]) (simp add: as_def)
  have rec: "recorded as (Suc k) q \<longleftrightarrow> recorded as k q \<or> fst (as ! k) \<noteq> 0 \<and> unat (fst (as ! k)) = q" for q
    by (auto simp: recorded_def less_Suc_eq)
  have ptr: "allocation_ptr (mem t) p k = fst (as ! k)" using entry k by (simp add: nth_allocations prod_eq_iff)
  show ?case
  proof (cases "fst (as ! k) = 0")
    case True
    then have "as ! k = (0, 0)"
      using process_owner [OF ih(1)] k entry by (auto simp: owner_ok_def slot_ok_def prod_eq_iff)
    then have "replicate k (0, 0) @ drop k as = replicate (Suc k) (0, 0) @ drop (Suc k) as"
      unfolding drop by (simp add: replicate_append_same [symmetric])
    then show ?thesis using ih True step rec unfolding f_def [symmetric] step by (simp add: f_def ptr)
  next
    case False
    have free: "f k t = process_free p (fst (as ! k)) t" using False by (simp add: f_def ptr)
    have at: "allocations (mem t) p ! k = (fst (as ! k), snd (as ! k))" using entry by simp
    obtain n where n: "(unat (fst (as ! k)), n) \<in> kheap_live t" "kheap_live (f k t) = kheap_live t - {(unat (fst (as ! k)), n)}"
      "process_ok (f k t) p" "allocations (mem (f k t)) p = (allocations (mem t) p)[k := (0, 0)]"
      "process_page_directory (mem (f k t)) p = c" "chunk_regions (mem (f k t)) c = chunk_regions (mem t) c" "\<And>a. off_tables (mem (f k t)) c a = off_tables (mem t) c a"
      "\<And>a. held t a \<Longrightarrow> off_tables (mem t) c a \<Longrightarrow> \<not> in_region (p + 116) 8192 a \<Longrightarrow> mem (f k t) a = mem t a"
      using process_free_run [OF ih(1) k at False] unfolding free ih(4) by metis
    have "(replicate k (0, 0) @ drop k as)[k := (0, 0)] = replicate (Suc k) (0, 0) @ drop (Suc k) as"
      unfolding drop by (simp add: list_update_append replicate_append_same [symmetric])
    moreover have "kheap_live (f k t) = {r \<in> kheap_live s. \<not> recorded as (Suc k) (fst r)}"
    proof (rule set_eqI)
      fix r :: "nat \<times> nat"
      have "r \<in> kheap_live t \<and> r \<noteq> (unat (fst (as ! k)), n) \<longleftrightarrow> r \<in> kheap_live t \<and> unat (fst (as ! k)) \<noteq> fst r"
        using live_same_base [OF process_okD(1) [OF ih(1)] n(1), of "snd r"] n(1) by (metis prod.collapse prod.inject)
      moreover have "r \<in> kheap_live t \<longleftrightarrow> r \<in> kheap_live s \<and> \<not> recorded as k (fst r)" using ih(3) by simp
      ultimately show "r \<in> kheap_live (f k t) \<longleftrightarrow> r \<in> {r \<in> kheap_live s. \<not> recorded as (Suc k) (fst r)}"
        using n(2) False rec [of "fst r"] by blast
    qed
    moreover have "held t a" if "held (f k t) a" for a
      using that held_mono [of "f k t" t a] n(2) by blast
    moreover have "mem (f k t) a = mem s a" if "held (f k t) a" "off_tables (mem s) c a" "\<not> in_region (p + 116) 8192 a" for a
      using n(8) [of a] ih(6,7) [of a] calculation(3) [of a] that by simp
    ultimately show ?thesis using n(3-7) ih(2,5,6) unfolding f_def [symmetric] step by simp
  qed
qed

section \<open>A process on a fresh heap\<close>

text \<open>The process and its task are requested from an empty heap, then the page directory; the words that link
  them are written last.\<close>

lemma kzalloc_size:
  assumes "kheap_ok s" "kheap_room sz s"
  shows "kheap_live (snd (kzalloc sz s)) = insert (unat (fst (kzalloc sz s)), 4096 * blocks_needed sz) (kheap_live s)"
proof -
  from kmalloc_table [OF assms] obtain b where
    b: "table_fits (table_bytes kernel_heap_layout (mem s)) (blocks_needed sz) b" "0 < blocks_needed sz"
      "unat (fst (kmalloc sz s)) = 16777216 + 4096 * b"
      "table_bytes kernel_heap_layout (mem (snd (kmalloc sz s))) = take_run (table_bytes kernel_heap_layout (mem s)) b (blocks_needed sz)"
    by blast
  show ?thesis
    using kheap_live_take [OF b(1,2,4)] b(3) khz.zalloc_live [OF assms] khz.zalloc_ptr [OF assms] by (simp add: kheap_live_def)
qed

lemma owner_fresh:
  assumes "(unat p, 12288) \<in> own" "(unat t, 4096) \<in> own" "p \<noteq> t"
  shows "owner_ok own p t (replicate n (0, 0))"
proof -
  have "(9364 :: nat) \<le> 12288" "(64 :: nat) \<le> 4096" by simp_all
  then have "\<exists>k \<ge> 9364. (unat p, k) \<in> own" "\<exists>k \<ge> 64. (unat t, k) \<in> own" using assms(1,2) by blast+
  then show ?thesis using assms(3) by (simp add: owner_ok_def slot_ok_simps(1))
qed

lemma process_on_fresh_heap:
  obtains p t chunk and s :: pstate where "kheap_ok s" "wf_chunk (mem s) chunk"
    "kheap_live s = {(unat p, 12288), (unat t, 4096)} \<union> chunk_regions (mem s) chunk" "p \<noteq> t"
    "chunk_regions (mem s) chunk \<inter> {(unat p, 12288), (unat t, 4096)} = {}"
    "\<And>a. in_region p 9364 a \<Longrightarrow> mem s a = 0" "3000 \<le> free_blocks s"
proof -
  obtain s0 :: pstate where s0: "s0 = undefined\<lparr>kernel_heap := kernel_heap_layout, mem := \<lambda>_. 0\<rparr>" by blast
  note h0 = zero_heap [of s0, unfolded s0, simplified, folded s0]
  have b: "blocks_needed 9364 = 3" "blocks_needed 64 = 1" by (simp_all add: blocks_needed_def)
  have r0: "kheap_room 9364 s0"
    using first_fit_replicate [of 3 25600] by (simp add: kheap_room_def s0 zero_table b)
  let ?p = "fst (kzalloc 9364 s0)" and ?s1 = "snd (kzalloc 9364 s0)"
  have s1: "kheap_ok ?s1" "kheap_live ?s1 = {(unat ?p, 12288)}"
    using khz.zalloc_ok [OF h0(1) r0] kzalloc_size [OF h0(1) r0] h0(2) b by simp_all
  have f1: "free_blocks ?s1 = 25597" using kheap_accounting [OF s1(1)] unfolding s1(2) by simp
  let ?t = "fst (kzalloc 64 ?s1)" and ?s2 = "snd (kzalloc 64 ?s1)"
  have one: "(0 :: u32) < 64" "unat (64 :: u32) \<le> 4096" by simp_all
  have r1: "kheap_room 64 ?s1" using f1 by (intro free_block_room [OF _ one]) simp
  have s2: "kheap_ok ?s2" "kheap_live ?s2 = {(unat ?t, 4096), (unat ?p, 12288)}"
    using khz.zalloc_ok [OF s1(1) r1] kzalloc_size [OF s1(1) r1] s1(2) b by simp_all
  have t: "(unat ?t, k) \<notin> kheap_live ?s1" for k
    using kh.alloc_live [OF s1(1) r1] khz.zalloc_ptr [OF s1(1) r1] khz.zalloc_live [OF s1(1) r1]
      live_same_base [OF s2(1)] by (metis insertI1 insertI2)
  then have pt: "?p \<noteq> ?t" using s1(2) by (metis singletonI)
  have f2: "free_blocks ?s2 = 25596" using kheap_accounting [OF s2(1)] unfolding s2(2) by simp
  obtain chunk and s :: pstate where s: "kheap_ok s" "wf_chunk (mem s) chunk"
    "kheap_live s = kheap_live ?s2 \<union> chunk_regions (mem s) chunk" "chunk_regions (mem s) chunk \<inter> kheap_live ?s2 = {}"
    "\<And>q k a. (q, k) \<in> kheap_live ?s2 \<Longrightarrow> q \<le> unat a \<Longrightarrow> unat a < q + k \<Longrightarrow> mem s a = mem ?s2 a"
    using gen_paging_4gb_ok [OF s2(1), of 7] f2 by auto
  have zero: "mem s a = 0" if "in_region ?p 9364 a" for a
  proof -
    have a: "a = ?p + of_nat (unat (a - ?p))" "unat (a - ?p) < unat (9364 :: u32)"
      using that by (simp_all add: in_region_def word_less_nat_alt)
    have in_p: "unat ?p \<le> unat a" "unat a < unat ?p + 12288"
      using that in_region_interval [of ?p 9364 a] kheap_live_bounds [of "unat ?p" 12288 ?s1] s1(2) by simp_all
    have "mem s a = mem ?s2 a" using s(5) [OF _ in_p] s2(2) by simp
    also have "\<dots> = mem ?s1 a" using khz.zalloc_live_kept [OF s1(1) r1 _ in_p] s1(2) by simp
    also have "\<dots> = 0" using khz.zalloc_zero [OF h0(1) r0 a(2)] a(1) by simp
    finally show ?thesis .
  qed
  have "(\<Sum>(p, k) \<in> kheap_live s. k) = (\<Sum>(p, k) \<in> kheap_live ?s2. k) + (\<Sum>(p, k) \<in> chunk_regions (mem s) chunk. k)"
    unfolding s(3) using s(4) s2(2) by (intro sum.union_disjoint) (auto simp: chunk_regions_def)
  then have "(\<Sum>(p, k) \<in> kheap_live s. k) \<le> 16384 + 4096 * 1026"
    using chunk_regions_sum [of "mem s" chunk] s2(2) by simp
  then have "3000 \<le> free_blocks s" using kheap_accounting [OF s(1)] by linarith
  with s zero pt s2(2) show thesis by (intro that [of s chunk ?p ?t]) auto
qed

lemma process_ready:
  obtains p and s :: pstate where "process_ok s p" "allocations (mem s) p = replicate 1024 (0, 0)" "3000 \<le> free_blocks s"
proof -
  obtain p t chunk and s :: pstate where s: "kheap_ok s" "wf_chunk (mem s) chunk"
    "kheap_live s = {(unat p, 12288), (unat t, 4096)} \<union> chunk_regions (mem s) chunk" "p \<noteq> t"
    "chunk_regions (mem s) chunk \<inter> {(unat p, 12288), (unat t, 4096)} = {}"
    "\<And>a. in_region p 9364 a \<Longrightarrow> mem s a = 0" "3000 \<le> free_blocks s"
    by (rule process_on_fresh_heap) blast
  let ?m1 = "store32 (mem s) (p + of_nat 112) t"
  let ?m = "store32 ?m1 t chunk"
  let ?s = "s\<lparr>mem := ?m\<rparr>"
  have live: "(unat p, 12288) \<in> kheap_live s" "(unat t, 4096) \<in> kheap_live s" using s(3) by auto
  have al: "paging_is_aligned p" "paging_is_aligned t" "unat p + 9364 \<le> 4294967296"
    using live_base [OF live(1)] live_base [OF live(2)] kheap_live_bounds [OF live(1)] by simp_all
  have al4: "aligned4 p" "aligned4 t" using slot_aligned4 [OF al(1), of 0] slot_aligned4 [OF al(2), of 0] by simp_all
  note w = process_word [OF al4(1) al(3)]
  have in_p: "unat p \<le> unat a \<and> unat a < unat p + 12288" if "in_region p 9364 a" for a
    using in_region_interval [of p 9364 a] al(3) that by simp
  have in_t: "page_base (t + of_nat k) = t" if "k < 4" for k using page_byte [OF al(2)] that by simp
  have off: "in_region p 9364 a \<Longrightarrow> page_base a \<noteq> t" for a
    using kh.live_disjoint [OF s(1) live, of "unat a"] in_p page_region [OF al(2), of a] by auto
  have frame1: "?m1 a = mem s a" if "\<not> in_region p 9364 a" for a
  proof (rule store32_other)
    fix k :: nat assume "k < 4"
    then have "in_region p 9364 (p + of_nat (112 + k))" by (intro in_region_offset) simp
    then show "a \<noteq> p + of_nat 112 + of_nat k" using that by (auto simp: add.assoc)
  qed
  have frame2: "?m a = ?m1 a" if "page_base a \<noteq> t" for a using in_t that by (intro store32_other) auto
  have own: "(unat p, 12288) \<in> kheap_live s - chunk_regions (mem s) chunk" "(unat t, 4096) \<in> kheap_live s - chunk_regions (mem s) chunk"
    and sub: "chunk_regions (mem s) chunk \<subseteq> kheap_live s" using s(3,5) by auto
  have page: "?m a = mem s a" if "page_base a = page_base chunk \<or> \<not> off_directory (mem s) (d_entry (mem s) chunk) a" for a
    using frame1 frame2 in_p page_region [OF al(2), of a] that
      region_off_chunk(2,3) [OF s(1,2) sub own(1), of a] region_off_chunk(2,3) [OF s(1,2) sub own(2), of a] by metis
  have heap: "kernel_heap ?s = kernel_heap s" by simp
  have "mem ?s a = mem s a" if "kheap_reserved a" for a
    using frame1 frame2 in_p page_region [OF al(2), of a] kh.live_public [OF s(1) live(1), of a] kh.live_public [OF s(1) live(2), of a] that
    by simp metis
  note h = kheap_mem_cong [OF heap this]
  have k: "wf_chunk ?m chunk" "chunk_regions ?m chunk = chunk_regions (mem s) chunk" by (rule chunk_kept [OF s(2) page]; assumption)+
  have f: "allocations ?m p = allocations ?m1 p" "process_task ?m p = process_task ?m1 p"
    by (rule process_fields_cong [OF al(3) frame2 [OF off]]; assumption)+
  have task: "process_task ?m p = t" unfolding f(2) using w [of 112 112 "mem s" t] by (simp add: process_task_def)
  have dir: "process_page_directory ?m p = chunk"
    unfolding process_page_directory_def task task_page_directory_def by (rule load32_store32_same)
  have entries: "load32 ?m1 (p + of_nat b) = 0" if "112 < b" "b + 4 \<le> 9364" "b mod 4 = 0" for b
  proof -
    have "mem s (p + of_nat b + of_nat j) = 0" if "j < 4" for j
    proof -
      have "in_region p 9364 (p + of_nat (b + j))" using that \<open>b + 4 \<le> 9364\<close> by (intro in_region_offset) simp
      then show ?thesis using s(6) by (simp add: add.assoc)
    qed
    from this [of 0] this [of 1] this [of 2] this [of 3] have "load32 (mem s) (p + of_nat b) = 0" by (simp add: load32_def)
    then show ?thesis using w [of 112 b "mem s" t] that by simp
  qed
  have "allocations ?m p = replicate 1024 (0, 0)"
  proof (rule nth_equalityI)
    fix i assume "i < length (allocations ?m p)"
    then have i: "i < 1024" by simp
    have "(116 + 8 * i) mod 4 = 0" "(120 + 8 * i) mod 4 = 0" by presburger+
    with entries [of "116 + 8 * i"] entries [of "120 + 8 * i"] i
    have "allocation_ptr ?m1 p i = 0" "allocation_size ?m1 p i = 0"
      unfolding allocation_size_def allocation_ptr_def allocation_at_offset(2) unfolding allocation_at_offset(1) by auto
    then show "allocations ?m p ! i = replicate 1024 (0, 0) ! i" unfolding f(1) using i by (simp add: nth_allocations)
  qed simp
  moreover have "process_ok ?s p"
  proof (rule process_okI [where c = chunk and R = "chunk_regions (mem s) chunk"])
    show "owner_ok (kheap_live ?s - chunk_regions (mem s) chunk) p (process_task (mem ?s) p) (allocations (mem ?s) p)"
      using owner_fresh [OF own s(4)] calculation h(2) task by simp
  qed (use h s(1) k dir sub in simp_all)
  moreover have "3000 \<le> free_blocks ?s" using h(3) s(7) by simp
  ultimately show thesis using that [of ?s p] by simp
qed

text \<open>The process of a fresh heap after its first request.\<close>

lemma process_first_request:
  obtains p q n and s s' :: pstate where "process_ok s p" "kheap_room 100 s" "process_malloc p 100 s = (q, s')" "q \<noteq> 0"
    "allocations (mem s) p = replicate 1024 (0, 0)" "process_ok s' p" "allocations (mem s') p = (q, 100) # replicate 1023 (0, 0)"
    "kheap_live s' = insert (unat q, n) (kheap_live s)" "\<And>k. (unat q, k) \<notin> kheap_live s"
proof -
  obtain p and s :: pstate where s: "process_ok s p" "allocations (mem s) p = replicate 1024 (0, 0)" "3000 \<le> free_blocks s"
    by (rule process_ready) blast
  have room: "kheap_room 100 s" by (rule free_block_room) (use s(3) in simp_all)
  have slot: "(0 :: nat) < 1024" "fst (allocations (mem s) p ! 0) = 0" by (simp_all add: s(2))
  let ?q = "fst (process_malloc p 100 s)" and ?s = "snd (process_malloc p 100 s)"
  obtain n where n: "kheap_live ?s = insert (unat ?q, n) (kheap_live s)" "\<And>k. (unat ?q, k) \<notin> kheap_live s" "?q \<noteq> 0"
    "process_ok ?s p" "allocations (mem ?s) p = (allocations (mem s) p)[0 := (?q, 100)]"
    by (rule process_malloc_run [OF s(1) room slot]) simp_all
  have "(replicate 1024 (0, 0))[0 := (?q, 100 :: u32)] = (?q, 100) # replicate 1023 (0, 0)"
    by (simp add: numeral_eq_Suc)
  with n s room show thesis by (intro that [of s p ?q ?s n]) simp_all
qed

section \<open>Properties\<close>

text \<open>C11. \<^verbatim>\<open>process_malloc\<close> of a request that fits: it is recorded in the first free entry, served from a new region of
  the heap whose bytes are cleared, and the pages of the region are mapped to themselves for the process.
  The process stays well-formed, and no held byte outside its page tables and its table of allocations changes.\<close>

theorem process_malloc_correct:
  assumes "process_ok s p" "kheap_room sz s" "i < 1024" "fst (allocations (mem s) p ! i) = 0"
    "\<forall>j < i. fst (allocations (mem s) p ! j) \<noteq> 0"
  defines "c \<equiv> process_page_directory (mem s) p" and "q \<equiv> fst (process_malloc p sz s)" and "s' \<equiv> snd (process_malloc p sz s)"
  shows "process_ok s' p \<and> allocations (mem s') p = (allocations (mem s) p)[i := (q, sz)]
    \<and> (\<exists>n \<ge> unat sz. (unat q, n) \<notin> kheap_live s \<and> kheap_live s' = insert (unat q, n) (kheap_live s))
    \<and> (\<forall>k < unat sz. mem s' (q + of_nat k) = 0)
    \<and> (\<forall>w. paging_is_aligned w \<longrightarrow> paging_get (d_entry (mem s') c) w (mem s') =
         map_interval (q, q, paging_align_address (q + sz), 7) (\<lambda>w. paging_get (d_entry (mem s) c) w (mem s)) w)
    \<and> (\<forall>a. held s a \<and> off_tables (mem s) c a \<and> \<not> in_region (p + 116) 8192 a \<longrightarrow> mem s' a = mem s a)"
  by (rule process_malloc_run [OF assms(1-4) assms(5) [rule_format], folded c_def q_def s'_def]) blast+

theorem process_malloc_correct_witness:
  "\<exists>(s :: pstate) p q s'. process_malloc p 100 s = (q, s') \<and> process_ok s' p \<and> allocations (mem s') p ! 0 = (q, 100) \<and> mem s' q = 0"
proof -
  obtain p q n and s s' :: pstate where s: "process_ok s p" "kheap_room 100 s" "process_malloc p 100 s = (q, s')"
    "allocations (mem s) p = replicate 1024 (0, 0)"
    by (rule process_first_request) blast
  have slot: "(0 :: nat) < 1024" "fst (allocations (mem s) p ! 0) = 0" "\<forall>j < 0. fst (allocations (mem s) p ! j) \<noteq> 0"
    by (simp_all add: s(4))
  from process_malloc_correct [OF s(1,2) slot] s(3) have c: "process_ok s' p" "allocations (mem s') p = (allocations (mem s) p)[0 := (q, 100)]"
    "\<forall>k < unat (100 :: u32). mem s' (q + of_nat k) = 0" by simp_all
  then have "mem s' q = 0" using c(3) [rule_format, of 0] by simp
  then show ?thesis using c(1,2) s(3) by (intro exI [of _ s] exI [of _ p] exI [of _ q] exI [of _ s']) simp
qed

text \<open>C12. \<^verbatim>\<open>process_free\<close> of a pointer the process owns: its region goes back to the heap, its entry is cleared, and its
  pages are no longer mapped for the process; what others hold is untouched.\<close>

theorem process_free_correct:
  assumes "process_ok s p" "i < 1024" "allocations (mem s) p ! i = (q, z)" "q \<noteq> 0"
  defines "c \<equiv> process_page_directory (mem s) p" and "s' \<equiv> process_free p q s"
  shows "process_ok s' p \<and> allocations (mem s') p = (allocations (mem s) p)[i := (0, 0)]
    \<and> (\<exists>n \<ge> unat z. (unat q, n) \<in> kheap_live s \<and> kheap_live s' = kheap_live s - {(unat q, n)})
    \<and> (\<forall>w. paging_is_aligned w \<longrightarrow> paging_get (d_entry (mem s') c) w (mem s') =
         map_interval (q, q, paging_align_address (q + z), 0) (\<lambda>w. paging_get (d_entry (mem s) c) w (mem s)) w)
    \<and> (\<forall>a. held s a \<and> off_tables (mem s) c a \<and> \<not> in_region (p + 116) 8192 a \<longrightarrow> mem s' a = mem s a)"
  by (rule process_free_run [OF assms(1-4), folded c_def s'_def]) blast

theorem process_free_correct_witness:
  "\<exists>(s :: pstate) p q. process_ok s p \<and> q \<noteq> 0 \<and> process_ok (process_free p q s) p
    \<and> allocations (mem (process_free p q s)) p = replicate 1024 (0, 0)"
proof -
  obtain p q n and s s' :: pstate where s: "q \<noteq> 0" "process_ok s' p" "allocations (mem s') p = (q, 100) # replicate 1023 (0, 0)"
    by (rule process_first_request) blast
  have slot: "(0 :: nat) < 1024" "allocations (mem s') p ! 0 = (q, 100)" by (simp_all add: s(3))
  have "((q, 100) # replicate 1023 (0, 0))[0 := (0, 0)] = replicate 1024 (0 :: u32, 0 :: u32)" by (simp add: numeral_eq_Suc)
  then have "allocations (mem (process_free p q s')) p = replicate 1024 (0, 0)" "process_ok (process_free p q s') p"
    using process_free_correct [OF s(2) slot s(1)] s(3) by simp_all
  then show ?thesis using s(1,2) by blast
qed

text \<open>A process can only release what it owns: \<^verbatim>\<open>process_free\<close> of an address that is not a recorded
  allocation of the process (memory of another process, of the kernel, the middle of a region, or the
  null pointer) changes nothing, not one byte.\<close>

theorem process_free_foreign:
  assumes "process_ok s p" "q = 0 \<or> q \<notin> fst ` set (allocations (mem s) p)"
  shows "process_free p q s = s"
  using assms by (rule process_free_nothing)

theorem process_free_foreign_witness: "\<exists>(s :: pstate) p. process_ok s p \<and> process_free p p s = s \<and> process_free p 0 s = s"
proof -
  obtain p and s :: pstate where s: "process_ok s p" "allocations (mem s) p = replicate 1024 (0, 0)"
    by (rule process_ready) blast
  have "p \<noteq> 0" using process_okD(8) [OF s(1)] live_base [of p] by auto
  then have "p \<notin> fst ` set (allocations (mem s) p)" using s(2) by simp
  then have "process_free p p s = s" "process_free p 0 s = s" using process_free_foreign [OF s(1)] by blast+
  then show ?thesis using s(1) by blast
qed

text \<open>When a process ends, \<^verbatim>\<open>process_terminal_allocations\<close> gives back exactly the regions recorded in its table and
  clears the table; every other region stays live, and every byte that is still held, outside the
  process and its page tables, keeps its value.\<close>

theorem process_terminal_allocations_correct:
  assumes "process_ok s p"
  shows "\<exists>s'. process_terminal_allocations p s = (0, s') \<and> process_ok s' p \<and> allocations (mem s') p = replicate 1024 (0, 0)
    \<and> kheap_live s' = {r \<in> kheap_live s. \<forall>i < 1024. fst (allocations (mem s) p ! i) \<noteq> 0 \<longrightarrow> unat (fst (allocations (mem s) p ! i)) \<noteq> fst r}
    \<and> (\<forall>a. held s' a \<and> off_tables (mem s) (process_page_directory (mem s) p) a \<and> \<not> in_region (p + 116) 8192 a \<longrightarrow> mem s' a = mem s a)"
  using terminal_loop [OF assms, of 1024]
  by (simp add: process_terminal_allocations_def MAX_ALLOCATIONS_ALLOWED_PER_PROCESS_def recorded_def) blast

theorem process_terminal_allocations_correct_witness:
  "\<exists>(s :: pstate) p s' t. kheap_live s' \<noteq> kheap_live s \<and> snd (process_malloc p 100 s) = s'
    \<and> process_terminal_allocations p s' = (0, t) \<and> kheap_live t = kheap_live s"
proof -
  obtain p q n and s s' :: pstate where s: "process_malloc p 100 s = (q, s')" "q \<noteq> 0" "process_ok s' p"
    "allocations (mem s') p = (q, 100) # replicate 1023 (0, 0)" "kheap_live s' = insert (unat q, n) (kheap_live s)"
    "\<And>k. (unat q, k) \<notin> kheap_live s"
    by (rule process_first_request) blast
  obtain t where t: "process_terminal_allocations p s' = (0, t)"
    "kheap_live t = {r \<in> kheap_live s'. \<forall>i < 1024. fst (allocations (mem s') p ! i) \<noteq> 0 \<longrightarrow> unat (fst (allocations (mem s') p ! i)) \<noteq> fst r}"
    using process_terminal_allocations_correct [OF s(3)] by blast
  have "(\<forall>i < 1024. fst (allocations (mem s') p ! i) \<noteq> 0 \<longrightarrow> unat (fst (allocations (mem s') p ! i)) \<noteq> fst r) \<longleftrightarrow> unat q \<noteq> fst r" for r :: "nat \<times> nat"
    using s(2) unfolding s(4) by (auto simp: nth_Cons split: nat.splits intro: exI [of _ 0])
  then have "kheap_live t = kheap_live s" using t(2) s(5,6) by auto
  moreover have "kheap_live s' \<noteq> kheap_live s" using s(5,6) by blast
  ultimately show ?thesis using t(1) s(1) by (metis snd_conv)
qed

end
