(* ===== verification/ProcessEnd.thy ===== *)
theory ProcessEnd
  imports ProcessMemory
begin

text \<open>
  The end of a process, \<^verbatim>\<open>process_terminate\<close>: what goes back to the heap, what stays, and who runs next.
\<close>

section \<open>Routines that change memory only\<close>

definition only_memory :: "'a console_scheme \<Rightarrow> 'a console_scheme \<Rightarrow> bool" where
  "only_memory s s' \<longleftrightarrow> (\<exists>m. s' = s\<lparr>mem := m\<rparr>)"

lemma only_memory_refl [simp]: "only_memory s s"
  unfolding only_memory_def by (rule exI [of _ "mem s"]) simp

lemma only_memory_trans: "only_memory s s1 \<Longrightarrow> only_memory s1 s2 \<Longrightarrow> only_memory s s2"
  unfolding only_memory_def by auto

lemma only_memory_set [simp]: "only_memory s (s\<lparr>mem := m\<rparr>)"
  unfolding only_memory_def by blast

lemma only_memory_fold: "(\<And>x s. only_memory s (f x s)) \<Longrightarrow> only_memory s (fold f xs s)"
proof (induction xs arbitrary: s)
  case (Cons x xs)
  then show ?case using only_memory_trans [of s "f x s"] by simp
qed simp

lemma only_memory_kfree [simp]: "only_memory s (kfree p s)"
  by (simp add: kfree_def)

lemma only_memory_paging_free: "only_memory s (paging_free_4gb c s)"
proof -
  let ?f = "\<lambda>i s. kfree (load32 (mem s) (word_at (d_entry (mem s) c) (of_nat i)) AND 0xFFFFF000) s"
  have "only_memory s (fold ?f [0..<0x400] s)" by (rule only_memory_fold) simp
  then show ?thesis unfolding paging_free_4gb_def Let_def
    by (rule only_memory_trans [OF only_memory_trans [OF _ only_memory_kfree] only_memory_kfree])
qed

lemma only_memory_process_free: "only_memory s (process_free p q s)"
  by (simp add: process_free_def Let_def case_prod_unfold kfree_def put32_def split: option.split)

lemma only_memory_terminal: "only_memory s (snd (process_terminal_allocations p s))"
  unfolding process_terminal_allocations_def snd_conv by (rule only_memory_fold) (simp add: only_memory_process_free)

lemma only_memory_fields:
  fixes s :: "'a pstate_scheme"
  shows "only_memory s s' \<Longrightarrow> processes s' = processes s \<and> current_process s' = current_process s"
  unfolding only_memory_def by auto

section \<open>Releasing a list of regions\<close>

lemma remove_region:
  assumes "kheap_ok s" "(unat q, k) \<in> kheap_live s" "A \<subseteq> kheap_live s"
  shows "A - {(unat q, k)} = {r \<in> A. fst r \<noteq> unat q}"
proof (rule set_eqI)
  fix r :: "nat \<times> nat"
  have "r \<in> A \<Longrightarrow> fst r = unat q \<Longrightarrow> snd r = k"
    using live_same_base [OF assms(1,2), of "snd r"] assms(3) by (metis prod.collapse subsetD)
  then show "r \<in> A - {(unat q, k)} \<longleftrightarrow> r \<in> {r \<in> A. fst r \<noteq> unat q}" by (cases r) auto
qed

lemma kfree_all:
  assumes "kheap_ok s" "distinct qs" "\<And>q. q \<in> set qs \<Longrightarrow> \<exists>k. (unat q, k) \<in> kheap_live s"
  shows "kheap_ok (fold kfree qs s) \<and> kheap_live (fold kfree qs s) = {r \<in> kheap_live s. fst r \<notin> unat ` set qs}
    \<and> (\<forall>a. \<not> kheap_reserved a \<longrightarrow> mem (fold kfree qs s) a = mem s a)"
  using assms
proof (induction qs arbitrary: s)
  case (Cons q qs)
  obtain k where k: "(unat q, k) \<in> kheap_live s" using Cons.prems(3) [of q] by auto
  note r = kh.release_ok [OF Cons.prems(1) k] kh.release_live [OF Cons.prems(1) k] kh.release_frame [OF Cons.prems(1) k]
  have live: "kheap_live (kfree q s) = {r \<in> kheap_live s. fst r \<noteq> unat q}"
    unfolding r(2) by (rule remove_region [OF Cons.prems(1) k order_refl])
  have "\<exists>k. (unat x, k) \<in> kheap_live (kfree q s)" if "x \<in> set qs" for x
  proof -
    have "x \<noteq> q" using Cons.prems(2) that by auto
    then show ?thesis using Cons.prems(3) [of x] that unfolding live by (auto simp: word_unat_eq_iff)
  qed
  with Cons.IH [OF r(1)] Cons.prems(2) have ih: "kheap_ok (fold kfree qs (kfree q s))"
    "kheap_live (fold kfree qs (kfree q s)) = {r \<in> kheap_live (kfree q s). fst r \<notin> unat ` set qs}"
    "\<And>a. \<not> kheap_reserved a \<Longrightarrow> mem (fold kfree qs (kfree q s)) a = mem (kfree q s) a" by simp_all
  then show ?case using r(3) by (simp add: live conj_assoc)
qed simp

text \<open>A word of a live region, when only bytes of the block table change.\<close>

lemma region_byte:
  assumes "kheap_ok s" "(unat q, k) \<in> kheap_live s" "i < k"
  shows "unat (q + of_nat i) = unat q + i" "\<not> kheap_reserved (q + of_nat i)"
proof -
  show u: "unat (q + of_nat i) = unat q + i"
    using kheap_live_bounds [OF assms(2)] assms(3) by (simp add: unat_word_ariths unat_of_nat32)
  show "\<not> kheap_reserved (q + of_nat i)" by (rule kh.live_public [OF assms(1,2)]) (use u assms(3) in simp_all)
qed

lemma region_word:
  assumes "kheap_ok s" "(unat q, k) \<in> kheap_live s" "b + 4 \<le> k" "\<And>a. \<not> kheap_reserved a \<Longrightarrow> m' a = m a"
  shows "load32 m' (q + of_nat b) = load32 m (q + of_nat b)"
proof (rule load32_cong)
  fix j :: nat assume "j < 4"
  then show "m' (q + of_nat b + of_nat j) = m (q + of_nat b + of_nat j)"
    using assms(4) region_byte(2) [OF assms(1,2), of "b + j"] assms(3) by (simp add: add.assoc)
qed

section \<open>The image of a process\<close>

text \<open>The regions that hold the program: the loaded binary, or the file and the structure of the loader.\<close>

definition process_image :: "memory \<Rightarrow> u32 \<Rightarrow> u32 list" where
  "process_image m p =
     (if process_filetype m p = PROCESS_FORMAT_FBIN then [process_ptr m p]
      else if process_filetype m p = PROCESS_FORMAT_ELF \<and> process_ptr m p \<noteq> 0
        then [elf_memory m (process_ptr m p), process_ptr m p] else [])"

definition image_status :: "memory \<Rightarrow> u32 \<Rightarrow> u32" where
  "image_status m p =
     (if process_filetype m p = PROCESS_FORMAT_FBIN \<or> process_filetype m p = PROCESS_FORMAT_ELF then 0 else - EINVARG)"

lemma process_unload_image:
  "process_unload_process p s = (image_status (mem s) p, fold kfree (process_image (mem s) p) s)"
  by (simp add: process_unload_process_def process_image_def image_status_def elf_close_def)

lemma task_list_remove_state:
  fixes s :: "'a pstate_scheme"
  shows "mem (task_list_remove t s) = (if task_prev (mem s) t \<noteq> 0
      then store32 (mem s) (task_prev (mem s) t + 60) (task_link (mem s) t) else mem s)"
    and "kernel_heap (task_list_remove t s) = kernel_heap s" "processes (task_list_remove t s) = processes s"
    "current_process (task_list_remove t s) = current_process s"
  by (simp_all add: task_list_remove_def Let_def put32_def)

text \<open>A process that can end: its image and its stack are regions of their own, apart from the process, its task and
  the recorded allocations; the task before it on the list is a live region.\<close>

definition ending_ok :: "'a pstate_scheme \<Rightarrow> u32 \<Rightarrow> bool" where
  "ending_ok s p \<longleftrightarrow> (let m = mem s; c = process_page_directory m p; t = process_task m p; own = kheap_live s - chunk_regions m c;
       qs = process_image m p @ [process_stack m p] in
     process_ok s p \<and> distinct qs
     \<and> (\<forall>q \<in> set qs. q \<noteq> p \<and> q \<noteq> t \<and> q \<notin> fst ` set (allocations m p) \<and> (\<exists>k. (unat q, k) \<in> own))
     \<and> (process_filetype m p = PROCESS_FORMAT_ELF \<longrightarrow> (\<exists>k \<ge> 116. (unat (process_ptr m p), k) \<in> own))
     \<and> (task_prev m t \<noteq> 0 \<longrightarrow> task_prev m t \<noteq> p \<and> (\<exists>k \<ge> 64. (unat (task_prev m t), k) \<in> kheap_live s)))"

section \<open>After the allocations\<close>

text \<open>A region of the process that is not a recorded allocation is live after them, with its words.\<close>

lemma terminal_keeps:
  assumes "process_ok s p" "process_terminal_allocations p s = (r, s1)"
    "(unat q, k) \<in> kheap_live s - chunk_regions (mem s) (process_page_directory (mem s) p)" "q \<notin> fst ` set (allocations (mem s) p)"
  shows "(unat q, k) \<in> kheap_live s1"
    and "i < k \<Longrightarrow> q \<noteq> p \<or> i < 116 \<or> 8308 \<le> i \<Longrightarrow> mem s1 (q + of_nat i) = mem s (q + of_nat i)"
proof -
  have s1: "s1 = snd (process_terminal_allocations p s)" using assms(2) by simp
  note l = terminal_loop [OF assms(1) order_refl, folded s1]
  have "s1 = fold (\<lambda>i s. if allocation_ptr (mem s) p i \<noteq> 0 then process_free p (allocation_ptr (mem s) p i) s else s) [0..<1024] s"
    unfolding s1 by (simp add: process_terminal_allocations_def MAX_ALLOCATIONS_ALLOWED_PER_PROCESS_def)
  note l = terminal_loop [OF assms(1) order_refl, folded this]
  have "\<not> recorded (allocations (mem s) p) 1024 (unat q)"
  proof
    assume "recorded (allocations (mem s) p) 1024 (unat q)"
    then obtain i where i: "i < 1024" "unat (fst (allocations (mem s) p ! i)) = unat q" by (auto simp: recorded_def)
    then have "fst (allocations (mem s) p ! i) = q" by (simp add: word_unat_eq_iff)
    then have "q \<in> fst ` set (allocations (mem s) p)" using i(1) by (metis image_eqI length_allocations nth_mem)
    then show False using assms(4) by blast
  qed
  then show live: "(unat q, k) \<in> kheap_live s1" using l assms(3) by simp
  assume i: "i < k" "q \<noteq> p \<or> i < 116 \<or> 8308 \<le> i"
  note ok = process_okD [OF assms(1)]
  have u: "unat (q + of_nat i) = unat q + i"
    using kheap_live_bounds [of "unat q" k s] assms(3) i(1) by (simp add: unat_word_ariths unat_of_nat32)
  have "held s1 (q + of_nat i)" using l live u i(1) process_okD(1) by (intro live_held [of s1 "unat q" k]) auto
  moreover have "off_tables (mem s) (process_page_directory (mem s) p) (q + of_nat i)"
    by (rule region_off_chunk(1) [OF ok(1-3) assms(3)]) (use u i(1) in simp_all)
  moreover have "\<not> in_region (p + 116) 8192 (q + of_nat i)"
  proof (cases "q = p")
    case True
    have "unat (p + 116) = unat p + 116" using ok(6) by (simp add: unat_word_ariths)
    then show ?thesis using i(2) u True in_region_interval [of "p + 116" 8192 "q + of_nat i"] ok(6) by auto
  next
    case False
    then show ?thesis by (rule own_byte_off(2) [OF assms(1,3) _ i(1)])
  qed
  ultimately show "mem s1 (q + of_nat i) = mem s (q + of_nat i)" using l by blast
qed

lemma ending_okD:
  assumes "ending_ok s p"
  defines "c \<equiv> process_page_directory (mem s) p" and "t \<equiv> process_task (mem s) p"
  shows "process_ok s p" "distinct (process_image (mem s) p @ [process_stack (mem s) p])"
    and "\<And>q. q \<in> set (process_image (mem s) p @ [process_stack (mem s) p]) \<Longrightarrow> q \<noteq> p \<and> q \<noteq> t \<and> q \<notin> fst ` set (allocations (mem s) p)
       \<and> (\<exists>k. (unat q, k) \<in> kheap_live s - chunk_regions (mem s) c)"
    and "process_filetype (mem s) p = PROCESS_FORMAT_ELF \<Longrightarrow> \<exists>k \<ge> 116. (unat (process_ptr (mem s) p), k) \<in> kheap_live s - chunk_regions (mem s) c"
    and "task_prev (mem s) t \<noteq> 0 \<Longrightarrow> task_prev (mem s) t \<noteq> p \<and> (\<exists>k \<ge> 64. (unat (task_prev (mem s) t), k) \<in> kheap_live s)"
    and "p \<notin> fst ` set (allocations (mem s) p)" "t \<notin> fst ` set (allocations (mem s) p)"
proof -
  note e = assms(1) [unfolded ending_ok_def Let_def, folded c_def t_def]
  show ok: "process_ok s p" using e by blast
  show "distinct (process_image (mem s) p @ [process_stack (mem s) p])"
    "\<And>q. q \<in> set (process_image (mem s) p @ [process_stack (mem s) p]) \<Longrightarrow> q \<noteq> p \<and> q \<noteq> t \<and> q \<notin> fst ` set (allocations (mem s) p)
       \<and> (\<exists>k. (unat q, k) \<in> kheap_live s - chunk_regions (mem s) c)"
    "process_filetype (mem s) p = PROCESS_FORMAT_ELF \<Longrightarrow> \<exists>k \<ge> 116. (unat (process_ptr (mem s) p), k) \<in> kheap_live s - chunk_regions (mem s) c"
    "task_prev (mem s) t \<noteq> 0 \<Longrightarrow> task_prev (mem s) t \<noteq> p \<and> (\<exists>k \<ge> 64. (unat (task_prev (mem s) t), k) \<in> kheap_live s)"
    using e by blast+
  note o = process_owner [OF ok, folded c_def t_def, unfolded owner_ok_def]
  have nz: "p \<noteq> 0" "t \<noteq> 0" using o live_base [of p] live_base [of t] by blast+
  have "fst (allocations (mem s) p ! i) \<noteq> p \<and> fst (allocations (mem s) p ! i) \<noteq> t" if "i < 1024" for i
  proof -
    have "slot_ok (kheap_live s - chunk_regions (mem s) c) p t (allocations (mem s) p ! i)" using o that by simp
    then show ?thesis using nz by (auto simp: slot_ok_def split: if_splits)
  qed
  then show "p \<notin> fst ` set (allocations (mem s) p)" "t \<notin> fst ` set (allocations (mem s) p)"
    by (force simp: in_set_conv_nth)+
qed

text \<open>The fields the rest of \<^verbatim>\<open>process_terminate\<close> reads are as before.\<close>

lemma terminal_fields:
  assumes "ending_ok s p" "process_terminal_allocations p s = (r, s1)"
  defines "t \<equiv> process_task (mem s) p"
  shows "process_image (mem s1) p = process_image (mem s) p" "image_status (mem s1) p = image_status (mem s) p"
    "process_stack (mem s1) p = process_stack (mem s) p" "process_task (mem s1) p = t" "process_id (mem s1) p = process_id (mem s) p"
    "task_prev (mem s1) t = task_prev (mem s) t"
proof -
  note e = ending_okD [OF assms(1), folded t_def] and ok = process_okD [OF ending_okD(1) [OF assms(1)], folded t_def]
  note keep = terminal_keeps [OF e(1) assms(2)]
  obtain k where k: "9364 \<le> k" "(unat p, k) \<in> kheap_live s - chunk_regions (mem s) (process_page_directory (mem s) p)" using ok(8) by blast
  obtain n where n: "64 \<le> n" "(unat t, n) \<in> kheap_live s - chunk_regions (mem s) (process_page_directory (mem s) p)" using ok(9) by blast
  have byte: "mem s1 (p + of_nat i) = mem s (p + of_nat i)" if "i < 116 \<or> 8308 \<le> i" "i < 9364" for i
    by (rule keep(2) [OF k(2) e(6)]) (use that k(1) in auto)
  have word: "load32 (mem s1) (p + of_nat b) = load32 (mem s) (p + of_nat b)" if "b + 4 \<le> 116 \<or> 8308 \<le> b" "b + 4 \<le> 9364" for b
  proof (rule load32_cong)
    fix j :: nat assume "j < 4"
    then show "mem s1 (p + of_nat b + of_nat j) = mem s (p + of_nat b + of_nat j)"
      using byte [of "b + j"] that by (auto simp: add.assoc)
  qed
  show fields: "process_stack (mem s1) p = process_stack (mem s) p" "process_task (mem s1) p = t" "process_id (mem s1) p = process_id (mem s) p"
    using word [of 8316] word [of 112] word [of 0] by (simp_all add: process_stack_def process_task_def process_id_def t_def)
  have type: "process_filetype (mem s1) p = process_filetype (mem s) p" and ptr: "process_ptr (mem s1) p = process_ptr (mem s) p"
    using byte [of 8308] word [of 8312] by (simp_all add: process_filetype_def process_ptr_def)
  then show "image_status (mem s1) p = image_status (mem s) p" by (simp add: image_status_def)
  have "elf_memory (mem s1) (process_ptr (mem s) p) = elf_memory (mem s) (process_ptr (mem s) p)"
    if elf: "process_filetype (mem s) p = PROCESS_FORMAT_ELF" "process_ptr (mem s) p \<noteq> 0"
  proof -
    let ?q = "process_ptr (mem s) p"
    obtain l where l: "116 \<le> l" "(unat ?q, l) \<in> kheap_live s - chunk_regions (mem s) (process_page_directory (mem s) p)"
      using e(4) [OF elf(1)] by blast
    have "PROCESS_FORMAT_ELF \<noteq> PROCESS_FORMAT_FBIN" by (simp add: PROCESS_FORMAT_ELF_def PROCESS_FORMAT_FBIN_def)
    then have "?q \<in> set (process_image (mem s) p @ [process_stack (mem s) p])" using elf by (simp add: process_image_def)
    then have q: "?q \<notin> fst ` set (allocations (mem s) p)" "?q \<noteq> p" using e(3) by blast+
    have "mem s1 (?q + of_nat (112 + j)) = mem s (?q + of_nat (112 + j))" if "j < 4" for j
      by (rule keep(2) [OF l(2) q(1)]) (use that l(1) q(2) in auto)
    then show ?thesis unfolding elf_memory_def by (intro load32_cong) (simp add: add.assoc)
  qed
  then show "process_image (mem s1) p = process_image (mem s) p" using type ptr by (simp add: process_image_def)
  have "mem s1 (t + of_nat (56 + j)) = mem s (t + of_nat (56 + j))" if "j < 4" for j
    by (rule keep(2) [OF n(2) e(7)]) (use that n(1) ok(7) in auto)
  then show "task_prev (mem s1) t = task_prev (mem s) t"
    unfolding task_prev_def by (intro load32_cong) (simp add: add.assoc)
qed

section \<open>The task goes\<close>

lemma task_free_state:
  fixes s :: "'a pstate_scheme"
  assumes "kheap_ok s" "wf_chunk (mem s) c" "chunk_regions (mem s) c \<subseteq> kheap_live s" "c = task_page_directory (mem s) t"
    "(unat t, n) \<in> kheap_live s - chunk_regions (mem s) c" "64 \<le> n"
    "task_prev (mem s) t \<noteq> 0 \<Longrightarrow> \<forall>i < 4. \<not> kheap_reserved (task_prev (mem s) t + 60 + of_nat i)"
  defines "s' \<equiv> snd (task_free t s)"
  shows "kheap_ok s'" "kheap_live s' = {r \<in> kheap_live s - chunk_regions (mem s) c. fst r \<noteq> unat t}"
    "processes s' = processes s" "current_process s' = current_process s"
    "\<lbrakk>\<not> kheap_reserved a; task_prev (mem s) t = 0 \<or> (\<forall>i < 4. a \<noteq> task_prev (mem s) t + 60 + of_nat i)\<rbrakk> \<Longrightarrow> mem s' a = mem s a"
proof -
  let ?s1 = "paging_free_4gb c s"
  let ?s2 = "task_list_remove t ?s1"
  note f = paging_free_4gb_ok [OF assms(1-3)]
  have s': "s' = kfree t ?s2" by (simp add: s'_def task_free_def assms(4))
  have live_t: "(unat t, n) \<in> kheap_live s" "(unat t, n) \<in> kheap_live ?s1" using assms(5) f(2) by simp_all
  have region: "unat t + n \<le> 4294967296" using kh.live_bounds [OF assms(1) live_t(1)] by simp
  show "processes s' = processes s" "current_process s' = current_process s"
    using only_memory_fields [OF only_memory_paging_free [of s c]] by (simp_all add: s' kfree_def task_list_remove_state(3,4))
  have "\<not> kheap_reserved (t + of_nat (56 + i))" if "i < 4" for i
  proof (rule kh.live_public [OF assms(1) live_t(1)])
    have "unat (t + of_nat (56 + i)) = unat t + (56 + i)" using region assms(6) that
      by (simp add: unat_word_ariths unat_of_nat32 del: of_nat_add)
    then show "unat t \<le> unat (t + of_nat (56 + i))" "unat (t + of_nat (56 + i)) < unat t + n" using assms(6) that by simp_all
  qed
  then have prev: "task_prev (mem ?s1) t = task_prev (mem s) t"
    unfolding task_prev_def by (intro load32_cong) (simp add: f(3) add.assoc)
  have mem2: "mem ?s2 a = mem ?s1 a" if "task_prev (mem s) t = 0 \<or> (\<forall>i < 4. a \<noteq> task_prev (mem s) t + 60 + of_nat i)" for a
    using that unfolding task_list_remove_state(1) prev by (auto intro: store32_other)
  have res: "mem ?s2 a = mem ?s1 a" if "kheap_reserved a" for a
  proof (rule mem2, cases "task_prev (mem s) t = 0")
    case False
    then have "a \<noteq> task_prev (mem s) t + 60 + of_nat i" if "i < 4" for i
      using assms(7) [OF False] that \<open>kheap_reserved a\<close> by metis
    then show "task_prev (mem s) t = 0 \<or> (\<forall>i < 4. a \<noteq> task_prev (mem s) t + 60 + of_nat i)" by blast
  qed simp
  note h = kheap_mem_cong [OF task_list_remove_state(2) res]
  have live2: "(unat t, n) \<in> kheap_live ?s2" and ok2: "kheap_ok ?s2" using live_t(2) f(1) h by simp_all
  show "kheap_ok s'" unfolding s' by (rule kh.release_ok [OF ok2 live2])
  have "kheap_live s' = kheap_live s - chunk_regions (mem s) c - {(unat t, n)}"
    using kh.release_live [OF ok2 live2] h(2) f(2) unfolding s' by (simp only:)
  then show "kheap_live s' = {r \<in> kheap_live s - chunk_regions (mem s) c. fst r \<noteq> unat t}"
    unfolding remove_region [OF assms(1) live_t(1) Diff_subset] .
  show "mem s' a = mem s a" if "\<not> kheap_reserved a" "task_prev (mem s) t = 0 \<or> (\<forall>i < 4. a \<noteq> task_prev (mem s) t + 60 + of_nat i)"
    unfolding s' kh.release_frame [OF ok2 live2 that(1)] mem2 [OF that(2)] by (rule f(3) [OF that(1)])
qed

section \<open>The whole routine\<close>

text \<open>The state in which \<^verbatim>\<open>process_unlink\<close> is called.\<close>

definition before_unlink :: "u32 \<Rightarrow> 'a pstate_scheme \<Rightarrow> 'a pstate_scheme" where
  "before_unlink p s = (let s1 = snd (process_terminal_allocations p s);
     s3 = fold kfree (process_image (mem s1) p @ [process_stack (mem s1) p]) s1 in snd (task_free (process_task (mem s3) p) s3))"

lemma recorded_iff: "recorded as (length as) n \<longleftrightarrow> n \<noteq> 0 \<and> n \<in> unat ` fst ` set as"
proof -
  have "recorded as (length as) n \<longleftrightarrow> (\<exists>x \<in> set as. fst x \<noteq> 0 \<and> unat (fst x) = n)"
    unfolding recorded_def set_conv_nth by blast
  moreover have "fst x \<noteq> 0 \<longleftrightarrow> unat (fst x) \<noteq> 0" for x :: "u32 \<times> u32" by (simp add: unat_eq_zero)
  ultimately show ?thesis by (auto simp only: image_iff bex_simps)
qed

text \<open>No page of the directory is one of the regions released with the process.\<close>

lemma chunk_regions_apart:
  assumes "ending_ok s p" "r \<in> chunk_regions (mem s) (process_page_directory (mem s) p)"
  shows "fst r \<notin> unat ` (set (process_image (mem s) p @ [process_stack (mem s) p]) \<union> fst ` set (allocations (mem s) p))"
proof
  note e = ending_okD [OF assms(1)] and ok = process_okD [OF ending_okD(1) [OF assms(1)]]
  assume "fst r \<in> unat ` (set (process_image (mem s) p @ [process_stack (mem s) p]) \<union> fst ` set (allocations (mem s) p))"
  then obtain x where x: "fst r = unat x"
    "x \<in> set (process_image (mem s) p @ [process_stack (mem s) p]) \<or> x \<in> fst ` set (allocations (mem s) p)" by blast
  have live: "(unat x, snd r) \<in> kheap_live s" using assms(2) ok(3) x(1) by (metis prod.collapse subsetD)
  then have "x \<noteq> 0" using live_base by blast
  have "\<exists>k. (unat x, k) \<in> kheap_live s - chunk_regions (mem s) (process_page_directory (mem s) p)"
    using x(2)
  proof
    assume "x \<in> fst ` set (allocations (mem s) p)"
    then obtain i where i: "i < 1024" "fst (allocations (mem s) p ! i) = x" by (auto simp: in_set_conv_nth)
    then have "slot_ok (kheap_live s - chunk_regions (mem s) (process_page_directory (mem s) p)) p (process_task (mem s) p) (allocations (mem s) p ! i)"
      using process_owner [OF e(1)] by (simp add: owner_ok_def)
    then show ?thesis using i(2) \<open>x \<noteq> 0\<close> by (auto simp: slot_ok_def)
  qed (use e(3) in blast)
  then obtain k where k: "(unat x, k) \<in> kheap_live s" "(unat x, k) \<notin> chunk_regions (mem s) (process_page_directory (mem s) p)" by blast
  with live_same_base [OF ok(1) live k(1)] assms(2) x(1) show False by (metis prod.collapse)
qed

text \<open>After the allocations, the image and the stack.\<close>

lemma image_released:
  assumes "ending_ok s p" "process_terminal_allocations p s = (r, s1)"
  defines "c \<equiv> process_page_directory (mem s) p" and "qs \<equiv> process_image (mem s) p @ [process_stack (mem s) p]"
  defines "s3 \<equiv> fold kfree qs s1"
  shows "kheap_ok s3" "chunk_regions (mem s) c \<subseteq> kheap_live s3" "wf_chunk (mem s3) c" "chunk_regions (mem s3) c = chunk_regions (mem s) c"
    "kheap_live s3 = {r \<in> kheap_live s. fst r \<notin> unat ` (set qs \<union> fst ` set (allocations (mem s) p))}"
    "\<And>a. \<not> kheap_reserved a \<Longrightarrow> mem s3 a = mem s1 a"
    "process_page_directory (mem s1) p = c" "kheap_ok s1"
    "\<And>q k. (unat q, k) \<in> kheap_live s - chunk_regions (mem s) c \<Longrightarrow> q \<notin> set qs \<Longrightarrow> q \<notin> fst ` set (allocations (mem s) p) \<Longrightarrow>
       (unat q, k) \<in> kheap_live s3 - chunk_regions (mem s) c"
proof -
  note e = ending_okD [OF assms(1), folded c_def qs_def] and ok = process_okD [OF ending_okD(1) [OF assms(1)], folded c_def]
  have "s1 = fold (\<lambda>i s. if allocation_ptr (mem s) p i \<noteq> 0 then process_free p (allocation_ptr (mem s) p i) s else s) [0..<1024] s"
    using assms(2) by (simp add: process_terminal_allocations_def MAX_ALLOCATIONS_ALLOWED_PER_PROCESS_def)
  note l = terminal_loop [OF e(1) order_refl, folded this c_def]
  show pd: "process_page_directory (mem s1) p = c" using l by blast
  have ok1: "process_ok s1 p" and R1: "chunk_regions (mem s1) c = chunk_regions (mem s) c" using l by blast+
  note o1 = process_okD [OF ok1, unfolded pd]
  show "kheap_ok s1" by (rule o1(1))
  have "\<exists>k. (unat q, k) \<in> kheap_live s1" if "q \<in> set qs" for q
    using terminal_keeps(1) [OF e(1) assms(2)] e(3) [OF that] unfolding c_def by blast
  note rel = kfree_all [OF o1(1) e(2) this, folded s3_def]
  show "kheap_ok s3" and frame: "\<And>a. \<not> kheap_reserved a \<Longrightarrow> mem s3 a = mem s1 a" using rel by blast+
  have page: "mem s3 a = mem s1 a" if "page_base a = page_base c \<or> \<not> off_directory (mem s1) (d_entry (mem s1) c) a" for a
    using frame held_public [OF chunk_region_held(3) [OF o1(1-3) that]] by blast
  show "wf_chunk (mem s3) c" "chunk_regions (mem s3) c = chunk_regions (mem s) c"
    using chunk_kept(2,4) [OF o1(2) page] R1 by simp_all
  have rec: "recorded (allocations (mem s) p) 1024 n \<longleftrightarrow> n \<noteq> 0 \<and> n \<in> unat ` fst ` set (allocations (mem s) p)" for n
    using recorded_iff [of "allocations (mem s) p" n] by simp
  have "fst r \<noteq> 0" if "r \<in> kheap_live s" for r using kh.live_bounds [OF ok(1), of "fst r" "snd r"] that by simp
  moreover have "kheap_live s1 = {r \<in> kheap_live s. \<not> recorded (allocations (mem s) p) 1024 (fst r)}" using l by blast
  ultimately show live: "kheap_live s3 = {r \<in> kheap_live s. fst r \<notin> unat ` (set qs \<union> fst ` set (allocations (mem s) p))}"
    using rel unfolding rec image_Un Un_iff by (simp only:) blast
  show own: "(unat q, k) \<in> kheap_live s3 - chunk_regions (mem s) c"
    if "(unat q, k) \<in> kheap_live s - chunk_regions (mem s) c" "q \<notin> set qs" "q \<notin> fst ` set (allocations (mem s) p)" for q k
  proof -
    have "unat q \<notin> unat ` (set qs \<union> fst ` set (allocations (mem s) p))"
      using that(2,3) by (metis UnE imageE word_unat_eq_iff)
    then show ?thesis using that(1) unfolding live by simp
  qed
  show "chunk_regions (mem s) c \<subseteq> kheap_live s3"
    using ok(3) chunk_regions_apart [OF assms(1), folded c_def qs_def] unfolding live by blast
qed

lemma before_unlink_state:
  assumes "ending_ok s p"
  defines "c \<equiv> process_page_directory (mem s) p" and "t \<equiv> process_task (mem s) p"
    and "qs \<equiv> process_image (mem s) p @ [process_stack (mem s) p]" and "u \<equiv> before_unlink p s"
  shows "process_terminate p s = andthen (process_unlink p) (\<lambda>_. ret (image_status (mem s) p)) u"
    "kheap_ok u" "kheap_live u = {r \<in> kheap_live s - chunk_regions (mem s) c.
       fst r \<notin> unat ` (insert t (set qs \<union> fst ` set (allocations (mem s) p)))}"
    "processes u = processes s" "current_process u = current_process s" "process_id (mem u) p = process_id (mem s) p"
proof -
  define s1 where "s1 = snd (process_terminal_allocations p s)"
  define s3 where "s3 = fold kfree qs s1"
  have ended: "process_terminal_allocations p s = (0, s1)" by (simp add: s1_def process_terminal_allocations_def)
  note e = ending_okD [OF assms(1), folded c_def t_def qs_def] and ok = process_okD [OF ending_okD(1) [OF assms(1)], folded c_def t_def]
  note f = terminal_fields [OF assms(1) ended, folded t_def]
  note im = image_released [OF assms(1) ended, folded c_def qs_def s3_def]
  obtain k where k: "9364 \<le> k" "(unat p, k) \<in> kheap_live s - chunk_regions (mem s) c" using ok(8) by blast
  obtain n where n: "64 \<le> n" "(unat t, n) \<in> kheap_live s - chunk_regions (mem s) c" using ok(9) by blast
  have p3: "(unat p, k) \<in> kheap_live s3" and t3: "(unat t, n) \<in> kheap_live s3 - chunk_regions (mem s) c"
    using im(9) [OF k(2)] im(9) [OF n(2)] e(3,6,7) by blast+
  have word: "load32 (mem s3) (q + of_nat b) = load32 (mem s1) (q + of_nat b)" if "(unat q, l) \<in> kheap_live s3" "b + 4 \<le> l" for q l b
    by (rule region_word [OF im(1) that im(6)])
  have t: "process_task (mem s3) p = t" and id: "process_id (mem s3) p = process_id (mem s) p"
    and prev: "task_prev (mem s3) t = task_prev (mem s) t"
    using word [OF p3, of 112] word [OF p3, of 0] word [of t n 56] t3 k(1) n(1) f(4-6)
    by (simp_all add: process_task_def process_id_def task_prev_def)
  have "task_page_directory (mem s3) t = task_page_directory (mem s1) t"
    using word [of t n 0] t3 n(1) by (simp add: task_page_directory_def)
  then have c: "c = task_page_directory (mem s3) t" using im(7) f(4) by (simp add: process_page_directory_def)
  have u: "u = snd (task_free t s3)"
    using t unfolding u_def before_unlink_def Let_def s1_def [symmetric] f(1,3) qs_def [symmetric] s3_def [symmetric] by simp
  have free: "\<forall>i < 4. \<not> kheap_reserved (task_prev (mem s3) t + 60 + of_nat i)" if "task_prev (mem s3) t \<noteq> 0"
  proof (intro allI impI)
    fix i :: nat assume i: "i < 4"
    have "task_prev (mem s) t \<noteq> 0" using that prev by simp
    then obtain l where l: "64 \<le> l" "(unat (task_prev (mem s) t), l) \<in> kheap_live s" using e(5) by blast
    have "60 + i < l" using i l(1) by simp
    then show "\<not> kheap_reserved (task_prev (mem s3) t + 60 + of_nat i)"
      using region_byte(2) [OF ok(1) l(2), of "60 + i"] prev by (simp add: add.assoc)
  qed
  note tf = task_free_state [OF im(1,3) _ c, unfolded im(4), OF im(2) t3 n(1) free, folded u]
  show "kheap_ok u" by (rule tf(1); assumption)
  have live: "kheap_live u = {r \<in> kheap_live s3 - chunk_regions (mem s) c. fst r \<noteq> unat t}" by (rule tf(2); assumption)
  show "kheap_live u = {r \<in> kheap_live s - chunk_regions (mem s) c. fst r \<notin> unat ` (insert t (set qs \<union> fst ` set (allocations (mem s) p)))}"
    unfolding live im(5) by auto
  have o: "only_memory s s3"
    unfolding s3_def s1_def by (rule only_memory_trans [OF only_memory_terminal only_memory_fold]) simp
  have "processes u = processes s3" "current_process u = current_process s3" by (rule tf(3,4); assumption)+
  then show "processes u = processes s" "current_process u = current_process s" using only_memory_fields [OF o] by simp_all
  have "mem u (p + of_nat j) = mem s3 (p + of_nat j)" if j: "j < 4" for j
  proof (rule tf(5))
    show "\<not> kheap_reserved (p + of_nat j)" by (rule region_byte(2) [OF im(1) p3]) (use j k(1) in simp)
    have "p + of_nat j \<noteq> task_prev (mem s3) t + 60 + of_nat i" if i: "i < 4" "task_prev (mem s) t \<noteq> 0" for i
    proof
      assume eq: "p + of_nat j = task_prev (mem s3) t + 60 + of_nat i"
      obtain l where l: "64 \<le> l" "(unat (task_prev (mem s) t), l) \<in> kheap_live s" "task_prev (mem s) t \<noteq> p" using e(5) [OF i(2)] by auto
      have a: "unat (task_prev (mem s) t + of_nat (60 + i)) = unat (task_prev (mem s) t) + (60 + i)"
        by (rule region_byte(1) [OF ok(1) l(2)]) (use i l(1) in simp)
      have b: "unat (p + of_nat j) = unat p + j" by (rule region_byte(1) [OF im(1) p3]) (use j k(1) in simp)
      have "unat p + j = unat (task_prev (mem s) t) + (60 + i)" using a b eq prev by (simp add: add.assoc)
      then have "(unat p, k) = (unat (task_prev (mem s) t), l)"
        using i(1) j k l(1) by (intro kh.live_disjoint [OF ok(1) _ l(2), of "unat p" k "unat p + j"]) auto
      then show False using l(3) by (simp add: word_unat_eq_iff)
    qed
    then show "task_prev (mem s3) t = 0 \<or> (\<forall>i < 4. p + of_nat j \<noteq> task_prev (mem s3) t + 60 + of_nat i)" using prev by auto
  qed
  then have "process_id (mem u) p = process_id (mem s3) p" unfolding process_id_def by (intro load32_cong)
  then show "process_id (mem u) p = process_id (mem s) p" using id by simp
  show "process_terminate p s = andthen (process_unlink p) (\<lambda>_. ret (image_status (mem s) p)) u"
  proof -
    let ?s2 = "fold kfree (process_image (mem s) p) s1"
    have "\<exists>l. (unat q, l) \<in> kheap_live s1" if "q \<in> set (process_image (mem s) p)" for q
      using terminal_keeps(1) [OF e(1) ended] e(3) [of q] that unfolding c_def qs_def by auto
    moreover have "distinct (process_image (mem s) p)" using e(2) by (simp add: qs_def)
    ultimately have two: "\<And>a. \<not> kheap_reserved a \<Longrightarrow> mem ?s2 a = mem s1 a" using kfree_all [OF im(8)] by blast
    have "(unat p, k) \<in> kheap_live s1" using terminal_keeps(1) [OF e(1) ended] k(2) e(6) unfolding c_def by blast
    from region_word [OF im(8) this, of 8316 "mem ?s2", OF _ two] k(1)
    have stack: "process_stack (mem ?s2) p = process_stack (mem s) p" using f(3) by (simp add: process_stack_def)
    have s3: "s3 = kfree (process_stack (mem s) p) ?s2" by (simp add: s3_def qs_def)
    show ?thesis
      by (simp add: process_terminate_def run_simps ended process_unload_image f(1,2) stack s3 [symmetric] t u)
  qed
qed

section \<open>A process that can end\<close>

lemma task_apart:
  assumes "process_ok s p" "i < 9364" "j < 64"
  shows "p + of_nat i \<noteq> process_task (mem s) p + of_nat j"
proof
  note ok = process_okD [OF assms(1)]
  obtain k where k: "9364 \<le> k" "(unat p, k) \<in> kheap_live s" using ok(8) by blast
  obtain n where n: "64 \<le> n" "(unat (process_task (mem s) p), n) \<in> kheap_live s" using ok(9) by blast
  assume eq: "p + of_nat i = process_task (mem s) p + of_nat j"
  have "unat p + i = unat (process_task (mem s) p) + j"
    using region_byte(1) [OF ok(1) k(2), of i] region_byte(1) [OF ok(1) n(2), of j] eq assms(2,3) k(1) n(1) by simp
  then have "(unat p, k) = (unat (process_task (mem s) p), n)"
    using assms(2,3) k n by (intro kh.live_disjoint [OF ok(1) k(2) n(2), of "unat p + i"]) auto
  then show False using ok(7) by (simp add: word_unat_eq_iff)
qed

text \<open>Writes to the fields behind the table and to the task, behind its directory, keep the process well-formed.\<close>

definition free_fields :: "u32 \<Rightarrow> u32 \<Rightarrow> u32 \<Rightarrow> bool" where
  "free_fields p t a \<longleftrightarrow> (\<exists>i. 8308 \<le> i \<and> i < 9364 \<and> a = p + of_nat i) \<or> (\<exists>i. 4 \<le> i \<and> i < 64 \<and> a = t + of_nat i)"

lemma process_ok_write:
  assumes "process_ok s p" "\<And>a. \<not> free_fields p (process_task (mem s) p) a \<Longrightarrow> m' a = mem s a"
  defines "c \<equiv> process_page_directory (mem s) p" and "t \<equiv> process_task (mem s) p" and "s' \<equiv> s\<lparr>mem := m'\<rparr>"
  shows "process_ok s' p" "kheap_live s' = kheap_live s" "allocations m' p = allocations (mem s) p"
    "process_page_directory m' p = c" "process_task m' p = t" "chunk_regions m' c = chunk_regions (mem s) c"
proof -
  note ok = process_okD [OF assms(1), folded c_def t_def]
  obtain k where k: "9364 \<le> k" "(unat p, k) \<in> kheap_live s - chunk_regions (mem s) c" using ok(8) by blast
  obtain n where n: "64 \<le> n" "(unat t, n) \<in> kheap_live s - chunk_regions (mem s) c" using ok(9) by blast
  have live: "(unat p, k) \<in> kheap_live s" "(unat t, n) \<in> kheap_live s" using k n by simp_all
  note up = region_byte(1) [OF ok(1) live(1)] and ut = region_byte(1) [OF ok(1) live(2)]
  note apart = task_apart [OF assms(1), folded t_def]
  have region: "\<exists>q l. (q, l) \<in> kheap_live s - chunk_regions (mem s) c \<and> q \<le> unat a \<and> unat a < q + l" if "free_fields p t a" for a
    using that up ut k n unfolding free_fields_def by (elim disjE exE conjE) fastforce+
  note keep = assms(2) [folded t_def]
  have p_bytes: "m' (p + of_nat i) = mem s (p + of_nat i)" if "i < 8308" for i
  proof (rule keep)
    have "p + of_nat i \<noteq> p + of_nat j" if "8308 \<le> j" "j < 9364" for j
      using up [of i] up [of j] that \<open>i < 8308\<close> k(1) by auto
    then show "\<not> free_fields p t (p + of_nat i)" using apart that unfolding free_fields_def by auto
  qed
  have t_bytes: "m' (t + of_nat i) = mem s (t + of_nat i)" if "i < 4" for i
  proof (rule keep)
    have "t + of_nat i \<noteq> t + of_nat j" if "4 \<le> j" "j < 64" for j
      using ut [of i] ut [of j] that \<open>i < 4\<close> n(1) by auto
    then show "\<not> free_fields p t (t + of_nat i)" using apart [of _ i] that unfolding free_fields_def by force
  qed
  note ch = process_ok_change [OF assms(1) _ p_bytes t_bytes [unfolded t_def], folded c_def t_def s'_def]
  have "\<exists>q l. (q, l) \<in> kheap_live s - chunk_regions (mem s) c \<and> q \<le> unat a \<and> unat a < q + l" if "m' a \<noteq> mem s a" for a
    using that keep region by blast
  note ch = ch [OF this]
  show "process_ok s' p" "kheap_live s' = kheap_live s" "allocations m' p = allocations (mem s) p"
    "process_page_directory m' p = c" "process_task m' p = t" "chunk_regions m' c = chunk_regions (mem s) c"
    by (rule ch; assumption)+
qed

text \<open>The process of a fresh heap, given a binary and a stack.\<close>

lemma ending_process_ready:
  obtains p and s :: pstate where "ending_ok s p" "allocations (mem s) p = replicate 1024 (0, 0)" "image_status (mem s) p = 0"
proof -
  obtain p and s0 :: pstate where s0: "process_ok s0 p" "allocations (mem s0) p = replicate 1024 (0, 0)" "3000 \<le> free_blocks s0"
    by (rule process_ready) blast
  let ?c = "process_page_directory (mem s0) p" and ?t = "process_task (mem s0) p"
  have one: "(0 :: u32) < 100" "unat (100 :: u32) \<le> 4096" by simp_all
  have f0: "0 < free_blocks s0" using s0(3) by simp
  let ?q1 = "fst (kzalloc 100 s0)" and ?s1 = "snd (kzalloc 100 s0)"
  note r0 = free_block_room [OF f0 one]
  obtain b where "Suc (free_blocks ?s1) = free_blocks s0" by (rule kzalloc_page [OF process_okD(1) [OF s0(1)] f0 one]) blast
  then have f1: "0 < free_blocks ?s1" using s0(3) by linarith
  obtain n1 where s1: "kheap_live ?s1 = insert (unat ?q1, n1) (kheap_live s0)" "\<And>k. (unat ?q1, k) \<notin> kheap_live s0" "?q1 \<noteq> 0"
    "process_ok ?s1 p" "allocations (mem ?s1) p = allocations (mem s0) p" "process_task (mem ?s1) p = ?t"
    "process_page_directory (mem ?s1) p = ?c" "chunk_regions (mem ?s1) ?c = chunk_regions (mem s0) ?c"
    by (rule process_zalloc_step [OF s0(1) r0]) blast
  let ?q2 = "fst (kzalloc 100 ?s1)" and ?s2 = "snd (kzalloc 100 ?s1)"
  note r1 = free_block_room [OF f1 one]
  obtain n2 where s2: "kheap_live ?s2 = insert (unat ?q2, n2) (kheap_live ?s1)" "\<And>k. (unat ?q2, k) \<notin> kheap_live ?s1" "?q2 \<noteq> 0"
    "process_ok ?s2 p" "allocations (mem ?s2) p = allocations (mem s0) p" "process_task (mem ?s2) p = ?t"
    "process_page_directory (mem ?s2) p = ?c" "chunk_regions (mem ?s2) ?c = chunk_regions (mem s0) ?c"
    by (rule process_zalloc_step [OF s1(4) r1, unfolded s1(5-8)]) (rule that)
  note ok0 = process_okD [OF s0(1)]
  let ?base = "(store32 (mem ?s2) (?t + of_nat 56) 0)(p + of_nat 8308 := 1)"
  define m where "m = store32 (store32 ?base (p + of_nat 8312) ?q1) (p + of_nat 8316) ?q2"
  let ?s = "?s2\<lparr>mem := m\<rparr>"
  have p_store: "store32 n (p + of_nat b) v a = n a" if "\<And>i. b \<le> i \<Longrightarrow> i < b + 4 \<Longrightarrow> a \<noteq> p + of_nat i" for n b v a
  proof (rule store32_other)
    fix k :: nat assume "k < 4"
    then show "a \<noteq> p + of_nat b + of_nat k" using that [of "b + k"] by (simp add: add.assoc)
  qed
  have "m a = mem ?s2 a" if a: "\<not> free_fields p ?t a" for a
  proof -
    have t: "store32 n (?t + of_nat 56) v a = n a" for n v
    proof (rule store32_other)
      fix k :: nat assume "k < 4"
      then have "a \<noteq> ?t + of_nat (56 + k)" using a by (auto simp: free_fields_def simp del: of_nat_add)
      then show "a \<noteq> ?t + of_nat 56 + of_nat k" by (simp add: add.assoc)
    qed
    have p: "store32 n (p + of_nat b) v a = n a" if "8308 \<le> b" "b + 4 \<le> 9364" for n b v
      by (rule p_store) (use a that in \<open>auto simp: free_fields_def\<close>)
    have "free_fields p ?t (p + of_nat 8308)" unfolding free_fields_def by (intro disjI1 exI [of _ 8308]) simp
    then have "a \<noteq> p + of_nat 8308" using a by blast
    then show ?thesis using p [of 8312] p [of 8316] t unfolding m_def by (simp del: of_nat_numeral)
  qed
  note w = process_ok_write [OF s2(4), unfolded s2(6,7), OF this]
  note word = process_word [OF ok0(5,6)]
  have inj: "p + of_nat i \<noteq> p + of_nat j" if "i < j" "j < 9364" for i j
  proof -
    have "unat (p + of_nat x) = unat p + x" if "x < 9364" for x
      using that ok0(6) by (simp add: unat_word_ariths unat_of_nat32)
    from this [of i] this [of j] show ?thesis using that by auto
  qed
  have two: "m x = ?base x" if "\<And>i. 8312 \<le> i \<Longrightarrow> i < 8320 \<Longrightarrow> x \<noteq> p + of_nat i" for x
  proof -
    have "m x = store32 ?base (p + of_nat 8312) ?q1 x" unfolding m_def by (rule p_store) (use that in simp)
    also have "\<dots> = ?base x" by (rule p_store) (use that in simp)
    finally show ?thesis .
  qed
  have "m (p + of_nat 8308) = ?base (p + of_nat 8308)" by (rule two) (rule inj; simp)
  then have type: "process_filetype m p = PROCESS_FORMAT_FBIN" by (simp add: process_filetype_def PROCESS_FORMAT_FBIN_def)
  have ptr: "process_ptr m p = ?q1" "process_stack m p = ?q2"
    using word [of 8316 8312] word [of 8312 8312] word [of 8316 8316] by (simp_all add: process_ptr_def process_stack_def m_def)
  have "load32 m (?t + of_nat 56) = load32 (store32 (mem ?s2) (?t + of_nat 56) 0) (?t + of_nat 56)"
  proof (rule load32_cong)
    fix k :: nat assume "k < 4"
    then have off: "?t + of_nat 56 + of_nat k \<noteq> p + of_nat i" if "i < 9364" for i
      using task_apart [OF s0(1) that, of "56 + k"] by (auto simp: add.assoc)
    have "m (?t + of_nat 56 + of_nat k) = ?base (?t + of_nat 56 + of_nat k)" by (rule two) (rule off; simp)
    then show "m (?t + of_nat 56 + of_nat k) = store32 (mem ?s2) (?t + of_nat 56) 0 (?t + of_nat 56 + of_nat k)"
      using off [of 8308] by simp
  qed
  then have prev: "task_prev m ?t = 0" by (simp add: task_prev_def load32_store32_same)
  have al: "allocations m p = replicate 1024 (0, 0)" using w(3) s2(5) s0(2) by simp
  have image: "process_image m p = [?q1]" "image_status m p = 0" by (simp_all add: process_image_def image_status_def type ptr)
  have new: "q \<noteq> p \<and> q \<noteq> ?t \<and> (\<exists>k. (unat q, k) \<in> kheap_live ?s - chunk_regions (mem s0) ?c)" if "q = ?q1 \<or> q = ?q2" for q
  proof -
    have fresh: "(unat q, k) \<notin> kheap_live s0" for k using that s1(1,2) s2(2) by auto
    have live: "\<exists>k. (unat q, k) \<in> kheap_live ?s" using that w(2) s2(1) s1(1) by auto
    show ?thesis using fresh live ok0(3,8,9) by blast
  qed
  have "?q1 \<noteq> ?q2" using s1(1) s2(2) [of n1] by auto
  moreover have "mem ?s = m" by simp
  ultimately have "ending_ok ?s p"
    unfolding ending_ok_def Let_def
    using w(1,4-6) s2(8) image(1) ptr(2) al prev type new s1(3) s2(3) by (auto simp: PROCESS_FORMAT_ELF_def PROCESS_FORMAT_FBIN_def)
  then show thesis using al image(2) by (intro that [of ?s p]) simp_all
qed

section \<open>Property\<close>

text \<open>C1. The end of a process: \<^verbatim>\<open>process_terminate\<close> gives back its recorded allocations, its image, its stack, its
  page directory with all tables and its task, and nothing else, clears its slot in the process table and
  hands the keyboard to the first process in the table when it was the current one (the kernel panics when
  none is left). The record of the process itself is never released: its region is still live.\<close>

theorem process_terminate_correct:
  assumes "ending_ok s p" "slots = (processes s)[unat (process_id (mem s) p) := 0]"
  shows "case if current_process s = p then List.find (\<lambda>q. q \<noteq> 0) slots else Some (current_process s) of
      None \<Rightarrow> \<exists>h. process_terminate p s = Some (Halted h)
    | Some q \<Rightarrow> \<exists>s'. process_terminate p s = Some (Ret (image_status (mem s) p) s')
        \<and> current_process s' = q \<and> processes s' = slots \<and> kheap_ok s'
        \<and> kheap_live s' = {r \<in> kheap_live s - chunk_regions (mem s) (process_page_directory (mem s) p).
            fst r \<notin> unat ` ({process_task (mem s) p, process_stack (mem s) p} \<union> set (process_image (mem s) p)
                               \<union> fst ` set (allocations (mem s) p))}
        \<and> (\<exists>k \<ge> 9364. (unat p, k) \<in> kheap_live s')"
proof -
  let ?u = "before_unlink p s"
  let ?S = "{process_task (mem s) p, process_stack (mem s) p} \<union> set (process_image (mem s) p) \<union> fst ` set (allocations (mem s) p)"
  note u = before_unlink_state [OF assms(1)] and e = ending_okD [OF assms(1)] and ok = process_okD [OF ending_okD(1) [OF assms(1)]]
  let ?v = "?u\<lparr>processes := slots\<rparr>"
  have S: "insert (process_task (mem s) p) (set (process_image (mem s) p @ [process_stack (mem s) p]) \<union> fst ` set (allocations (mem s) p)) = ?S"
    by auto
  have live: "kheap_live x = {r \<in> kheap_live s - chunk_regions (mem s) (process_page_directory (mem s) p). fst r \<notin> unat ` ?S}"
    "kheap_ok x" if "mem x = mem ?u" "kernel_heap x = kernel_heap ?u" for x :: "'a pstate_scheme"
    using kheap_mem_cong [of x ?u] that u(2,3) unfolding S by simp_all
  obtain k where k: "9364 \<le> k" "(unat p, k) \<in> kheap_live s - chunk_regions (mem s) (process_page_directory (mem s) p)" using ok(8) by blast
  have "p \<notin> ?S" using e(3) [of p] e(6) ok(7) by auto
  then have "unat p \<notin> unat ` ?S" by (metis imageE word_unat_eq_iff)
  then have leak: "\<exists>k \<ge> 9364. (unat p, k) \<in> {r \<in> kheap_live s - chunk_regions (mem s) (process_page_directory (mem s) p). fst r \<notin> unat ` ?S}"
    using k by auto
  have run: "process_terminate p s = (if current_process s = p
      then andthen process_switch_available (\<lambda>_. ret (image_status (mem s) p)) ?v else Some (Ret (image_status (mem s) p) ?v))"
    unfolding u(1) by (simp add: process_unlink_def run_simps u(4-6) assms(2))
  have slots: "processes ?v = slots" by simp
  show ?thesis
  proof (cases "current_process s = p")
    case False
    then show ?thesis using run live [of ?v] leak u(5) by simp
  next
    case True
    show ?thesis
    proof (cases "List.find (\<lambda>q. q \<noteq> 0) slots")
      case None
      then show ?thesis using True run by (simp add: process_switch_available_def run_simps andthen_def)
    next
      case (Some q)
      then show ?thesis using True run live [of "process_switch q ?v"] leak
        by (simp add: process_switch_available_def run_simps andthen_def process_switch_def)
    qed
  qed
qed

theorem process_terminate_correct_witness:
  "\<exists>(s :: pstate) p s' k. process_terminate p s = Some (Ret 0 s') \<and> current_process s' = 0
     \<and> (unat (process_task (mem s) p), k) \<in> kheap_live s \<and> (unat (process_task (mem s) p), k) \<notin> kheap_live s'"
proof -
  obtain p and s0 :: pstate where s0: "ending_ok s0 p" "allocations (mem s0) p = replicate 1024 (0, 0)" "image_status (mem s0) p = 0"
    by (rule ending_process_ready) blast
  let ?s = "s0\<lparr>current_process := 0\<rparr>"
  have m: "mem ?s = mem s0" by simp
  have "kheap_ok ?s = kheap_ok s0" "kheap_live ?s = kheap_live s0" by (rule kheap_mem_cong; simp)+
  then have ready: "ending_ok ?s p" using s0(1) by (simp add: ending_ok_def process_ok_def)
  note ok = process_okD [OF ending_okD(1) [OF ready]]
  have "p \<noteq> 0" using ok(8) live_base [of p] by blast
  then obtain s' where s': "process_terminate p ?s = Some (Ret 0 s')" "current_process s' = 0"
    "kheap_live s' = {r \<in> kheap_live ?s - chunk_regions (mem ?s) (process_page_directory (mem ?s) p).
            fst r \<notin> unat ` ({process_task (mem ?s) p, process_stack (mem ?s) p} \<union> set (process_image (mem ?s) p)
                               \<union> fst ` set (allocations (mem ?s) p))}"
    using process_terminate_correct [OF ready refl] s0(3) by auto
  obtain k where k: "(unat (process_task (mem ?s) p), k) \<in> kheap_live ?s" using ok(9) by blast
  have "(unat (process_task (mem ?s) p), k) \<notin> kheap_live s'" unfolding s'(3) by simp
  with s'(1,2) k show ?thesis by blast
qed

end
