(* ===== verification/ProcessRuns.thy ===== *)
theory ProcessRuns
  imports ProcessMemory
begin

text \<open>
  The life of a process as far as its memory goes: sequences of requests that the heap can serve, releases and
  writes to its own allocations, as an inductive relation, with its invariant and the isolation of everybody
  else's memory.
\<close>

section \<open>Steps\<close>

text \<open>The steps are a specification of what a process may do, not a translation of a routine. A request is a step
  when it fits the free memory, or meets a full table and is refused. \<^verbatim>\<open>process_malloc\<close> itself takes any size:
  one that does not fit is excluded here, because \<^verbatim>\<open>kmalloc\<close> then returns an address outside every region live before
  (\<open>kmalloc_exhausted\<close>) and \<^verbatim>\<open>kzalloc\<close> clears memory from there on. A release may name any address whatever, and
  a write goes to a recorded allocation.\<close>

inductive process_step :: "u32 \<Rightarrow> 'a pstate_scheme \<Rightarrow> 'a pstate_scheme \<Rightarrow> bool" for p where
  request: "kheap_room sz s \<or> (\<forall>i < 1024. fst (allocations (mem s) p ! i) \<noteq> 0) \<Longrightarrow>
    process_step p s (snd (process_malloc p sz s))"
| release: "process_step p s (process_free p q s)"
| own_write: "i < 1024 \<Longrightarrow> allocations (mem s) p ! i = (q, z) \<Longrightarrow> q \<noteq> 0 \<Longrightarrow> j < unat z \<Longrightarrow>
    process_step p s (s\<lparr>mem := (mem s)(q + of_nat j := v)\<rparr>)"

inductive process_run :: "u32 \<Rightarrow> 'a pstate_scheme \<Rightarrow> 'a pstate_scheme \<Rightarrow> bool" for p where
  stay: "process_run p s s"
| more: "process_run p s s1 \<Longrightarrow> process_step p s1 s2 \<Longrightarrow> process_run p s s2"

text \<open>The regions that are not the process's to give away: not its directory's pages, not recorded. The process
  and its task are among them; only the table of allocations in the process may change.\<close>

definition foreign :: "'a pstate_scheme \<Rightarrow> u32 \<Rightarrow> (nat \<times> nat) set" where
  "foreign s p = {r \<in> kheap_live s - chunk_regions (mem s) (process_page_directory (mem s) p).
     fst r \<notin> unat ` fst ` set (allocations (mem s) p)}"

definition kept_apart :: "u32 \<Rightarrow> 'a pstate_scheme \<Rightarrow> 'a pstate_scheme \<Rightarrow> bool" where
  "kept_apart p s s' \<longleftrightarrow> foreign s p \<subseteq> foreign s' p
     \<and> (\<forall>q k a. (q, k) \<in> foreign s p \<longrightarrow> q \<le> unat a \<longrightarrow> unat a < q + k \<longrightarrow> \<not> in_region (p + 116) 8192 a \<longrightarrow> mem s' a = mem s a)"

lemma kept_apart_refl: "kept_apart p s s"
  by (simp add: kept_apart_def)

lemma kept_apart_trans: "kept_apart p s s1 \<Longrightarrow> kept_apart p s1 s2 \<Longrightarrow> kept_apart p s s2"
  unfolding kept_apart_def by (metis subset_trans subsetD)

lemma foreign_off:
  assumes "process_ok s p" "(q, k) \<in> foreign s p" "q \<le> unat a" "unat a < q + k"
  shows "held s a" "off_tables (mem s) (process_page_directory (mem s) p) a"
proof -
  note ok = process_okD [OF assms(1)]
  have f: "(q, k) \<in> kheap_live s - chunk_regions (mem s) (process_page_directory (mem s) p)" using assms(2) by (simp add: foreign_def)
  then show "held s a" using live_held [OF ok(1) _ assms(3,4)] by simp
  show "off_tables (mem s) (process_page_directory (mem s) p) a" by (rule region_off_chunk(1) [OF ok(1-3) f assms(3,4)])
qed

section \<open>One step\<close>

text \<open>One entry of the table is overwritten: what is live still, and not at the new address, stays foreign.\<close>

lemma foreign_update:
  assumes "allocations (mem s') p = (allocations (mem s) p)[i := (x, z)]"
    "process_page_directory (mem s') p = process_page_directory (mem s) p"
    "chunk_regions (mem s') (process_page_directory (mem s) p) = chunk_regions (mem s) (process_page_directory (mem s) p)"
    "\<And>r. r \<in> foreign s p \<Longrightarrow> r \<in> kheap_live s' \<and> fst r \<noteq> unat x"
  shows "foreign s p \<subseteq> foreign s' p"
proof
  fix r assume r: "r \<in> foreign s p"
  have "set ((allocations (mem s) p)[i := (x, z)]) \<subseteq> insert (x, z) (set (allocations (mem s) p))" by (rule set_update_subset_insert)
  then have "unat ` fst ` set ((allocations (mem s) p)[i := (x, z)]) \<subseteq> unat ` fst ` insert (x, z) (set (allocations (mem s) p))"
    by (intro image_mono)
  then have "fst r \<notin> unat ` fst ` set (allocations (mem s') p)" using r assms(4) [OF r] unfolding assms(1) by (auto simp: foreign_def)
  then show "r \<in> foreign s' p" using r assms(2-4) by (simp add: foreign_def)
qed

lemma no_slot:
  assumes "\<And>i. i < 1024 \<Longrightarrow> fst (allocations (mem s) p ! i) \<noteq> 0"
  shows "process_malloc p sz s = (0, s)"
proof -
  have "allocation_ptr (mem s) p i \<noteq> 0" if "i < 1024" for i using assms [OF that] that by (simp add: nth_allocations)
  then have "List.find (\<lambda>i. allocation_ptr (mem s) p i = 0) [0..<1024] = None" by (auto simp: find_None_iff)
  then have "process_find_free_allocation_slot p (mem s) = - ENOMEM"
    by (simp add: process_find_free_allocation_slot_def MAX_ALLOCATIONS_ALLOWED_PER_PROCESS_def)
  then show ?thesis by (simp add: process_malloc_def ENOMEM_def word_sless_alt)
qed

lemma request_step:
  assumes "process_ok s p" "kheap_room sz s \<or> (\<forall>i < 1024. fst (allocations (mem s) p ! i) \<noteq> 0)"
  shows "process_ok (snd (process_malloc p sz s)) p \<and> kept_apart p s (snd (process_malloc p sz s))"
proof (cases "\<exists>i < 1024. fst (allocations (mem s) p ! i) = 0")
  case True
  let ?P = "\<lambda>i. i < 1024 \<and> fst (allocations (mem s) p ! i) = 0" and ?q = "fst (process_malloc p sz s)" and ?s = "snd (process_malloc p sz s)"
  obtain i where i: "i < 1024" "fst (allocations (mem s) p ! i) = 0" and first: "\<And>j. j < i \<Longrightarrow> \<not> ?P j"
    using True exists_least_iff [of ?P] by auto
  then have room: "kheap_room sz s" using assms(2) by blast
  have before: "fst (allocations (mem s) p ! j) \<noteq> 0" if "j < i" for j using first [OF that] i(1) that by simp
  obtain n where n: "kheap_live ?s = insert (unat ?q, n) (kheap_live s)" "\<And>k. (unat ?q, k) \<notin> kheap_live s"
    "process_ok ?s p" "allocations (mem ?s) p = (allocations (mem s) p)[i := (?q, sz)]"
    "process_page_directory (mem ?s) p = process_page_directory (mem s) p"
    "chunk_regions (mem ?s) (process_page_directory (mem s) p) = chunk_regions (mem s) (process_page_directory (mem s) p)"
    "\<And>a. held s a \<Longrightarrow> off_tables (mem s) (process_page_directory (mem s) p) a \<Longrightarrow> \<not> in_region (p + 116) 8192 a \<Longrightarrow> mem ?s a = mem s a"
    using process_malloc_run [OF assms(1) room i before] by metis
  have "fst r \<noteq> unat ?q" if "r \<in> kheap_live s" for r using n(2) [of "snd r"] that by (metis prod.collapse)
  then have "foreign s p \<subseteq> foreign ?s p" by (intro foreign_update [OF n(4-6)]) (auto simp: foreign_def n(1))
  then show ?thesis using n(3,7) foreign_off [OF assms(1)] unfolding kept_apart_def by blast
next
  case False
  then show ?thesis using no_slot [of s p sz] assms(1) kept_apart_refl by auto
qed

lemma release_step:
  assumes "process_ok s p"
  shows "process_ok (process_free p q s) p \<and> kept_apart p s (process_free p q s)"
proof (cases "q = 0 \<or> q \<notin> fst ` set (allocations (mem s) p)")
  case True
  then show ?thesis using process_free_nothing [OF assms True] assms kept_apart_refl by simp
next
  case False
  then obtain i where i: "i < 1024" "fst (allocations (mem s) p ! i) = q" by (auto simp: in_set_conv_nth)
  let ?s = "process_free p q s"
  have at: "allocations (mem s) p ! i = (q, snd (allocations (mem s) p ! i))" using i(2) by (simp add: prod_eq_iff)
  have "q \<noteq> 0" using False by blast
  obtain n where n: "kheap_live ?s = kheap_live s - {(unat q, n)}"
    "process_ok ?s p" "allocations (mem ?s) p = (allocations (mem s) p)[i := (0, 0)]"
    "process_page_directory (mem ?s) p = process_page_directory (mem s) p"
    "chunk_regions (mem ?s) (process_page_directory (mem s) p) = chunk_regions (mem s) (process_page_directory (mem s) p)"
    "\<And>a. held s a \<Longrightarrow> off_tables (mem s) (process_page_directory (mem s) p) a \<Longrightarrow> \<not> in_region (p + 116) 8192 a \<Longrightarrow> mem ?s a = mem s a"
    using process_free_run [OF assms i(1) at \<open>q \<noteq> 0\<close>] by metis
  have "fst r \<noteq> unat 0" if "r \<in> kheap_live s" for r
    using kh.live_bounds [OF process_okD(1) [OF assms], of "fst r" "snd r"] that by simp
  moreover have "unat q \<in> unat ` fst ` set (allocations (mem s) p)" using False by blast
  then have "r \<noteq> (unat q, n)" if "r \<in> foreign s p" for r
    using that unfolding foreign_def by (metis (no_types, lifting) fst_conv mem_Collect_eq)
  ultimately have "r \<in> kheap_live ?s \<and> fst r \<noteq> unat 0" if "r \<in> foreign s p" for r
    using that unfolding n(1) foreign_def by blast
  then have "foreign s p \<subseteq> foreign ?s p" by (rule foreign_update [OF n(3-5)])
  then show ?thesis using n(2,6) foreign_off [OF assms] unfolding kept_apart_def by blast
qed

lemma own_write_step:
  assumes "process_ok s p" "i < 1024" "allocations (mem s) p ! i = (q, z)" "q \<noteq> 0" "j < unat z"
  shows "process_ok (s\<lparr>mem := (mem s)(q + of_nat j := v)\<rparr>) p \<and> kept_apart p s (s\<lparr>mem := (mem s)(q + of_nat j := v)\<rparr>)"
proof -
  note ok = process_okD [OF assms(1)]
  let ?c = "process_page_directory (mem s) p" and ?a = "q + of_nat j"
  obtain n where n: "unat z \<le> n" "(unat q, n) \<in> kheap_live s - chunk_regions (mem s) ?c" using process_slot(1) [OF assms(1-4)] by blast
  have u: "unat ?a = unat q + j"
    using kheap_live_bounds [of "unat q" n s] n assms(5) by (simp add: unat_word_ariths unat_of_nat32)
  have outside: "fst r = unat q" if "r \<in> kheap_live s" "fst r \<le> unat ?a" "unat ?a < fst r + snd r" for r
    using kh.live_disjoint [OF ok(1), of "fst r" "snd r" "unat q" n "unat ?a"] that n assms(5) u by auto
  have rec: "slot_ok (kheap_live s - chunk_regions (mem s) ?c) p (process_task (mem s) p) (q, z)"
    using process_owner [OF assms(1)] assms(2,3) by (metis owner_ok_def length_allocations)
  then have pt: "q \<noteq> p" "q \<noteq> process_task (mem s) p" using assms(4) by (simp_all add: slot_ok_def)
  have p_off: "?a \<noteq> p + of_nat x" if "x < 9364" for x
  proof
    assume "?a = p + of_nat x"
    then have "in_region p 9364 ?a" using that by (simp add: in_region_offset)
    then obtain k where "(unat p, k) \<in> kheap_live s" "unat p \<le> unat ?a" "unat ?a < unat p + k" using process_bytes(1) [OF assms(1)] by blast
    with outside [of "(unat p, k)"] pt(1) show False by (simp add: word_unat_eq_iff)
  qed
  have t_off: "?a \<noteq> process_task (mem s) p + of_nat x" if x: "x < 64" for x
  proof
    assume eq: "?a = process_task (mem s) p + of_nat x"
    obtain k where "(unat (process_task (mem s) p), k) \<in> kheap_live s" "unat (process_task (mem s) p) \<le> unat ?a"
      "unat ?a < unat (process_task (mem s) p) + k" using process_bytes(2) [OF assms(1) x] unfolding eq by blast
    with outside [of "(unat (process_task (mem s) p), k)"] pt(2) show False by (simp add: word_unat_eq_iff)
  qed
  have only: "\<exists>q l. (q, l) \<in> kheap_live s - chunk_regions (mem s) ?c \<and> q \<le> unat a \<and> unat a < q + l"
    if "((mem s)(?a := v)) a \<noteq> mem s a" for a
    using that n u assms(5) by (intro exI [of _ "unat q"] exI [of _ n]) (auto split: if_splits)
  have same: "((mem s)(?a := v)) (p + of_nat x) = mem s (p + of_nat x)" if "x < 8308" for x
    using p_off [of x] that by auto
  have same_t: "((mem s)(?a := v)) (process_task (mem s) p + of_nat x) = mem s (process_task (mem s) p + of_nat x)" if "x < 4" for x
    using t_off [of x] that by auto
  note ch = process_ok_change [OF assms(1) only same same_t]
  have ch: "process_ok (s\<lparr>mem := (mem s)(?a := v)\<rparr>) p" "kheap_live (s\<lparr>mem := (mem s)(?a := v)\<rparr>) = kheap_live s"
    "allocations ((mem s)(?a := v)) p = allocations (mem s) p" "process_page_directory ((mem s)(?a := v)) p = ?c"
    "chunk_regions ((mem s)(?a := v)) ?c = chunk_regions (mem s) ?c"
    by (rule ch; assumption)+
  have "foreign (s\<lparr>mem := (mem s)(?a := v)\<rparr>) p = foreign s p" unfolding foreign_def using ch(2-5) by simp
  moreover have "?a \<noteq> b" if "(x, k) \<in> foreign s p" "x \<le> unat b" "unat b < x + k" for x k b
  proof
    assume "?a = b"
    then have "x = unat q" using outside [of "(x, k)"] that by (simp add: foreign_def)
    moreover have "q \<in> fst ` set (allocations (mem s) p)" using assms(2,3) by (metis fst_conv image_eqI length_allocations nth_mem)
    ultimately show False using that(1) by (auto simp: foreign_def)
  qed
  ultimately show ?thesis using ch(1) unfolding kept_apart_def by auto
qed

section \<open>Runs\<close>

lemma process_step_ok: "process_step p s s' \<Longrightarrow> process_ok s p \<Longrightarrow> process_ok s' p \<and> kept_apart p s s'"
proof (induction rule: process_step.induct)
  case (request sz s)
  then show ?case using request_step by blast
next
  case (release s q)
  then show ?case using release_step by blast
next
  case (own_write i s q z j v)
  then show ?case using own_write_step by blast
qed

lemma process_run_ok: "process_run p s s' \<Longrightarrow> process_ok s p \<Longrightarrow> process_ok s' p \<and> kept_apart p s s'"
proof (induction rule: process_run.induct)
  case (more s s1 s2)
  then show ?case using process_step_ok [of p s1 s2] kept_apart_trans [of p s s1 s2] by blast
qed (simp add: kept_apart_refl)

lemma process_run_step: "process_step p s s' \<Longrightarrow> process_run p s s'"
  by (rule process_run.more [OF process_run.stay])

text \<open>Two recorded allocations do not overlap, nor does one meet a foreign region.\<close>

lemma allocations_apart:
  assumes "process_ok s p" "i < 1024" "allocations (mem s) p ! i = (q, z)" "q \<noteq> 0" "unat q \<le> x" "x < unat q + unat z"
  shows "j < 1024 \<Longrightarrow> j \<noteq> i \<Longrightarrow> allocations (mem s) p ! j = (r, w) \<Longrightarrow> r \<noteq> 0 \<Longrightarrow> \<not> (unat r \<le> x \<and> x < unat r + unat w)"
    and "(b, k) \<in> foreign s p \<Longrightarrow> \<not> (b \<le> x \<and> x < b + k)"
proof -
  note ok = process_okD(1) [OF assms(1)]
  obtain n where n: "unat z \<le> n" "(unat q, n) \<in> kheap_live s" using process_slot(1) [OF assms(1-4)] by auto
  have x: "x < unat q + n" using assms(6) n(1) by simp
  show "\<not> (unat r \<le> x \<and> x < unat r + unat w)" if j: "j < 1024" "j \<noteq> i" "allocations (mem s) p ! j = (r, w)" "r \<noteq> 0"
  proof
    assume r: "unat r \<le> x \<and> x < unat r + unat w"
    obtain l where l: "unat w \<le> l" "(unat r, l) \<in> kheap_live s" using process_slot(1) [OF assms(1) j(1,3,4)] by auto
    have "(unat q, n) = (unat r, l)"
      using r l(1) x by (intro kh.live_disjoint [OF ok n(2) l(2) assms(5)]) simp_all
    then show False using process_slot(3) [OF assms(1-4) j(1,2)] j(3) by (simp add: word_unat_eq_iff)
  qed
  assume f: "(b, k) \<in> foreign s p"
  have "unat q \<in> unat ` fst ` set (allocations (mem s) p)"
    using assms(2,3) by (metis fst_conv image_eqI length_allocations nth_mem)
  then have "b \<noteq> unat q" "(b, k) \<in> kheap_live s" using f by (auto simp: foreign_def)
  then show "\<not> (b \<le> x \<and> x < b + k)" using kh.live_disjoint [OF ok n(2) _ assms(5) x] by blast
qed

section \<open>Properties\<close>

text \<open>C9. The memory of a process keeps its type: after any sequence of requests that fit the free memory or meet a full
  table, releases of any addresses and writes to its allocations the process is well-formed, every recorded
  allocation lies in a live region of at least its size, and two recorded allocations never share a byte. A
  request that does not fit is not such a step: it is recorded with an address that was in no live region and
  that \<^verbatim>\<open>kmalloc\<close> could not reserve.\<close>

theorem process_always_ok:
  assumes "process_run p s s'" "process_ok s p"
  shows "process_ok s' p
    \<and> (\<forall>i < 1024. \<forall>q z. allocations (mem s') p ! i = (q, z) \<longrightarrow> q \<noteq> 0 \<longrightarrow> (\<exists>n \<ge> unat z. (unat q, n) \<in> kheap_live s'))
    \<and> (\<forall>i < 1024. \<forall>j < 1024. \<forall>q z r w x. i \<noteq> j \<longrightarrow> allocations (mem s') p ! i = (q, z) \<longrightarrow> allocations (mem s') p ! j = (r, w) \<longrightarrow>
         q \<noteq> 0 \<longrightarrow> r \<noteq> 0 \<longrightarrow> unat q \<le> x \<longrightarrow> x < unat q + unat z \<longrightarrow> \<not> (unat r \<le> x \<and> x < unat r + unat w))"
proof (intro conjI allI impI)
  show ok: "process_ok s' p" using process_run_ok [OF assms] by blast
  show "\<exists>n \<ge> unat z. (unat q, n) \<in> kheap_live s'" if "i < 1024" "allocations (mem s') p ! i = (q, z)" "q \<noteq> 0" for i q z
    using process_slot(1) [OF ok that] by auto
qed (use allocations_apart(1) process_run_ok [OF assms] in metis)

theorem process_always_ok_witness:
  "\<exists>(s :: pstate) p s' q. process_run p s s' \<and> process_ok s' p \<and> allocations (mem s') p ! 0 = (q, 100) \<and> q \<noteq> 0"
proof -
  obtain p q n and s s' :: pstate where s: "process_ok s p" "kheap_room 100 s" "process_malloc p 100 s = (q, s')" "q \<noteq> 0"
    "allocations (mem s') p = (q, 100) # replicate 1023 (0, 0)"
    by (rule process_first_request) blast
  have run: "process_run p s s'" using process_run_step [OF process_step.request [OF disjI1 [OF s(2)]], of p] s(3) by simp
  show ?thesis using process_always_ok [OF run s(1)] run s(4,5) by (intro exI [of _ s] exI [of _ p] exI [of _ s'] exI [of _ q]) simp
qed

text \<open>C8. Isolation, as long as memory lasts: through any sequence of requests that fit the free memory or meet a full
  table, releases (of addresses the process does not own included) and writes to its allocations, every region
  that is not the process's own stays live, and no byte of it changes, the table of allocations in the process
  structure apart. A request that does not fit is not such a step, and the code does not isolate it:
  \<^verbatim>\<open>kzalloc\<close> then clears memory at an address that \<^verbatim>\<open>kmalloc\<close> did not reserve.\<close>

theorem process_isolation:
  assumes "process_run p s s'" "process_ok s p" "(q, k) \<in> kheap_live s" "q \<notin> unat ` fst ` set (allocations (mem s) p)"
    "(q, k) \<notin> chunk_regions (mem s) (process_page_directory (mem s) p)"
  shows "(q, k) \<in> kheap_live s' \<and> (\<forall>a. q \<le> unat a \<and> unat a < q + k \<and> \<not> in_region (p + 116) 8192 a \<longrightarrow> mem s' a = mem s a)"
proof -
  have f: "(q, k) \<in> foreign s p" using assms(3-5) by (simp add: foreign_def)
  have ka: "kept_apart p s s'" using process_run_ok [OF assms(1,2)] by blast
  then have "(q, k) \<in> foreign s' p" using f unfolding kept_apart_def by blast
  then show ?thesis using f ka unfolding kept_apart_def by (simp add: foreign_def)
qed

theorem process_isolation_witness:
  "\<exists>(s :: pstate) p s' t k. process_run p s s' \<and> s' \<noteq> s \<and> t = process_task (mem s) p \<and> (unat t, k) \<in> kheap_live s' \<and> mem s' t = mem s t"
proof -
  obtain p q n and s s' :: pstate where s: "process_ok s p" "kheap_room 100 s" "process_malloc p 100 s = (q, s')" "q \<noteq> 0"
    "allocations (mem s) p = replicate 1024 (0, 0)" "allocations (mem s') p = (q, 100) # replicate 1023 (0, 0)"
    by (rule process_first_request) blast
  let ?t = "process_task (mem s) p"
  have run: "process_run p s s'" using process_run_step [OF process_step.request [OF disjI1 [OF s(2)]], of p] s(3) by simp
  obtain k where k: "64 \<le> k" "(unat ?t, k) \<in> kheap_live s" "(unat ?t, k) \<notin> chunk_regions (mem s) (process_page_directory (mem s) p)"
    using process_okD(9) [OF s(1)] by auto
  have "?t \<noteq> 0" using live_base [OF k(2)] by blast
  then have t: "unat ?t \<notin> unat ` fst ` set (allocations (mem s) p)" unfolding s(5) by (simp add: unat_eq_zero)
  have "?t \<noteq> p" using process_okD(7) [OF s(1)] by simp
  then have "\<not> in_region (p + 116) 8192 ?t" using own_byte_off(2) [OF s(1), of ?t k 0] k by simp
  moreover have "allocations (mem s') p ! 0 = (q, 100)" "allocations (mem s) p ! 0 = (0, 0)" by (simp_all add: s(5,6))
  then have "s' \<noteq> s" using s(4) by auto
  moreover have "(unat ?t, k) \<in> kheap_live s'" "mem s' ?t = mem s ?t"
    using process_isolation [OF run s(1) k(2) t k(3)] k(1) calculation(1) by auto
  ultimately show ?thesis using run by blast
qed

end
