(* ===== verification/UserLib.thy ===== *)
theory UserLib
  imports Effects
begin

text \<open>
  The user library and the two C programs: \<^verbatim>\<open>src/programs/stdlib/src\<close>, \<^verbatim>\<open>src/programs/shell/src/shell.c\<close> and
  \<^verbatim>\<open>src/programs/cblank/blank.c\<close>. The state is the memory of one process, with what the system calls
  of the assembly stubs deliver: the values of successive \<^verbatim>\<open>sys_get_key\<close> and \<^verbatim>\<open>sys_malloc\<close> calls come
  from outside, the characters handed to the screen and the commands handed to the kernel are recorded.
  A \<^verbatim>\<open>print\<close> shows at most 1023 characters, the size of the kernel's buffer. Routines of \<^verbatim>\<open>string.c\<close> that
  repeat the kernel's file are those of \<open>CString\<close>; \<open>UserString\<close> translates the copies and proves them equal.
\<close>

section \<open>State\<close>

record user =
  umem :: memory
  strtok_sp :: u32
  text_at :: u32
  scommand_at :: u32
  run_buf_at :: u32
  line_buf_at :: u32
  format_at :: u32
  typed :: "nat \<Rightarrow> u8"
  typed_read :: nat
  shown :: "u8 list"
  granted :: "nat \<Rightarrow> u32"
  granted_count :: nat
  freed :: "u32 list"
  commands_run :: "u32 list"
  start_arguments :: "u32 \<times> u32"

text \<open>The status code of the library's own \<^verbatim>\<open>status.h\<close>.\<close>

definition U_EINVARG :: u32 where "U_EINVARG = 1"

section \<open>The system calls\<close>

definition u_print :: "u32 \<Rightarrow> user \<Rightarrow> user" where
  "u_print msg s = s\<lparr>shown := shown s @ str_upto (umem s) msg 1023\<rparr>"

definition u_print_lit :: "string \<Rightarrow> user \<Rightarrow> user" where
  "u_print_lit msg s = s\<lparr>shown := shown s @ map of_char msg\<rparr>"

definition kernel_getkey :: "user \<Rightarrow> u8 \<times> user" where
  "kernel_getkey s = (typed s (typed_read s), s\<lparr>typed_read := Suc (typed_read s)\<rparr>)"

definition kernel_system :: "u32 \<Rightarrow> user \<Rightarrow> user" where
  "kernel_system arguments s = s\<lparr>commands_run := commands_run s @ [arguments]\<rparr>"

section \<open>\<^verbatim>\<open>stdlib.c\<close>\<close>

text \<open>The kernel hands out zeroed memory, or null.\<close>

definition malloc :: "u32 \<Rightarrow> user \<Rightarrow> u32 \<times> user" where
  "malloc sz s =
     (let ptr = granted s (granted_count s);
          s1 = s\<lparr>granted_count := Suc (granted_count s)\<rparr>
      in (ptr, if ptr = 0 then s1 else s1\<lparr>umem := memset (umem s1) ptr 0 sz\<rparr>))"

definition u_free :: "u32 \<Rightarrow> user \<Rightarrow> user" where
  "u_free ptr s = s\<lparr>freed := freed s @ [ptr]\<rparr>"

text \<open>The digits are taken off a number that is not positive.\<close>

function itoa_loop :: "u32 \<Rightarrow> u32 \<Rightarrow> u32 \<Rightarrow> memory \<Rightarrow> u32 \<times> memory" where
  "itoa_loop buf num loc m =
     (if num \<noteq> 0
      then itoa_loop buf (sdiv32 num 10) (loc - 1) (m(buf + (loc - 1) := ucast (0x30 - smod32 num 10)))
      else (loc, m))"
  by pat_completeness auto
termination
proof (relation "measure (\<lambda>(buf, num, loc, m). nat \<bar>sint num\<bar>)", goal_cases)
  case (2 buf num loc m)
  show ?case by (simp only: in_measure split_conv abs_sint_sdiv32_less [OF 2])
qed simp

declare itoa_loop.simps [simp del]

definition itoa :: "u32 \<Rightarrow> user \<Rightarrow> u32 \<times> user" where
  "itoa num s =
     (let buf = text_at s;
          m0 = (umem s)(buf + 11 := 0);
          neg = \<not> 0 \<le>s num;
          num1 = (if neg then num else - num);
          (loc1, m1) = itoa_loop buf num1 11 m0;
          (loc2, m2) = (if loc1 = 11 then (loc1 - 1, m1(buf + (loc1 - 1) := 0x30)) else (loc1, m1));
          (loc3, m3) = (if neg then (loc2 - 1, m2(buf + (loc2 - 1) := 0x2D)) else (loc2, m2))
      in (buf + loc3, s\<lparr>umem := m3\<rparr>))"

section \<open>\<^verbatim>\<open>stdio.c\<close>\<close>

definition putchar :: "u32 \<Rightarrow> user \<Rightarrow> u32 \<times> user" where
  "putchar ch s = (ch, s\<lparr>shown := shown s @ [ucast ch]\<rparr>)"

text \<open>\<^verbatim>\<open>printf\<close> with the words of its variable arguments; \<open>k\<close> of them are consumed.\<close>

partial_function (option) printf_loop :: "u32 \<Rightarrow> (nat \<Rightarrow> u32) \<Rightarrow> nat \<Rightarrow> (u32, user) run" where
  "printf_loop p args k s =
     (if umem s p = 0 then ret 0 s
      else if umem s p \<noteq> 0x25 then printf_loop (p + 1) args k (snd (putchar (scast (umem s p)) s))
      else
        let c = umem s (p + 1)
        in if c = 0x69 then printf_loop (p + 2) args (Suc k) (case itoa (args k) s of (text, s1) \<Rightarrow> u_print text s1)
           else if c = 0x73 then printf_loop (p + 2) args (Suc k) (u_print (args k) s)
           else printf_loop (p + 2) args k (snd (putchar (scast c) s)))"

definition printf :: "u32 \<Rightarrow> (nat \<Rightarrow> u32) \<Rightarrow> (u32, user) run" where
  "printf format args = printf_loop format args 0"

partial_function (option) getkey :: "user \<Rightarrow> (u8 \<times> user) option" where
  "getkey s = (case kernel_getkey s of (val, s1) \<Rightarrow> if val = 0 then getkey s1 else Some (val, s1))"

text \<open>The loop of \<^verbatim>\<open>terminal_readline\<close> at index \<open>i\<close>; a backspace behind a character steps back by one.\<close>

partial_function (option) readline_loop :: "u32 \<Rightarrow> u32 \<Rightarrow> bool \<Rightarrow> u32 \<Rightarrow> user \<Rightarrow> (u32 \<times> user) option" where
  "readline_loop out max_len echo i s =
     (if i <s max_len - 1 then
        (case getkey s of
           None \<Rightarrow> None
         | Some (key, s1) \<Rightarrow>
             if key = 0x0D then Some (i, s1)
             else
               let s2 = (if echo then snd (putchar (scast key) s1) else s1)
               in if key = 0x08 \<and> 1 \<le>s i
                  then readline_loop out max_len echo (i - 2 + 1) (s2\<lparr>umem := (umem s2)(out + (i - 1) := 0)\<rparr>)
                  else readline_loop out max_len echo (i + 1) (s2\<lparr>umem := (umem s2)(out + i := key)\<rparr>))
      else Some (i, s))"

definition terminal_readline :: "u32 \<Rightarrow> u32 \<Rightarrow> bool \<Rightarrow> (u32, user) run" where
  "terminal_readline out max_len output_while_typing =
     andthen (perhaps (readline_loop out max_len output_while_typing 0)) (\<lambda>i.
     andthen (modify (\<lambda>s. s\<lparr>umem := (umem s)(out + i := 0)\<rparr>)) (\<lambda>_. ret i))"

section \<open>\<^verbatim>\<open>strtok\<close>\<close>

text \<open>The delimiters are the characters of a literal. First the delimiters in front are skipped.\<close>

partial_function (option) strtok_skip :: "u8 list \<Rightarrow> memory \<Rightarrow> u32 \<Rightarrow> u32 option" where
  "strtok_skip delimiters m p = (if m p \<in> set delimiters then strtok_skip delimiters m (p + 1) else Some p)"

partial_function (option) strtok_end :: "u8 list \<Rightarrow> memory \<Rightarrow> u32 \<Rightarrow> (u32 \<times> memory) option" where
  "strtok_end delimiters m p =
     (if m p = 0 then Some (p, m)
      else if m p \<in> set delimiters then Some (p + 1, m(p := 0))
      else strtok_end delimiters m (p + 1))"

definition strtok :: "u32 \<Rightarrow> u8 list \<Rightarrow> user \<Rightarrow> (u32 \<times> user) option" where
  "strtok str delimiters s =
     (if str = 0 \<and> strtok_sp s = 0 then Some (0, s)
      else
        case strtok_skip delimiters (umem s) (if str \<noteq> 0 then str else strtok_sp s) of
          None \<Rightarrow> None
        | Some p_start \<Rightarrow>
            if umem s p_start = 0 then Some (0, s\<lparr>strtok_sp := 0\<rparr>)
            else case strtok_end delimiters (umem s) p_start of
                   None \<Rightarrow> None
                 | Some (sp, m) \<Rightarrow> Some (p_start, s\<lparr>strtok_sp := sp, umem := m\<rparr>))"

section \<open>\<^verbatim>\<open>BasicOS.c\<close>\<close>

text \<open>A \<^verbatim>\<open>struct command_argument\<close> is 512 bytes of text and the pointer to the next one.\<close>

definition set_umem :: "memory \<Rightarrow> user \<Rightarrow> user" where "set_umem m s = s\<lparr>umem := m\<rparr>"

definition new_argument :: "u32 \<Rightarrow> user \<Rightarrow> u32 \<times> user" where
  "new_argument token s =
     (let (a, s1) = malloc 516 s
      in if a = 0 then (0, s1)
         else (a, set_umem (store32 (strncpy (umem s1) a token 512) (a + 512) 0) s1))"

partial_function (option) parse_command_loop :: "u32 \<Rightarrow> u32 \<Rightarrow> user \<Rightarrow> user option" where
  "parse_command_loop current token s =
     (if token = 0 then Some s
      else case new_argument token s of (a, s1) \<Rightarrow>
        if a = 0 then Some s1
        else case strtok 0 [0x20] (set_umem (store32 (umem s1) (current + 512) a) s1) of
               None \<Rightarrow> None
             | Some (token', s2) \<Rightarrow> parse_command_loop a token' s2)"

definition basic_os_parse_command :: "u32 \<Rightarrow> u32 \<Rightarrow> user \<Rightarrow> (u32 \<times> user) option" where
  "basic_os_parse_command command max_len s =
     (if 1025 \<le>s max_len then Some (0, s)
      else
        case strtok (scommand_at s) [0x20] (set_umem (strncpy (umem s) (scommand_at s) command 1025) s) of
          None \<Rightarrow> None
        | Some (token, s1) \<Rightarrow>
            if token = 0 then Some (0, s1)
            else case new_argument token s1 of (root, s2) \<Rightarrow>
              if root = 0 then Some (0, s2)
              else case strtok 0 [0x20] s2 of
                     None \<Rightarrow> None
                   | Some (token', s3) \<Rightarrow> map_option (\<lambda>s4. (root, s4)) (parse_command_loop root token' s3))"

definition basic_os_system_run :: "u32 \<Rightarrow> (u32, user) run" where
  "basic_os_system_run command =
     andthen (modify (\<lambda>s. set_umem (strncpy (umem s) (run_buf_at s) command 1024) s)) (\<lambda>_.
     andthen (perhaps (basic_os_parse_command command 1024)) (\<lambda>root_command_argument.
       if root_command_argument = 0 then ret (- U_EINVARG)
       else andthen (modify (kernel_system root_command_argument)) (\<lambda>_. ret 0)))"

section \<open>Programs\<close>

text \<open>\<^verbatim>\<open>_cstart\<close> runs \<^verbatim>\<open>main\<close> with the arguments the kernel gives.\<close>

definition cstart :: "(u32 \<Rightarrow> u32 \<Rightarrow> (u32, user) run) \<Rightarrow> (unit, user) run" where
  "cstart main = andthen (gets start_arguments) (\<lambda>(argc, argv). andthen (main argc argv) (\<lambda>_. ret ()))"

definition shell_round :: "(unit, user) run" where
  "shell_round =
     andthen (modify (u_print_lit ''$ '')) (\<lambda>_.
     andthen (gets line_buf_at) (\<lambda>buf.
     andthen (terminal_readline buf 1024 True) (\<lambda>_.
     andthen (modify (u_print_lit [CHR 10])) (\<lambda>_.
     andthen (basic_os_system_run buf) (\<lambda>_. ret ())))))"

partial_function (option) shell_loop :: "user \<Rightarrow> (u32, user) outcome option" where
  "shell_loop s = andthen shell_round (\<lambda>_. shell_loop) s"

definition shell_main :: "u32 \<Rightarrow> u32 \<Rightarrow> (u32, user) run" where
  "shell_main argc argv = andthen (modify (u_print_lit (''BasicOS v1.0.0'' @ [CHR 10]))) (\<lambda>_. shell_loop)"

text \<open>The format of the argument lines of \<^verbatim>\<open>cblank\<close> lies at \<open>format_at\<close>.\<close>

partial_function (option) print_arguments :: "u32 \<Rightarrow> u32 \<Rightarrow> u32 \<Rightarrow> user \<Rightarrow> (u32, user) outcome option" where
  "print_arguments i argc argv s =
     (if i <s argc
      then andthen (printf (format_at s) (\<lambda>k. if k = 0 then i else load32 (umem s) (argv + 4 * i))) (\<lambda>_.
             print_arguments (i + 1) argc argv) s
      else ret 0 s)"

definition cblank_main :: "u32 \<Rightarrow> u32 \<Rightarrow> (u32, user) run" where
  "cblank_main argc argv =
     andthen (modify (u_print_lit (CHR 10 # ''Hello from cblank. '' @ [CHR 10]))) (\<lambda>_.
     andthen (modify (u_print_lit (''Printing arguments:'' @ [CHR 10]))) (\<lambda>_.
       print_arguments 0 argc argv))"

end
