(* ===== verification/UserSpec.thy ===== *)
theory UserSpec
  imports UserLib TerminalSpec
begin

text \<open>
  The user library: \<^verbatim>\<open>itoa\<close> writes the decimal number, \<^verbatim>\<open>terminal_readline\<close> is a line editor, \<^verbatim>\<open>strtok\<close> cuts off one
  word after the other.
\<close>

section \<open>Numbers\<close>

lemma put_bytes_snoc:
  assumes "length xs < 4294967295"
  shows "put_bytes (m(a + of_nat (length xs) := c)) a xs = put_bytes m a (xs @ [c])"
proof
  fix x
  have n: "unat (of_nat (length xs) :: u32) = length xs" using assms by (simp add: unat_of_nat32)
  have "x = a + of_nat (length xs) \<longleftrightarrow> unat (x - a) = length xs"
    using addr_eq_offset [of "length xs" x a] assms by simp
  then show "put_bytes (m(a + of_nat (length xs) := c)) a xs x = put_bytes m a (xs @ [c]) x"
    by (auto simp: put_bytes_def Let_def nth_append)
qed

lemma put_bytes_front:
  assumes "length cs < 4294967295"
  shows "(put_bytes m (p + 1) cs)(p := c) = put_bytes m p (c # cs)"
proof -
  have "p - (p + 1) = (0xFFFFFFFF :: u32)" by simp
  then have "length cs \<le> unat (p - (p + 1))" using assms by simp
  then have "(put_bytes m (p + 1) cs)(p := c) = put_bytes (m(p := c)) (p + 1) cs"
    by (auto simp: fun_eq_iff put_bytes_def Let_def)
  then show ?thesis using put_bytes_Cons [OF assms] by simp
qed

lemma put_bytes_single: "put_bytes m p [c] = m(p := c)"
  using put_bytes_front [of "[]" m p c] by simp

definition digits :: "nat \<Rightarrow> u8 list" where
  "digits q = (if q = 0 then [] else dec_nat q)"

lemma digits_step: "q \<noteq> 0 \<Longrightarrow> digits q = digits (q div 10) @ [dec_digit (q mod 10)]"
  by (subst dec_nat.simps [of q] | simp add: digits_def)+ (auto simp: dec_nat.simps [of q] digits_def)

lemma dec_nat_nonzero: "0 \<notin> set (dec_nat n)"
proof (induction n rule: dec_nat.induct)
  case (1 n)
  have "dec_digit (d) \<noteq> 0" if "d < 10" for d
  proof -
    have "unat (dec_digit d) = 48 + d"
      using that unfolding dec_digit_def by (subst unat_of_nat) (simp add: take_bit_nat_eq_self)
    then show ?thesis by auto
  qed
  from this [of n] this [of "n mod 10"] show ?case using 1 by (auto simp: dec_nat.simps [of n])
qed

lemma negative_digit:
  assumes "sint (num :: u32) = - int q" "q \<le> 2147483648"
  shows "sint (sdiv32 num 10) = - int (q div 10)" "ucast (0x30 - smod32 num 10) = dec_digit (q mod 10)"
proof -
  have d: "- int q sdiv 10 = - int (q div 10)" by (simp add: signed_divide_int_def sgn_if zdiv_int)
  have "int q = int (q div 10) * 10 + int (q mod 10)" using div_mult_mod_eq [of q 10] by linarith
  then have m: "- int q smod 10 = - int (q mod 10)"
    using minus_sdiv_mult_eq_smod [of "- int q" 10] unfolding d by linarith
  have ten: "sint (10 :: u32) = 10" by simp
  show "sint (sdiv32 num 10) = - int (q div 10)"
    unfolding sdiv32_def assms(1) ten d using assms(2) by (intro sint_in_range) auto
  have "0x30 - smod32 num 10 = of_nat (48 + q mod 10)"
    unfolding smod32_def assms(1) ten m by simp
  then show "ucast (0x30 - smod32 num 10) = dec_digit (q mod 10)"
    unfolding dec_digit_def by (simp add: unsigned_of_nat take_bit_nat_eq_self del: of_nat_add)
qed

lemma length_digits: "q \<le> 2147483648 \<Longrightarrow> length (digits q) \<le> 10"
  using length_dec_nat_le [of q 9] by (simp add: digits_def)

lemma itoa_loop_run:
  assumes "sint num = - int q" "q \<le> 2147483648"
  shows "itoa_loop buf num loc m =
    (loc - of_nat (length (digits q)), put_bytes m (buf + (loc - of_nat (length (digits q)))) (digits q))"
  using assms
proof (induction q arbitrary: num loc m rule: less_induct)
  case (less q)
  show ?case
  proof (cases "q = 0")
    case True
    then have "num = 0" using less.prems(1) by (simp add: signed_eq_0_iff)
    then show ?thesis using True by (simp add: itoa_loop.simps digits_def)
  next
    case False
    let ?d = "dec_digit (q mod 10)" and ?ds = "digits (q div 10)"
    let ?a = "buf + (loc - of_nat (Suc (length ?ds)))"
    note nd = negative_digit [OF less.prems]
    have "num \<noteq> 0" using less.prems(1) False by auto
    then have "itoa_loop buf num loc m = itoa_loop buf (sdiv32 num 10) (loc - 1) (m(buf + (loc - 1) := ?d))"
      by (subst itoa_loop.simps) (simp add: nd(2))
    also have "\<dots> = (loc - 1 - of_nat (length ?ds), put_bytes (m(buf + (loc - 1) := ?d)) (buf + (loc - 1 - of_nat (length ?ds))) ?ds)"
      using False less.prems(2) by (intro less.IH) (simp_all add: nd(1))
    also have "buf + (loc - 1) = ?a + of_nat (length ?ds)" by simp
    also have "buf + (loc - 1 - of_nat (length ?ds)) = ?a" by (simp add: diff_diff_eq)
    also have "put_bytes (m(?a + of_nat (length ?ds) := ?d)) ?a ?ds = put_bytes m ?a (?ds @ [?d])"
      using length_digits [of "q div 10"] less.prems(2) div_le_dividend [of q 10] by (intro put_bytes_snoc) linarith
    finally show ?thesis using digits_step [OF False] by (simp add: diff_diff_eq)
  qed
qed

text \<open>C36. \<^verbatim>\<open>itoa\<close> of any 32-bit number, the most negative one included: the result points into the twelve-byte
  buffer at a zero-terminated string, the decimal notation of the number with a minus sign when it is
  negative. Nothing outside the buffer is written.\<close>

theorem itoa_correct:
  shows "\<exists>p m. itoa num s = (p, s\<lparr>umem := m\<rparr>) \<and> cstr m p (decimal (sint num)) \<and> in_region (text_at s) 12 p
    \<and> (\<forall>a. \<not> in_region (text_at s) 12 a \<longrightarrow> m a = umem s a)"
proof -
  define q where "q = nat \<bar>sint num\<bar>"
  define neg where "neg \<longleftrightarrow> sint num < 0"
  let ?t = "text_at s" and ?first = "(umem s)(text_at s + 11 := 0)" and ?cs = "decimal (sint num)"
  have range: "- 2147483648 \<le> sint num" "sint num < 2147483648" using sint_ge [of num] sint_lt [of num] by simp_all
  then have q: "q \<le> 2147483648" by (auto simp: q_def)
  have n1: "sint (if neg then num else - num) = - int q"
  proof (cases neg)
    case False
    then have "sint (word_of_int (- sint num) :: u32) = - sint num" using range by (intro sint_in_range) (auto simp: neg_def)
    then show ?thesis using False by (simp add: q_def neg_def)
  qed (simp add: q_def neg_def)
  have sign: "\<not> 0 \<le>s num \<longleftrightarrow> neg" by (auto simp: word_sle_eq neg_def)
  define body where "body = (if q = 0 then [0x30] else digits q)"
  have cs: "?cs = (if neg then 0x2D # body else body)"
    by (auto simp: decimal_def neg_def body_def digits_def q_def dec_digit_def dec_nat.simps [of 0])
  have len: "length body \<le> 10" "0 < length body" "length ?cs \<le> 11"
    using length_digits [OF q] by (auto simp: body_def cs digits_step)
  obtain loc m where lm: "itoa_loop ?t (if neg then num else - num) 11 ?first = (loc, m)" by fastforce
  have loop: "loc = 11 - of_nat (length (digits q))" "m = put_bytes ?first (?t + (11 - of_nat (length (digits q)))) (digits q)"
    using itoa_loop_run [OF n1 q, of ?t 11 ?first] lm by simp_all
  let ?p = "?t + (11 - of_nat (length ?cs))" and ?final = "put_bytes ?first (?t + (11 - of_nat (length ?cs))) ?cs"
  have "itoa num s = (?p, s\<lparr>umem := ?final\<rparr>)"
  proof (cases "q = 0")
    case True
    then have "\<not> neg" by (simp add: q_def neg_def)
    then show ?thesis using True lm loop by (simp add: itoa_def sign cs body_def digits_def Let_def put_bytes_single)
  next
    case False
    then have "loc \<noteq> 11" using len loop by (simp add: body_def of_nat_eq_u32)
    have front: "?t + (11 - of_nat (length (digits q))) = ?t + (10 - of_nat (length (digits q))) + 1" by simp
    have "(put_bytes ?first (?t + (11 - of_nat (length (digits q)))) (digits q))(?t + (10 - of_nat (length (digits q))) := 0x2D)
      = put_bytes ?first (?t + (10 - of_nat (length (digits q)))) (0x2D # digits q)"
      unfolding front using len False by (intro put_bytes_front) (simp add: body_def)
    then show ?thesis using False \<open>loc \<noteq> 11\<close> lm loop by (simp add: itoa_def sign cs body_def Let_def)
  qed
  moreover have off: "unat (a - ?p) = length ?cs + i" if "a = ?t + 11 + of_nat i" "i < 100" for a i
    using len that by (simp add: unat_of_nat32 del: of_nat_add add: of_nat_add [symmetric])
  have "cstr ?final ?p ?cs"
    unfolding cstr_iff
  proof (intro conjI)
    show "bytes ?final ?p (length ?cs) = ?cs"
      using len by (intro nth_equalityI) simp_all
    show "0 \<notin> set ?cs" by (simp add: decimal_def dec_nat_nonzero)
    show "?final (?p + of_nat (length ?cs)) = 0"
      using off [of "?t + 11" 0] by (subst put_bytes_outside) simp_all
  qed
  moreover have "in_region ?t 12 ?p"
    using len in_region_offset [of "11 - length ?cs" 12 ?t] by (simp add: of_nat_diff)
  moreover have "?final a = umem s a" if "\<not> in_region ?t 12 a" for a
  proof -
    have far: "12 \<le> unat (a - ?t)" using that by (simp add: in_region_def word_less_nat_alt)
    have o: "unat (11 - of_nat (length ?cs) :: u32) = 11 - length ?cs"
      using len unat_of_nat32 [of "11 - length ?cs"] by (simp add: of_nat_diff)
    have "unat (a - ?p) = unat (a - ?t) - (11 - length ?cs)"
      unfolding diff_diff_eq [symmetric] using far o by (subst unat_sub) (simp_all add: word_le_nat_alt)
    then have "length ?cs \<le> unat (a - ?p)" using far len by linarith
    then have "?final a = ?first a" by (rule put_bytes_outside)
    moreover have "a \<noteq> ?t + 11" using far by auto
    ultimately show ?thesis by simp
  qed
  ultimately show ?thesis by blast
qed

definition blank_user :: user where
  "blank_user = \<lparr>umem = (\<lambda>_. 0), strtok_sp = 0, text_at = 0x1000, scommand_at = 0x2000, run_buf_at = 0x3000,
     line_buf_at = 0x4000, format_at = 0x5000, typed = (\<lambda>_. 0x0D), typed_read = 0, shown = [],
     granted = (\<lambda>_. 0), granted_count = 0, freed = [], commands_run = [], start_arguments = (0, 0)\<rparr>"

theorem itoa_correct_witness:
  "\<exists>p m. itoa (- 25) blank_user = (p, blank_user\<lparr>umem := m\<rparr>) \<and> cstr m p [0x2D, 0x32, 0x35] \<and> m 0x100C = 0"
proof -
  obtain p m where i: "itoa (- 25) blank_user = (p, blank_user\<lparr>umem := m\<rparr>)" "cstr m p (decimal (sint (- 25 :: u32)))"
    "\<forall>a. \<not> in_region 0x1000 12 a \<longrightarrow> m a = 0"
    using itoa_correct [of "- 25" blank_user] by (auto simp: blank_user_def)
  have "sint (- 25 :: u32) = - 25" by simp
  then have "decimal (sint (- 25 :: u32)) = [0x2D, 0x32, 0x35]"
    by (simp add: decimal_def dec_nat.simps dec_digit_def)
  moreover have "\<not> in_region 0x1000 12 0x100C" by (simp add: in_region_def)
  ultimately show ?thesis using i by auto
qed

section \<open>The line editor\<close>

text \<open>A key appends itself to the line; a backspace behind a character removes that character. The line
  ends at a carriage return, or when it holds \<open>cap\<close> characters. The keys used up are shown.\<close>

definition edit_key :: "u8 list \<Rightarrow> u8 \<Rightarrow> u8 list" where
  "edit_key line k = (if k = 0x08 \<and> line \<noteq> [] then butlast line else line @ [k])"

fun line_editor :: "nat \<Rightarrow> u8 list \<Rightarrow> u8 list \<Rightarrow> (u8 list \<times> u8 list) option" where
  "line_editor cap line [] = (if cap \<le> length line then Some (line, []) else None)"
| "line_editor cap line (k # ks) =
     (if cap \<le> length line \<or> k = 0x0D then Some (line, [])
      else map_option (\<lambda>(res, echo). (res, k # echo)) (line_editor cap (edit_key line k) ks))"

text \<open>The keys the kernel delivers up to its \<open>n\<close>th answer; a zero says that no key is waiting.\<close>

definition keys_typed :: "user \<Rightarrow> nat \<Rightarrow> u8 list" where
  "keys_typed s n = filter (\<lambda>c. c \<noteq> 0) (map (typed s) [typed_read s..<n])"

lemma keys_typed_unfold:
  "keys_typed s n = (if typed_read s < n
     then (if typed s (typed_read s) = 0 then [] else [typed s (typed_read s)]) @ keys_typed (s\<lparr>typed_read := Suc (typed_read s)\<rparr>) n
     else [])"
  by (simp add: keys_typed_def upt_conv_Cons)

lemma keys_typed_nonzero: "k \<in> set (keys_typed s n) \<Longrightarrow> k \<noteq> 0"
  by (simp add: keys_typed_def)

lemma keys_typed_cong: "typed s' = typed s \<Longrightarrow> typed_read s' = typed_read s \<Longrightarrow> keys_typed s' n = keys_typed s n"
  by (simp add: keys_typed_def)

lemma getkey_next:
  "keys_typed s n = k # ks \<Longrightarrow> \<exists>r. getkey s = Some (k, s\<lparr>typed_read := r\<rparr>) \<and> keys_typed (s\<lparr>typed_read := r\<rparr>) n = ks"
proof (induction "n - typed_read s" arbitrary: s)
  case 0
  then show ?case by (simp add: keys_typed_unfold [of s])
next
  case (Suc d)
  let ?s = "s\<lparr>typed_read := Suc (typed_read s)\<rparr>"
  show ?case
  proof (cases "typed s (typed_read s) = 0")
    case True
    then have "keys_typed ?s n = k # ks" using Suc.prems by (simp add: keys_typed_unfold [of s] split: if_splits)
    from Suc.hyps(1) [OF _ this] Suc.hyps(2) show ?thesis
      using True by (simp add: getkey.simps [of s] kernel_getkey_def)
  next
    case False
    then have "k = typed s (typed_read s)" "keys_typed ?s n = ks"
      using Suc.prems by (simp_all add: keys_typed_unfold [of s] split: if_splits)
    then show ?thesis using False
      by (intro exI [of _ "Suc (typed_read s)"]) (simp add: getkey.simps [of s] kernel_getkey_def)
  qed
qed

lemma ucast_scast8 [simp]: "ucast (scast (k :: u8) :: u32) = k"
  by (rule bit_word_eqI) (simp add: bit_simps)

lemma readline_guard:
  assumes "n \<le> cap" "Suc cap < 2147483648"
  shows "(of_nat n :: u32) <s of_nat (Suc cap) - 1 \<longleftrightarrow> n < cap"
  using assms by (simp add: word_sless_alt sint_of_nat32)

lemma positive_index: "n < 2147483648 \<Longrightarrow> 1 \<le>s (of_nat n :: u32) \<longleftrightarrow> n \<noteq> 0"
  using sint_of_nat32 [of n] sint_of_nat32 [of 1] by (auto simp: word_sle_eq)

text \<open>What one key does to the buffer.\<close>

definition key_stored :: "u32 \<Rightarrow> u8 list \<Rightarrow> u8 \<Rightarrow> memory \<Rightarrow> memory" where
  "key_stored out line k m =
     (if k = 0x08 \<and> line \<noteq> [] then m(out + of_nat (length line - 1) := 0) else m(out + of_nat (length line) := k))"

lemma key_stored_line:
  assumes "bytes m out (length line) = line" "length line < 4294967295"
  shows "bytes (key_stored out line k m) out (length (edit_key line k)) = edit_key line k"
proof (rule nth_equalityI)
  fix i assume i: "i < length (bytes (key_stored out line k m) out (length (edit_key line k)))"
  have old: "m (out + of_nat j) = line ! j" if "j < length line" for j
    using that assms(1) nth_bytes [of j "length line" m out] by simp
  show "bytes (key_stored out line k m) out (length (edit_key line k)) ! i = edit_key line k ! i"
  proof (cases "k = 0x08 \<and> line \<noteq> []")
    case True
    then have "i < length line - 1" using i by (simp add: edit_key_def)
    moreover from this have "(of_nat i :: u32) \<noteq> of_nat (length line - 1)"
      using assms(2) by (simp only: of_nat_eq_u32 unat_of_nat32)
    ultimately show ?thesis using True old [of i] by (simp add: key_stored_def edit_key_def nth_butlast)
  next
    case False
    then have "i < Suc (length line)" using i by (auto simp: edit_key_def)
    moreover from this have "(of_nat i :: u32) = of_nat (length line) \<longleftrightarrow> i = length line"
      using assms(2) by (simp only: of_nat_eq_u32 unat_of_nat32)
    ultimately show ?thesis using False old [of i] by (auto simp: key_stored_def edit_key_def nth_append)
  qed
qed simp

lemma key_stored_frame:
  assumes "\<not> in_region out (of_nat cap) a" "length line < cap" "cap < 4294967296"
  shows "key_stored out line k m a = m a"
  using assms in_region_offset [of "length line" "of_nat cap" out] in_region_offset [of "length line - 1" "of_nat cap" out]
  by (auto simp: key_stored_def unat_of_nat32)

lemma readline_step:
  assumes "keys_typed s n = k # ks" "length line < cap" "Suc cap < 2147483648" "k \<noteq> 0x0D"
  shows "\<exists>r. keys_typed (s\<lparr>typed_read := r\<rparr>) n = ks
    \<and> readline_loop out (of_nat (Suc cap)) e (of_nat (length line)) s =
      readline_loop out (of_nat (Suc cap)) e (of_nat (length (edit_key line k)))
        (s\<lparr>typed_read := r, shown := shown s @ (if e then [k] else []), umem := key_stored out line k (umem s)\<rparr>)"
proof -
  obtain r where r: "getkey s = Some (k, s\<lparr>typed_read := r\<rparr>)" "keys_typed (s\<lparr>typed_read := r\<rparr>) n = ks"
    using getkey_next [OF assms(1)] by blast
  have guard: "(of_nat (length line) :: u32) <s of_nat (Suc cap) - 1" using readline_guard assms(2,3) by simp
  have pos: "1 \<le>s (of_nat (length line) :: u32) \<longleftrightarrow> line \<noteq> []" using positive_index assms(2,3) by simp
  have left: "of_nat (length line) - 1 = (of_nat (length line - 1) :: u32)" "of_nat (length line) - 2 + 1 = (of_nat (length line - 1) :: u32)"
    if "line \<noteq> []" using that by (simp_all add: of_nat_diff Suc_leI)
  have "readline_loop out (of_nat (Suc cap)) e (of_nat (length line)) s =
      readline_loop out (of_nat (Suc cap)) e (of_nat (length (edit_key line k)))
        (s\<lparr>typed_read := r, shown := shown s @ (if e then [k] else []), umem := key_stored out line k (umem s)\<rparr>)"
  proof (cases "k = 0x08 \<and> line \<noteq> []")
    case True
    then show ?thesis using guard pos assms(4) r(1) left
      by (subst readline_loop.simps) (auto simp: key_stored_def edit_key_def putchar_def)
  next
    case False
    then show ?thesis using guard pos assms(4) r(1)
      by (subst readline_loop.simps) (auto simp: key_stored_def edit_key_def putchar_def add.commute)
  qed
  with r show ?thesis by blast
qed

lemma readline_loop_run:
  assumes "line_editor cap line ks = Some (res, echo)" "keys_typed s n = ks" "bytes (umem s) out (length line) = line"
    "length line \<le> cap" "0 \<notin> set line" "Suc cap < 2147483648"
  shows "\<exists>r m. readline_loop out (of_nat (Suc cap)) e (of_nat (length line)) s =
        Some (of_nat (length res), s\<lparr>typed_read := r, shown := shown s @ (if e then echo else []), umem := m\<rparr>)
      \<and> bytes m out (length res) = res \<and> length res \<le> cap \<and> 0 \<notin> set res
      \<and> (\<forall>a. \<not> in_region out (of_nat cap) a \<longrightarrow> m a = umem s a)"
  using assms(1-5)
proof (induction ks arbitrary: line echo s)
  case Nil
  then have "readline_loop out (of_nat (Suc cap)) e (of_nat (length line)) s = Some (of_nat (length line), s)"
    using readline_guard [of "length line" cap] assms(6) by (subst readline_loop.simps) (simp split: if_splits)
  with Nil show ?case
    by (intro exI [of _ "typed_read s"] exI [of _ "umem s"]) (simp split: if_splits)
next
  case (Cons k ks)
  show ?case
  proof (cases "cap \<le> length line")
    case True
    then have "readline_loop out (of_nat (Suc cap)) e (of_nat (length line)) s = Some (of_nat (length line), s)"
      using readline_guard [of "length line" cap] assms(6) Cons.prems(4) by (subst readline_loop.simps) simp
    with True Cons.prems show ?thesis
      by (intro exI [of _ "typed_read s"] exI [of _ "umem s"]) simp
  next
    case room: False
    show ?thesis
    proof (cases "k = 0x0D")
      case True
      obtain r where "getkey s = Some (k, s\<lparr>typed_read := r\<rparr>)" using getkey_next [OF Cons.prems(2)] by blast
      then have "readline_loop out (of_nat (Suc cap)) e (of_nat (length line)) s = Some (of_nat (length line), s\<lparr>typed_read := r\<rparr>)"
        using True room readline_guard [of "length line" cap] assms(6) by (subst readline_loop.simps) simp
      with True room Cons.prems show ?thesis
        by (intro exI [of _ r] exI [of _ "umem s"]) simp
    next
      case False
      obtain echo' where le: "line_editor cap (edit_key line k) ks = Some (res, echo')" "echo = k # echo'"
        using Cons.prems(1) room False by auto
      obtain r where r: "keys_typed (s\<lparr>typed_read := r\<rparr>) n = ks"
        "readline_loop out (of_nat (Suc cap)) e (of_nat (length line)) s =
          readline_loop out (of_nat (Suc cap)) e (of_nat (length (edit_key line k)))
            (s\<lparr>typed_read := r, shown := shown s @ (if e then [k] else []), umem := key_stored out line k (umem s)\<rparr>)"
        using readline_step [OF Cons.prems(2) _ assms(6) False, of line out e] room unfolding not_le by blast
      let ?s = "s\<lparr>typed_read := r, shown := shown s @ (if e then [k] else []), umem := key_stored out line k (umem s)\<rparr>"
      have "k \<noteq> 0" using keys_typed_nonzero [of k s n] Cons.prems(2) by simp
      have "keys_typed ?s n = ks" using r(1) keys_typed_cong [of ?s "s\<lparr>typed_read := r\<rparr>" n] by simp
      moreover have "bytes (umem ?s) out (length (edit_key line k)) = edit_key line k"
        using key_stored_line [OF Cons.prems(3)] Cons.prems(4) assms(6) by simp
      moreover have "length (edit_key line k) \<le> cap" using room by (auto simp: edit_key_def)
      moreover have "0 \<notin> set (edit_key line k)" using Cons.prems(5) \<open>k \<noteq> 0\<close> in_set_butlastD [of 0 line] by (auto simp: edit_key_def)
      ultimately obtain r' m where ih: "readline_loop out (of_nat (Suc cap)) e (of_nat (length (edit_key line k))) ?s =
          Some (of_nat (length res), ?s\<lparr>typed_read := r', shown := shown ?s @ (if e then echo' else []), umem := m\<rparr>)"
        "bytes m out (length res) = res" "length res \<le> cap" "0 \<notin> set res"
        "\<And>a. \<not> in_region out (of_nat cap) a \<Longrightarrow> m a = umem ?s a"
        using Cons.IH [OF le(1), of ?s] by blast
      have "m a = umem s a" if "\<not> in_region out (of_nat cap) a" for a
        using ih(5) [OF that] key_stored_frame [OF that] room assms(6) by simp
      with ih(1-4) r(2) le(2) show ?thesis
        by (intro exI [of _ r'] exI [of _ m]) simp
    qed
  qed
qed

text \<open>C35. \<^verbatim>\<open>terminal_readline\<close> is a line editor. When the keys that arrive end the line, by a carriage return or by
  filling the buffer, the buffer of \<open>max\<close> bytes holds the edited line as a zero-terminated string, its
  length is returned, the keys typed are echoed as asked, and nothing outside the buffer is written.\<close>

theorem terminal_readline_correct:
  assumes "line_editor cap [] (keys_typed s n) = Some (line, echo)" "Suc cap < 2147483648"
  shows "\<exists>r m. terminal_readline out (of_nat (Suc cap)) e s =
        Some (Ret (of_nat (length line)) (s\<lparr>typed_read := r, shown := shown s @ (if e then echo else []), umem := m\<rparr>))
      \<and> cstr m out line \<and> length line \<le> cap
      \<and> (\<forall>a. \<not> in_region out (of_nat (Suc cap)) a \<longrightarrow> m a = umem s a)"
proof -
  obtain r m where run: "readline_loop out (of_nat (Suc cap)) e 0 s =
      Some (of_nat (length line), s\<lparr>typed_read := r, shown := shown s @ (if e then echo else []), umem := m\<rparr>)"
    and line: "bytes m out (length line) = line" "length line \<le> cap" "0 \<notin> set line"
    and frame: "\<And>a. \<not> in_region out (of_nat cap) a \<Longrightarrow> m a = umem s a"
    using readline_loop_run [OF assms(1) refl _ _ _ assms(2), of out e] by auto
  let ?m = "m(out + of_nat (length line) := 0)"
  have "terminal_readline out (of_nat (Suc cap)) e s =
      Some (Ret (of_nat (length line)) (s\<lparr>typed_read := r, shown := shown s @ (if e then echo else []), umem := ?m\<rparr>))"
    using run by (simp add: terminal_readline_def perhaps_def run_simps del: of_nat_Suc)
  moreover have "cstr ?m out line"
  proof -
    have "(of_nat i :: u32) \<noteq> of_nat (length line)" if "i < length line" for i
      using that line(2) assms(2) by (simp only: of_nat_eq_u32 unat_of_nat32)
    then have "bytes ?m out (length line) = bytes m out (length line)" by (intro nth_equalityI) simp_all
    then show ?thesis using line by (simp add: cstr_iff)
  qed
  moreover have "?m a = umem s a" if out: "\<not> in_region out (of_nat (Suc cap)) a" for a
  proof -
    have "a \<noteq> out + of_nat (length line)"
      using out line(2) assms(2) in_region_offset [of "length line" "of_nat (Suc cap)" out] by (auto simp: unat_of_nat32 simp del: of_nat_Suc)
    moreover have "\<not> in_region out (of_nat cap) a"
      using out assms(2) unat_of_nat32 [of cap] unat_of_nat32 [of "Suc cap"] by (simp add: in_region_def word_less_nat_alt del: of_nat_Suc)
    ultimately show ?thesis using frame by simp
  qed
  ultimately show ?thesis using line(2) by blast
qed

text \<open>The keys a, b, backspace, c and enter, with a pause before each, into sixteen bytes.\<close>

definition typing_user :: user where
  "typing_user = blank_user\<lparr>typed := (\<lambda>_. 0x0D)(0 := 0, 1 := 0x61, 2 := 0, 3 := 0x62, 4 := 0, 5 := 0x08, 6 := 0, 7 := 0x63, 8 := 0)\<rparr>"

theorem terminal_readline_correct_witness:
  "\<exists>r m. terminal_readline 0x4000 16 True typing_user =
        Some (Ret 2 (typing_user\<lparr>typed_read := r, shown := [0x61, 0x62, 0x08, 0x63], umem := m\<rparr>))
      \<and> cstr m 0x4000 [0x61, 0x63]"
proof -
  have "keys_typed typing_user 10 = [0x61, 0x62, 0x08, 0x63, 0x0D]"
    by (simp add: keys_typed_def typing_user_def blank_user_def upt_rec)
  then have "line_editor 15 [] (keys_typed typing_user 10) = Some ([0x61, 0x63], [0x61, 0x62, 0x08, 0x63])"
    by (simp add: edit_key_def)
  from terminal_readline_correct [OF this, of "0x4000" True] show ?thesis
    by (auto simp: typing_user_def blank_user_def)
qed

section \<open>Words\<close>

lemma cstr_appendD: "cstr m p (xs @ ys) \<Longrightarrow> cstr m (p + of_nat (length xs)) ys"
proof (induction xs arbitrary: p)
  case (Cons x xs)
  then show ?case using Cons.IH [of "p + 1"] by (simp add: add.assoc)
qed simp

lemma strtok_skip_run:
  assumes "cstr m p cs" "0 \<notin> set ds"
  shows "strtok_skip ds m p = Some (p + of_nat (length (takeWhile (\<lambda>c. c \<in> set ds) cs)))"
  using assms(1)
proof (induction cs arbitrary: p)
  case Nil
  then show ?case using assms(2) by (simp add: strtok_skip.simps [of ds m p])
next
  case (Cons c cs)
  then show ?case by (subst strtok_skip.simps) (auto simp: algebra_simps)
qed

lemma strtok_end_run:
  assumes "cstr m p cs"
  shows "strtok_end ds m p =
    (let w = takeWhile (\<lambda>c. c \<notin> set ds) cs; q = p + of_nat (length w) in Some (if w = cs then q else q + 1, m(q := 0)))"
  using assms
proof (induction cs arbitrary: p)
  case Nil
  then show ?case by (auto simp: strtok_end.simps [of ds m p] fun_eq_iff)
next
  case (Cons c cs)
  then show ?case by (subst strtok_end.simps) (auto simp: algebra_simps Let_def)
qed

text \<open>The bytes of a string before and behind a byte that is cut.\<close>

lemma cstr_cut:
  assumes "cstr m p (xs @ ys)" "length xs + length ys < 4294967295"
  shows "cstr (m(p + of_nat (length xs) := 0)) p xs"
    "cstr (m(p + of_nat (length xs) := 0)) (p + of_nat (length xs) + (if ys = [] then 0 else 1)) (drop 1 ys)"
proof -
  have ne: "p + of_nat i \<noteq> p + of_nat (length xs)" if "i < length xs + length ys + 1" "i \<noteq> length xs" for i
    using that assms(2) by (simp add: of_nat_eq_u32 unat_of_nat32)
  have b: "bytes m p (length xs + length ys) = xs @ ys" "0 \<notin> set xs"
    using assms(1) by (auto simp: cstr_iff)
  then have "m (p + of_nat i) = xs ! i" if "i < length xs" for i
    using that nth_bytes [of i "length xs + length ys" m p] by (simp add: nth_append)
  then have "bytes (m(p + of_nat (length xs) := 0)) p (length xs) = xs"
    using ne by (intro nth_equalityI) (simp_all del: add_left_cancel)
  then show "cstr (m(p + of_nat (length xs) := 0)) p xs" using b(2) by (simp add: cstr_iff)
  show "cstr (m(p + of_nat (length xs) := 0)) (p + of_nat (length xs) + (if ys = [] then 0 else 1)) (drop 1 ys)"
  proof (cases ys)
    case (Cons c cs)
    have tail: "cstr m (p + of_nat (length xs) + 1) cs" using cstr_appendD [of m p xs ys] assms(1) Cons by simp
    have "cstr (m(p + of_nat (length xs) := 0)) (p + of_nat (length xs) + 1) cs = cstr m (p + of_nat (length xs) + 1) cs"
    proof (rule cstr_cong)
      fix i assume "i \<le> length cs"
      then have "p + of_nat (length xs + 1 + i) \<noteq> p + of_nat (length xs)" using ne [of "length xs + 1 + i"] Cons by simp
      then show "(m(p + of_nat (length xs) := 0)) (p + of_nat (length xs) + 1 + of_nat i) = m (p + of_nat (length xs) + 1 + of_nat i)"
        by (simp add: add.assoc)
    qed
    with tail Cons show ?thesis by simp
  qed simp
qed

text \<open>One call, with the place where it stops.\<close>

lemma strtok_run:
  assumes "text = (if str \<noteq> 0 then str else strtok_sp s)" "text \<noteq> 0" "cstr (umem s) text cs"
    "0 \<notin> set ds" "length cs < 4294967295"
    "rest = dropWhile (\<lambda>c. c \<in> set ds) cs" "word = takeWhile (\<lambda>c. c \<notin> set ds) rest"
  shows "\<exists>p s'. strtok str ds s = Some (p, s') \<and>
     (if rest = [] then p = 0 \<and> s' = s\<lparr>strtok_sp := 0\<rparr>
      else p = text + of_nat (length cs - length rest) \<and> strtok_sp s' = p + of_nat (length word + (if word = rest then 0 else 1)) \<and> cstr (umem s') p word
        \<and> cstr (umem s') (strtok_sp s') (drop (Suc (length word)) rest)
        \<and> s' = s\<lparr>strtok_sp := strtok_sp s', umem := (umem s)(p + of_nat (length word) := 0)\<rparr>)"
proof -
  define pre where "pre = takeWhile (\<lambda>c. c \<in> set ds) cs"
  let ?p = "text + of_nat (length pre)" and ?ys = "drop (length word) rest"
  have cs: "cs = pre @ rest" using takeWhile_dropWhile_id [of "\<lambda>c. c \<in> set ds" cs] by (simp add: pre_def assms(6))
  have rest: "cstr (umem s) ?p rest" using assms(3) cstr_appendD unfolding cs by blast
  have skip: "strtok_skip ds (umem s) text = Some ?p" using strtok_skip_run [OF assms(3,4)] by (simp add: pre_def)
  have start: "(if str \<noteq> 0 then str else strtok_sp s) = text" "(str = 0 \<and> strtok_sp s = 0) = False" using assms(1,2) by auto
  show ?thesis
  proof (cases "rest = []")
    case True
    then have "umem s ?p = 0" using rest by simp
    then have "strtok str ds s = Some (0, s\<lparr>strtok_sp := 0\<rparr>)"
      by (simp only: strtok_def start skip if_False if_True simp_thms option.case)
    then show ?thesis using True by simp
  next
    case False
    have word: "rest = word @ ?ys" using takeWhile_dropWhile_id [of "\<lambda>c. c \<notin> set ds" rest] takeWhile_eq_take [of "\<lambda>c. c \<notin> set ds" rest]
      unfolding assms(7) by (metis dropWhile_eq_drop)
    let ?sp = "?p + of_nat (length word) + (if ?ys = [] then 0 else 1)"
    let ?s = "s\<lparr>strtok_sp := ?sp, umem := (umem s)(?p + of_nat (length word) := 0)\<rparr>"
    have whole: "word = rest \<longleftrightarrow> ?ys = []" using word by (metis append_Nil2 self_append_conv)
    then have "strtok_end ds (umem s) ?p = Some (?sp, (umem s)(?p + of_nat (length word) := 0))"
      using strtok_end_run [OF rest, of ds] unfolding assms(7) [symmetric] by (simp add: Let_def)
    moreover have "(umem s ?p = 0) = False" using rest False by (cases rest) auto
    ultimately have run: "strtok str ds s = Some (?p, ?s)"
      by (simp only: strtok_def start skip if_False option.case prod.case)
    have len: "length word + length ?ys < 4294967295" using assms(5) cs word by (metis add.commute le_add1 length_append order_le_less_trans)
    have "cstr (umem s) ?p (word @ ?ys)" using rest word by simp
    note cut = cstr_cut [OF this len]
    have "cstr (umem ?s) ?p word" using cut(1) by simp
    moreover have "cstr (umem ?s) ?sp (drop (Suc (length word)) rest)" using cut(2) by (simp cong: if_cong)
    moreover have "length cs - length rest = length pre" using cs by simp
    ultimately show ?thesis using run False whole by (intro exI [of _ ?p] exI [of _ ?s]) simp
  qed
qed

text \<open>C37. \<^verbatim>\<open>strtok\<close> on the text that is left, a new one or the one it remembers, zero-terminated, not null and
  shorter than 4 GiB, with a string of delimiters: without a word in it the answer
  is null and nothing is remembered. Otherwise the answer points at the first word, now zero-terminated, and
  the text behind the word and its delimiter is remembered; one byte is written, the one behind the word.\<close>

theorem strtok_correct:
  assumes "text = (if str \<noteq> 0 then str else strtok_sp s)" "text \<noteq> 0" "cstr (umem s) text cs"
    "0 \<notin> set ds" "length cs < 4294967295"
    "rest = dropWhile (\<lambda>c. c \<in> set ds) cs" "word = takeWhile (\<lambda>c. c \<notin> set ds) rest"
  shows "\<exists>p s'. strtok str ds s = Some (p, s') \<and>
     (if rest = [] then p = 0 \<and> s' = s\<lparr>strtok_sp := 0\<rparr>
      else p = text + of_nat (length cs - length rest) \<and> cstr (umem s') p word
        \<and> cstr (umem s') (strtok_sp s') (drop (Suc (length word)) rest)
        \<and> s' = s\<lparr>strtok_sp := strtok_sp s', umem := (umem s)(p + of_nat (length word) := 0)\<rparr>)"
  using strtok_run [OF assms] by (meson order_refl) 

definition words_user :: user where
  "words_user = blank_user\<lparr>umem := (\<lambda>_. 0)(0x6000 := 0x20, 0x6001 := 0x6C, 0x6002 := 0x73, 0x6003 := 0x20, 0x6004 := 0x61)\<rparr>"

theorem strtok_correct_witness:
  "\<exists>s'. strtok 0x6000 [0x20] words_user = Some (0x6001, s') \<and> cstr (umem s') 0x6001 [0x6C, 0x73]
     \<and> cstr (umem s') (strtok_sp s') [0x61]"
proof -
  have "cstr (umem words_user) 0x6000 [0x20, 0x6C, 0x73, 0x20, 0x61]" by (simp add: words_user_def)
  from strtok_correct [of "0x6000" "0x6000" words_user, OF _ _ this, of "[0x20]" "[0x6C, 0x73, 0x20, 0x61]" "[0x6C, 0x73]"]
  show ?thesis by auto
qed

end
