(* ===== verification/CommandSpec.thy ===== *)
theory CommandSpec
  imports UserSpec
begin

text \<open>
  From a command line to the arguments the kernel gets: \<^verbatim>\<open>basic_os_parse_command\<close> and \<^verbatim>\<open>basic_os_system_run\<close>, against the
  list of the words of the line.
\<close>

section \<open>Words and argument lists\<close>

function line_words :: "u8 list \<Rightarrow> u8 list list" where
  "line_words cs = (let rest = dropWhile (\<lambda>c. c = 0x20) cs; word = takeWhile (\<lambda>c. c \<noteq> 0x20) rest
     in if rest = [] then [] else word # line_words (drop (Suc (length word)) rest))"
  by pat_completeness auto
termination
proof (relation "measure length", goal_cases)
  case (2 cs rest word)
  have "length (drop (Suc (length word)) rest) < length rest" using 2(3) by (cases rest) auto
  then show ?case using length_dropWhile_le [of "\<lambda>c. c = 0x20" cs] 2(1) by simp
qed simp

declare line_words.simps [simp del]

text \<open>The list of \<^verbatim>\<open>struct command_argument\<close> at \<open>a\<close>.\<close>

fun argument_list :: "memory \<Rightarrow> u32 \<Rightarrow> u8 list list \<Rightarrow> bool" where
  "argument_list m a [] = (a = 0)"
| "argument_list m a (w # ws) = (a \<noteq> 0 \<and> cstr m a w \<and> argument_list m (load32 m (a + 512)) ws)"

section \<open>Copying a string\<close>

lemma strncpy_string:
  assumes "0 < n" "cstr m src cs" "\<And>i j. i < unat n \<Longrightarrow> j \<le> length cs \<Longrightarrow> dst + of_nat i \<noteq> src + of_nat j"
  shows "strncpy m dst src n = put_cstr m dst (take (unat n - 1) cs)"
proof -
  have "strncpy_loop m dst src n = put_cstr m dst (take (unat n - 1) cs)" using assms
  proof (induction cs arbitrary: m dst src n)
    case Nil
    have nz: "n \<noteq> 0" using Nil.prems(1) by (simp add: word_gt_0)
    have "strncpy_loop m dst src n = m(dst := 0)" using Nil.prems(2) nz by (subst strncpy_loop.simps) auto
    then show ?case by (simp add: put_cstr_Nil)
  next
    case (Cons c cs)
    have nz: "n \<noteq> 0" using Cons.prems(1) by (simp add: word_gt_0)
    show ?case
    proof (cases "n - 1 = 0")
      case True
      then have "n = 1" by simp
      then have "strncpy_loop m dst src n = m(dst := 0)" by (subst strncpy_loop.simps) auto
      then show ?thesis using \<open>n = 1\<close> by (simp add: put_cstr_Nil)
    next
      case False
      then have pos: "0 < n - 1" by (simp add: word_gt_0)
      have un: "unat n = Suc (unat (n - 1))" using word_Suc_pred [OF Cons.prems(1)] by simp
      have src: "m src = c" "c \<noteq> 0" "cstr m (src + 1) cs" using Cons.prems(2) by simp_all
      have "cstr (m(dst := c)) (src + 1) cs = cstr m (src + 1) cs"
      proof (rule cstr_cong)
        fix i assume "i \<le> length cs"
        then have "dst \<noteq> src + of_nat (Suc i)" using Cons.prems(3) [of 0 "Suc i"] un by simp
        then show "(m(dst := c)) (src + 1 + of_nat i) = m (src + 1 + of_nat i)" by (auto simp: add.assoc)
      qed
      then have tail: "cstr (m(dst := c)) (src + 1) cs" using src(3) by simp
      have "strncpy_loop m dst src n = strncpy_loop (m(dst := c)) (dst + 1) (src + 1) (n - 1)"
        using False nz src pos by (subst strncpy_loop.simps) simp
      also have "\<dots> = put_cstr (m(dst := c)) (dst + 1) (take (unat (n - 1) - 1) cs)"
      proof (rule Cons.IH [OF pos tail])
        fix i j assume "i < unat (n - 1)" "j \<le> length cs"
        then show "dst + 1 + of_nat i \<noteq> src + 1 + of_nat j"
          using Cons.prems(3) [of "Suc i" "Suc j"] un by (simp add: add.assoc)
      qed
      also have "\<dots> = put_cstr m dst (c # take (unat (n - 1) - 1) cs)"
      proof (rule put_cstr_Cons)
        have "length (take (unat (n - 1) - 1) cs) \<le> unat (n - 1) - 1" by simp
        then show "length (take (unat (n - 1) - 1) cs) < 4294967295" using unat_u32_less [of "n - 1"] by linarith
      qed
      also have "c # take (unat (n - 1) - 1) cs = take (unat n - 1) (c # cs)"
        using un pos by (cases "unat (n - 1)") (simp_all add: unat_eq_zero)
      finally show ?thesis .
    qed
  qed
  then show ?thesis using assms(1) by (simp add: strncpy_def word_gt_0)
qed

lemma put_cstr_region: "length cs < unat n \<Longrightarrow> \<not> in_region p n a \<Longrightarrow> put_cstr m p cs a = m a"
  by (simp add: put_cstr_def Let_def in_region_def word_less_nat_alt)

section \<open>One argument\<close>

text \<open>\<open>new_argument\<close> fills the structure it is granted and touches nothing else.\<close>

lemma cstr_frame: "cstr m p cs \<Longrightarrow> (\<And>i. i \<le> length cs \<Longrightarrow> m' (p + of_nat i) = m (p + of_nat i)) \<Longrightarrow> cstr m' p cs"
  using cstr_cong [of cs m' p m p] by simp

lemma in_region_sub: "in_region (a + of_nat k) n b \<Longrightarrow> k + unat n \<le> 516 \<Longrightarrow> in_region a 516 b"
proof -
  assume b: "in_region (a + of_nat k) n b" and k: "k + unat n \<le> 516"
  let ?i = "unat (b - (a + of_nat k))"
  have i: "?i < unat n" using b by (simp add: in_region_def word_less_nat_alt)
  have "b = a + of_nat (k + ?i)" by simp
  moreover have "k + ?i < unat (516 :: u32)" using i k by simp
  ultimately show "in_region a 516 b" using in_region_offset by metis
qed

lemma new_argument_run:
  assumes "granted s (granted_count s) = a" "a \<noteq> 0" "cstr (umem s) token w"
    "\<And>i. i \<le> length w \<Longrightarrow> \<not> in_region a 516 (token + of_nat i)"
  shows "\<exists>m. new_argument token s = (a, s\<lparr>granted_count := Suc (granted_count s), umem := m\<rparr>)
    \<and> cstr m a (take 511 w) \<and> load32 m (a + 512) = 0 \<and> (\<forall>b. \<not> in_region a 516 b \<longrightarrow> m b = umem s b)"
proof -
  let ?m1 = "memset (umem s) a 0 516"
  let ?m2 = "strncpy ?m1 a token 512"
  let ?m = "store32 ?m2 (a + 512) 0"
  have in_a: "in_region a 516 (a + of_nat i)" if "i < 516" for i using that by (simp add: in_region_offset)
  have "cstr ?m1 token w" by (rule cstr_frame [OF assms(3)]) (use assms(4) in \<open>simp add: memset_apply\<close>)
  moreover have "a + of_nat i \<noteq> token + of_nat j" if "i < unat (512 :: u32)" "j \<le> length w" for i j
    using in_a [of i] assms(4) [OF that(2)] that(1) by auto
  ultimately have m2: "?m2 = put_cstr ?m1 a (take 511 w)" using strncpy_string [of 512 ?m1 token w a] by simp
  have w: "0 \<notin> set (take 511 w)" using assms(3) in_set_takeD by (fastforce simp: cstr_iff)
  have "cstr ?m2 a (take 511 w)" unfolding m2 by (rule cstr_put_cstr [OF w]) simp
  then have "cstr ?m a (take 511 w)"
  proof (rule cstr_frame)
    fix i assume "i \<le> length (take 511 w)"
    then have i: "i < 512" by simp
    show "?m (a + of_nat i) = ?m2 (a + of_nat i)"
    proof (rule store32_other)
      fix k :: nat assume "k < 4"
      then have "(of_nat i :: u32) \<noteq> of_nat (512 + k)" using i by (simp add: of_nat_eq_u32 unat_of_nat32 del: of_nat_add)
      then show "a + of_nat i \<noteq> a + 512 + of_nat k" by (simp add: add.assoc)
    qed
  qed
  moreover have "?m b = umem s b" if b: "\<not> in_region a 516 b" for b
  proof -
    have "?m b = ?m2 b"
    proof (rule store32_other)
      fix k :: nat assume "k < 4"
      then show "b \<noteq> a + 512 + of_nat k" using b in_a [of "512 + k"] by (auto simp: add.assoc)
    qed
    also have "\<dots> = ?m1 b" unfolding m2 by (rule put_cstr_region [of _ 516, OF _ b]) simp
    finally show ?thesis using b by (simp add: memset_apply)
  qed
  ultimately show ?thesis using assms(1,2)
    by (intro exI [of _ ?m]) (simp add: new_argument_def malloc_def set_umem_def load32_store32_same)
qed

section \<open>The next word\<close>

text \<open>The text lies in the 1025 bytes at \<open>t\<close>; what is left of it starts where \<^verbatim>\<open>strtok\<close> remembers.\<close>

definition place :: "u32 \<Rightarrow> u32 \<Rightarrow> u8 list \<Rightarrow> bool" where
  "place t p w \<longleftrightarrow> (\<exists>i. p = t + of_nat i \<and> i + length w \<le> 1024)"

lemma place_in: "place t p w \<Longrightarrow> i \<le> length w \<Longrightarrow> in_region t 1025 (p + of_nat i)"
proof -
  assume "place t p w" "i \<le> length w"
  then obtain j where "p + of_nat i = t + of_nat (j + i)" "j + i < unat (1025 :: u32)" by (auto simp: place_def add.assoc)
  then show ?thesis using in_region_offset by metis
qed

definition pending :: "u32 \<Rightarrow> user \<Rightarrow> u8 list \<Rightarrow> bool" where
  "pending t s r \<longleftrightarrow> place t (strtok_sp s) r \<and> cstr (umem s) (strtok_sp s) r"

lemma next_token:
  assumes "text = (if str \<noteq> 0 then str else strtok_sp s)" "place t text cs" "cstr (umem s) text cs" "\<not> in_region t 1025 0"
    "rest = dropWhile (\<lambda>c. c = 0x20) cs" "word = takeWhile (\<lambda>c. c \<noteq> 0x20) rest"
  obtains p x m where "strtok str [0x20] s = Some (p, s\<lparr>strtok_sp := x, umem := m\<rparr>)" "\<And>b. \<not> in_region t 1025 b \<Longrightarrow> m b = umem s b"
    "rest = [] \<Longrightarrow> p = 0"
    "rest \<noteq> [] \<Longrightarrow> p \<noteq> 0 \<and> place t p word \<and> cstr m p word \<and> pending t (s\<lparr>strtok_sp := x, umem := m\<rparr>) (drop (Suc (length word)) rest)"
proof -
  obtain i where i: "text = t + of_nat i" "i + length cs \<le> 1024" using assms(2) by (auto simp: place_def)
  have "text \<noteq> 0" using place_in [OF assms(2), of 0] assms(4) by auto
  then obtain p s' where s': "strtok str [0x20] s = Some (p, s')"
    "if rest = [] then p = 0 \<and> s' = s\<lparr>strtok_sp := 0\<rparr>
      else p = text + of_nat (length cs - length rest) \<and> strtok_sp s' = p + of_nat (length word + (if word = rest then 0 else 1))
        \<and> cstr (umem s') p word
        \<and> cstr (umem s') (strtok_sp s') (drop (Suc (length word)) rest)
        \<and> s' = s\<lparr>strtok_sp := strtok_sp s', umem := (umem s)(p + of_nat (length word) := 0)\<rparr>"
    using strtok_run [OF assms(1) _ assms(3), of "[0x20]" rest word] assms(5,6) i(2) by auto
  show thesis
  proof (cases "rest = []")
    case True
    then have "s' = s\<lparr>strtok_sp := 0, umem := umem s\<rparr>" "p = 0" using s'(2) by simp_all
    then show ?thesis using s'(1) True by (intro that [where p = p and x = 0 and m = "umem s"]) simp_all
  next
    case False
    let ?m = "(umem s)(p + of_nat (length word) := 0)"
    have len: "length rest \<le> length cs" "length word \<le> length rest"
      using length_dropWhile_le [of _ cs] length_takeWhile_le [of _ rest] assms(5,6) by simp_all
    have "word @ dropWhile (\<lambda>c. c \<noteq> 0x20) rest = rest" unfolding assms(6) by (rule takeWhile_dropWhile_id)
    then have short: "word \<noteq> rest \<Longrightarrow> length word < length rest"
      by (metis append_Nil2 length_append less_add_same_cancel1 length_greater_0_conv)
    note s2 = s'(2) [unfolded if_not_P [OF False]]
    have "p = text + of_nat (length cs - length rest)" using s2 by (rule conjunct1)
    then have p: "p = t + of_nat (i + (length cs - length rest))" "strtok_sp s' = p + of_nat (length word + (if word = rest then 0 else 1))"
      and c: "cstr (umem s') p word" "cstr (umem s') (strtok_sp s') (drop (Suc (length word)) rest)"
      and e: "s' = s\<lparr>strtok_sp := strtok_sp s', umem := ?m\<rparr>"
      using s2 unfolding i(1) of_nat_add add.assoc by blast+
    have um: "umem s' = ?m" using e by (metis user.select_convs(1) user.surjective user.update_convs(1,2))
    have pl: "place t p word" unfolding place_def using p(1) len i(2) by (intro exI [of _ "i + (length cs - length rest)"]) simp
    have "strtok_sp s' = t + of_nat (i + (length cs - length rest) + (length word + (if word = rest then 0 else 1)))"
      unfolding p(2) unfolding p(1) by (simp only: of_nat_add add.assoc)
    then have "place t (strtok_sp s') (drop (Suc (length word)) rest)"
      unfolding place_def using len short i(2) by (intro exI [of _ "i + (length cs - length rest) + (length word + (if word = rest then 0 else 1))"]) auto
    then have pe: "pending t (s\<lparr>strtok_sp := strtok_sp s', umem := ?m\<rparr>) (drop (Suc (length word)) rest)"
      using c(2) um by (simp add: pending_def)
    have "?m b = umem s b" if "\<not> in_region t 1025 b" for b using place_in [OF pl order_refl] that by auto
    moreover have "p \<noteq> 0" using place_in [OF pl, of 0] assms(4) by auto
    ultimately show ?thesis using s'(1) e False pl c(1) um pe by (intro that [where p = p and x = "strtok_sp s'" and m = ?m]) auto
  qed
qed

text \<open>The token stands for the words still to come.\<close>

definition token_ok :: "u32 \<Rightarrow> user \<Rightarrow> u32 \<Rightarrow> u8 list list \<Rightarrow> bool" where
  "token_ok t s token ws \<longleftrightarrow> (case ws of [] \<Rightarrow> token = 0
     | w # ws' \<Rightarrow> token \<noteq> 0 \<and> place t token w \<and> cstr (umem s) token w \<and> (\<exists>r. pending t s r \<and> ws' = line_words r))"

lemma token_next:
  assumes "text = (if str \<noteq> 0 then str else strtok_sp s)" "place t text cs" "cstr (umem s) text cs" "\<not> in_region t 1025 0"
  obtains p x m where "strtok str [0x20] s = Some (p, s\<lparr>strtok_sp := x, umem := m\<rparr>)" "\<And>b. \<not> in_region t 1025 b \<Longrightarrow> m b = umem s b"
    "token_ok t (s\<lparr>strtok_sp := x, umem := m\<rparr>) p (line_words cs)"
proof -
  let ?rest = "dropWhile (\<lambda>c. c = 0x20) cs"
  let ?word = "takeWhile (\<lambda>c. c \<noteq> 0x20) ?rest"
  obtain p x m where n: "strtok str [0x20] s = Some (p, s\<lparr>strtok_sp := x, umem := m\<rparr>)" "\<And>b. \<not> in_region t 1025 b \<Longrightarrow> m b = umem s b"
    "?rest = [] \<Longrightarrow> p = 0"
    "?rest \<noteq> [] \<Longrightarrow> p \<noteq> 0 \<and> place t p ?word \<and> cstr m p ?word \<and> pending t (s\<lparr>strtok_sp := x, umem := m\<rparr>) (drop (Suc (length ?word)) ?rest)"
    by (rule next_token [OF assms refl refl]) blast
  have "line_words cs = (if ?rest = [] then [] else ?word # line_words (drop (Suc (length ?word)) ?rest))"
    by (subst line_words.simps) (simp only: Let_def)
  then have "token_ok t (s\<lparr>strtok_sp := x, umem := m\<rparr>) p (line_words cs)" using n(3,4) by (auto simp: token_ok_def)
  with n(1,2) show thesis by (rule that)
qed

section \<open>All arguments\<close>

definition grant :: "user \<Rightarrow> nat \<Rightarrow> u32" where
  "grant s k = granted s (granted_count s + k)"

text \<open>The next \<open>n\<close> requests are granted, with blocks apart from each other and from the text.\<close>

definition grants_ok :: "u32 \<Rightarrow> user \<Rightarrow> nat \<Rightarrow> bool" where
  "grants_ok t s n \<longleftrightarrow> (\<forall>k < n. grant s k \<noteq> 0 \<and> (\<forall>b. in_region (grant s k) 516 b \<longrightarrow> \<not> in_region t 1025 b)
     \<and> (\<forall>j < n. j \<noteq> k \<longrightarrow> (\<forall>b. in_region (grant s k) 516 b \<longrightarrow> \<not> in_region (grant s j) 516 b)))"

definition parse_frame :: "u32 \<Rightarrow> user \<Rightarrow> nat \<Rightarrow> u32 \<Rightarrow> bool" where
  "parse_frame t s n b \<longleftrightarrow> \<not> in_region t 1025 b \<and> (\<forall>k < n. \<not> in_region (grant s k) 516 b)"

lemma next_field: "(\<And>b. in_region c 516 b \<Longrightarrow> m' b = m b) \<Longrightarrow> load32 m' (c + 512) = load32 m (c + 512)"
proof (rule load32_cong)
  fix k :: nat
  assume same: "\<And>b. in_region c 516 b \<Longrightarrow> m' b = m b" and k: "k < 4"
  have "in_region c 516 (c + of_nat (512 + k))" using k by (intro in_region_offset) simp
  then show "m' (c + 512 + of_nat k) = m (c + 512 + of_nat k)" using same by (simp add: add.assoc)
qed

lemma argument_field: "i < 512 \<Longrightarrow> \<not> in_region (a + 512) 4 (a + of_nat i)"
proof
  assume i: "i < 512" and "in_region (a + 512) 4 (a + of_nat i)"
  then obtain j where "j < 4" "a + of_nat i = a + of_nat (512 + j)" by (auto simp: in_region_iff add.assoc)
  then show False using i by (simp add: of_nat_eq_u32 unat_of_nat32 del: of_nat_add)
qed

lemma parse_loop_run:
  assumes "token_ok t s token ws" "grants_ok t s (length ws)" "\<not> in_region t 1025 0"
    "\<And>b. in_region current 516 b \<Longrightarrow> parse_frame t s (length ws) b" "load32 (umem s) (current + 512) = 0"
  shows "\<exists>x m. parse_command_loop current token s = Some (s\<lparr>strtok_sp := x, umem := m, granted_count := granted_count s + length ws\<rparr>)
    \<and> argument_list m (load32 m (current + 512)) (map (take 511) ws)
    \<and> (\<forall>b. parse_frame t s (length ws) b \<longrightarrow> \<not> in_region (current + 512) 4 b \<longrightarrow> m b = umem s b)"
  using assms
proof (induction ws arbitrary: current token s)
  case Nil
  then have "parse_command_loop current token s = Some (s\<lparr>strtok_sp := strtok_sp s, umem := umem s, granted_count := granted_count s\<rparr>)"
    by (simp add: token_ok_def parse_command_loop.simps [of current 0 s])
  then show ?case using Nil.prems(5) by (intro exI [of _ "strtok_sp s"] exI [of _ "umem s"]) simp
next
  case (Cons w ws)
  let ?a = "grant s 0"
  obtain r where tok: "token \<noteq> 0" "place t token w" "cstr (umem s) token w" "pending t s r" "ws = line_words r"
    using Cons.prems(1) by (auto simp: token_ok_def)
  note gk = Cons.prems(2) [unfolded grants_ok_def, rule_format, of 0]
  have g: "?a \<noteq> 0" "\<And>b. in_region ?a 516 b \<Longrightarrow> \<not> in_region t 1025 b" using gk by simp_all
  have gs: "\<not> in_region (grant s (Suc k)) 516 b" if "in_region ?a 516 b" "k < length ws" for b k
    using gk that by auto
  have cur: "\<not> in_region t 1025 b" "\<not> in_region ?a 516 b" "k < length ws \<Longrightarrow> \<not> in_region (grant s (Suc k)) 516 b"
    if "in_region current 516 b" for b k using Cons.prems(4) [OF that] by (auto simp: parse_frame_def)
  have in4: "in_region x 516 b" if "in_region (x + 512) 4 b" for x b using in_region_sub [of x 512 4 b] that by simp
  have "\<not> in_region ?a 516 (token + of_nat i)" if "i \<le> length w" for i using g(2) place_in [OF tok(2) that] by blast
  then obtain m1 where m1: "new_argument token s = (?a, s\<lparr>granted_count := Suc (granted_count s), umem := m1\<rparr>)"
    "cstr m1 ?a (take 511 w)" "load32 m1 (?a + 512) = 0" "\<And>b. \<not> in_region ?a 516 b \<Longrightarrow> m1 b = umem s b"
    using new_argument_run [of s ?a token w] g(1) tok(3) by (auto simp: grant_def)
  define m2 where "m2 = store32 m1 (current + 512) ?a"
  let ?s2 = "s\<lparr>granted_count := Suc (granted_count s), umem := m2\<rparr>"
  have m2: "m2 b = m1 b" if "\<not> in_region (current + 512) 4 b" for b
    unfolding m2_def using that by (intro store32_other) (auto simp: in_region_iff)
  have kept_text: "m2 b = umem s b" if "in_region t 1025 b" for b
  proof -
    have "\<not> in_region ?a 516 b" "\<not> in_region (current + 512) 4 b" using in4 cur(1) g(2) that by blast+
    then show ?thesis using m2 m1(4) by simp
  qed
  have rest: "place t (strtok_sp ?s2) r" "cstr (umem ?s2) (strtok_sp ?s2) r"
    using tok(4) kept_text place_in [of t "strtok_sp s" r] by (auto simp: pending_def intro: cstr_frame)
  have at: "strtok_sp ?s2 = (if (0 :: u32) \<noteq> 0 then 0 else strtok_sp ?s2)" by simp
  obtain p x m3 where n: "strtok 0 [0x20] ?s2 = Some (p, ?s2\<lparr>strtok_sp := x, umem := m3\<rparr>)" "\<And>b. \<not> in_region t 1025 b \<Longrightarrow> m3 b = umem ?s2 b"
    "token_ok t (?s2\<lparr>strtok_sp := x, umem := m3\<rparr>) p (line_words r)"
    by (rule token_next [OF at rest Cons.prems(3)]) blast
  let ?s3 = "s\<lparr>granted_count := Suc (granted_count s), strtok_sp := x, umem := m3\<rparr>"
  have s3: "?s2\<lparr>strtok_sp := x, umem := m3\<rparr> = ?s3" by simp
  have gr: "grant ?s3 k = grant s (Suc k)" for k by (simp add: grant_def)
  have fr: "parse_frame t ?s3 (length ws) b \<longleftrightarrow> \<not> in_region t 1025 b \<and> (\<forall>k < length ws. \<not> in_region (grant s (Suc k)) 516 b)" for b
    by (simp add: parse_frame_def gr)
  have "grants_ok t ?s3 (length ws)" using Cons.prems(2) unfolding grants_ok_def gr by fastforce
  moreover have "parse_frame t ?s3 (length ws) b" if "in_region ?a 516 b" for b using fr g(2) gs that by blast
  moreover have m3a: "m3 b = m1 b" if "in_region ?a 516 b" for b
  proof -
    have "\<not> in_region (current + 512) 4 b" using in4 cur(2) that by blast
    then show ?thesis using n(2) [of b] g(2) [OF that] m2 by simp
  qed
  have "load32 (umem ?s3) (?a + 512) = load32 m1 (?a + 512)"
    using m3a by (intro next_field) simp
  ultimately obtain y m where ih: "parse_command_loop ?a p ?s3 = Some (?s3\<lparr>strtok_sp := y, umem := m, granted_count := granted_count ?s3 + length ws\<rparr>)"
    "argument_list m (load32 m (?a + 512)) (map (take 511) ws)"
    "\<And>b. parse_frame t ?s3 (length ws) b \<Longrightarrow> \<not> in_region (?a + 512) 4 b \<Longrightarrow> m b = umem ?s3 b"
    using Cons.IH [OF n(3) [unfolded s3 tok(5) [symmetric]] _ Cons.prems(3), of ?a] m1(3) by auto
  have "parse_command_loop current token s = parse_command_loop ?a p ?s3"
    using tok(1) g(1) m1(1) n(1) by (subst parse_command_loop.simps) (simp add: set_umem_def m2_def [symmetric])
  then have "parse_command_loop current token s = Some (s\<lparr>strtok_sp := y, umem := m, granted_count := granted_count s + length (w # ws)\<rparr>)"
    using ih(1) by simp
  moreover have "load32 m (current + 512) = ?a"
  proof -
    have "m b = m2 b" if "in_region current 516 b" for b
    proof -
      have "parse_frame t ?s3 (length ws) b" "\<not> in_region (?a + 512) 4 b" using fr cur [OF that] in4 by blast+
      then show ?thesis using ih(3) n(2) cur(1) [OF that] by simp
    qed
    then have "load32 m (current + 512) = load32 m2 (current + 512)" by (rule next_field)
    then show ?thesis unfolding m2_def by (simp only: load32_store32_same)
  qed
  moreover have "cstr m ?a (take 511 w)"
  proof (rule cstr_frame [OF m1(2)])
    fix i assume "i \<le> length (take 511 w)"
    then have i: "i < 512" by simp
    then have a: "in_region ?a 516 (?a + of_nat i)" by (simp add: in_region_offset)
    then have "parse_frame t ?s3 (length ws) (?a + of_nat i)" using fr g(2) gs by blast
    then show "m (?a + of_nat i) = m1 (?a + of_nat i)" using ih(3) argument_field [OF i] m3a [OF a] by simp
  qed
  moreover have "m b = umem s b" if "parse_frame t s (length (w # ws)) b" "\<not> in_region (current + 512) 4 b" for b
  proof -
    have f: "\<not> in_region t 1025 b" "\<not> in_region ?a 516 b" "\<forall>k < length ws. \<not> in_region (grant s (Suc k)) 516 b"
      using that(1) by (auto simp: parse_frame_def)
    then have "parse_frame t ?s3 (length ws) b" "\<not> in_region (?a + 512) 4 b" using fr in4 by blast+
    then have "m b = m3 b" using ih(3) by simp
    then show ?thesis using n(2) [OF f(1)] m2 [OF that(2)] m1(4) [OF f(2)] by simp
  qed
  ultimately show ?case using g(1) ih(2) by (intro exI [of _ y] exI [of _ m]) simp
qed

section \<open>The whole line\<close>

text \<open>The grants after the first one, of a state \<open>s'\<close> in which the first one is taken.\<close>

lemma grants_apart: "grants_ok t s n \<Longrightarrow> k < n \<Longrightarrow> j < n \<Longrightarrow> j \<noteq> k \<Longrightarrow> in_region (grant s k) 516 b \<Longrightarrow> \<not> in_region (grant s j) 516 b"
  unfolding grants_ok_def by blast

lemma grants_text: "grants_ok t s n \<Longrightarrow> k < n \<Longrightarrow> grant s k \<noteq> 0 \<and> (in_region (grant s k) 516 b \<longrightarrow> \<not> in_region t 1025 b)"
  unfolding grants_ok_def by blast

lemma grants_ok_tail:
  assumes ok: "grants_ok t s (Suc n)" and later: "\<And>k. grant s' k = grant s (Suc k)"
  shows "grants_ok t s' n" and "in_region (grant s 0) 516 b \<Longrightarrow> parse_frame t s' n b"
proof -
  show "grants_ok t s' n"
    unfolding grants_ok_def later
  proof (intro allI impI conjI)
    fix k assume k: "k < n"
    show "grant s (Suc k) \<noteq> 0" using grants_text [OF ok, of "Suc k"] k by simp
    show "\<not> in_region t 1025 b" if "in_region (grant s (Suc k)) 516 b" for b using grants_text [OF ok, of "Suc k" b] k that by simp
    show "\<not> in_region (grant s (Suc j)) 516 b" if "j < n" "j \<noteq> k" "in_region (grant s (Suc k)) 516 b" for j b
      using grants_apart [OF ok _ _ _ that(3), of "Suc j"] k that by simp
  qed
  show "parse_frame t s' n b" if b: "in_region (grant s 0) 516 b"
    unfolding parse_frame_def later
  proof (intro conjI allI impI)
    show "\<not> in_region t 1025 b" using grants_text [OF ok, of 0 b] b by simp
    show "\<not> in_region (grant s (Suc k)) 516 b" if "k < n" for k using grants_apart [OF ok _ _ _ b, of "Suc k"] that by simp
  qed
qed

lemma basic_os_parse_command_run:
  assumes command: "cstr (umem s) command cs" "\<And>i j. i < 1025 \<Longrightarrow> j \<le> length cs \<Longrightarrow> scommand_at s + of_nat i \<noteq> command + of_nat j"
    and max: "max_len <s 1025" and text0: "\<not> in_region (scommand_at s) 1025 0"
    and grants: "grants_ok (scommand_at s) s (length (line_words (take 1024 cs)))"
  defines "ws \<equiv> line_words (take 1024 cs)" and "t \<equiv> scommand_at s"
  shows "\<exists>x m. basic_os_parse_command command max_len s = Some (if ws = [] then 0 else grant s 0,
      s\<lparr>strtok_sp := x, umem := m, granted_count := granted_count s + length ws\<rparr>)
    \<and> argument_list m (if ws = [] then 0 else grant s 0) (map (take 511) ws)
    \<and> (\<forall>b. parse_frame t s (length ws) b \<longrightarrow> m b = umem s b)"
proof -
  note text0 = text0 [folded t_def] and grants = grants [folded ws_def t_def]
  have limit: "\<not> 1025 \<le>s max_len" using max by (simp add: word_sless_alt word_sle_eq)
  let ?m0 = "strncpy (umem s) t command 1025"
  let ?s0 = "set_umem ?m0 s"
  have m0: "?m0 = put_cstr (umem s) t (take 1024 cs)"
    using strncpy_string [of 1025 "umem s" command cs t] command by (simp add: t_def)
  have nz: "0 \<notin> set (take 1024 cs)" using command(1) in_set_takeD by (fastforce simp: cstr_iff)
  have copy: "cstr (umem ?s0) t (take 1024 cs)" unfolding set_umem_def m0 using cstr_put_cstr [OF nz, of "umem s" t] by simp
  have off0: "?m0 b = umem s b" if "\<not> in_region t 1025 b" for b
    unfolding m0 by (rule put_cstr_region [of _ 1025, OF _ that]) simp
  have at: "t = (if t \<noteq> 0 then t else strtok_sp ?s0)" using text0 in_region_offset [of 0 1025 t] by auto
  have place: "place t t (take 1024 cs)" unfolding place_def by (intro exI [of _ 0]) simp
  obtain p x m1 where n: "strtok t [0x20] ?s0 = Some (p, ?s0\<lparr>strtok_sp := x, umem := m1\<rparr>)" "\<And>b. \<not> in_region t 1025 b \<Longrightarrow> m1 b = umem ?s0 b"
    "token_ok t (?s0\<lparr>strtok_sp := x, umem := m1\<rparr>) p ws"
    unfolding ws_def by (rule token_next [OF at place copy text0]) blast
  let ?s1 = "s\<lparr>strtok_sp := x, umem := m1\<rparr>"
  have s1: "?s0\<lparr>strtok_sp := x, umem := m1\<rparr> = ?s1" by (simp add: set_umem_def)
  have off1: "m1 b = umem s b" if "\<not> in_region t 1025 b" for b using n(2) [OF that] off0 [OF that] by (simp add: set_umem_def)
  show ?thesis
  proof (cases ws)
    case Nil
    then have "p = 0" using n(3) by (simp add: token_ok_def)
    then have "basic_os_parse_command command max_len s = Some (0, ?s1)"
      using n(1) limit by (simp add: basic_os_parse_command_def t_def [symmetric] s1)
    then show ?thesis using off1 Nil by (intro exI [of _ x] exI [of _ m1]) (simp add: parse_frame_def)
  next
    case (Cons w vs)
    let ?a = "grant s 0"
    obtain r where tok: "p \<noteq> 0" "place t p w" "cstr m1 p w" "pending t ?s1 r" "vs = line_words r"
      using n(3) unfolding s1 Cons by (auto simp: token_ok_def)
    have g: "?a \<noteq> 0" "\<And>b. in_region ?a 516 b \<Longrightarrow> \<not> in_region t 1025 b"
      using grants unfolding grants_ok_def Cons by auto
    have "\<not> in_region ?a 516 (p + of_nat i)" if "i \<le> length w" for i using g(2) place_in [OF tok(2) that] by blast
    then obtain m2 where m2: "new_argument p ?s1 = (?a, ?s1\<lparr>granted_count := Suc (granted_count s), umem := m2\<rparr>)"
      "cstr m2 ?a (take 511 w)" "load32 m2 (?a + 512) = 0" "\<And>b. \<not> in_region ?a 516 b \<Longrightarrow> m2 b = m1 b"
      using new_argument_run [of ?s1 ?a p w] g(1) tok(3) by (auto simp: grant_def)
    let ?s2 = "?s1\<lparr>granted_count := Suc (granted_count s), umem := m2\<rparr>"
    have "m2 b = m1 b" if "in_region t 1025 b" for b using m2(4) g(2) that by blast
    then have rest: "place t (strtok_sp ?s2) r" "cstr (umem ?s2) (strtok_sp ?s2) r"
      using tok(4) place_in [of t x r] by (auto simp: pending_def intro: cstr_frame)
    have at2: "strtok_sp ?s2 = (if (0 :: u32) \<noteq> 0 then 0 else strtok_sp ?s2)" by simp
    obtain p' y m3 where n3: "strtok 0 [0x20] ?s2 = Some (p', ?s2\<lparr>strtok_sp := y, umem := m3\<rparr>)" "\<And>b. \<not> in_region t 1025 b \<Longrightarrow> m3 b = umem ?s2 b"
      "token_ok t (?s2\<lparr>strtok_sp := y, umem := m3\<rparr>) p' vs"
      unfolding tok(5) by (rule token_next [OF at2 rest text0]) blast
    let ?s3 = "s\<lparr>granted_count := Suc (granted_count s), strtok_sp := y, umem := m3\<rparr>"
    have s3: "?s2\<lparr>strtok_sp := y, umem := m3\<rparr> = ?s3" by simp
    have gr: "grant ?s3 k = grant s (Suc k)" for k by (simp add: grant_def)
    note tail = grants_ok_tail [OF grants [unfolded Cons length_Cons], of ?s3, OF gr]
    have g3: "grants_ok t ?s3 (length vs)" by (rule tail(1))
    have apart: "parse_frame t ?s3 (length vs) b" if "in_region ?a 516 b" for b
      using tail(2) that by blast
    have m3a: "m3 b = m2 b" if "in_region ?a 516 b" for b using n3(2) g(2) [OF that] by simp
    then have "load32 (umem ?s3) (?a + 512) = 0" using next_field [of ?a m3 m2] m2(3) by simp
    from parse_loop_run [OF n3(3) [unfolded s3] g3 text0 apart this] obtain z m where
      l: "parse_command_loop ?a p' ?s3 = Some (?s3\<lparr>strtok_sp := z, umem := m, granted_count := granted_count ?s3 + length vs\<rparr>)"
      "argument_list m (load32 m (?a + 512)) (map (take 511) vs)"
      "\<And>b. parse_frame t ?s3 (length vs) b \<Longrightarrow> \<not> in_region (?a + 512) 4 b \<Longrightarrow> m b = umem ?s3 b" by auto
    have "basic_os_parse_command command max_len s = Some (?a, s\<lparr>strtok_sp := z, umem := m, granted_count := granted_count s + length ws\<rparr>)"
      using n(1) limit tok(1) m2(1) g(1) n3(1) l(1) Cons by (simp add: basic_os_parse_command_def t_def [symmetric] s1)
    moreover have "cstr m ?a (take 511 w)"
    proof (rule cstr_frame [OF m2(2)])
      fix i assume "i \<le> length (take 511 w)"
      then have i: "i < 512" by simp
      then have a: "in_region ?a 516 (?a + of_nat i)" by (simp add: in_region_offset)
      show "m (?a + of_nat i) = m2 (?a + of_nat i)" using l(3) [OF apart [OF a] argument_field [OF i]] m3a [OF a] by simp
    qed
    moreover have "m b = umem s b" if f: "parse_frame t s (length ws) b" for b
    proof -
      have o: "\<not> in_region t 1025 b" "\<not> in_region ?a 516 b" "parse_frame t ?s3 (length vs) b"
        using f unfolding parse_frame_def gr Cons by auto
      then have "\<not> in_region (?a + 512) 4 b" using in_region_sub [of ?a 512 4 b] by auto
      then show ?thesis using l(3) [OF o(3)] n3(2) [OF o(1)] m2(4) [OF o(2)] off1 [OF o(1)] by simp
    qed
    ultimately show ?thesis using g(1) l(2) Cons by (intro exI [of _ z] exI [of _ m]) simp
  qed
qed

section \<open>\<^verbatim>\<open>basic_os_system_run\<close>\<close>

text \<open>C21. The command line a program hands to \<^verbatim>\<open>basic_os_system_run\<close>, when the library gets its memory: the line is cut at 1024
  characters and split at the blanks; each word becomes one \<^verbatim>\<open>struct command_argument\<close> on memory the kernel grants, cut at
  511 characters and zero-terminated, linked in the order of the line and closed by a null pointer; the kernel gets
  the head of the list and the answer is 0. A line without a word is refused with \<^verbatim>\<open>-EINVARG\<close> and nothing is granted or
  handed to the kernel. Apart from the two buffers on the stack and the structures, no byte of the program changes.\<close>

theorem basic_os_system_run_correct:
  assumes command: "cstr (umem s) command cs"
    and text_apart: "\<And>i j. i < 1025 \<Longrightarrow> j \<le> length cs \<Longrightarrow> scommand_at s + of_nat i \<noteq> command + of_nat j"
    and buf_apart: "\<And>i j. i < 1024 \<Longrightarrow> j \<le> length cs \<Longrightarrow> run_buf_at s + of_nat i \<noteq> command + of_nat j"
    and not_null: "\<not> in_region (scommand_at s) 1025 0"
    and words: "ws = line_words (take 1024 cs)" and grants: "grants_ok (scommand_at s) s (length ws)"
  shows "\<exists>x m. basic_os_system_run command s =
      (if ws = [] then Some (Ret (- U_EINVARG) (s\<lparr>strtok_sp := x, umem := m\<rparr>))
       else Some (Ret 0 (s\<lparr>strtok_sp := x, umem := m, granted_count := granted_count s + length ws,
                            commands_run := commands_run s @ [grant s 0]\<rparr>)))
    \<and> argument_list m (if ws = [] then 0 else grant s 0) (map (take 511) ws)
    \<and> (\<forall>b. parse_frame (scommand_at s) s (length ws) b \<and> \<not> in_region (run_buf_at s) 1024 b \<longrightarrow> m b = umem s b)"
proof -
  let ?m0 = "strncpy (umem s) (run_buf_at s) command 1024"
  let ?s0 = "set_umem ?m0 s"
  have m0: "?m0 = put_cstr (umem s) (run_buf_at s) (take 1023 cs)"
    using strncpy_string [of 1024 "umem s" command cs "run_buf_at s"] command buf_apart by simp
  have off: "?m0 b = umem s b" if "\<not> in_region (run_buf_at s) 1024 b" for b
    unfolding m0 by (rule put_cstr_region [of _ 1024, OF _ that]) simp
  have "\<not> in_region (run_buf_at s) 1024 (command + of_nat j)" if "j \<le> length cs" for j
  proof
    assume "in_region (run_buf_at s) 1024 (command + of_nat j)"
    then obtain i where "i < 1024" "command + of_nat j = run_buf_at s + of_nat i" by (auto simp: in_region_iff)
    then show False using buf_apart [of i j] that by metis
  qed
  then have kept: "cstr (umem ?s0) command cs" using off by (auto simp: set_umem_def intro: cstr_frame [OF command])
  have same: "scommand_at ?s0 = scommand_at s" "grant ?s0 k = grant s k" for k by (simp_all add: set_umem_def grant_def)
  have g0: "grants_ok (scommand_at ?s0) ?s0 (length (line_words (take 1024 cs)))"
    using grants unfolding grants_ok_def same words by simp
  have max: "(1024 :: u32) <s 1025" by (simp add: word_sless_alt)
  obtain x m where p: "basic_os_parse_command command 1024 ?s0 = Some (if ws = [] then 0 else grant s 0,
      ?s0\<lparr>strtok_sp := x, umem := m, granted_count := granted_count ?s0 + length ws\<rparr>)"
    "argument_list m (if ws = [] then 0 else grant s 0) (map (take 511) ws)"
    "\<And>b. parse_frame (scommand_at s) ?s0 (length ws) b \<Longrightarrow> m b = umem ?s0 b"
    using basic_os_parse_command_run [OF kept _ max _ g0] text_apart not_null unfolding same words by metis
  have "m b = umem s b" if "parse_frame (scommand_at s) s (length ws) b" "\<not> in_region (run_buf_at s) 1024 b" for b
    using p(3) [of b] that off [of b] unfolding parse_frame_def same by (simp add: set_umem_def)
  moreover have "grant s 0 \<noteq> 0" if "ws \<noteq> []" using grants_text [OF grants, of 0] that by simp
  ultimately show ?thesis
    using p(1,2) by (intro exI [of _ x] exI [of _ m])
      (auto simp: basic_os_system_run_def andthen_def modify_def perhaps_def ret_def kernel_system_def set_umem_def)
qed

text \<open>Two ranges of addresses one behind the other.\<close>

lemma regions_apart:
  fixes p q :: nat and n k b :: u32
  assumes b: "in_region (of_nat q) k b" and "p + unat n \<le> q \<or> q + unat k \<le> p" "q + unat k < 2 ^ 32" "p + unat n < 2 ^ 32"
  shows "\<not> in_region (of_nat p) n b"
proof
  assume "in_region (of_nat p) n b"
  then obtain i j where "i < unat n" "j < unat k" "(of_nat (p + i) :: u32) = of_nat (q + j)" using b by (auto simp: in_region_iff)
  then show False using assms(2-4) by (simp add: of_nat_eq_u32 unat_of_nat32 del: of_nat_add)
qed

text \<open>The line \<open>ls a\<close>, with a blank in front.\<close>

definition granting_user :: user where
  "granting_user = words_user\<lparr>granted := (\<lambda>k. 0x10000 + 0x1000 * of_nat k)\<rparr>"

theorem basic_os_system_run_correct_witness:
  "\<exists>s'. basic_os_system_run 0x6000 granting_user = Some (Ret 0 s') \<and> commands_run s' = [0x10000]
     \<and> argument_list (umem s') 0x10000 [[0x6C, 0x73], [0x61]]"
proof -
  let ?cs = "[0x20, 0x6C, 0x73, 0x20, 0x61] :: u8 list"
  have c: "cstr (umem granting_user) 0x6000 ?cs" by (simp add: granting_user_def words_user_def)
  have ws: "[[0x6C, 0x73], [0x61]] = line_words (take 1024 ?cs)" by (simp add: line_words.simps)
  have at: "scommand_at granting_user = 0x2000" "run_buf_at granting_user = 0x3000" "commands_run granting_user = []"
    "grant granting_user k = 0x10000 + 0x1000 * of_nat k" for k
    by (simp_all add: granting_user_def words_user_def blank_user_def grant_def)
  have "\<not> in_region 0x2000 1025 b" if "in_region 0x10000 516 b \<or> in_region 0x11000 516 b" for b
    using that regions_apart [where q = "0x10000" and k = 516 and b = b and p = "0x2000" and n = 1025] regions_apart [where q = "0x11000" and k = 516 and b = b and p = "0x2000" and n = 1025] by auto
  moreover have "\<not> (in_region 0x10000 516 b \<and> in_region 0x11000 516 b)" for b
    using regions_apart [where q = "0x10000" and k = 516 and b = b and p = "0x11000" and n = 516] by auto
  ultimately have g: "grants_ok (scommand_at granting_user) granting_user (length [[0x6C, 0x73], [0x61 :: u8]])"
    unfolding grants_ok_def at by (auto simp: All_less_Suc)
  have far: "scommand_at granting_user + of_nat i \<noteq> 0x6000 + of_nat j" if "i < 1025" "j \<le> length ?cs" for i j
    using that unfolding at by (auto simp: word_unat_eq_iff unat_word_ariths unat_of_nat32)
  have far': "run_buf_at granting_user + of_nat i \<noteq> 0x6000 + of_nat j" if "i < 1024" "j \<le> length ?cs" for i j
    using that unfolding at by (auto simp: word_unat_eq_iff unat_word_ariths unat_of_nat32)
  have null: "\<not> in_region (scommand_at granting_user) 1025 0" unfolding at by (simp add: in_region_def)
  obtain x m where r: "basic_os_system_run 0x6000 granting_user = Some (Ret 0 (granting_user\<lparr>strtok_sp := x, umem := m,
      granted_count := granted_count granting_user + 2, commands_run := [0x10000]\<rparr>))"
    "argument_list m 0x10000 [[0x6C, 0x73], [0x61]]"
    using basic_os_system_run_correct [OF c far far' null ws g] unfolding at by auto
  then show ?thesis by (intro exI) (rule conjI [OF r(1)], simp)
qed

end
