(* ===== verification/ProcessArguments.thy ===== *)
theory ProcessArguments
  imports ProcessRuns CommandSpec
begin

text \<open>
  The arguments of a process, from the list a command line gives to the vector the program reads:
  \<^verbatim>\<open>process_count_command_arguments\<close>, \<^verbatim>\<open>process_inject_arguments\<close> and \<^verbatim>\<open>process_get_arguments\<close>.
\<close>

section \<open>Bytes of its own\<close>

text \<open>A byte of a live region that belongs neither to the page tables nor to the process structure nor to the
  directory pointer of its task: nothing the kernel does for the process touches it unless it is meant to.\<close>

definition own_byte :: "'a pstate_scheme \<Rightarrow> u32 \<Rightarrow> u32 \<Rightarrow> bool" where
  "own_byte s p a \<longleftrightarrow> (\<exists>q k. (q, k) \<in> kheap_live s - chunk_regions (mem s) (process_page_directory (mem s) p) \<and> q \<le> unat a \<and> unat a < q + k)
     \<and> \<not> in_region p 9364 a \<and> \<not> in_region (process_task (mem s) p) 4 a"

lemma own_byte_kept:
  assumes "process_ok s p" "own_byte s p a"
  shows "held s a" "off_tables (mem s) (process_page_directory (mem s) p) a" "\<not> in_region (p + 116) 8192 a"
proof -
  note ok = process_okD [OF assms(1)]
  obtain q k where q: "(q, k) \<in> kheap_live s - chunk_regions (mem s) (process_page_directory (mem s) p)" "q \<le> unat a" "unat a < q + k"
    using assms(2) unfolding own_byte_def by blast
  show "held s a" using live_held [OF ok(1) _ q(2,3)] q(1) by simp
  show "off_tables (mem s) (process_page_directory (mem s) p) a" by (rule region_off_chunk(1) [OF ok(1-3) q])
  show "\<not> in_region (p + 116) 8192 a" using assms(2) table_in_process [OF ok(6)] unfolding own_byte_def by blast
qed

text \<open>The pages of an allocation, as the process sees them: mapped to themselves, present, writable, for the user.\<close>

definition mapped :: "'a pstate_scheme \<Rightarrow> u32 \<Rightarrow> u32 \<times> u32 \<Rightarrow> bool" where
  "mapped s p e \<longleftrightarrow> (\<forall>w. paging_is_aligned w \<longrightarrow> w - fst e < paging_align_address (fst e + snd e) - fst e \<longrightarrow>
     paging_get (d_entry (mem s) (process_page_directory (mem s) p)) w (mem s) = w OR 7)"

definition free_slots :: "memory \<Rightarrow> u32 \<Rightarrow> nat set" where
  "free_slots m p = {i. i < 1024 \<and> fst (allocations m p ! i) = 0}"

text \<open>A write of such bytes leaves everything else of the process as it is.\<close>

lemma own_write:
  assumes "process_ok s p" "\<And>a. m' a \<noteq> mem s a \<Longrightarrow> own_byte s p a"
  defines "s' \<equiv> s\<lparr>mem := m'\<rparr>"
  shows "process_ok s' p" "kheap_live s' = kheap_live s" "free_blocks s' = free_blocks s" "allocations m' p = allocations (mem s) p"
    "process_page_directory m' p = process_page_directory (mem s) p" "own_byte s' p = own_byte s p" "mapped s' p = mapped s p"
proof -
  note ok = process_okD [OF assms(1)]
  have p: "m' (p + of_nat i) = mem s (p + of_nat i)" if "i < 8308" for i
  proof -
    have "in_region p 9364 (p + of_nat i)" using that by (intro in_region_offset) simp
    then show ?thesis using assms(2) unfolding own_byte_def by blast
  qed
  have t: "m' (process_task (mem s) p + of_nat i) = mem s (process_task (mem s) p + of_nat i)" if "i < 4" for i
  proof -
    have "in_region (process_task (mem s) p) 4 (process_task (mem s) p + of_nat i)" using that by (intro in_region_offset) simp
    then show ?thesis using assms(2) unfolding own_byte_def by blast
  qed
  have own: "\<exists>q l. (q, l) \<in> kheap_live s - chunk_regions (mem s) (process_page_directory (mem s) p) \<and> q \<le> unat a \<and> unat a < q + l"
    if "m' a \<noteq> mem s a" for a
    using assms(2) [OF that] unfolding own_byte_def by blast
  note ch = process_ok_change [OF assms(1), of m', OF own p t, folded s'_def]
  have c: "process_ok s' p" "kheap_live s' = kheap_live s" "allocations m' p = allocations (mem s) p"
    "process_page_directory m' p = process_page_directory (mem s) p" "process_task m' p = process_task (mem s) p"
    "chunk_regions m' (process_page_directory (mem s) p) = chunk_regions (mem s) (process_page_directory (mem s) p)"
    "d_entry m' (process_page_directory (mem s) p) = d_entry (mem s) (process_page_directory (mem s) p)"
    by (rule ch; assumption)+
  have g: "paging_get (d_entry (mem s) (process_page_directory (mem s) p)) w m' = paging_get (d_entry (mem s) (process_page_directory (mem s) p)) w (mem s)"
    if "paging_is_aligned w" for w by (rule ch(8) [OF _ _ _ that])
  show "process_ok s' p" "kheap_live s' = kheap_live s" "allocations m' p = allocations (mem s) p"
    "process_page_directory m' p = process_page_directory (mem s) p" by (rule c)+
  show "free_blocks s' = free_blocks s" using kheap_accounting [OF ok(1)] kheap_accounting [OF process_okD(1) [OF c(1)]] c(2) by simp
  have m: "mem s' = m'" by (simp add: s'_def)
  show "own_byte s' p = own_byte s p" unfolding own_byte_def fun_eq_iff m c(2,4,5,6) by simp
  show "mapped s' p = mapped s p" unfolding mapped_def fun_eq_iff m c(4,7) using g by auto
qed

section \<open>One request\<close>

text \<open>The words of the process structure outside the table of allocations.\<close>

definition field_offset :: "nat \<Rightarrow> bool" where
  "field_offset f \<longleftrightarrow> f + 4 \<le> 116 \<or> 8308 \<le> f \<and> f + 4 \<le> 9364"

lemma small_request:
  assumes "process_ok s p" "0 < sz" "unat sz \<le> 4096" "0 < free_blocks s" "free_slots (mem s) p \<noteq> {}"
  obtains q s' i where "process_malloc p sz s = (q, s')" "q \<noteq> 0" "process_ok s' p" "i \<in> free_slots (mem s) p"
    "allocations (mem s') p = (allocations (mem s) p)[i := (q, sz)]" "free_slots (mem s') p = free_slots (mem s) p - {i}"
    "Suc (free_blocks s') = free_blocks s"
    "\<And>a. own_byte s p a \<Longrightarrow> own_byte s' p a \<and> mem s' a = mem s a"
    "\<And>k. k < unat sz \<Longrightarrow> own_byte s' p (q + of_nat k)" "\<And>a. in_region q sz a \<Longrightarrow> \<not> own_byte s p a"
    "mapped s' p (q, sz)" "\<And>e. mapped s p e \<Longrightarrow> mapped s' p e"
    "process_page_directory (mem s') p = process_page_directory (mem s) p"
    "\<And>f. field_offset f \<Longrightarrow> load32 (mem s') (p + of_nat f) = load32 (mem s) (p + of_nat f)"
proof -
  let ?P = "\<lambda>i. i < 1024 \<and> fst (allocations (mem s) p ! i) = 0" and ?c = "process_page_directory (mem s) p"
  let ?q = "fst (process_malloc p sz s)" and ?s = "snd (process_malloc p sz s)"
  note ok = process_okD [OF assms(1)]
  have room: "kheap_room sz s" by (rule free_block_room [OF assms(4,2,3)])
  obtain i where i: "i < 1024" "fst (allocations (mem s) p ! i) = 0" and first: "\<And>j. j < i \<Longrightarrow> \<not> ?P j"
    using assms(5) exists_least_iff [of ?P] unfolding free_slots_def by auto
  have before: "fst (allocations (mem s) p ! j) \<noteq> 0" if "j < i" for j using first [OF that] i(1) that by simp
  obtain n where n: "unat sz \<le> n" "kheap_live ?s = insert (unat ?q, n) (kheap_live s)" "\<And>k. (unat ?q, k) \<notin> kheap_live s" "?q \<noteq> 0"
    "process_ok ?s p" "allocations (mem ?s) p = (allocations (mem s) p)[i := (?q, sz)]"
    and pd: "process_page_directory (mem ?s) p = ?c" "d_entry (mem ?s) ?c = d_entry (mem s) ?c" "chunk_regions (mem ?s) ?c = chunk_regions (mem s) ?c"
    and pg: "\<And>w. paging_is_aligned w \<Longrightarrow> paging_get (d_entry (mem ?s) ?c) w (mem ?s) =
         map_interval (?q, ?q, paging_align_address (?q + sz), 7) (\<lambda>w. paging_get (d_entry (mem s) ?c) w (mem s)) w"
    and frame: "\<And>a. held s a \<Longrightarrow> off_tables (mem s) ?c a \<Longrightarrow> \<not> in_region (p + 116) 8192 a \<Longrightarrow> mem ?s a = mem s a"
    and live: "kheap_live ?s = kheap_live (snd (kzalloc sz s))"
    by (rule process_malloc_run [OF assms(1) room i before]) blast+
  have fb: "Suc (free_blocks ?s) = free_blocks s"
  proof -
    obtain b where z: "kheap_ok (snd (kzalloc sz s))" "Suc (free_blocks (snd (kzalloc sz s))) = free_blocks s"
      by (rule kzalloc_page [OF ok(1) assms(4,2,3)]) blast
    then show ?thesis using kheap_accounting [OF z(1)] kheap_accounting [OF process_okD(1) [OF n(5)]] live by simp
  qed
  have slots: "free_slots (mem ?s) p = free_slots (mem s) p - {i}"
    unfolding free_slots_def n(6) using i(1) n(4) by (auto simp: nth_list_update split: if_splits)
  have field: "load32 (mem ?s) (p + of_nat f) = load32 (mem s) (p + of_nat f)" if f: "field_offset f" for f
  proof (rule load32_cong)
    fix k :: nat assume k: "k < 4"
    let ?a = "p + of_nat f + of_nat k"
    have a: "?a = p + of_nat (f + k)" by (simp add: add.assoc)
    then have r: "in_region p 9364 ?a" unfolding a using f k by (intro in_region_offset) (auto simp: field_offset_def)
    obtain l where l: "(unat p, l) \<in> kheap_live s - chunk_regions (mem s) ?c" "unat p \<le> unat ?a" "unat ?a < unat p + l"
      using process_bytes(1) [OF assms(1) r] by blast
    have "unat ?a = unat p + (f + k)" "unat (p + 116) = unat p + 116" unfolding a using k f ok(6)
      by (auto simp: field_offset_def unat_word_ariths unat_of_nat32 simp del: of_nat_add)
    then have "\<not> in_region (p + 116) 8192 ?a" using in_region_interval [of "p + 116" 8192 ?a] ok(6) k f by (auto simp: field_offset_def)
    then show "mem ?s ?a = mem s ?a"
      using frame [OF live_held [OF ok(1) _ l(2,3)] region_off_chunk(1) [OF ok(1-3) l]] l(1) by blast
  qed
  have task: "process_task (mem ?s) p = process_task (mem s) p" using field [of 112] by (simp add: process_task_def field_offset_def)
  have base: "unat ?q + n \<le> 4294967296" using kheap_live_bounds [of "unat ?q" n ?s] n(2) by simp
  have fresh: "(unat ?q, n) \<notin> chunk_regions (mem s) ?c" using ok(3) n(3) by blast
  have other: "\<not> (unat ?q \<le> unat a \<and> unat a < unat ?q + n)" if "(b, k) \<in> kheap_live s" "b \<le> unat a" "unat a < b + k" for a b k
    using kh.live_disjoint [OF process_okD(1) [OF n(5)], of "unat ?q" n b k "unat a"] n(2,3) that by auto
  have inq: "unat ?q \<le> unat a \<and> unat a < unat ?q + n" if "in_region ?q sz a" for a
    using in_region_interval [of ?q sz a] base n(1) that by simp
  show thesis
  proof (rule that [of ?q ?s i])
    show "own_byte ?s p a \<and> mem ?s a = mem s a" if "own_byte s p a" for a
      using that frame [OF own_byte_kept [OF assms(1) that]] unfolding own_byte_def pd task n(2) by (auto simp: pd)
    show no: "\<not> own_byte s p a" if "in_region ?q sz a" for a
      using inq [OF that] other unfolding own_byte_def by blast
    show "own_byte ?s p (?q + of_nat k)" if k: "k < unat sz" for k
    proof -
      have r: "in_region ?q sz (?q + of_nat k)" by (rule in_region_offset [OF k])
      have "\<not> in_region p 9364 (?q + of_nat k)"
        using process_bytes(1) [OF assms(1), of "?q + of_nat k"] other [of _ _ "?q + of_nat k"] inq [OF r] by blast
      moreover have "\<not> in_region (process_task (mem s) p) 4 (?q + of_nat k)"
      proof
        assume "in_region (process_task (mem s) p) 4 (?q + of_nat k)"
        then obtain j where j: "j < 4" "?q + of_nat k = process_task (mem s) p + of_nat j" by (auto simp: in_region_iff)
        then show False
          using process_bytes(2) [OF assms(1), of j] other [of _ _ "?q + of_nat k"] inq [OF r] unfolding j(2) by auto
      qed
      ultimately show ?thesis unfolding own_byte_def pd task using inq [OF r] n(2) fresh by (auto simp: pd)
    qed
    show "mapped ?s p (?q, sz)" unfolding mapped_def pd(1) using pg by simp
    show "mapped ?s p e" if "mapped s p e" for e using that pg unfolding mapped_def pd(1) by simp
  qed (use n i slots fb pd field in \<open>auto simp: free_slots_def\<close>)
qed

section \<open>The list of arguments\<close>

text \<open>A list of \<^verbatim>\<open>struct command_argument\<close> with all its bytes in \<open>B\<close>.\<close>

fun argument_chain :: "(u32 \<Rightarrow> bool) \<Rightarrow> memory \<Rightarrow> u32 \<Rightarrow> u8 list list \<Rightarrow> bool" where
  "argument_chain B m a [] = (a = 0)"
| "argument_chain B m a (w # ws) = (a \<noteq> 0 \<and> (\<forall>k < 516. B (a + of_nat k)) \<and> length w < 512 \<and> cstr m a w
     \<and> argument_chain B m (load32 m (a + 512)) ws)"

lemma argument_chain_list: "argument_chain B m a ws \<Longrightarrow> argument_list m a ws"
  by (induction ws arbitrary: a) auto

lemma argument_chain_cong:
  assumes "\<And>a. B a \<Longrightarrow> m' a = m a"
  shows "argument_chain B m' a ws = argument_chain B m a ws"
proof (induction ws arbitrary: a)
  case (Cons w ws)
  have "load32 m' (a + 512) = load32 m (a + 512) \<and> cstr m' a w = cstr m a w" if "\<forall>k < 516. B (a + of_nat k)" "length w < 512"
  proof
    have byte: "m' (a + of_nat k) = m (a + of_nat k)" if "k < 516" for k using assms \<open>\<forall>k < 516. B (a + of_nat k)\<close> that by blast
    show "load32 m' (a + 512) = load32 m (a + 512)"
      using byte [of "512 + k" for k] by (intro load32_cong) (simp add: add.assoc)
    show "cstr m' a w = cstr m a w" using byte that(2) by (intro cstr_cong) simp
  qed
  then show ?case using Cons.IH by auto
qed simp

lemma argument_chain_mono: "argument_chain B m a ws \<Longrightarrow> (\<And>a. B a \<Longrightarrow> C a) \<Longrightarrow> argument_chain C m a ws"
  by (induction ws arbitrary: a) auto

lemma count_arguments_run: "argument_list m a ws \<Longrightarrow> count_arguments_loop a i m = Some (i + of_nat (length ws))"
proof (induction ws arbitrary: a i)
  case (Cons w ws)
  then show ?case by (subst count_arguments_loop.simps) (simp add: argument_next_def add.assoc)
qed (simp add: count_arguments_loop.simps)

section \<open>One argument\<close>

text \<open>The body of the loop for argument \<open>i\<close>: a block for the text, the text, and the pointer in the vector.\<close>

lemma argument_step:
  assumes "process_ok s p" "0 < free_blocks s" "free_slots (mem s) p \<noteq> {}"
    and src: "cstr (mem s) a w" "length w < 512" "\<And>k. k \<le> length w \<Longrightarrow> own_byte s p (a + of_nat k)"
    and vec: "\<And>k. k < 4 \<Longrightarrow> own_byte s p (v + of_nat k)"
  obtains q s1 s3 j where "process_malloc p 512 s = (q, s1)" "q \<noteq> 0" "s3 = put32 v q (s1\<lparr>mem := strncpy (mem s1) q a 512\<rparr>)"
    "process_ok s3 p" "j \<in> free_slots (mem s) p" "allocations (mem s3) p = (allocations (mem s) p)[j := (q, 512)]"
    "free_slots (mem s3) p = free_slots (mem s) p - {j}" "Suc (free_blocks s3) = free_blocks s"
    "\<And>b. own_byte s p b \<Longrightarrow> own_byte s3 p b" "\<And>b. own_byte s p b \<Longrightarrow> \<not> in_region v 4 b \<Longrightarrow> mem s3 b = mem s b"
    "\<And>b. in_region q 512 b \<Longrightarrow> own_byte s3 p b \<and> \<not> own_byte s p b" "cstr (mem s3) q w" "load32 (mem s3) v = q"
    "mapped s3 p (q, 512)" "\<And>e. mapped s p e \<Longrightarrow> mapped s3 p e"
    "process_page_directory (mem s3) p = process_page_directory (mem s) p"
    "\<And>f. field_offset f \<Longrightarrow> load32 (mem s3) (p + of_nat f) = load32 (mem s) (p + of_nat f)"
proof (rule small_request [where sz = 512, OF assms(1) _ _ assms(2,3)])
  fix q s1 j
  assume m: "process_malloc p 512 s = (q, s1)" "q \<noteq> 0" "process_ok s1 p" "j \<in> free_slots (mem s) p"
    "allocations (mem s1) p = (allocations (mem s) p)[j := (q, 512)]" "free_slots (mem s1) p = free_slots (mem s) p - {j}"
    "Suc (free_blocks s1) = free_blocks s"
    and own: "\<And>b. own_byte s p b \<Longrightarrow> own_byte s1 p b \<and> mem s1 b = mem s b"
    "\<And>k. k < unat (512 :: u32) \<Longrightarrow> own_byte s1 p (q + of_nat k)" "\<And>b. in_region q 512 b \<Longrightarrow> \<not> own_byte s p b"
    and map: "mapped s1 p (q, 512)" "\<And>e. mapped s p e \<Longrightarrow> mapped s1 p e"
    and pd: "process_page_directory (mem s1) p = process_page_directory (mem s) p"
    and field: "\<And>f. field_offset f \<Longrightarrow> load32 (mem s1) (p + of_nat f) = load32 (mem s) (p + of_nat f)"
  let ?m2 = "strncpy (mem s1) q a 512" and ?m3 = "store32 (strncpy (mem s1) q a 512) v q"
  have copy: "cstr (mem s1) a w" by (rule cstr_frame [OF src(1)]) (use own(1) src(3) in blast)
  have "q + of_nat i \<noteq> a + of_nat k" if "i < unat (512 :: u32)" "k \<le> length w" for i k
    using own(3) [OF in_region_offset [OF that(1)]] src(3) [OF that(2)] by metis
  then have "?m2 = put_cstr (mem s1) q (take (unat (512 :: u32) - 1) w)" by (intro strncpy_string [OF _ copy]) simp_all
  then have m2: "?m2 = put_cstr (mem s1) q w" using src(2) by simp
  have off2: "?m2 b = mem s1 b" if "\<not> in_region q 512 b" for b
    unfolding m2 by (rule put_cstr_region [OF _ that]) (use src(2) in simp)
  have off3: "?m3 b = ?m2 b" if "\<not> in_region v 4 b" for b by (rule in_region_4 [OF that])
  have vec_own: "own_byte s p b" if "in_region v 4 b" for b using vec that by (auto simp: in_region_iff)
  have q_own: "own_byte s1 p b" if "in_region q 512 b" for b using own(2) that by (auto simp: in_region_iff)
  have change: "own_byte s1 p b" if "?m3 b \<noteq> mem s1 b" for b
    using that off2 [of b] off3 [of b] vec_own [of b] q_own [of b] own(1) [of b] by metis
  note w = own_write [OF m(3) change]
  let ?s3 = "put32 v q (s1\<lparr>mem := ?m2\<rparr>)"
  have s3: "?s3 = s1\<lparr>mem := ?m3\<rparr>" by (simp add: put32_def)
  have "cstr ?m2 q w" unfolding m2 using src by (intro cstr_put_cstr) (auto simp: cstr_iff)
  moreover have "?m3 (q + of_nat i) = ?m2 (q + of_nat i)" if "i \<le> length w" for i
  proof -
    have "in_region q 512 (q + of_nat i)" using that src(2) by (intro in_region_offset) simp
    then show ?thesis using own(3) vec_own off3 by blast
  qed
  ultimately have copied: "cstr ?m3 q w" by (blast intro: cstr_frame)
  show thesis
  proof (rule that [of q s1 ?s3 j])
    show "mem ?s3 b = mem s b" if "own_byte s p b" "\<not> in_region v 4 b" for b
      using that own(1,3) [of b] off2 [of b] off3 [of b] unfolding s3 by auto
    show "process_ok ?s3 p" unfolding s3 by (rule w(1))
    show "Suc (free_blocks ?s3) = free_blocks s" using w(3) m(7) unfolding s3 by simp
    show "free_slots (mem ?s3) p = free_slots (mem s) p - {j}" "allocations (mem ?s3) p = (allocations (mem s) p)[j := (q, 512)]"
      using w(4) m(5,6) unfolding s3 by (simp_all add: free_slots_def)
    show "process_page_directory (mem ?s3) p = process_page_directory (mem s) p" using w(5) pd unfolding s3 by simp
    show "own_byte ?s3 p b" if "own_byte s p b" for b using w(6) own(1) [OF that] unfolding s3 by simp
    show "own_byte ?s3 p b \<and> \<not> own_byte s p b" if "in_region q 512 b" for b using w(6) q_own [OF that] own(3) [OF that] unfolding s3 by simp
    show "load32 (mem ?s3) (p + of_nat f) = load32 (mem s) (p + of_nat f)" if f: "field_offset f" for f
    proof -
      have "?m3 (p + of_nat f + of_nat k) = mem s1 (p + of_nat f + of_nat k)" if "k < 4" for k
      proof -
        have "in_region p 9364 (p + of_nat (f + k))" using that f by (intro in_region_offset) (auto simp: field_offset_def)
        then show ?thesis using change unfolding own_byte_def by (auto simp: add.assoc)
      qed
      then show ?thesis unfolding s3 using field [OF f] load32_cong [of ?m3 "p + of_nat f" "mem s1"] by simp
    qed
    show "mapped ?s3 p (q, 512)" using w(7) map(1) unfolding s3 by simp
    show "mapped ?s3 p e" if "mapped s p e" for e using w(7) map(2) [OF that] unfolding s3 by simp
  qed (use m copied in \<open>simp_all add: s3 load32_store32_same\<close>)
qed simp_all

section \<open>All arguments\<close>

text \<open>The vector at \<open>v\<close> as the program reads it: each word behind a pointer to an allocation of the process.\<close>

fun argument_vector :: "'a pstate_scheme \<Rightarrow> u32 \<Rightarrow> u32 \<Rightarrow> u8 list list \<Rightarrow> bool" where
  "argument_vector s p v [] = True"
| "argument_vector s p v (w # ws) = (cstr (mem s) (load32 (mem s) v) w \<and> load32 (mem s) v \<noteq> 0
     \<and> (load32 (mem s) v, 512) \<in> set (allocations (mem s) p) \<and> mapped s p (load32 (mem s) v, 512) \<and> argument_vector s p (v + 4) ws)"

definition vector_byte :: "u32 \<Rightarrow> nat \<Rightarrow> nat \<Rightarrow> u32 \<Rightarrow> bool" where
  "vector_byte argv i n b \<longleftrightarrow> (\<exists>k. 4 * i \<le> k \<and> k < 4 * n \<and> b = argv + of_nat k)"

lemma vector_byte_later: "vector_byte argv j n b \<Longrightarrow> i \<le> j \<Longrightarrow> vector_byte argv i n b"
  unfolding vector_byte_def by (elim exE conjE, rule exI, intro conjI, rule order_trans [OF mult_le_mono2]) assumption+

lemma vector_word:
  assumes "in_region (argv + 4 * of_nat i) 4 b" "i < n" "n \<le> 1024"
  shows "vector_byte argv i n b" "\<not> vector_byte argv (Suc i) n b"
proof -
  obtain k where k: "k < 4" "b = argv + of_nat (4 * i + k)" using assms(1) by (auto simp: in_region_iff add.assoc)
  then show "vector_byte argv i n b" unfolding vector_byte_def using assms(2) by (intro exI [of _ "4 * i + k"]) simp
  show "\<not> vector_byte argv (Suc i) n b"
  proof
    assume "vector_byte argv (Suc i) n b"
    then obtain l where "4 * Suc i \<le> l" "l < 4 * n" "(of_nat l :: u32) = of_nat (4 * i + k)" unfolding vector_byte_def k(2) by auto
    then show False using k(1) assms(2,3) by (simp add: of_nat_eq_u32 unat_of_nat32 del: of_nat_add of_nat_mult)
  qed
qed

lemma inject_loop_run:
  assumes "process_ok s p" "length ws \<le> free_blocks s" "length ws \<le> card (free_slots (mem s) p)" "i + length ws = n" "n \<le> 1024"
    and vec: "\<forall>b. vector_byte argv 0 n b \<longrightarrow> own_byte s p b"
    and B: "\<forall>b. B b \<longrightarrow> own_byte s p b \<and> \<not> vector_byte argv 0 n b" and chain: "argument_chain B (mem s) a ws"
  shows "\<exists>s'. inject_arguments_loop p argc argv a (of_nat i) s = Some (0, put32 (p + 9360) argv (put32 (p + 9356) argc s'))
    \<and> process_ok s' p \<and> argument_vector s' p (argv + 4 * of_nat i) ws
    \<and> (\<forall>e \<in> set (allocations (mem s) p). fst e \<noteq> 0 \<longrightarrow> e \<in> set (allocations (mem s') p)) \<and> (\<forall>e. mapped s p e \<longrightarrow> mapped s' p e)
    \<and> (\<forall>b. own_byte s p b \<longrightarrow> own_byte s' p b \<and> (\<not> vector_byte argv i n b \<longrightarrow> mem s' b = mem s b))"
  using assms
proof (induction ws arbitrary: s a i)
  case Nil
  then show ?case by (intro exI [of _ s]) (simp add: inject_arguments_loop.simps)
next
  case (Cons w ws)
  note B = Cons.prems(7) [rule_format] and vec = Cons.prems(6) [rule_format]
  have i: "i < n" using Cons.prems(4) by simp
  let ?v = "argv + 4 * of_nat i"
  have c: "a \<noteq> 0" "\<And>k. k < 516 \<Longrightarrow> B (a + of_nat k)" "length w < 512" "cstr (mem s) a w" "argument_chain B (mem s) (load32 (mem s) (a + 512)) ws"
    using Cons.prems(8) by simp_all
  have v_in: "vector_byte argv 0 n b" "vector_byte argv i n b" if "in_region ?v 4 b" for b
    using vector_word(1) [OF that i Cons.prems(5)] vector_byte_later [of _ i _ _ 0] by auto
  have v_own: "own_byte s p (?v + of_nat k)" if "k < 4" for k
    using vec [OF v_in(1) [of "?v + of_nat k"]] in_region_offset [of k 4 ?v] that by simp
  have src: "own_byte s p (a + of_nat k)" if "k \<le> length w" for k using B c(2) [of k] c(3) that by simp
  have room: "0 < free_blocks s" using Cons.prems(2) by simp
  have slots: "free_slots (mem s) p \<noteq> {}" using Cons.prems(3) by auto
  show ?case
  proof (rule argument_step [OF Cons.prems(1) room slots c(4,3) src v_own])
    fix q s1 s3 j
    assume run: "process_malloc p 512 s = (q, s1)" "q \<noteq> 0" "s3 = put32 ?v q (s1\<lparr>mem := strncpy (mem s1) q a 512\<rparr>)"
      and s3: "process_ok s3 p" "j \<in> free_slots (mem s) p" "allocations (mem s3) p = (allocations (mem s) p)[j := (q, 512)]"
      "free_slots (mem s3) p = free_slots (mem s) p - {j}" "Suc (free_blocks s3) = free_blocks s"
      and own: "\<And>b. own_byte s p b \<Longrightarrow> own_byte s3 p b" "\<And>b. own_byte s p b \<Longrightarrow> \<not> in_region ?v 4 b \<Longrightarrow> mem s3 b = mem s b"
      "\<And>b. in_region q 512 b \<Longrightarrow> own_byte s3 p b \<and> \<not> own_byte s p b"
      and new: "cstr (mem s3) q w" "load32 (mem s3) ?v = q" "mapped s3 p (q, 512)" and maps: "\<And>e. mapped s p e \<Longrightarrow> mapped s3 p e"
    have keep: "mem s3 b = mem s b" if "B b" for b using own(2) [of b] B [OF that] v_in(1) [of b] by blast
    have "load32 (mem s3) (a + 512) = load32 (mem s) (a + 512)"
      using keep c(2) [of "512 + k" for k] by (intro load32_cong) (simp add: add.assoc)
    then have rest: "argument_next (mem s3) a = load32 (mem s) (a + 512)" by (simp add: argument_next_def)
    have chain: "argument_chain B (mem s3) (load32 (mem s) (a + 512)) ws" using c(5) argument_chain_cong [of B "mem s3" "mem s"] keep by simp
    have fin: "finite (free_slots (mem s) p)" by (simp add: free_slots_def)
    have less: "length ws \<le> free_blocks s3" "length ws \<le> card (free_slots (mem s3) p)"
      using Cons.prems(2,3) s3(2,4,5) fin by simp_all
    have B3: "\<forall>b. B b \<longrightarrow> own_byte s3 p b \<and> \<not> vector_byte argv 0 n b" using B own(1) by blast
    have vec3: "\<forall>b. vector_byte argv 0 n b \<longrightarrow> own_byte s3 p b" using own(1) vec by blast
    have si: "Suc i + length ws = n" using Cons.prems(4) by simp
    show ?thesis
      using Cons.IH [OF s3(1) less si Cons.prems(5) vec3 B3 chain]
    proof (elim exE conjE)
    fix s'
    assume s': "inject_arguments_loop p argc argv (load32 (mem s) (a + 512)) (of_nat (Suc i)) s3
        = Some (0, put32 (p + 9360) argv (put32 (p + 9356) argc s'))"
      "process_ok s' p" "argument_vector s' p (argv + 4 * of_nat (Suc i)) ws"
      "\<forall>e \<in> set (allocations (mem s3) p). fst e \<noteq> 0 \<longrightarrow> e \<in> set (allocations (mem s') p)" "\<forall>e. mapped s3 p e \<longrightarrow> mapped s' p e"
      and frame: "\<forall>b. own_byte s3 p b \<longrightarrow> own_byte s' p b \<and> (\<not> vector_byte argv (Suc i) n b \<longrightarrow> mem s' b = mem s3 b)"
    have later: "own_byte s' p b" "\<not> vector_byte argv (Suc i) n b \<Longrightarrow> mem s' b = mem s3 b" if "own_byte s3 p b" for b
      using frame that by simp_all
    have "inject_arguments_loop p argc argv a (of_nat i) s = Some (0, put32 (p + 9360) argv (put32 (p + 9356) argc s'))"
      using s'(1) by (subst inject_arguments_loop.simps) (simp add: c(1) run(1,2) Let_def rest run(3) [symmetric] add.commute)
    moreover have "load32 (mem s') ?v = q"
    proof -
      have "mem s' (?v + of_nat k) = mem s3 (?v + of_nat k)" if "k < 4" for k
        using later(2) own(1) v_own [OF that] vector_word(2) [OF in_region_offset [of k 4 ?v] i Cons.prems(5)] that by simp
      then show ?thesis using new(2) load32_cong [of "mem s'" ?v "mem s3"] by simp
    qed
    moreover have "cstr (mem s') q w"
    proof (rule cstr_frame [OF new(1)])
      fix k assume "k \<le> length w"
      then have q: "in_region q 512 (q + of_nat k)" using c(3) by (intro in_region_offset) simp
      then have "\<not> vector_byte argv (Suc i) n (q + of_nat k)" using own(3) vec vector_byte_later [of _ "Suc i" _ _ 0] by blast
      then show "mem s' (q + of_nat k) = mem s3 (q + of_nat k)" using later(2) own(3) [OF q] by blast
    qed
    moreover have "(q, 512) \<in> set (allocations (mem s') p)"
      using s'(4) run(2) s3(2) unfolding s3(3) by (auto simp: free_slots_def set_update_memI)
    moreover have "e \<in> set (allocations (mem s') p)" if e: "e \<in> set (allocations (mem s) p)" "fst e \<noteq> 0" for e
    proof -
      obtain l where "l < 1024" "allocations (mem s) p ! l = e" using e(1) by (auto simp: in_set_conv_nth)
      then have "l < length (allocations (mem s3) p)" "allocations (mem s3) p ! l = e"
        using e(2) s3(2) unfolding s3(3) by (cases "l = j"; auto simp: free_slots_def)+
      then show ?thesis using s'(4) that(2) by (metis nth_mem)
    qed
    moreover have "mem s' b = mem s b" if "own_byte s p b" "\<not> vector_byte argv i n b" for b
    proof -
      have "\<not> in_region ?v 4 b" using v_in(2) that(2) by blast
      moreover have "\<not> vector_byte argv (Suc i) n b" using that(2) vector_byte_later [of _ "Suc i" _ _ i] by auto
      ultimately show ?thesis using later(2) own(1,2) that(1) by metis
    qed
    ultimately show ?thesis using run(2) s'(2,3,5) new(3) maps own(1) later(1)
      by (intro exI [of _ s'] conjI) (simp_all add: algebra_simps)
    qed
  qed
qed

text \<open>With fewer free entries than arguments the loop ends with \<^verbatim>\<open>-ENOMEM\<close> when the table is full.\<close>

lemma inject_loop_short:
  assumes "process_ok s p" "card (free_slots (mem s) p) \<le> free_blocks s" "card (free_slots (mem s) p) < length ws"
    and vec: "\<forall>b. vector_byte argv i (i + card (free_slots (mem s) p)) b \<longrightarrow> own_byte s p b" "i + card (free_slots (mem s) p) \<le> 1024"
    and B: "\<forall>b. B b \<longrightarrow> own_byte s p b \<and> \<not> vector_byte argv i (i + card (free_slots (mem s) p)) b" and chain: "argument_chain B (mem s) a ws"
  shows "\<exists>s'. inject_arguments_loop p argc argv a (of_nat i) s = Some (- ENOMEM, s')
    \<and> process_ok s' p \<and> free_slots (mem s') p = {}
    \<and> (\<forall>f. field_offset f \<longrightarrow> load32 (mem s') (p + of_nat f) = load32 (mem s) (p + of_nat f))
    \<and> (\<forall>b. own_byte s p b \<longrightarrow> own_byte s' p b \<and> (\<not> vector_byte argv i (i + card (free_slots (mem s) p)) b \<longrightarrow> mem s' b = mem s b))"
  using assms
proof (induction ws arbitrary: s a i)
  case (Cons w ws)
  let ?n = "card (free_slots (mem s) p)" and ?v = "argv + 4 * of_nat i"
  have fin: "finite (free_slots (mem s) p)" by (simp add: free_slots_def)
  have c: "a \<noteq> 0" "\<And>k. k < 516 \<Longrightarrow> B (a + of_nat k)" "length w < 512" "cstr (mem s) a w" "argument_chain B (mem s) (load32 (mem s) (a + 512)) ws"
    using Cons.prems(7) by simp_all
  show ?case
  proof (cases "free_slots (mem s) p = {}")
    case True
    then have "process_malloc p 512 s = (0, s)" by (intro no_slot) (auto simp: free_slots_def)
    then show ?thesis using Cons.prems(1) True c(1) by (intro exI [of _ s]) (simp add: inject_arguments_loop.simps)
  next
    case False
    then have n: "0 < ?n" using fin by (simp add: card_gt_0_iff)
    then have room: "0 < free_blocks s" and i: "i < i + ?n" using Cons.prems(2) by simp_all
    note B = Cons.prems(6) [rule_format] and vec = Cons.prems(4) [rule_format] and le = Cons.prems(5)
    note word = vector_word [OF _ i le]
    have v_own: "own_byte s p (?v + of_nat k)" if "k < 4" for k
      using vec word(1) in_region_offset [of k 4 ?v] that by simp
    have src: "own_byte s p (a + of_nat k)" if "k \<le> length w" for k using B c(2) [of k] c(3) that by simp
    show ?thesis
    proof (rule argument_step [OF Cons.prems(1) room False c(4,3) src v_own])
      fix q s1 s3 j
      assume run: "process_malloc p 512 s = (q, s1)" "q \<noteq> 0" "s3 = put32 ?v q (s1\<lparr>mem := strncpy (mem s1) q a 512\<rparr>)"
        and s3: "process_ok s3 p" "j \<in> free_slots (mem s) p" "free_slots (mem s3) p = free_slots (mem s) p - {j}" "Suc (free_blocks s3) = free_blocks s"
        and own: "\<And>b. own_byte s p b \<Longrightarrow> own_byte s3 p b" "\<And>b. own_byte s p b \<Longrightarrow> \<not> in_region ?v 4 b \<Longrightarrow> mem s3 b = mem s b"
        and field: "\<And>f. field_offset f \<Longrightarrow> load32 (mem s3) (p + of_nat f) = load32 (mem s) (p + of_nat f)"
      have m: "card (free_slots (mem s3) p) = ?n - 1" using s3(2,3) fin by simp
      then have end_at: "Suc i + card (free_slots (mem s3) p) = i + ?n" using n by simp
      have keep: "mem s3 b = mem s b" if "B b" for b using own(2) [of b] B [OF that] word(1) [of argv b] by blast
      have "load32 (mem s3) (a + 512) = load32 (mem s) (a + 512)"
        using keep c(2) [of "512 + k" for k] by (intro load32_cong) (simp add: add.assoc)
      then have rest: "argument_next (mem s3) a = load32 (mem s) (a + 512)" by (simp add: argument_next_def)
      have chain: "argument_chain B (mem s3) (load32 (mem s) (a + 512)) ws" using c(5) argument_chain_cong [of B "mem s3" "mem s"] keep by simp
      have less: "card (free_slots (mem s3) p) \<le> free_blocks s3" "card (free_slots (mem s3) p) < length ws"
        using Cons.prems(2,3) s3(4) m n by simp_all
      note later = vector_byte_later [of argv "Suc i" "i + ?n" _ i, OF _ le_SucI [OF order_refl]]
      have vec3: "\<forall>b. vector_byte argv (Suc i) (Suc i + card (free_slots (mem s3) p)) b \<longrightarrow> own_byte s3 p b"
        unfolding end_at using own(1) vec later by blast
      have B3: "\<forall>b. B b \<longrightarrow> own_byte s3 p b \<and> \<not> vector_byte argv (Suc i) (Suc i + card (free_slots (mem s3) p)) b"
        unfolding end_at using B own(1) later by blast
      show ?thesis
        using Cons.IH [OF s3(1) less vec3 le [folded end_at] B3 chain]
      proof (elim exE conjE)
        fix s'
        assume s': "inject_arguments_loop p argc argv (load32 (mem s) (a + 512)) (of_nat (Suc i)) s3 = Some (- ENOMEM, s')"
          "process_ok s' p" "free_slots (mem s') p = {}"
          "\<forall>f. field_offset f \<longrightarrow> load32 (mem s') (p + of_nat f) = load32 (mem s3) (p + of_nat f)"
          and frame: "\<forall>b. own_byte s3 p b \<longrightarrow> own_byte s' p b
            \<and> (\<not> vector_byte argv (Suc i) (Suc i + card (free_slots (mem s3) p)) b \<longrightarrow> mem s' b = mem s3 b)"
        have "inject_arguments_loop p argc argv a (of_nat i) s = Some (- ENOMEM, s')"
          using s'(1) by (subst inject_arguments_loop.simps) (simp add: c(1) run(1,2) Let_def rest run(3) [symmetric] add.commute)
        moreover have "mem s' b = mem s b" if "own_byte s p b" "\<not> vector_byte argv i (i + ?n) b" for b
        proof -
          have "\<not> in_region ?v 4 b" using word(1) that(2) by blast
          moreover have "\<not> vector_byte argv (Suc i) (i + ?n) b" using that(2) later by blast
          ultimately show ?thesis using frame own(1,2) [OF that(1)] unfolding end_at by simp
        qed
        ultimately show ?thesis using s'(2-4) field frame own(1) by (intro exI [of _ s']) simp
      qed
    qed
  qed
qed simp

section \<open>The fields of the process\<close>

text \<open>The bytes of a recorded allocation are the process's own.\<close>

lemma allocation_own:
  assumes "process_ok s p" "(q, z) \<in> set (allocations (mem s) p)" "q \<noteq> 0" "k < unat z"
  shows "own_byte s p (q + of_nat k)"
proof -
  note ok = process_okD [OF assms(1)]
  let ?c = "process_page_directory (mem s) p" and ?t = "process_task (mem s) p" and ?a = "q + of_nat k"
  obtain i where i: "i < 1024" "allocations (mem s) p ! i = (q, z)" using assms(2) by (auto simp: in_set_conv_nth)
  obtain n where n: "unat z \<le> n" "(unat q, n) \<in> kheap_live s - chunk_regions (mem s) ?c" using process_slot(1) [OF assms(1) i assms(3)] by blast
  have u: "unat ?a = unat q + k" using kheap_live_bounds [of "unat q" n s] n assms(4) by (simp add: unat_word_ariths unat_of_nat32)
  have rec: "slot_ok (kheap_live s - chunk_regions (mem s) ?c) p ?t (q, z)"
    using process_owner [OF assms(1)] i by (metis owner_ok_def length_allocations)
  then have pt: "q \<noteq> p" "q \<noteq> ?t" using assms(3) by (simp_all add: slot_ok_def)
  have same: "b = unat q" if "(b, l) \<in> kheap_live s" "b \<le> unat ?a" "unat ?a < b + l" for b l
    using kh.live_disjoint [OF ok(1) that(1), of "unat q" n "unat ?a"] that n assms(4) u by simp
  have "\<not> in_region p 9364 ?a"
  proof
    assume "in_region p 9364 ?a"
    then show False using process_bytes(1) [OF assms(1), of ?a] same pt(1) by (auto simp: word_unat_eq_iff)
  qed
  moreover have "\<not> in_region ?t 4 ?a"
  proof
    assume "in_region ?t 4 ?a"
    then obtain j where j: "j < 4" "?a = ?t + of_nat j" by (auto simp: in_region_iff)
    then show False using process_bytes(2) [OF assms(1), of j] same pt(2) by (auto simp: word_unat_eq_iff)
  qed
  ultimately show ?thesis unfolding own_byte_def using n u assms(4) by (intro conjI exI [of _ "unat q"] exI [of _ n]) simp_all
qed

lemma argument_vector_cong:
  assumes "process_ok s p" "\<And>b. own_byte s p b \<Longrightarrow> mem s' b = mem s b" "allocations (mem s') p = allocations (mem s) p" "mapped s' p = mapped s p"
  shows "argument_vector s p v ws \<Longrightarrow> \<forall>w \<in> set ws. length w < 512 \<Longrightarrow> (\<And>k. k < 4 * length ws \<Longrightarrow> own_byte s p (v + of_nat k)) \<Longrightarrow>
    argument_vector s' p v ws"
proof (induction ws arbitrary: v)
  case (Cons w ws)
  let ?q = "load32 (mem s) v"
  have "load32 (mem s') v = ?q" using assms(2) Cons.prems(3) by (intro load32_cong) simp
  moreover have "cstr (mem s') ?q w"
  proof (rule cstr_frame)
    have q: "(?q, 512) \<in> set (allocations (mem s) p)" "?q \<noteq> 0" using Cons.prems(1) by simp_all
    show "cstr (mem s) ?q w" using Cons.prems(1) by simp
    fix i assume "i \<le> length w"
    then have "i < unat (512 :: u32)" using Cons.prems(2) by simp
    then show "mem s' (?q + of_nat i) = mem s (?q + of_nat i)" by (intro assms(2) allocation_own [OF assms(1) q])
  qed
  moreover have "own_byte s p (v + 4 + of_nat k)" if "k < 4 * length ws" for k
    using Cons.prems(3) [of "4 + k"] that by (simp add: add.assoc)
  ultimately show ?case using Cons.IH [of "v + 4"] Cons.prems(1,2) assms(3,4) by simp
qed simp

lemma set_arguments:
  fixes argc argv :: u32
  assumes "process_ok s p"
  defines "s' \<equiv> put32 (p + 9360) argv (put32 (p + 9356) argc s)"
  shows "process_ok s' p" "process_argc (mem s') p = argc" "process_argv (mem s') p = argv" "allocations (mem s') p = allocations (mem s) p"
    "mapped s' p = mapped s p" "own_byte s p b \<Longrightarrow> mem s' b = mem s b" "kheap_live s' = kheap_live s"
proof -
  note ok = process_okD [OF assms(1)]
  have m: "mem s' = store32 (store32 (mem s) (p + of_nat 9356) argc) (p + of_nat 9360) argv" "s' = s\<lparr>mem := mem s'\<rparr>" by (simp_all add: s'_def put32_def)
  have off: "mem s' b = mem s b" if "\<And>k. 9356 \<le> k \<Longrightarrow> k < 9364 \<Longrightarrow> b \<noteq> p + of_nat k" for b
    unfolding m(1) using that [of "9356 + k" for k] that [of "9360 + k" for k] by (subst store32_other; simp add: add.assoc)+
  show frame: "mem s' b = mem s b" if "own_byte s p b" for b
  proof (rule off)
    fix k :: nat assume "k < 9364"
    then have "in_region p 9364 (p + of_nat k)" by (intro in_region_offset) simp
    then show "b \<noteq> p + of_nat k" using that unfolding own_byte_def by blast
  qed
  show "process_argc (mem s') p = argc" "process_argv (mem s') p = argv"
    using process_word [OF ok(5,6), of 9360 9356] process_word [OF ok(5,6), of 9360 9360] process_word [OF ok(5,6), of 9356 9356]
    unfolding process_argc_def process_argv_def m(1) by simp_all
  have own: "\<exists>q l. (q, l) \<in> kheap_live s - chunk_regions (mem s) (process_page_directory (mem s) p) \<and> q \<le> unat b \<and> unat b < q + l"
    if "mem s' b \<noteq> mem s b" for b
  proof -
    have "in_region p 9364 b" using off [of b] that in_region_offset [of _ 9364 p] by fastforce
    then show ?thesis using process_bytes(1) [OF assms(1)] by blast
  qed
  have pb: "mem s' (p + of_nat i) = mem s (p + of_nat i)" if "i < 8308" for i
    using that by (intro off) (simp add: of_nat_eq_u32 unat_of_nat32)
  have tb: "mem s' (process_task (mem s) p + of_nat i) = mem s (process_task (mem s) p + of_nat i)" if "i < 4" for i
  proof (rule off)
    fix k :: nat assume "k < 9364"
    then have "in_region p 9364 (p + of_nat k)" by (intro in_region_offset) simp
    then obtain l where l: "(unat p, l) \<in> kheap_live s" "unat p \<le> unat (p + of_nat k)" "unat (p + of_nat k) < unat p + l"
      using process_bytes(1) [OF assms(1)] by blast
    show "process_task (mem s) p + of_nat i \<noteq> p + of_nat k"
    proof
      assume "process_task (mem s) p + of_nat i = p + of_nat k"
      then show False using process_bytes(2) [OF assms(1), of i] that kh.live_disjoint [OF ok(1) l(1) _ l(2,3)] ok(7)
        by (auto simp: word_unat_eq_iff)
    qed
  qed
  note ch = process_ok_change [OF assms(1) own pb tb, folded m(2)]
  have c: "process_ok s' p" "kheap_live s' = kheap_live s" "allocations (mem s') p = allocations (mem s) p"
    "process_page_directory (mem s') p = process_page_directory (mem s) p"
    "d_entry (mem s') (process_page_directory (mem s) p) = d_entry (mem s) (process_page_directory (mem s) p)"
    by (rule ch; assumption)+
  show "process_ok s' p" "allocations (mem s') p = allocations (mem s) p" "kheap_live s' = kheap_live s" by (rule c)+
  have g: "paging_get (d_entry (mem s) (process_page_directory (mem s) p)) w (mem s') = paging_get (d_entry (mem s) (process_page_directory (mem s) p)) w (mem s)"
    if "paging_is_aligned w" for w by (rule ch(8) [OF _ _ _ that])
  show "mapped s' p = mapped s p" unfolding mapped_def fun_eq_iff c(4,5) using g by auto
qed

section \<open>Properties\<close>

lemma chain_words: "argument_chain B m a ws \<Longrightarrow> \<forall>w \<in> set ws. length w < 512"
  by (induction ws arbitrary: a) auto

lemma few_slots: "card (free_slots m p) \<le> 1024"
  using card_mono [of "{..<1024}" "free_slots m p"] by (auto simp: free_slots_def)

text \<open>C20. The arguments of a new process. The list the caller built lies in live memory that is neither the process nor its
  page tables; the heap and the table of allocations have room. Then \<^verbatim>\<open>process_inject_arguments\<close> returns 0, \<^verbatim>\<open>argc\<close> is the
  number of words and \<^verbatim>\<open>argv\<close> an allocation of the process with one pointer for each word, in the order of the list;
  each points at a copy of its word, zero-terminated, in an allocation of its own. The vector and the texts
  are mapped for the process at the same addresses, what it had allocated before stays recorded and mapped, and no byte outside
  the process structure and its page tables changes, the list included.\<close>

theorem process_inject_arguments_correct:
  assumes "process_ok s p" "argument_chain (own_byte s p) (mem s) root ws" "ws \<noteq> []"
    "length ws < free_blocks s" "length ws < card (free_slots (mem s) p)"
  shows "\<exists>s' argv. process_inject_arguments p root s = Some (0, s') \<and> process_ok s' p
    \<and> process_argc (mem s') p = of_nat (length ws) \<and> process_argv (mem s') p = argv
    \<and> (argv, 4 * of_nat (length ws)) \<in> set (allocations (mem s') p) \<and> mapped s' p (argv, 4 * of_nat (length ws))
    \<and> argument_vector s' p argv ws
    \<and> (\<forall>e \<in> set (allocations (mem s) p). fst e \<noteq> 0 \<longrightarrow> e \<in> set (allocations (mem s') p)) \<and> (\<forall>e. mapped s p e \<longrightarrow> mapped s' p e)
    \<and> (\<forall>b. own_byte s p b \<longrightarrow> mem s' b = mem s b)"
proof -
  let ?n = "length ws" and ?sz = "4 * of_nat (length ws) :: u32"
  have n: "0 < ?n" "?n < 1024" using assms(3,5) few_slots [of "mem s" p] by auto
  have sz: "unat ?sz = 4 * ?n" "(of_nat ?n :: u32) \<noteq> 0" using n by (simp_all add: unat_word_ariths unat_of_nat32 of_nat_eq_u32)
  then have room: "0 < ?sz" "unat ?sz \<le> 4096" using n by (simp_all add: word_less_nat_alt)
  have free: "0 < free_blocks s" "free_slots (mem s) p \<noteq> {}" using assms(4,5) by auto
  have count: "process_count_command_arguments root (mem s) = Some (of_nat ?n)"
    using count_arguments_run [OF argument_chain_list [OF assms(2)]] by (simp add: process_count_command_arguments_def)
  show ?thesis
  proof (rule small_request [OF assms(1) room free])
    fix argv s1 j
    assume m: "process_malloc p ?sz s = (argv, s1)" "argv \<noteq> 0" "process_ok s1 p" "j \<in> free_slots (mem s) p"
      "allocations (mem s1) p = (allocations (mem s) p)[j := (argv, ?sz)]" "free_slots (mem s1) p = free_slots (mem s) p - {j}"
      "Suc (free_blocks s1) = free_blocks s"
      and own: "\<And>b. own_byte s p b \<Longrightarrow> own_byte s1 p b \<and> mem s1 b = mem s b"
      "\<And>k. k < unat ?sz \<Longrightarrow> own_byte s1 p (argv + of_nat k)" "\<And>b. in_region argv ?sz b \<Longrightarrow> \<not> own_byte s p b"
      and map: "mapped s1 p (argv, ?sz)" "\<And>e. mapped s p e \<Longrightarrow> mapped s1 p e"
    have fin: "finite (free_slots (mem s) p)" by (simp add: free_slots_def)
    have less: "?n \<le> free_blocks s1" "?n \<le> card (free_slots (mem s1) p)" using assms(4,5) m(4,6,7) fin by simp_all
    have vec: "\<forall>b. vector_byte argv 0 ?n b \<longrightarrow> own_byte s1 p b" using own(2) unfolding vector_byte_def sz by auto
    have fresh: "\<not> vector_byte argv 0 ?n b" if "own_byte s p b" for b
      using own(3) [of b] that in_region_offset [of _ ?sz argv] unfolding vector_byte_def sz(1) by blast
    have B: "\<forall>b. own_byte s p b \<longrightarrow> own_byte s1 p b \<and> \<not> vector_byte argv 0 ?n b" using own(1) fresh by blast
    have chain: "argument_chain (own_byte s p) (mem s1) root ws"
      using assms(2) argument_chain_cong [of "own_byte s p" "mem s1" "mem s"] own(1) by simp
    have z: "0 + ?n = ?n" "?n \<le> 1024" using n by simp_all
    show ?thesis
      using inject_loop_run [where argc = "of_nat ?n", OF m(3) less z vec B chain]
    proof (elim exE conjE)
      fix s2
      assume r: "inject_arguments_loop p (of_nat ?n) argv root (of_nat 0) s1 = Some (0, put32 (p + 9360) argv (put32 (p + 9356) (of_nat ?n) s2))"
        "process_ok s2 p" "argument_vector s2 p (argv + 4 * of_nat 0) ws"
        "\<forall>e \<in> set (allocations (mem s1) p). fst e \<noteq> 0 \<longrightarrow> e \<in> set (allocations (mem s2) p)" "\<forall>e. mapped s1 p e \<longrightarrow> mapped s2 p e"
        and frame: "\<forall>b. own_byte s1 p b \<longrightarrow> own_byte s2 p b \<and> (\<not> vector_byte argv 0 ?n b \<longrightarrow> mem s2 b = mem s1 b)"
      let ?s = "put32 (p + 9360) argv (put32 (p + 9356) (of_nat ?n) s2)"
      note set = set_arguments [OF r(2), where argc = "of_nat ?n" and argv = argv]
      have "process_inject_arguments p root s = Some (0, ?s)"
        using r(1) m(2) sz(2) by (simp add: process_inject_arguments_def count m(1) Let_def)
      moreover have "argument_vector ?s p argv ws"
      proof (rule argument_vector_cong [OF r(2) set(6) set(4,5)])
        show "own_byte s2 p (argv + of_nat k)" if "k < 4 * ?n" for k using frame own(2) [of k] that sz(1) by simp
      qed (use r(3) chain_words [OF assms(2)] in simp_all)
      moreover have "e \<in> set (allocations (mem ?s) p)" if e: "e \<in> set (allocations (mem s) p)" "fst e \<noteq> 0" for e
      proof -
        obtain l where "l < 1024" "allocations (mem s) p ! l = e" using e(1) by (auto simp: in_set_conv_nth)
        then have "l < length (allocations (mem s1) p)" "allocations (mem s1) p ! l = e"
          using e(2) m(4) unfolding m(5) by (cases "l = j"; auto simp: free_slots_def)+
        then show ?thesis using r(4) e(2) unfolding set(4) by (metis nth_mem)
      qed
      moreover have "(argv, ?sz) \<in> set (allocations (mem ?s) p)"
        using r(4) m(2,4) unfolding set(4) m(5) by (auto simp: free_slots_def set_update_memI)
      moreover have "mem ?s b = mem s b" if "own_byte s p b" for b using set(6) frame own(1) [OF that] fresh [OF that] by auto
      moreover have "mapped ?s p (argv, ?sz)" "mapped s p e \<Longrightarrow> mapped ?s p e" for e
        using map r(5) unfolding set(5) by blast+
      ultimately show ?thesis using set(1-3) by blast
    qed
  qed
qed

text \<open>The process of a fresh heap with a list of one argument, \<open>ls\<close>, in an allocation of its own.\<close>

lemma argument_ready:
  obtains p q and s :: pstate where "process_ok s p" "argument_chain (own_byte s p) (mem s) q [[0x6C, 0x73]]"
    "card (free_slots (mem s) p) = 1023" "2000 \<le> free_blocks s"
proof -
  obtain p and s :: pstate where s: "process_ok s p" "allocations (mem s) p = replicate 1024 (0, 0)" "3000 \<le> free_blocks s"
    by (rule process_ready) blast
  have all: "free_slots (mem s) p = {..<1024}" unfolding free_slots_def s(2) by auto
  have sz: "(0 :: u32) < 516" "unat (516 :: u32) \<le> 4096" "0 < free_blocks s" "free_slots (mem s) p \<noteq> {}"
    using s(3) by (simp_all add: all lessThan_empty_iff)
  show thesis
  proof (rule small_request [OF s(1) sz])
    fix q j and s1 :: pstate
    assume m: "q \<noteq> 0" "process_ok s1 p" "j \<in> free_slots (mem s) p" "free_slots (mem s1) p = free_slots (mem s) p - {j}"
      "Suc (free_blocks s1) = free_blocks s" and own: "\<And>k. k < unat (516 :: u32) \<Longrightarrow> own_byte s1 p (q + of_nat k)"
    let ?m1 = "put_cstr (mem s1) q [0x6C, 0x73]"
    let ?m = "store32 ?m1 (q + 512) 0"
    have reg: "own_byte s1 p b" if "in_region q 516 b" for b using own that by (auto simp: in_region_iff)
    have link: "in_region q 516 b" if "in_region (q + 512) 4 b" for b using in_region_sub [of q 512 4 b] that by simp
    have "?m b = mem s1 b" if b: "\<not> in_region q 516 b" for b
    proof -
      have "\<not> in_region (q + 512) 4 b" using link b by blast
      then have "?m b = ?m1 b" by (rule in_region_4)
      also have "\<dots> = mem s1 b" by (rule put_cstr_region [OF _ b]) simp
      finally show ?thesis .
    qed
    then have change: "own_byte s1 p b" if "?m b \<noteq> mem s1 b" for b using reg that by blast
    note w = own_write [where m' = ?m, OF m(2) change]
    have "cstr ?m1 q [0x6C, 0x73]" by (rule cstr_put_cstr) simp_all
    then have "cstr ?m q [0x6C, 0x73]"
    proof (rule cstr_frame)
      fix i assume "i \<le> length [0x6C, 0x73 :: u8]"
      then show "?m (q + of_nat i) = ?m1 (q + of_nat i)" by (intro in_region_4 argument_field) simp
    qed
    then have chain: "argument_chain (own_byte s1 p) ?m q [[0x6C, 0x73]]" using m(1) own by (simp add: load32_store32_same)
    have slots: "free_slots ?m p = {..<1024} - {j}" using m(4) all w(4) by (simp add: free_slots_def)
    have card: "card ({..<1024} - {j}) = 1023" using m(3) all by simp
    show thesis
    proof (rule that [of "s1\<lparr>mem := ?m\<rparr>" p q])
      show "argument_chain (own_byte (s1\<lparr>mem := ?m\<rparr>) p) (mem (s1\<lparr>mem := ?m\<rparr>)) q [[0x6C, 0x73]]" using chain w(6) by simp
      show "card (free_slots (mem (s1\<lparr>mem := ?m\<rparr>)) p) = 1023" using slots card by simp
      show "2000 \<le> free_blocks (s1\<lparr>mem := ?m\<rparr>)" using w(3) m(5) s(3) by linarith
    qed (rule w(1))
  qed
qed

text \<open>Requests of the process until \<open>k\<close> entries are free.\<close>

lemma filled_table:
  fixes s :: pstate
  assumes "process_ok s p" "argument_chain (own_byte s p) (mem s) a ws" "card (free_slots (mem s) p) = k + d" "k + d \<le> free_blocks s"
  shows "\<exists>s' :: pstate. process_ok s' p \<and> argument_chain (own_byte s' p) (mem s') a ws \<and> card (free_slots (mem s') p) = k \<and> k \<le> free_blocks s'"
  using assms
proof (induction d arbitrary: s)
  case (Suc d)
  have fin: "finite (free_slots (mem s) p)" by (simp add: free_slots_def)
  have sz: "(0 :: u32) < 1" "unat (1 :: u32) \<le> 4096" "0 < free_blocks s" "free_slots (mem s) p \<noteq> {}" using Suc.prems(3,4) by auto
  show ?case
  proof (rule small_request [OF Suc.prems(1) sz])
    fix q j and s1 :: pstate
    assume m: "process_ok s1 p" "j \<in> free_slots (mem s) p" "free_slots (mem s1) p = free_slots (mem s) p - {j}"
      "Suc (free_blocks s1) = free_blocks s" and own: "\<And>b. own_byte s p b \<Longrightarrow> own_byte s1 p b \<and> mem s1 b = mem s b"
    have "argument_chain (own_byte s p) (mem s1) a ws" using Suc.prems(2) argument_chain_cong [of "own_byte s p" "mem s1" "mem s"] own by simp
    then have "argument_chain (own_byte s1 p) (mem s1) a ws" by (rule argument_chain_mono) (use own in blast)
    moreover have "card (free_slots (mem s1) p) = k + d" "k + d \<le> free_blocks s1" using Suc.prems(3,4) m(2-4) fin by simp_all
    ultimately show ?case using Suc.IH m(1) by blast
  qed
qed auto

theorem process_inject_arguments_correct_witness:
  "\<exists>(s :: pstate) p root s'. process_inject_arguments p root s = Some (0, s') \<and> process_argc (mem s') p = 1
     \<and> cstr (mem s') (load32 (mem s') (process_argv (mem s') p)) [0x6C, 0x73]"
proof -
  obtain p q and s :: pstate where s: "process_ok s p" "argument_chain (own_byte s p) (mem s) q [[0x6C, 0x73]]"
    "card (free_slots (mem s) p) = 1023" "2000 \<le> free_blocks s"
    by (rule argument_ready) blast
  have "[[0x6C, 0x73 :: u8]] \<noteq> []" "length [[0x6C, 0x73 :: u8]] < free_blocks s" "length [[0x6C, 0x73 :: u8]] < card (free_slots (mem s) p)"
    using s(3,4) by simp_all
  then show ?thesis using process_inject_arguments_correct [OF s(1,2)] by (metis One_nat_def argument_vector.simps(2) length_Cons list.size(3) of_nat_1)
qed

text \<open>Equal words have equal bytes, so the words outside the table fix every byte outside it.\<close>

lemma load32_byte: "i < 4 \<Longrightarrow> m (a + of_nat i) = ucast (drop_bit (8 * i) (load32 m a))"
proof -
  assume "i < 4"
  then consider "i = 0" | "i = 1" | "i = 2" | "i = 3" by linarith
  then show "m (a + of_nat i) = ucast (drop_bit (8 * i) (load32 m a))"
    by cases (rule bit_word_eqI; auto simp: load32_def bit_word_cat_iff bit_unsigned_iff bit_drop_bit_eq)+
qed

lemma field_bytes:
  assumes "\<And>f. field_offset f \<Longrightarrow> load32 m' (p + of_nat f) = load32 m (p + of_nat f)" "k < 9364" "k < 116 \<or> 8308 \<le> k"
  shows "m' (p + of_nat k) = m (p + of_nat k)"
proof -
  have "field_offset (k - k mod 4)" "k = (k - k mod 4) + k mod 4" "k mod 4 < 4"
    using assms(2,3) unfolding field_offset_def by presburger+
  then obtain f i where f: "field_offset f" "k = f + i" "i < 4" by blast
  show ?thesis
    using load32_byte [OF f(3), of m' "p + of_nat f"] load32_byte [OF f(3), of m "p + of_nat f"] assms(1) [OF f(1)]
    by (simp add: f(2) add.assoc)
qed

text \<open>C32. More arguments than the process has free entries in its table of allocations, or none at all: an empty list is
  refused with \<^verbatim>\<open>-EIO\<close>; otherwise the answer is \<^verbatim>\<open>-ENOMEM\<close> and the table is full afterwards, because what was allocated
  for the first arguments is not given back. Neither \<^verbatim>\<open>argc\<close> nor \<^verbatim>\<open>argv\<close> nor any other byte of the process structure
  outside its table of allocations is written, no byte of the list changes and the process stays well-formed. The
  list has at most 1024 arguments and lies in live heap memory apart from the process structure, the directory pointer
  of its task and its page tables (\<open>own_byte\<close>), and the heap has a free block for each free entry of the table.\<close>

theorem process_inject_arguments_refused:
  assumes "process_ok s p" "argument_chain (own_byte s p) (mem s) root ws" "card (free_slots (mem s) p) \<le> free_blocks s"
    "ws = [] \<or> card (free_slots (mem s) p) \<le> length ws" "length ws \<le> 1024"
  shows "\<exists>s'. process_inject_arguments p root s = Some (if ws = [] then - EIO else - ENOMEM, s') \<and> process_ok s' p
    \<and> (if ws = [] then s' = s else free_slots (mem s') p = {})
    \<and> process_argc (mem s') p = process_argc (mem s) p \<and> process_argv (mem s') p = process_argv (mem s) p
    \<and> process_task (mem s') p = process_task (mem s) p \<and> (\<forall>b. own_byte s p b \<longrightarrow> mem s' b = mem s b)
    \<and> (\<forall>k < 9364. k < 116 \<or> 8308 \<le> k \<longrightarrow> mem s' (p + of_nat k) = mem s (p + of_nat k))"
proof -
  let ?n = "length ws" and ?sz = "4 * of_nat (length ws) :: u32"
  have count: "process_count_command_arguments root (mem s) = Some (of_nat ?n)"
    using count_arguments_run [OF argument_chain_list [OF assms(2)]] by (simp add: process_count_command_arguments_def)
  consider "ws = []" | "ws \<noteq> []" "free_slots (mem s) p = {}" | "ws \<noteq> []" "free_slots (mem s) p \<noteq> {}" by blast
  then show ?thesis
  proof cases
    case 1
    then show ?thesis using count assms(1) by (simp add: process_inject_arguments_def)
  next
    case 2
    then have "(of_nat ?n :: u32) \<noteq> 0" using assms(5) by (simp add: of_nat_eq_u32 unat_of_nat32)
    moreover have "process_malloc p ?sz s = (0, s)" using 2(2) by (intro no_slot) (auto simp: free_slots_def)
    ultimately show ?thesis using count 2 assms(1) by (simp add: process_inject_arguments_def)
  next
    case 3
    have fin: "finite (free_slots (mem s) p)" by (simp add: free_slots_def)
    have n: "0 < ?n" "?n \<le> 1024" "0 < card (free_slots (mem s) p)" using 3 assms(5) fin by (simp_all add: card_gt_0_iff)
    then have sz: "unat ?sz = 4 * ?n" "(of_nat ?n :: u32) \<noteq> 0" by (simp_all add: unat_word_ariths unat_of_nat32 of_nat_eq_u32)
    then have room: "0 < ?sz" "unat ?sz \<le> 4096" "0 < free_blocks s" using n assms(3) by (simp_all add: word_less_nat_alt)
    show ?thesis
    proof (rule small_request [OF assms(1) room 3(2)])
      fix argv s1 j
      assume m: "process_malloc p ?sz s = (argv, s1)" "argv \<noteq> 0" "process_ok s1 p" "j \<in> free_slots (mem s) p"
        "free_slots (mem s1) p = free_slots (mem s) p - {j}" "Suc (free_blocks s1) = free_blocks s"
        and own: "\<And>b. own_byte s p b \<Longrightarrow> own_byte s1 p b \<and> mem s1 b = mem s b"
        "\<And>k. k < unat ?sz \<Longrightarrow> own_byte s1 p (argv + of_nat k)" "\<And>b. in_region argv ?sz b \<Longrightarrow> \<not> own_byte s p b"
        and field: "\<And>f. field_offset f \<Longrightarrow> load32 (mem s1) (p + of_nat f) = load32 (mem s) (p + of_nat f)"
      let ?k = "card (free_slots (mem s1) p)"
      have less: "?k \<le> free_blocks s1" "?k < ?n" "0 + ?k \<le> 1024" using assms(3,4) 3(1) n m(4-6) fin by auto
      have in_vec: "in_region argv ?sz b" if "vector_byte argv 0 (0 + ?k) b" for b
        using that less(2) sz(1) in_region_offset [of _ ?sz argv] unfolding vector_byte_def by auto
      then have vec: "\<forall>b. vector_byte argv 0 (0 + ?k) b \<longrightarrow> own_byte s1 p b" using own(2) by (auto simp: in_region_iff)
      have B: "\<forall>b. own_byte s p b \<longrightarrow> own_byte s1 p b \<and> \<not> vector_byte argv 0 (0 + ?k) b" using own(1,3) in_vec by blast
      have chain: "argument_chain (own_byte s p) (mem s1) root ws"
        using assms(2) argument_chain_cong [of "own_byte s p" "mem s1" "mem s"] own(1) by simp
      show ?thesis
        using inject_loop_short [where argc = "of_nat ?n", OF m(3) less(1,2) vec less(3) B chain]
      proof (elim exE conjE)
        fix s2
        assume r: "inject_arguments_loop p (of_nat ?n) argv root (of_nat 0) s1 = Some (- ENOMEM, s2)" "process_ok s2 p" "free_slots (mem s2) p = {}"
          "\<forall>f. field_offset f \<longrightarrow> load32 (mem s2) (p + of_nat f) = load32 (mem s1) (p + of_nat f)"
          and frame: "\<forall>b. own_byte s1 p b \<longrightarrow> own_byte s2 p b \<and> (\<not> vector_byte argv 0 (0 + ?k) b \<longrightarrow> mem s2 b = mem s1 b)"
        have "process_inject_arguments p root s = Some (- ENOMEM, s2)"
          using r(1) m(2) sz(2) by (simp add: process_inject_arguments_def count m(1) Let_def)
        moreover have fields: "load32 (mem s2) (p + of_nat f) = load32 (mem s) (p + of_nat f)" if "field_offset f" for f
          using r(4) field [OF that] that by simp
        from fields [of 9356] fields [of 9360] fields [of 112] have "process_argc (mem s2) p = process_argc (mem s) p"
          "process_argv (mem s2) p = process_argv (mem s) p" "process_task (mem s2) p = process_task (mem s) p"
          by (simp_all add: field_offset_def process_argc_def process_argv_def process_task_def)
        moreover have "mem s2 b = mem s b" if "own_byte s p b" for b using frame own(1) [OF that] B that by simp
        moreover have "mem s2 (p + of_nat k) = mem s (p + of_nat k)" if "k < 9364" "k < 116 \<or> 8308 \<le> k" for k
          using field_bytes [OF fields that] .
        ultimately show ?thesis using r(2,3) 3(1) by (intro exI [of _ s2]) simp
      qed
    qed
  qed
qed

theorem process_inject_arguments_refused_witness:
  "\<exists>(s :: pstate) p root s'. process_inject_arguments p root s = Some (- ENOMEM, s') \<and> process_ok s' p \<and> free_slots (mem s') p = {}
     \<and> card (free_slots (mem s) p) = 1"
proof -
  obtain p q and s0 :: pstate where s0: "process_ok s0 p" "argument_chain (own_byte s0 p) (mem s0) q [[0x6C, 0x73]]"
    "card (free_slots (mem s0) p) = 1023" "2000 \<le> free_blocks s0"
    by (rule argument_ready) blast
  have k: "card (free_slots (mem s0) p) = 1 + 1022" "1 + 1022 \<le> free_blocks s0" using s0(3,4) by simp_all
  obtain s :: pstate where s: "process_ok s p" "argument_chain (own_byte s p) (mem s) q [[0x6C, 0x73]]" "card (free_slots (mem s) p) = 1" "1 \<le> free_blocks s"
    using filled_table [OF s0(1,2) k] by blast
  have "card (free_slots (mem s) p) \<le> free_blocks s" "[[0x6C, 0x73 :: u8]] = [] \<or> card (free_slots (mem s) p) \<le> length [[0x6C, 0x73 :: u8]]"
    "length [[0x6C, 0x73 :: u8]] \<le> 1024" using s(3,4) by simp_all
  from process_inject_arguments_refused [OF s(1,2) this] s(3) show ?thesis by auto
qed

end
