(* ===== verification/ElfSpec.thy ===== *)
theory ElfSpec
  imports Elf
begin

text \<open>
  What the loader makes of an image in memory: \<^verbatim>\<open>elf_process_loaded\<close> against the list of its segments. The loop over the
  program headers is a fold over that list, and the fold yields the least address and the greatest end.
\<close>

section \<open>Segments\<close>

record segment_info =
  seg_type :: u32
  seg_offset :: u32
  seg_vaddr :: u32
  seg_size :: u32

definition segment_at :: "memory \<Rightarrow> u32 \<Rightarrow> segment_info" where
  "segment_at m ph = \<lparr>seg_type = p_type m ph, seg_offset = p_offset m ph, seg_vaddr = p_vaddr m ph, seg_size = p_filesz m ph\<rparr>"

definition segments :: "memory \<Rightarrow> u32 \<Rightarrow> segment_info list" where
  "segments m h = map (\<lambda>i. segment_at m (elf_program_header m h (of_nat i))) [0..<unat (e_phnum m h)]"

definition seg_end :: "segment_info \<Rightarrow> u32" where "seg_end g = seg_vaddr g + seg_size g"

text \<open>The four bounds in a \<^verbatim>\<open>struct elf_file\<close>, and how one segment widens them.\<close>

record bounds =
  b_virtual :: u32
  b_physical :: u32
  b_virtual_end :: u32
  b_physical_end :: u32

definition bounds_at :: "memory \<Rightarrow> u32 \<Rightarrow> bounds" where
  "bounds_at m f = \<lparr>b_virtual = elf_virtual_base m f, b_physical = elf_physical_base m f,
     b_virtual_end = elf_virtual_end m f, b_physical_end = elf_physical_end m f\<rparr>"

definition widen :: "u32 \<Rightarrow> segment_info \<Rightarrow> bounds \<Rightarrow> bounds" where
  "widen img g b =
     (let b1 = (if seg_vaddr g \<le> b_virtual b \<or> b_virtual b = 0
                then b\<lparr>b_virtual := seg_vaddr g, b_physical := img + seg_offset g\<rparr> else b)
      in if b_virtual_end b1 \<le> seg_end g \<or> b_virtual_end b1 = 0
         then b1\<lparr>b_virtual_end := seg_end g, b_physical_end := img + seg_offset g + seg_size g\<rparr> else b1)"

text \<open>The image lies apart from the bounds, the last sixteen bytes of the structure at \<open>f\<close>.\<close>

definition image_apart :: "memory \<Rightarrow> u32 \<Rightarrow> u32 \<Rightarrow> bool" where
  "image_apart m f h \<longleftrightarrow> (\<forall>k < 52. \<not> in_region (f + 116) 16 (h + of_nat k))
     \<and> (\<forall>i < unat (e_phnum m h). \<forall>k < 32. \<not> in_region (f + 116) 16 (elf_program_header m h (of_nat i) + of_nat k))"

section \<open>One header\<close>

lemma aligned4_field: "aligned4 f \<Longrightarrow> unat k mod 4 = 0 \<Longrightarrow> aligned4 (f + k)"
proof -
  have ar: "a mod 4 = 0 \<Longrightarrow> b mod 4 = 0 \<Longrightarrow> (a + b) mod 4294967296 mod 4 = 0" for a b :: nat
    using mod_mod_cancel [of 4 "4294967296 :: nat" "a + b"] mod_add_eq [of a 4 b] by simp
  show "aligned4 f \<Longrightarrow> unat k mod 4 = 0 \<Longrightarrow> aligned4 (f + k)"
    using ar [of "unat f" "unat k"] unfolding aligned4_def by (simp only: unat_word_ariths) simp
qed

lemma field_words:
  assumes "aligned4 f" "a \<in> {112, 116, 120, 124, 128}" "b \<in> {112, 116, 120, 124, 128}"
  shows "load32 (store32 m (f + a) v) (f + b) = (if a = b then v else load32 m (f + b))"
proof -
  have "aligned4 (f + a)" "aligned4 (f + b)" using assms by (auto intro!: aligned4_field)
  then show ?thesis using load32_store32_other load32_store32_same by auto
qed

lemma bounds_frame: "a \<in> {116, 120, 124, 128} \<Longrightarrow> \<not> in_region (f + 116) 16 b \<Longrightarrow> store32 m (f + a) v b = m b"
proof (rule store32_other)
  fix k :: nat assume a: "a \<in> {116, 120, 124, 128}" and b: "\<not> in_region (f + 116) 16 b" and k: "k < 4"
  have "in_region (f + 116) 16 (f + 116 + of_nat (unat (a - 116) + k))" using a k by (intro in_region_offset) auto
  then show "b \<noteq> f + a + of_nat k" using b by (auto simp: add.assoc)
qed

lemma segment_cong:
  assumes "\<And>b. \<not> in_region (f + 116) 16 b \<Longrightarrow> m' b = m b" "\<And>k. k < 32 \<Longrightarrow> \<not> in_region (f + 116) 16 (ph + of_nat k)"
  shows "p_type m' ph = p_type m ph" "p_offset m' ph = p_offset m ph" "p_vaddr m' ph = p_vaddr m ph" "p_filesz m' ph = p_filesz m ph"
proof -
  have w: "load32 m' (ph + of_nat j) = load32 m (ph + of_nat j)" if "j + 4 \<le> 32" for j
    using assms(1) assms(2) [of "j + k" for k] that by (intro load32_cong) (simp add: add.assoc)
  show "p_type m' ph = p_type m ph" "p_offset m' ph = p_offset m ph" "p_vaddr m' ph = p_vaddr m ph" "p_filesz m' ph = p_filesz m ph"
    using w [of 0] w [of 4] w [of 8] w [of 16] by (simp_all add: p_type_def p_offset_def p_vaddr_def p_filesz_def)
qed

lemma pt_load_run:
  assumes "aligned4 f" "\<And>k. k < 32 \<Longrightarrow> \<not> in_region (f + 116) 16 (ph + of_nat k)"
  obtains m' where "elf_process_phdr_pt_load f ph m = (0, m')" "bounds_at m' f = widen (elf_memory m f) (segment_at m ph) (bounds_at m f)"
    "elf_memory m' f = elf_memory m f" "\<And>b. \<not> in_region (f + 116) 16 b \<Longrightarrow> m' b = m b"
proof -
  let ?v = "p_vaddr m ph" and ?o = "p_offset m ph" and ?z = "p_filesz m ph" and ?i = "elf_memory m f"
  note fields = elf_memory_def elf_virtual_base_def elf_virtual_end_def elf_physical_base_def elf_physical_end_def
  note w = field_words [OF assms(1)]
  define m1 where "m1 = (if ?v \<le> elf_virtual_base m f \<or> elf_virtual_base m f = 0
    then store32 (store32 m (f + 116) ?v) (f + 124) (?i + ?o) else m)"
  define m2 where "m2 = (if elf_virtual_end m f \<le> ?v + ?z \<or> elf_virtual_end m f = 0
    then store32 (store32 m1 (f + 120) (?v + ?z)) (f + 128) (?i + ?o + ?z) else m1)"
  have fr1: "m1 b = m b" if "\<not> in_region (f + 116) 16 b" for b using that by (simp add: m1_def bounds_frame)
  have fr2: "m2 b = m b" if "\<not> in_region (f + 116) 16 b" for b using that fr1 by (simp add: m2_def bounds_frame)
  have one: "store32 m (f + 116) ?v b = m b" if "\<not> in_region (f + 116) 16 b" for b using that by (simp add: bounds_frame)
  have three: "store32 m1 (f + 120) (?v + ?z) b = m b" if "\<not> in_region (f + 116) 16 b" for b using that fr1 by (simp add: bounds_frame)
  have s1: "p_offset m1 ph = ?o" "p_vaddr m1 ph = ?v" "p_filesz m1 ph = ?z"
    by (rule segment_cong [OF fr1]; use assms(2) in blast)+
  have s2: "p_offset (store32 m (f + 116) ?v) ph = ?o" by (rule segment_cong [OF one]; use assms(2) in blast)
  have s3: "p_offset (store32 m1 (f + 120) (?v + ?z)) ph = ?o" "p_filesz (store32 m1 (f + 120) (?v + ?z)) ph = ?z"
    by (rule segment_cong [OF three]; use assms(2) in blast)+
  have "elf_process_phdr_pt_load f ph m = (0, m2)"
  proof -
    have a: "elf_memory (store32 m (f + 116) ?v) f = ?i" "elf_virtual_end m1 f = elf_virtual_end m f"
      "elf_memory (store32 m1 (f + 120) (?v + ?z)) f = ?i"
      by (auto simp: fields m1_def w)
    have step: "(if ?v \<le> elf_virtual_base m f \<or> elf_virtual_base m f = 0
      then store32 (store32 m (f + 116) ?v) (f + 124) (elf_memory (store32 m (f + 116) ?v) f + p_offset (store32 m (f + 116) ?v) ph) else m) = m1"
      unfolding a(1) s2 m1_def ..
    have "elf_process_phdr_pt_load f ph m = (0, if elf_virtual_end m1 f \<le> p_vaddr m1 ph + p_filesz m1 ph \<or> elf_virtual_end m1 f = 0
      then store32 (store32 m1 (f + 120) (p_vaddr m1 ph + p_filesz m1 ph)) (f + 128)
        (elf_memory (store32 m1 (f + 120) (p_vaddr m1 ph + p_filesz m1 ph)) f + p_offset (store32 m1 (f + 120) (p_vaddr m1 ph + p_filesz m1 ph)) ph
          + p_filesz (store32 m1 (f + 120) (p_vaddr m1 ph + p_filesz m1 ph)) ph) else m1)"
      unfolding elf_process_phdr_pt_load_def Let_def step ..
    then show ?thesis unfolding s1 s3 a m2_def .
  qed
  moreover have "bounds_at m2 f = widen ?i (segment_at m ph) (bounds_at m f)"
    by (simp add: bounds_at_def widen_def segment_at_def seg_end_def fields m1_def m2_def w Let_def)
  moreover have "elf_memory m2 f = ?i" by (simp add: fields m1_def m2_def w)
  ultimately show thesis using that fr2 by blast
qed

section \<open>All headers\<close>

definition loadable :: "segment_info \<Rightarrow> bool" where "loadable g \<longleftrightarrow> seg_type g = PT_LOAD"

lemma header_cong:
  assumes "\<And>b. \<not> in_region (f + 116) 16 b \<Longrightarrow> m' b = m b" "image_apart m f h"
  shows "e_phnum m' h = e_phnum m h" "elf_program_header m' h i = elf_program_header m h i"
    "e_phoff m' h = e_phoff m h"
proof -
  have b: "m' (h + of_nat k) = m (h + of_nat k)" if "k < 52" for k using assms that by (auto simp: image_apart_def)
  show "e_phnum m' h = e_phnum m h" using b [of 44] b [of 45] by (simp add: e_phnum_def load16_def add.assoc)
  have "load32 m' (h + of_nat 28) = load32 m (h + of_nat 28)"
    using b [of "28 + k" for k] by (intro load32_cong) (simp add: add.assoc)
  then show o: "e_phoff m' h = e_phoff m h" by (simp add: e_phoff_def)
  show "elf_program_header m' h i = elf_program_header m h i"
    by (simp add: elf_program_header_def elf_pheader_def elf_has_program_header_def o)
qed

lemma length_segments: "length (segments m h) = unat (e_phnum m h)"
  by (simp add: segments_def)

lemma elf_loop_run:
  assumes "aligned4 f" "image_apart m0 f h" "\<And>b. \<not> in_region (f + 116) 16 b \<Longrightarrow> m b = m0 b" "i \<le> length (segments m0 h)"
  defines "rest \<equiv> drop i (segments m0 h)"
  shows "\<exists>m'. elf_pheaders_loop f h i 0 m = (if \<forall>g \<in> set rest. loadable g then 0 else - EIO, m')
    \<and> bounds_at m' f = fold (widen (elf_memory m f)) (takeWhile loadable rest) (bounds_at m f)
    \<and> (\<forall>b. \<not> in_region (f + 116) 16 b \<longrightarrow> m' b = m0 b)"
  using assms(3,4) unfolding rest_def
proof (induction "length (segments m0 h) - i" arbitrary: i m)
  case 0
  have "\<not> i < unat (e_phnum m h)" using 0 header_cong(1) [OF 0(2) assms(2)] by (simp add: length_segments)
  then show ?case using 0 by (subst elf_pheaders_loop.simps) auto
next
  case (Suc d)
  note hd = header_cong [OF Suc.prems(1) assms(2)]
  let ?ph = "elf_program_header m0 h (of_nat i)"
  have i: "i < length (segments m0 h)" "i < unat (e_phnum m0 h)" using Suc(2) by (simp_all add: length_segments)
  have ap: "\<not> in_region (f + 116) 16 (?ph + of_nat k)" if "k < 32" for k using assms(2) i(2) that by (simp add: image_apart_def)
  have seg: "segments m0 h ! i = segment_at m ?ph"
    using segment_cong [OF Suc.prems(1) ap] i(2) by (simp add: segments_def segment_at_def)
  have dr: "drop i (segments m0 h) = segment_at m ?ph # drop (Suc i) (segments m0 h)" using i(1) seg by (metis Cons_nth_drop_Suc)
  show ?case
  proof (cases "p_type m ?ph = PT_LOAD")
    case False
    have neg: "(- EIO) <s 0" by (simp add: EIO_def word_sless_alt)
    have "elf_pheaders_loop f h i 0 m = (- EIO, m)"
      using i(2) hd False neg by (subst elf_pheaders_loop.simps) (simp add: elf_process_pheader_def)
    then show ?thesis using False Suc.prems(1) unfolding dr by (simp add: loadable_def segment_at_def)
  next
    case True
    obtain m1 where m1: "elf_process_phdr_pt_load f ?ph m = (0, m1)" "bounds_at m1 f = widen (elf_memory m f) (segment_at m ?ph) (bounds_at m f)"
      "elf_memory m1 f = elf_memory m f" "\<And>b. \<not> in_region (f + 116) 16 b \<Longrightarrow> m1 b = m b"
      by (rule pt_load_run [where m = m, OF assms(1) ap]) blast+
    have step: "elf_pheaders_loop f h i 0 m = elf_pheaders_loop f h (Suc i) 0 m1"
      using i(2) hd True m1(1) by (subst elf_pheaders_loop.simps) (simp add: elf_process_pheader_def)
    have m1': "m1 b = m0 b" if "\<not> in_region (f + 116) 16 b" for b using m1(4) Suc.prems(1) that by simp
    have "loadable (segment_at m ?ph)" using True by (simp add: loadable_def segment_at_def)
    then show ?thesis
      using Suc.hyps(1) [of "Suc i" m1, OF _ m1'] Suc(2) i(1) m1(2,3) unfolding step dr by simp
  qed
qed

section \<open>The bounds\<close>

lemma widen_fields:
  "b_virtual (widen img g b) = (if seg_vaddr g \<le> b_virtual b \<or> b_virtual b = 0 then seg_vaddr g else b_virtual b)"
  "b_physical (widen img g b) = (if seg_vaddr g \<le> b_virtual b \<or> b_virtual b = 0 then img + seg_offset g else b_physical b)"
  "b_virtual_end (widen img g b) = (if b_virtual_end b \<le> seg_end g \<or> b_virtual_end b = 0 then seg_end g else b_virtual_end b)"
  "b_physical_end (widen img g b) = (if b_virtual_end b \<le> seg_end g \<or> b_virtual_end b = 0 then img + seg_offset g + seg_size g else b_physical_end b)"
  by (simp_all add: widen_def Let_def)

text \<open>From empty bounds, the fold yields the least address and the greatest end, and where they lie in the image.\<close>

definition empty_bounds :: bounds where
  "empty_bounds = \<lparr>b_virtual = 0, b_physical = 0, b_virtual_end = 0, b_physical_end = 0\<rparr>"

text \<open>The loader takes a base of 0 for none yet, so a segment at address 0 is forgotten by the next one: the base comes
  from the segments behind the last one at 0, or from the last segment when that lies at 0 itself.\<close>

definition base_segments :: "segment_info list \<Rightarrow> segment_info list" where
  "base_segments gs =
     (let hs = rev (takeWhile (\<lambda>g. seg_vaddr g \<noteq> 0) (rev gs)) in if hs = [] then [last gs] else hs)"

lemma base_segments_all: "gs \<noteq> [] \<Longrightarrow> \<forall>g \<in> set gs. seg_vaddr g \<noteq> 0 \<Longrightarrow> base_segments gs = gs"
  by (subst base_segments_def, subst takeWhile_eq_all_conv [THEN iffD2]) simp_all

lemma base_segments_neq_Nil: "base_segments gs \<noteq> []"
  by (simp add: base_segments_def Let_def)

lemma base_segments_snoc:
  "gs \<noteq> [] \<Longrightarrow>
    base_segments (gs @ [g]) = (if seg_vaddr g = 0 \<or> seg_vaddr (last gs) = 0 then [g] else base_segments gs @ [g])"
  by (cases gs rule: rev_cases) (auto simp: base_segments_def Let_def)

lemma base_segments_zero:
  assumes "gs \<noteq> []"
  shows "Min (seg_vaddr ` set (base_segments gs)) = 0 \<longleftrightarrow> seg_vaddr (last gs) = 0"
proof (cases gs rule: rev_cases)
  case (snoc hs h)
  show ?thesis
  proof (cases "seg_vaddr h = 0")
    case False
    then have "\<forall>g \<in> set (base_segments gs). seg_vaddr g \<noteq> 0"
      unfolding base_segments_def snoc by (auto simp: Let_def dest: set_takeWhileD)
    moreover have "Min (seg_vaddr ` set (base_segments gs)) \<in> seg_vaddr ` set (base_segments gs)"
      using base_segments_neq_Nil [of gs] by (intro Min_in) simp_all
    ultimately have "Min (seg_vaddr ` set (base_segments gs)) \<noteq> 0" by (metis imageE)
    then show ?thesis using False by (simp add: snoc)
  qed (simp add: base_segments_def snoc)
qed (use assms in simp)

lemma fold_widen:
  fixes img :: u32
  assumes "gs \<noteq> []"
  defines "b \<equiv> fold (widen img) gs empty_bounds"
  shows "b_virtual b = Min (seg_vaddr ` set (base_segments gs)) \<and> b_virtual_end b = Max (seg_end ` set gs)
    \<and> (\<exists>g \<in> set (base_segments gs). seg_vaddr g = b_virtual b \<and> b_physical b = img + seg_offset g)
    \<and> (\<exists>g \<in> set gs. seg_end g = b_virtual_end b \<and> b_physical_end b = img + seg_offset g + seg_size g)"
  using assms(1) unfolding b_def
proof (induction gs rule: rev_induct)
  case (snoc g gs)
  show ?case
  proof (cases "gs = []")
    case True
    then show ?thesis by (simp add: widen_fields empty_bounds_def base_segments_def)
  next
    case False
    let ?b = "fold (widen img) gs empty_bounds"
    have IH: "b_virtual ?b = Min (seg_vaddr ` set (base_segments gs))" "b_virtual_end ?b = Max (seg_end ` set gs)"
      "\<exists>g \<in> set (base_segments gs). seg_vaddr g = b_virtual ?b \<and> b_physical ?b = img + seg_offset g"
      "\<exists>g \<in> set gs. seg_end g = b_virtual_end ?b \<and> b_physical_end ?b = img + seg_offset g + seg_size g"
      using snoc.IH [OF False] by auto
    have zero: "b_virtual ?b = 0 \<longleftrightarrow> seg_vaddr (last gs) = 0" unfolding IH(1) by (rule base_segments_zero [OF False])
    have step: "fold (widen img) (gs @ [g]) empty_bounds = widen img g ?b" by simp
    have last: "Max (seg_end ` set (gs @ [g])) = max (seg_end g) (b_virtual_end ?b)"
      unfolding IH(2) using False by simp
    have first: "b_virtual (widen img g ?b) = Min (seg_vaddr ` set (base_segments (gs @ [g])))
      \<and> (\<exists>h \<in> set (base_segments (gs @ [g])). seg_vaddr h = b_virtual (widen img g ?b) \<and> b_physical (widen img g ?b) = img + seg_offset h)"
    proof (cases "seg_vaddr g = 0 \<or> seg_vaddr (last gs) = 0")
      case True
      then show ?thesis using zero unfolding base_segments_snoc [OF False] by (auto simp: widen_fields)
    next
      case f: False
      have "Min (seg_vaddr ` set (base_segments gs @ [g])) = min (seg_vaddr g) (b_virtual ?b)"
        unfolding IH(1) using base_segments_neq_Nil [of gs] by simp
      then show ?thesis using f zero IH(3) unfolding base_segments_snoc [OF False] by (auto simp: widen_fields min_def)
    qed
    then show ?thesis using IH(4) unfolding step last by (auto simp: widen_fields max_def)
  qed
qed simp

section \<open>Properties\<close>

text \<open>The header the loader accepts: signature, 32 bit or no class, least significant byte first or no encoding, and a
  table of program headers.\<close>

definition accepted_header :: "memory \<Rightarrow> u32 \<Rightarrow> bool" where
  "accepted_header m h \<longleftrightarrow> bytes m h 4 = [0x7F, 0x45, 0x4C, 0x46] \<and> m (h + 4) \<in> {0, 1} \<and> m (h + 5) \<in> {0, 1} \<and> e_phoff m h \<noteq> 0"

lemma validate_accepted: "elf_validate_loaded m h = (if accepted_header m h then 0 else - EINVFORMAT)"
  by (auto simp: elf_validate_loaded_def accepted_header_def elf_valid_signature_def elf_valid_class_def elf_valid_encoding_def
      elf_has_program_header_def elf_defs NE_def)

text \<open>C10. An image in memory that a fresh, word-aligned \<^verbatim>\<open>struct elf_file\<close> points to, apart from the bounds in that
  structure, whatever the headers hold. A header that is not
  accepted gives \<^verbatim>\<open>-EINVFORMAT\<close> and nothing is written. Otherwise, when every program header is a loadable segment, the
  answer is 0: the virtual end is the greatest end of a segment, the virtual base the least address of one, and the
  physical ones lie in the image where those segments do. Address 0 counts as no base yet, so the base comes from the
  segments behind the last one at 0 (\<open>base_segments\<close>; all of them when none lies at 0, the last when that is at 0 itself).
  A single header of another type, such as the usual stack header of size 0, makes the whole file fail with \<^verbatim>\<open>-EIO\<close>.
  Only the four bounds are written.\<close>

theorem elf_process_loaded_correct:
  assumes "aligned4 f" "image_apart m f (elf_memory m f)" "bounds_at m f = empty_bounds"
    and gs: "gs = segments m (elf_memory m f)"
  shows "\<exists>m'. elf_process_loaded f m = (if \<not> accepted_header m (elf_memory m f) then - EINVFORMAT
        else if \<forall>g \<in> set gs. seg_type g = PT_LOAD then 0 else - EIO, m')
    \<and> (\<not> accepted_header m (elf_memory m f) \<longrightarrow> m' = m)
    \<and> (accepted_header m (elf_memory m f) \<and> (\<forall>g \<in> set gs. seg_type g = PT_LOAD) \<and> gs \<noteq> [] \<longrightarrow>
        elf_virtual_base m' f = Min (seg_vaddr ` set (base_segments gs)) \<and> elf_virtual_end m' f = Max (seg_end ` set gs)
        \<and> ((\<forall>g \<in> set gs. seg_vaddr g \<noteq> 0) \<longrightarrow> elf_virtual_base m' f = Min (seg_vaddr ` set gs))
        \<and> (\<exists>g \<in> set (base_segments gs). seg_vaddr g = elf_virtual_base m' f \<and> elf_physical_base m' f = elf_memory m f + seg_offset g)
        \<and> (\<exists>g \<in> set gs. seg_end g = elf_virtual_end m' f \<and> elf_physical_end m' f = elf_memory m f + seg_offset g + seg_size g))
    \<and> (\<forall>b. \<not> in_region (f + 116) 16 b \<longrightarrow> m' b = m b)"
proof (cases "accepted_header m (elf_memory m f)")
  case False
  have "(- EINVFORMAT) <s 0" by (simp add: EINVFORMAT_def word_sless_alt)
  then show ?thesis using False by (simp add: elf_process_loaded_def elf_header_def validate_accepted)
next
  case True
  let ?h = "elf_memory m f"
  obtain m' where r: "elf_pheaders_loop f ?h 0 0 m = (if \<forall>g \<in> set gs. loadable g then 0 else - EIO, m')"
    "bounds_at m' f = fold (widen ?h) (takeWhile loadable gs) empty_bounds" "\<forall>b. \<not> in_region (f + 116) 16 b \<longrightarrow> m' b = m b"
    using elf_loop_run [OF assms(1,2), of m 0] unfolding assms(3) gs drop_0 by auto
  have run: "elf_process_loaded f m = (if \<forall>g \<in> set gs. loadable g then 0 else - EIO, m')"
    using r(1) True by (simp add: elf_process_loaded_def elf_header_def validate_accepted elf_process_pheaders_def)
  have fields: "elf_virtual_base m' f = Min (seg_vaddr ` set (base_segments gs)) \<and> elf_virtual_end m' f = Max (seg_end ` set gs)
      \<and> (\<exists>g \<in> set (base_segments gs). seg_vaddr g = elf_virtual_base m' f \<and> elf_physical_base m' f = ?h + seg_offset g)
      \<and> (\<exists>g \<in> set gs. seg_end g = elf_virtual_end m' f \<and> elf_physical_end m' f = ?h + seg_offset g + seg_size g)"
    if "\<forall>g \<in> set gs. loadable g" "gs \<noteq> []"
  proof -
    have "takeWhile loadable gs = gs" using that(1) by (simp add: takeWhile_eq_all_conv)
    then show ?thesis using fold_widen [OF that(2), of ?h] unfolding r(2) [symmetric, unfolded \<open>takeWhile loadable gs = gs\<close>]
      by (auto simp: bounds_at_def)
  qed
  show ?thesis
  proof (intro exI [of _ m'] conjI, goal_cases)
    case 1
    then show ?case using run True unfolding loadable_def by simp
  next
    case 2
    then show ?case using True by blast
  next
    case 3
    then show ?case using fields base_segments_all [of gs] unfolding loadable_def by metis
  qed (rule r(3))
qed

text \<open>An image with two segments at \<open>0x1000\<close>, and the structure at \<open>0x100\<close>.\<close>

definition small_image :: memory where
  "small_image = (\<lambda>_. 0)(0x171 := 0x10,
     0x1000 := 0x7F, 0x1001 := 0x45, 0x1002 := 0x4C, 0x1003 := 0x46, 0x1004 := 1, 0x1005 := 1, 0x101C := 0x34, 0x102C := 2,
     0x1034 := 1, 0x1039 := 0x10, 0x103E := 0x40, 0x1044 := 0x20,
     0x1054 := 1, 0x1059 := 0x20, 0x105D := 0x10, 0x105E := 0x40, 0x1064 := 0x30)"

theorem elf_process_loaded_correct_witness:
  "\<exists>m'. elf_process_loaded 0x100 small_image = (0, m') \<and> elf_virtual_base m' 0x100 = 0x400000 \<and> elf_virtual_end m' 0x100 = 0x401030"
proof -
  let ?m = small_image
  have mem: "elf_memory ?m 0x100 = 0x1000" by (simp add: elf_memory_def load32_def small_image_def word_cat_eq)
  have h: "e_phnum ?m 0x1000 = 2" "e_phoff ?m 0x1000 = 0x34" by (simp_all add: e_phnum_def e_phoff_def load16_def load32_def small_image_def word_cat_eq)
  have ph: "elf_program_header ?m 0x1000 0 = 0x1034" "elf_program_header ?m 0x1000 1 = 0x1054"
    by (simp_all add: elf_program_header_def elf_pheader_def elf_has_program_header_def h)
  have words: "load32 ?m 0x1034 = 1" "load32 ?m 0x1038 = 0x1000" "load32 ?m 0x103C = 0x400000" "load32 ?m 0x1044 = 0x20"
    "load32 ?m 0x1054 = 1" "load32 ?m 0x1058 = 0x2000" "load32 ?m 0x105C = 0x401000" "load32 ?m 0x1064 = 0x30"
    by (simp_all add: load32_def small_image_def word_cat_eq)
  have two: "[0..<unat (2 :: u16)] = [0, 1]" by (simp add: upt_rec)
  have segs: "segments ?m 0x1000 = [\<lparr>seg_type = 1, seg_offset = 0x1000, seg_vaddr = 0x400000, seg_size = 0x20\<rparr>,
      \<lparr>seg_type = 1, seg_offset = 0x2000, seg_vaddr = 0x401000, seg_size = 0x30\<rparr>]"
    unfolding segments_def h two by (simp add: ph segment_at_def p_type_def p_offset_def p_vaddr_def p_filesz_def words)
  have al: "aligned4 0x100" by (simp add: aligned4_def)
  have far: "\<not> in_region (0x100 + 116) 16 (0x1000 + of_nat k)" if "k < 0x80" for k
    using that by (simp add: in_region_def word_less_nat_alt unat_word_ariths unat_of_nat32)
  have "\<not> in_region (0x100 + 116) 16 (0x1034 + of_nat k) \<and> \<not> in_region (0x100 + 116) 16 (0x1054 + of_nat k)" if "k < 32" for k
    using far [of "0x34 + k"] far [of "0x54 + k"] that by (simp add: add.assoc [symmetric])
  then have apart: "image_apart ?m 0x100 (elf_memory ?m 0x100)"
    unfolding image_apart_def mem h using far by (auto simp: less_2_cases_iff ph)
  have empty: "bounds_at ?m 0x100 = empty_bounds"
    by (simp add: bounds_at_def empty_bounds_def elf_virtual_base_def elf_virtual_end_def elf_physical_base_def elf_physical_end_def load32_def small_image_def word_cat_eq)
  have acc: "accepted_header ?m 0x1000" unfolding accepted_header_def h by (simp add: bytes_def small_image_def upt_rec)
  show ?thesis
    using elf_process_loaded_correct [OF al apart empty refl, unfolded mem] acc
    by (auto simp: segs seg_end_def PT_LOAD_def)
qed

end
