(* ===== verification/UserString.thy ===== *)
theory UserString
  imports CString
begin

text \<open>
  The user library's own \<^verbatim>\<open>src/programs/stdlib/src/string.c\<close> (up to \<^verbatim>\<open>atoic\<close>) and \<^verbatim>\<open>memory.c\<close>. They are translated on
  their own and proved to compute what the kernel's routines of the same names compute, so that everything known of
  \<open>CString\<close> and \<open>Memory\<close> holds of them, and \<open>UserLib\<close> may use either.
\<close>

section \<open>\<^verbatim>\<open>memory.c\<close>\<close>

function u_memset_loop :: "memory \<Rightarrow> u32 \<Rightarrow> u8 \<Rightarrow> u32 \<Rightarrow> u32 \<Rightarrow> memory" where
  "u_memset_loop m ptr c sz i = (if i < sz then u_memset_loop (m(ptr + i := c)) ptr c sz (i + 1) else m)"
  by pat_completeness auto
termination
  by (relation "measure (\<lambda>(m, ptr, c, sz, i). unat sz - unat i)") (auto simp: unat_Suc_word word_less_nat_alt)

definition u_memset :: "memory \<Rightarrow> u32 \<Rightarrow> u32 \<Rightarrow> u32 \<Rightarrow> memory" where
  "u_memset m ptr c sz = u_memset_loop m ptr (ucast c) sz 0"

function u_memcmp :: "memory \<Rightarrow> u32 \<Rightarrow> u32 \<Rightarrow> u32 \<Rightarrow> u32" where
  "u_memcmp m s1 s2 sz =
     (if 0 < sz then
        (if m s1 \<noteq> m s2 then (if m s1 < m s2 then - 1 else 1)
         else u_memcmp m (s1 + 1) (s2 + 1) (sz - 1))
      else 0)"
  by pat_completeness auto
termination
  by (relation "measure (\<lambda>(m, s1, s2, sz). unat sz)") (auto simp: word_gt_0 unat_minus_one unat_gt_0 intro: diff_less)

function u_memcpy_loop :: "memory \<Rightarrow> u32 \<Rightarrow> u32 \<Rightarrow> u32 \<Rightarrow> u32 \<Rightarrow> memory" where
  "u_memcpy_loop m dst src sz i = (if i < sz then u_memcpy_loop (m(dst + i := m (src + i))) dst src sz (i + 1) else m)"
  by pat_completeness auto
termination
  by (relation "measure (\<lambda>(m, dst, src, sz, i). unat sz - unat i)") (auto simp: unat_Suc_word word_less_nat_alt)

definition u_memcpy :: "memory \<Rightarrow> u32 \<Rightarrow> u32 \<Rightarrow> u32 \<Rightarrow> memory" where
  "u_memcpy m dst src sz = u_memcpy_loop m dst src sz 0"

declare u_memset_loop.simps [simp del] u_memcmp.simps [simp del] u_memcpy_loop.simps [simp del]

section \<open>\<^verbatim>\<open>string.c\<close>\<close>

partial_function (option) u_strlen_loop :: "memory \<Rightarrow> u32 \<Rightarrow> u32 \<Rightarrow> u32 option" where
  "u_strlen_loop m str ctr = (if m str \<noteq> 0 then u_strlen_loop m (str + 1) (ctr + 1) else Some ctr)"

definition u_strlen :: "memory \<Rightarrow> u32 \<Rightarrow> u32 option" where
  "u_strlen m str = u_strlen_loop m str 0"

function u_strnlen_loop :: "memory \<Rightarrow> u32 \<Rightarrow> u32 \<Rightarrow> u32 \<Rightarrow> u32" where
  "u_strnlen_loop m str max_len ctr =
     (if ctr < max_len then (if m (str + ctr) = 0 then ctr else u_strnlen_loop m str max_len (ctr + 1)) else ctr)"
  by pat_completeness auto
termination
  by (relation "measure (\<lambda>(m, str, max_len, ctr). unat max_len - unat ctr)") (auto simp: unat_Suc_word word_less_nat_alt)

definition u_strnlen :: "memory \<Rightarrow> u32 \<Rightarrow> u32 \<Rightarrow> u32" where
  "u_strnlen m str max_len = u_strnlen_loop m str max_len 0"

function u_strncmp :: "memory \<Rightarrow> u32 \<Rightarrow> u32 \<Rightarrow> u32 \<Rightarrow> u32" where
  "u_strncmp m str1 str2 sz =
     (if 0 < sz then
        (let t1 = m str1; t2 = m str2
         in if t1 \<noteq> t2 then ucast t1 - ucast t2
            else if t1 = 0 then 0
            else u_strncmp m (str1 + 1) (str2 + 1) (sz - 1))
      else 0)"
  by pat_completeness auto
termination
  by (relation "measure (\<lambda>(m, str1, str2, sz). unat sz)") (auto simp: word_gt_0 unat_minus_one unat_gt_0 intro: diff_less)

definition u_tolower :: "u8 \<Rightarrow> u8" where
  "u_tolower ch = (if ch < 65 \<or> 90 < ch then ch else ch + 32)"

function u_istrncmp :: "memory \<Rightarrow> u32 \<Rightarrow> u32 \<Rightarrow> u32 \<Rightarrow> u32" where
  "u_istrncmp m str1 str2 max_len =
     (if 0 < max_len then
        (let u1 = m str1; u2 = m str2
         in if u1 \<noteq> u2 \<and> u_tolower u1 \<noteq> u_tolower u2 then ucast u1 - ucast u2
            else if u1 = 0 then 0
            else u_istrncmp m (str1 + 1) (str2 + 1) (max_len - 1))
      else 0)"
  by pat_completeness auto
termination
  by (relation "measure (\<lambda>(m, str1, str2, sz). unat sz)") (auto simp: word_gt_0 unat_minus_one unat_gt_0 intro: diff_less)

function u_strnlen_terminator_loop :: "memory \<Rightarrow> u32 \<Rightarrow> u32 \<Rightarrow> u8 \<Rightarrow> u32 \<Rightarrow> u32" where
  "u_strnlen_terminator_loop m str max_len terminator i =
     (if i < max_len then
        (if m (str + i) = 0 \<or> m (str + i) = terminator then i
         else u_strnlen_terminator_loop m str max_len terminator (i + 1))
      else i)"
  by pat_completeness auto
termination
  by (relation "measure (\<lambda>(m, str, max_len, t, i). unat max_len - unat i)") (auto simp: unat_Suc_word word_less_nat_alt)

definition u_strnlen_terminator :: "memory \<Rightarrow> u32 \<Rightarrow> u32 \<Rightarrow> u8 \<Rightarrow> u32" where
  "u_strnlen_terminator m str max_len terminator = u_strnlen_terminator_loop m str max_len terminator 0"

partial_function (option) u_strcpy_loop :: "memory \<Rightarrow> u32 \<Rightarrow> u32 \<Rightarrow> memory option" where
  "u_strcpy_loop m dst src =
     (if m src \<noteq> 0 then u_strcpy_loop (m(dst := m src)) (dst + 1) (src + 1) else Some (m(dst := 0)))"

definition u_strcpy :: "memory \<Rightarrow> u32 \<Rightarrow> u32 \<Rightarrow> memory option" where
  "u_strcpy m dst src = u_strcpy_loop m dst src"

function u_strncpy_loop :: "memory \<Rightarrow> u32 \<Rightarrow> u32 \<Rightarrow> u32 \<Rightarrow> memory" where
  "u_strncpy_loop m dst src sz =
     (if 0 < sz - 1 \<and> sz \<noteq> 0 \<and> m src \<noteq> 0
      then u_strncpy_loop (m(dst := m src)) (dst + 1) (src + 1) (sz - 1)
      else m(dst := 0))"
  by pat_completeness auto
termination
  by (relation "measure (\<lambda>(m, dst, src, sz). unat sz)") (auto simp: unat_minus_one unat_gt_0 intro: diff_less)

definition u_strncpy :: "memory \<Rightarrow> u32 \<Rightarrow> u32 \<Rightarrow> u32 \<Rightarrow> memory" where
  "u_strncpy m dst src sz = (if sz = 0 then m else u_strncpy_loop m dst src sz)"

definition u_isdigit :: "u8 \<Rightarrow> bool" where
  "u_isdigit c \<longleftrightarrow> 47 <s c \<and> c <s 58"

definition u_atoic :: "u8 \<Rightarrow> u32" where
  "u_atoic ch = scast ch - 48"

partial_function (option) u_atoi_loop :: "memory \<Rightarrow> u32 \<Rightarrow> u32 \<Rightarrow> u32 option" where
  "u_atoi_loop m str result =
     (if m str \<noteq> 0 \<or> m str < 48 \<or> 57 < m str
      then u_atoi_loop m (str + 1) (result + (result * 10 + (ucast (m str) - 48)))
      else Some result)"

definition u_atoi :: "memory \<Rightarrow> u32 \<Rightarrow> u32 option" where
  "u_atoi m str =
     (let is_neg = (m str = 0x2D);
          str' = (if is_neg then str + 1 else str)
      in map_option (\<lambda>result. if is_neg then result * (- 1) else result) (u_atoi_loop m str' 0))"

declare u_strnlen_loop.simps [simp del] u_strncmp.simps [simp del] u_istrncmp.simps [simp del]
  u_strnlen_terminator_loop.simps [simp del] u_strncpy_loop.simps [simp del]

section \<open>The same functions\<close>

lemma u_memset_loop_same: "u_memset_loop m ptr c sz i = memset_loop m ptr c sz i"
  by (induction m ptr c sz i rule: memset_loop.induct) (subst u_memset_loop.simps, subst memset_loop.simps, simp add: fun_upd_def)

lemma u_memcpy_loop_same: "u_memcpy_loop m dst src sz i = memcpy_loop m dst src sz i"
  by (induction m dst src sz i rule: memcpy_loop.induct) (subst u_memcpy_loop.simps, subst memcpy_loop.simps, simp add: fun_upd_def)

lemma u_memcmp_same: "u_memcmp m s1 s2 sz = memcmp m s1 s2 sz"
  by (induction m s1 s2 sz rule: memcmp.induct) (subst u_memcmp.simps, subst memcmp.simps, simp)

lemma u_strnlen_loop_same: "u_strnlen_loop m str n i = strnlen_loop m str n i"
  by (induction m str n i rule: strnlen_loop.induct) (subst u_strnlen_loop.simps, subst strnlen_loop.simps, simp)

lemma u_strncmp_same: "u_strncmp m a b n = strncmp m a b n"
  by (induction m a b n rule: strncmp.induct) (subst u_strncmp.simps, subst strncmp.simps, simp add: Let_def)

lemma u_tolower_same: "u_tolower = tolower"
  by (simp add: u_tolower_def tolower_def fun_eq_iff)

lemma u_istrncmp_same: "u_istrncmp m a b n = istrncmp m a b n"
  by (induction m a b n rule: istrncmp.induct) (subst u_istrncmp.simps, subst istrncmp.simps, simp add: Let_def u_tolower_same)

lemma u_strnlen_terminator_loop_same: "u_strnlen_terminator_loop m str n t i = strnlen_terminator_loop m str n t i"
  by (induction m str n t i rule: strnlen_terminator_loop.induct)
    (subst u_strnlen_terminator_loop.simps, subst strnlen_terminator_loop.simps, simp)

lemma u_strncpy_loop_same: "u_strncpy_loop m dst src n = strncpy_loop m dst src n"
  by (induction m dst src n rule: strncpy_loop.induct) (subst u_strncpy_loop.simps, subst strncpy_loop.simps, simp add: fun_upd_def)

lemma option_same: "(\<And>r. a = Some r \<longleftrightarrow> b = Some r) \<Longrightarrow> a = b"
  by (cases a; cases b) auto

lemma u_strlen_loop_le: "strlen_loop m str ctr = Some r \<Longrightarrow> u_strlen_loop m str ctr = Some r"
  by (rule strlen_loop.raw_induct [where P = "\<lambda>x y z r. u_strlen_loop x y z = Some r"]) (subst u_strlen_loop.simps, auto split: if_splits)

lemma u_strlen_loop_ge: "u_strlen_loop m str ctr = Some r \<Longrightarrow> strlen_loop m str ctr = Some r"
  by (rule u_strlen_loop.raw_induct [where P = "\<lambda>x y z r. strlen_loop x y z = Some r"]) (subst strlen_loop.simps, auto split: if_splits)

lemma u_strlen_loop_same: "u_strlen_loop = strlen_loop"
  by (intro ext option_same) (blast intro: u_strlen_loop_le u_strlen_loop_ge)

lemma u_strcpy_loop_le: "strcpy_loop m dst src = Some r \<Longrightarrow> u_strcpy_loop m dst src = Some r"
  by (rule strcpy_loop.raw_induct [where P = "\<lambda>x y z r. u_strcpy_loop x y z = Some r"]) (subst u_strcpy_loop.simps, auto split: if_splits)

lemma u_strcpy_loop_ge: "u_strcpy_loop m dst src = Some r \<Longrightarrow> strcpy_loop m dst src = Some r"
  by (rule u_strcpy_loop.raw_induct [where P = "\<lambda>x y z r. strcpy_loop x y z = Some r"]) (subst strcpy_loop.simps, auto split: if_splits)

lemma u_strcpy_loop_same: "u_strcpy_loop = strcpy_loop"
  by (intro ext option_same) (blast intro: u_strcpy_loop_le u_strcpy_loop_ge)

lemma u_atoi_loop_le: "atoi_loop m str res = Some r \<Longrightarrow> u_atoi_loop m str res = Some r"
  by (rule atoi_loop.raw_induct [where P = "\<lambda>x y z r. u_atoi_loop x y z = Some r"]) (subst u_atoi_loop.simps, auto split: if_splits)

lemma u_atoi_loop_ge: "u_atoi_loop m str res = Some r \<Longrightarrow> atoi_loop m str res = Some r"
  by (rule u_atoi_loop.raw_induct [where P = "\<lambda>x y z r. atoi_loop x y z = Some r"]) (subst atoi_loop.simps, auto split: if_splits)

lemma u_atoi_loop_same: "u_atoi_loop = atoi_loop"
  by (intro ext option_same) (blast intro: u_atoi_loop_le u_atoi_loop_ge)

text \<open>So are the routines.\<close>

lemma user_string_same:
  "u_memset = memset" "u_memcpy = memcpy" "u_memcmp = memcmp" "u_strlen = strlen" "u_strnlen = strnlen" "u_strncmp = strncmp"
  "u_istrncmp = istrncmp" "u_strnlen_terminator = strnlen_terminator" "u_strcpy = strcpy" "u_strncpy = strncpy"
  "u_isdigit = isdigit" "u_atoic = atoic" "u_atoi = atoi"
  by (simp_all add: fun_eq_iff u_memset_def memset_def u_memset_loop_same u_memcpy_def memcpy_def u_memcpy_loop_same u_memcmp_same
      u_strlen_def strlen_def u_strlen_loop_same u_strnlen_def strnlen_def u_strnlen_loop_same u_strncmp_same u_istrncmp_same
      u_strnlen_terminator_def strnlen_terminator_def u_strnlen_terminator_loop_same u_strcpy_def strcpy_def u_strcpy_loop_same
      u_strncpy_def strncpy_def u_strncpy_loop_same u_isdigit_def isdigit_def u_atoic_def atoic_def u_atoi_def atoi_def u_atoi_loop_same)

end
