(* ===== verification/Spec2Isabelle.thy ===== *)
theory Spec2Isabelle
  imports Kernel KeyboardRing TaskSpec SchedulerSpec SyscallSpec IdtSpec FatSpec FatNames AddressSpace ProcessEnd ProcessRuns ProcessArguments CommandSpec ElfSpec UserString
begin

text \<open>
  A verification library for BasicOS, a 32-bit protected-mode kernel for the i686 with paging, a FAT16
  reader, an ELF loader, preemptive tasks and system calls. The model covers the C code of the kernel
  under \<^verbatim>\<open>src/kernel\<close> and that of the user library and the two C programs under \<^verbatim>\<open>src/programs\<close>. Each theory reads like the C file it translates: one definition per function, in
  the order of the file, with its guards, early returns and state changes.

  \<^bold>\<open>Machine.\<close> An \<^verbatim>\<open>int\<close>, a \<^verbatim>\<open>long\<close>, a \<^verbatim>\<open>size_t\<close> and a pointer are 32-bit words and wrap around; a signed comparison
  is \<open><s\<close> or goes through \<open>sint\<close>. Memory is a function from addresses to bytes (\<open>memory\<close>); structures live
  in it at the offsets the compiler gives their fields, so aliasing and overlap are visible. The state
  is a record extended from layer to layer: \<open>console\<close> (memory and screen cursor), \<open>kstate\<close> (heap), \<open>vstate\<close>
  (paging), \<open>dstate\<close> (disk), \<open>fstate\<close> (files), \<open>tstate\<close> (tasks), \<open>pstate\<close> (processes), \<open>istate\<close> (interrupt
  table), \<open>kbstate\<close> (keyboard), \<open>sstate\<close> (system calls), \<open>machine\<close> and \<open>kernel\<close>. A routine that may not return
  has type \<open>run\<close> (theory \<open>Effects\<close>): no value for a loop that never ends or a processor fault, \<open>Halted\<close> for
  \<^verbatim>\<open>kernel_panic\<close>, \<open>Resumed\<close> for \<^verbatim>\<open>task_return\<close>, \<open>Ret\<close> otherwise.

  \<^bold>\<open>Theories and sources.\<close>
  \<^item> \<open>Prelude\<close>: machine types, status codes, word lemmas. \<open>Memory\<close>: \<^verbatim>\<open>memory/memory.c\<close>.
  \<^item> \<open>Heap\<close>, \<open>HeapSpec\<close>: \<^verbatim>\<open>memory/heap/heap.c\<close>; the block table as a set of disjoint live runs, the search as first
    fit. \<open>KHeap\<close>: \<^verbatim>\<open>kheap.c\<close>; the locale \<open>allocator\<close> is the contract of \<^verbatim>\<open>kmalloc\<close> and \<^verbatim>\<open>kfree\<close>, extended by
    \<open>zeroing_allocator\<close> for \<^verbatim>\<open>kzalloc\<close>, both interpreted on the code. \<open>HeapObjects\<close>: sequences of allocations.
    \<open>HeapRuns\<close>: the life of the heap as an inductive relation between the grants outstanding, with what their
    owners wrote, and the state; no byte is granted twice and no block lost.
  \<^item> \<open>Terminal\<close>, \<open>TerminalSpec\<close>: the screen and number output of \<^verbatim>\<open>kernel.c\<close> and \<^verbatim>\<open>math.h\<close>.
  \<^item> \<open>Paging\<close>, \<open>PagingSpec\<close>: \<^verbatim>\<open>memory/paging/paging.c\<close>; well-formed directories and the translation they stand for.
  \<^item> \<open>CString\<close>: \<^verbatim>\<open>string/string.c\<close>. \<open>PathParser\<close>: \<^verbatim>\<open>fs/pparser.c\<close>. \<open>Gdt\<close>: \<^verbatim>\<open>gdt/gdt.c\<close>.
  \<^item> \<open>Disk\<close>: \<^verbatim>\<open>disk/disk.c\<close> and \<^verbatim>\<open>disk/streamer.c\<close>. \<open>Fat16\<close>: \<^verbatim>\<open>fs/fat/fat16.c\<close>. \<open>File\<close>: \<^verbatim>\<open>fs/file.c\<close>. \<open>FatSpec\<close>, \<open>FatNames\<close>:
    what a read delivers, where it stops, and file names.
  \<^item> \<open>Elf\<close>: \<^verbatim>\<open>loader/formats/elf.c\<close> and \<^verbatim>\<open>elf_loader.c\<close>. \<open>ElfSpec\<close>: the headers of an
    image as a list of segments, and the bounds the loader computes from it.
  \<^item> \<open>Task\<close>, \<open>TaskSpec\<close>: \<^verbatim>\<open>task/task.c\<close>; the task list, its ring order and the saved context. \<open>TaskMemory\<close>:
    strings read out of a task through its page tables, and the print system call from the task to the screen.
    \<open>Process\<close>, \<open>AddressSpace\<close>, \<open>ProcessMemory\<close>: \<^verbatim>\<open>task/process.c\<close>; the page map of a loaded process, and the memory it
    requests and releases (\<open>process_ok\<close>). \<open>ProcessRuns\<close>: sequences of requests
    the heap can serve, releases and writes as an inductive relation, and the isolation of all other memory. \<open>ProcessEnd\<close>:
    \<^verbatim>\<open>process_terminate\<close> as a whole. \<open>ProcessArguments\<close>: the list of arguments a caller built becomes the
    argument vector of the new process.
  \<^item> \<open>Idt\<close>, \<open>IdtSpec\<close>: \<^verbatim>\<open>idt/idt.c\<close>. \<open>Keyboard\<close>, \<open>KeyboardRing\<close>: \<^verbatim>\<open>keyboard/\<close>; the locale \<open>bounded_queue\<close> interpreted on
    the ring. \<open>Syscalls\<close>, \<open>SyscallSpec\<close>: \<^verbatim>\<open>isr80h/\<close> and the command table of \<^verbatim>\<open>idt/interrupts.c\<close>. \<open>Interrupts\<close>,
    \<open>SchedulerSpec\<close>: the exception handlers, the timer and \<^verbatim>\<open>interrupt_handler\<close>; preemption end to end.
  \<^item> \<open>Kernel\<close>: \<^verbatim>\<open>kernel_main\<close>.
  \<^item> \<open>UserLib\<close>, \<open>UserSpec\<close>: the user library \<^verbatim>\<open>src/programs/stdlib\<close>, the shell and \<^verbatim>\<open>cblank\<close>, over the memory of one
    process (\<open>user\<close>); number output, the line editor and the cutting of words. \<open>CommandSpec\<close>:
    a command line from its characters to the list of arguments the kernel gets. \<open>UserString\<close>: the library's own copies of
    the string and memory routines, proved equal to the kernel's.

  \<^bold>\<open>Interaction.\<close> Every layer allocates on the kernel heap; its properties rest on the facts of the
  interpretation \<open>kh\<close> and not on the table. The path parser, the streams, the FAT16 driver and the loader
  keep their structures there. A file operation goes through \<^verbatim>\<open>struct filesystem\<close>, whose only instance is the
  FAT16 one (\<open>through\<close>). \<^verbatim>\<open>interrupt_handler\<close> and \<^verbatim>\<open>isr80h_handler\<close> switch to the kernel pages, save the context
  in the current task, run a callback or a command and return through the pages of the current task.

  \<^bold>\<open>Loops.\<close> A loop with a bound in the code is recursion with a termination proof. A loop that ends only by
  the contents of memory or of the drive (\<^verbatim>\<open>strlen\<close>, \<^verbatim>\<open>strcpy\<close>, \<^verbatim>\<open>atoi\<close>, the wait for the drive, the
  directory scan, the read loop) is a \<open>partial_function\<close>, and a property that it returns is proved as such;
  \<open>atoi_diverges\<close> proves the opposite. There is no fuel.

  \<^bold>\<open>Parameters.\<close> The drive is what its ports deliver (\<open>ata_status\<close>, \<open>ata_data\<close>); \<open>drive_holds\<close> says that it gets ready and
  holds an image. The keyboard controller is a sequence of bytes. The processor's walk of a directory is \<open>mmu\<close>.
  Addresses the linker chooses (globals, the assembly stubs, the kernel stack) are fields of the state. The
  local arrays of the file system and system-call routines lie at fixed distances from \<open>kstack\<close>, on the
  kernel stack below 0x600000.

  \<^bold>\<open>Not modelled.\<close> The boot sector and the assembly files (their effects on registers are state fields, and
  \<^verbatim>\<open>task_return\<close> is \<open>Resumed\<close>); the bodies of the interrupt stubs that build the frame; port input and output
  below the byte level. Interrupts do not arrive inside a routine: the kernel runs with interrupts off. The user
  library sees the kernel only through the answers to its system calls. The
  properties do not cover \<^verbatim>\<open>kernel_main\<close> as a whole, the way of an ELF file from the disk into memory or the system call
  that runs a command from the path to the switch of tasks; those are definitions only.
\<close>

end
